(* ===== verification/Prelude.thy ===== *)
theory Prelude
  imports Main "HOL-Library.Word" "HOL-Library.Sublist"
begin

text \<open>
  Shared vocabulary of the development: Go's bytes and strings, results of fallible
  and of panicking calls, the standard-library string functions the daemon uses, the
  enumeration of a Go map, and generic lemmas about lists and maps.

  Strings are byte sequences (\<open>string\<close>, one \<open>char\<close> per byte, as in Go). The
  case-insensitive functions fold the ASCII letters only; Go also folds letters outside
  ASCII, which this development leaves out.
\<close>

unbundle bit_operations_syntax

named_theorems wire_simps
named_theorems visible_simps
named_theorems pool_simps

section \<open>Bytes and results\<close>

type_synonym byte = "8 word"
type_synonym bytes = "8 word list"
type_synonym u32 = "32 word"

text \<open>A fallible call returns \<open>Err e\<close> or \<open>Ok v\<close>.\<close>

abbreviation Err :: "'e \<Rightarrow> 'e + 'a" where
  "Err \<equiv> Inl"

abbreviation Ok :: "'a \<Rightarrow> 'e + 'a" where
  "Ok \<equiv> Inr"

text \<open>A call that may panic (nil dereference, close of a closed channel, a library
  function that panics on a bad argument).\<close>

datatype 'a run = Returned 'a | Panicked

text \<open>Conversion \<open>[]byte(s)\<close> of a Go string, and \<open>string(b)\<close> back.\<close>

definition bytes_of :: "string \<Rightarrow> bytes" where
  "bytes_of s = map (\<lambda>c. word_of_nat (of_char c)) s"

definition string_of :: "bytes \<Rightarrow> string" where
  "string_of b = map (\<lambda>w. char_of (unat w)) b"

lemma string_of_bytes_of [simp]: "string_of (bytes_of s) = s"
proof -
  have "char_of (unat (word_of_nat (of_char c) :: byte)) = c" for c :: char
    by (simp add: unat_of_nat take_bit_eq_mod)
  then show ?thesis
    by (simp add: string_of_def bytes_of_def o_def)
qed

lemma bytes_of_string_of [simp]: "bytes_of (string_of b) = b"
proof -
  have "unat w < 256" for w :: byte
    using unsigned_less[of w] by simp
  then have "word_of_nat (of_char (char_of (unat w) :: char)) = w" for w :: byte
    by (simp add: of_char_of)
  then show ?thesis
    by (simp add: string_of_def bytes_of_def o_def)
qed

lemma length_bytes_of [simp]: "length (bytes_of s) = length s"
  by (simp add: bytes_of_def)

lemma bytes_of_eq_iff [simp]: "bytes_of s = bytes_of t \<longleftrightarrow> s = t"
  by (metis string_of_bytes_of)

section \<open>Strings\<close>

definition ascii_lower :: "char \<Rightarrow> char" where
  "ascii_lower c =
     (let n = (of_char c :: nat) in if 65 \<le> n \<and> n \<le> 90 then char_of (n + 32) else c)"

definition to_lower :: "string \<Rightarrow> string" where
  "to_lower s = map ascii_lower s"

definition equal_fold :: "string \<Rightarrow> string \<Rightarrow> bool" where
  "equal_fold s t \<longleftrightarrow> to_lower s = to_lower t"

lemma equal_fold_refl [simp]: "equal_fold s s"
  by (simp add: equal_fold_def)

lemma equal_fold_sym: "equal_fold s t \<longleftrightarrow> equal_fold t s"
  by (auto simp: equal_fold_def)

lemma equal_fold_trans: "equal_fold s t \<Longrightarrow> equal_fold t u \<Longrightarrow> equal_fold s u"
  by (simp add: equal_fold_def)

lemma equal_fold_length: "equal_fold s t \<Longrightarrow> length s = length t"
  unfolding equal_fold_def to_lower_def by (metis length_map)

lemma equal_fold_Nil [simp]: "equal_fold s [] \<longleftrightarrow> s = []" "equal_fold [] s \<longleftrightarrow> s = []"
  by (auto simp: equal_fold_def to_lower_def)

text \<open>White space as \<open>strings.TrimSpace\<close> and \<open>strings.Fields\<close> see it in ASCII.\<close>

definition is_space :: "char \<Rightarrow> bool" where
  "is_space c \<longleftrightarrow> (let n = (of_char c :: nat) in n = 32 \<or> (9 \<le> n \<and> n \<le> 13))"

definition trim_space :: "string \<Rightarrow> string" where
  "trim_space s = rev (dropWhile is_space (rev (dropWhile is_space s)))"

lemma dropWhile_idem [simp]: "dropWhile P (dropWhile P xs) = dropWhile P xs"
  by (induction xs) auto

lemma hd_dropWhile_not: "dropWhile P xs \<noteq> [] \<Longrightarrow> \<not> P (hd (dropWhile P xs))"
  by (rule hd_dropWhile)

lemma dropWhile_id: "xs = [] \<or> \<not> P (hd xs) \<Longrightarrow> dropWhile P xs = xs"
  by (cases xs) auto

lemma trim_space_Nil [simp]: "trim_space [] = []"
  by (simp add: trim_space_def)

text \<open>Trimming again changes nothing: the recursive callers pass an already trimmed
  name down.\<close>

lemma trim_space_idem [simp]: "trim_space (trim_space s) = trim_space s"
proof -
  let ?l = "dropWhile is_space s"
  let ?t = "rev (dropWhile is_space (rev ?l))"
  have suf: "\<exists>ys. rev ?l = ys @ dropWhile is_space (rev ?l)"
    by (metis takeWhile_dropWhile_id)
  then obtain ys where ys: "?l = ?t @ rev ys"
    by (metis rev_append rev_rev_ident)
  have "?t = [] \<or> \<not> is_space (hd ?t)"
  proof (cases "?t = []")
    case False
    then have "hd ?l = hd ?t" using ys by (metis hd_append2)
    moreover have "?l \<noteq> []" using False by (metis dropWhile.simps(1) rev.simps(1))
    ultimately show ?thesis using hd_dropWhile[of is_space s] by metis
  qed (rule disjI1)
  then have "dropWhile is_space ?t = ?t" by (rule dropWhile_id)
  then show ?thesis by (simp add: trim_space_def)
qed

fun contains_sub :: "'a list \<Rightarrow> 'a list \<Rightarrow> bool" where
  "contains_sub [] sub \<longleftrightarrow> sub = []"
| "contains_sub (x # xs) sub \<longleftrightarrow> prefix sub (x # xs) \<or> contains_sub xs sub"

lemma contains_sub_iff: "contains_sub s sub \<longleftrightarrow> sublist sub s"
  by (induction s) (auto simp: sublist_Cons_right)

lemma contains_sub_refl [simp]: "contains_sub s s"
  by (simp add: contains_sub_iff)

lemma contains_sub_Nil [simp]: "contains_sub s []"
  by (simp add: contains_sub_iff)

definition strip_prefix :: "string \<Rightarrow> string \<Rightarrow> string" where
  "strip_prefix p s = (if prefix p s then drop (length p) s else s)"

text \<open>\<open>strings.Fields\<close>: the maximal runs of non-space characters.\<close>

function fields :: "string \<Rightarrow> string list" where
  "fields s =
     (let t = dropWhile is_space s in
      if t = [] then []
      else takeWhile (\<lambda>c. \<not> is_space c) t # fields (dropWhile (\<lambda>c. \<not> is_space c) t))"
  by pat_completeness auto
termination
proof (relation "measure length", goal_cases)
  case (2 s t)
  then have "t \<noteq> []" "\<not> is_space (hd t)"
    using hd_dropWhile[of is_space s] by auto
  then have "length (dropWhile (\<lambda>c. \<not> is_space c) t) < length t"
    by (cases t) (auto simp: le_imp_less_Suc length_dropWhile_le)
  also have "length t \<le> length s"
    using 2 by (simp add: length_dropWhile_le)
  finally show ?case by simp
qed simp

declare fields.simps [simp del]

lemma fields_Nil [simp]: "fields [] = []"
  by (simp add: fields.simps)

lemma fields_nonempty: "f \<in> set (fields s) \<Longrightarrow> f \<noteq> []"
proof (induction s rule: fields.induct)
  case (1 s)
  let ?t = "dropWhile is_space s"
  show ?case
  proof (cases "?t = []")
    case True
    with 1(2) show ?thesis by (simp add: fields.simps [of s])
  next
    case False
    then have hd: "\<not> is_space (hd ?t)" by (rule hd_dropWhile)
    have "fields s = takeWhile (\<lambda>c. \<not> is_space c) ?t # fields (dropWhile (\<lambda>c. \<not> is_space c) ?t)"
      using False by (subst fields.simps) (simp only: Let_def if_False)
    with 1(2)
    have "f = takeWhile (\<lambda>c. \<not> is_space c) ?t \<or> f \<in> set (fields (dropWhile (\<lambda>c. \<not> is_space c) ?t))"
      by simp
    then show ?thesis
    proof
      assume "f = takeWhile (\<lambda>c. \<not> is_space c) ?t"
      with False hd show ?thesis by (cases ?t) auto
    next
      assume "f \<in> set (fields (dropWhile (\<lambda>c. \<not> is_space c) ?t))"
      then show ?thesis using 1(1)[OF refl False] by simp
    qed
  qed
qed

section \<open>Enumerating a Go map\<close>

text \<open>
  A Go map is a partial function. A \<open>range\<close> loop visits its keys once each, in an
  order the language leaves open; a definition that loops over a map takes that order as
  an argument, and the theorems about it hold for every order that enumerates the map.
\<close>

definition enumerates :: "'k list \<Rightarrow> ('k \<rightharpoonup> 'v) \<Rightarrow> bool" where
  "enumerates ks m \<longleftrightarrow> distinct ks \<and> set ks = dom m"

lemma enumerates_set: "enumerates ks m \<Longrightarrow> set ks = dom m"
  by (simp add: enumerates_def)

lemma enumerates_distinct: "enumerates ks m \<Longrightarrow> distinct ks"
  by (simp add: enumerates_def)

lemma enumerates_empty [simp]: "enumerates ks Map.empty \<longleftrightarrow> ks = []"
  by (auto simp: enumerates_def)

lemma enumerates_finite:
  assumes "enumerates ks m"
  shows "finite (dom m)"
proof -
  have "dom m = set ks" using assms by (simp add: enumerates_def)
  then show ?thesis by (simp only: List.finite_set)
qed

lemma enumerates_length:
  assumes "enumerates ks m"
  shows "length ks = card (dom m)"
proof -
  have "dom m = set ks" using assms by (simp add: enumerates_def)
  then show ?thesis using distinct_card[OF enumerates_distinct[OF assms]] by simp
qed

text \<open>The values met along an enumeration.\<close>

definition map_values :: "'k list \<Rightarrow> ('k \<rightharpoonup> 'v) \<Rightarrow> 'v list" where
  "map_values ks m = List.map_filter m ks"

lemma in_map_values: "v \<in> set (map_values ks m) \<longleftrightarrow> (\<exists>k \<in> set ks. m k = Some v)"
  unfolding map_values_def by (induction ks) (auto simp: List.map_filter_simps split: option.splits)

lemma map_values_ran: "enumerates ks m \<Longrightarrow> set (map_values ks m) = ran m"
  unfolding set_eq_iff in_map_values ran_def enumerates_def by blast

lemma length_map_values: "enumerates ks m \<Longrightarrow> length (map_values ks m) = card (dom m)"
proof -
  assume e: "enumerates ks m"
  then have "\<forall>k \<in> set ks. m k \<noteq> None" by (auto simp: enumerates_def)
  then have "filter (\<lambda>k. m k \<noteq> None) ks = ks" by (simp add: filter_id_conv)
  then have "length (map_values ks m) = length ks"
    by (simp add: map_values_def map_filter_def)
  with e show ?thesis by (simp add: enumerates_length)
qed

text \<open>Deleting every key of a list that satisfies a test.\<close>

definition delete_where :: "('k \<Rightarrow> 'v \<Rightarrow> bool) \<Rightarrow> ('k \<rightharpoonup> 'v) \<Rightarrow> ('k \<rightharpoonup> 'v)" where
  "delete_where P m = (\<lambda>k. case m k of None \<Rightarrow> None | Some v \<Rightarrow> if P k v then None else Some v)"

lemma delete_where_apply:
  "delete_where P m k = (case m k of None \<Rightarrow> None | Some v \<Rightarrow> if P k v then None else Some v)"
  by (simp add: delete_where_def)

lemma delete_where_SomeD: "delete_where P m k = Some v \<Longrightarrow> m k = Some v \<and> \<not> P k v"
  by (auto simp: delete_where_def split: option.splits if_splits)

lemma delete_where_keep: "m k = Some v \<Longrightarrow> \<not> P k v \<Longrightarrow> delete_where P m k = Some v"
  by (simp add: delete_where_def)

lemma dom_delete_where_subset: "dom (delete_where P m) \<subseteq> dom m"
  by (auto dest: delete_where_SomeD)

section \<open>Lists\<close>

lemma find_Some_in: "List.find P xs = Some x \<Longrightarrow> x \<in> set xs \<and> P x"
  by (induction xs) (auto split: if_splits)

lemma find_None_iff_not: "List.find P xs = None \<longleftrightarrow> (\<forall>x \<in> set xs. \<not> P x)"
  by (induction xs) auto

lemma find_append: "List.find P (xs @ ys) = (case List.find P xs of None \<Rightarrow> List.find P ys | Some x \<Rightarrow> Some x)"
  by (induction xs) auto

end
