(* ===== verification/Xdg.thy ===== *)
theory Xdg
  imports Prelude
begin

text \<open>
  The XDG base-directory paths of \<open>internal/xdg/xdg.go\<close> over the environment variables,
  with the functions of Go's \<open>path/filepath\<close> and \<open>os.Expand\<close> they use. The environment
  maps a variable to its value, the empty string when it is unset (\<open>os.Getenv\<close>).
\<close>

section \<open>Go's file paths\<close>

abbreviation slash :: char where
  "slash \<equiv> CHR ''/''"

fun split_slash :: "string \<Rightarrow> string list" where
  "split_slash [] = [[]]"
| "split_slash (c # cs) =
     (if c = slash then [] # split_slash cs
      else (case split_slash cs of [] \<Rightarrow> [[c]] | w # ws \<Rightarrow> (c # w) # ws))"

fun join_slash :: "string list \<Rightarrow> string" where
  "join_slash [] = []"
| "join_slash [w] = w"
| "join_slash (w # ws) = w @ slash # join_slash ws"

text \<open>\<open>filepath.Clean\<close> by components; the accumulator holds the kept ones, last first.\<close>

definition dot :: string where
  "dot = ''.''"

definition dotdot :: string where
  "dotdot = ''..''"

definition clean_step :: "bool \<Rightarrow> string list \<Rightarrow> string \<Rightarrow> string list" where
  "clean_step rooted acc w =
     (if w = [] \<or> w = dot then acc
      else if w = dotdot then
        (case acc of
           [] \<Rightarrow> if rooted then [] else [dotdot]
         | lst # rest \<Rightarrow> if lst = dotdot then dotdot # acc else rest)
      else w # acc)"

lemma dots [simp]: "dot \<noteq> []" "dotdot \<noteq> []" "dot \<noteq> dotdot" "dotdot \<noteq> dot"
  "slash \<notin> set dot" "slash \<notin> set dotdot"
  by (simp_all add: dot_def dotdot_def)

definition clean_parts :: "bool \<Rightarrow> string list \<Rightarrow> string list" where
  "clean_parts rooted ws = rev (foldl (clean_step rooted) [] ws)"

definition is_abs :: "string \<Rightarrow> bool" where
  "is_abs p \<longleftrightarrow> prefix [slash] p"

definition path_clean :: "string \<Rightarrow> string" where
  "path_clean p =
     (let body = join_slash (clean_parts (is_abs p) (split_slash p))
      in if is_abs p then slash # body else if body = [] then dot else body)"

definition path_join :: "string list \<Rightarrow> string" where
  "path_join elems =
     (case dropWhile (\<lambda>e. e = []) elems of [] \<Rightarrow> [] | es \<Rightarrow> path_clean (join_slash es))"

definition path_base :: "string \<Rightarrow> string" where
  "path_base p =
     (if p = [] then dot
      else let q = rev (dropWhile (\<lambda>c. c = slash) (rev p))
           in if q = [] then [slash] else rev (takeWhile (\<lambda>c. c \<noteq> slash) (rev q)))"

definition path_dir :: "string \<Rightarrow> string" where
  "path_dir p = path_clean (rev (dropWhile (\<lambda>c. c \<noteq> slash) (rev p)))"

section \<open>Facts about cleaned paths\<close>

text \<open>What \<open>filepath.Clean\<close> leaves: no empty and no dot components, and parent
  components only at the front of a relative path.\<close>

fun parents_first :: "string list \<Rightarrow> bool" where
  "parents_first [] \<longleftrightarrow> True"
| "parents_first (w # ws) \<longleftrightarrow> (if w = dotdot then parents_first ws else dotdot \<notin> set ws)"

definition plain_words :: "string list \<Rightarrow> bool" where
  "plain_words ws \<longleftrightarrow> (\<forall>w \<in> set ws. w \<noteq> [] \<and> w \<noteq> dot \<and> slash \<notin> set w)"

definition clean_form :: "bool \<Rightarrow> string list \<Rightarrow> bool" where
  "clean_form rooted ws \<longleftrightarrow>
     plain_words ws \<and> (if rooted then dotdot \<notin> set ws else parents_first ws)"

lemma plain_words_simps [simp]:
  "plain_words []"
  "plain_words (w # ws) \<longleftrightarrow> w \<noteq> [] \<and> w \<noteq> dot \<and> slash \<notin> set w \<and> plain_words ws"
  "plain_words (xs @ ys) \<longleftrightarrow> plain_words xs \<and> plain_words ys"
  by (auto simp: plain_words_def)

lemma parents_first_no: "dotdot \<notin> set ws \<Longrightarrow> parents_first ws"
  by (induction ws) auto

lemma parents_first_all: "\<forall>x \<in> set xs. x = dotdot \<Longrightarrow> parents_first xs"
  by (induction xs) auto

lemma parents_first_dotdot: "parents_first (xs @ dotdot # ys) \<longleftrightarrow> (\<forall>x \<in> set xs. x = dotdot) \<and> parents_first ys"
  by (induction xs) auto

lemma parents_first_snoc2:
  "a \<noteq> dotdot \<Longrightarrow> w \<noteq> dotdot \<Longrightarrow> parents_first (xs @ [a, w]) \<longleftrightarrow> parents_first xs"
  by (induction xs) auto

lemma parents_first_dotdot2:
  "parents_first (xs @ a # dotdot # ys) \<longleftrightarrow> (\<forall>x \<in> set xs. x = dotdot) \<and> a = dotdot \<and> parents_first ys"
  by (induction xs) auto

lemma parents_first_snoc: "w \<noteq> dotdot \<Longrightarrow> parents_first (xs @ [w]) \<longleftrightarrow> parents_first xs"
  by (induction xs) auto

lemma clean_step_form:
  assumes "clean_form rooted (rev acc)" "slash \<notin> set w"
  shows "clean_form rooted (rev (clean_step rooted acc w))"
proof (cases acc)
  case Nil
  with assms(2) show ?thesis by (auto simp: clean_form_def clean_step_def)
next
  case (Cons lst rest)
  with assms show ?thesis
    by (cases "lst = dotdot"; cases "w = dotdot")
      (auto simp: clean_form_def clean_step_def parents_first_snoc parents_first_snoc2 parents_first_dotdot)
qed

lemma split_slash_no_slash: "w \<in> set (split_slash p) \<Longrightarrow> slash \<notin> set w"
  by (induction p arbitrary: w) (auto split: if_splits list.splits)

lemma clean_parts_form:
  assumes "\<forall>w \<in> set ws. slash \<notin> set w"
  shows "clean_form rooted (clean_parts rooted ws)"
proof -
  have "clean_form rooted (rev acc) \<Longrightarrow> clean_form rooted (rev (foldl (clean_step rooted) acc ws))" for acc
    using assms by (induction ws arbitrary: acc) (simp_all add: clean_step_form)
  moreover have "clean_form rooted (rev [])"
    by (simp add: clean_form_def)
  ultimately show ?thesis
    unfolding clean_parts_def by blast
qed

lemma foldl_clean_id:
  assumes "clean_form rooted (rev acc @ ws)"
  shows "foldl (clean_step rooted) acc ws = rev ws @ acc"
  using assms
proof (induction ws arbitrary: acc)
  case (Cons w ws)
  have step: "clean_step rooted acc w = w # acc"
    using Cons.prems
    by (cases acc; cases "w = dotdot")
      (auto simp: clean_form_def clean_step_def parents_first_dotdot parents_first_dotdot2 split: if_splits)
  have "clean_form rooted (rev (w # acc) @ ws)" using Cons.prems by simp
  then show ?case using Cons.IH[of "w # acc"] by (simp add: step)
qed simp

lemma split_slash_nonempty [simp]: "split_slash p \<noteq> []"
  by (induction p) (auto split: list.splits)

lemma split_slash_word: "slash \<notin> set w \<Longrightarrow> split_slash w = [w]"
  by (induction w) auto

lemma split_slash_append: "slash \<notin> set w \<Longrightarrow> split_slash (w @ slash # p) = w # split_slash p"
  by (induction w) auto

lemma split_join: "\<forall>w \<in> set ws. slash \<notin> set w \<Longrightarrow> ws \<noteq> [] \<Longrightarrow> split_slash (join_slash ws) = ws"
  by (induction ws rule: join_slash.induct) (auto simp: split_slash_word split_slash_append)

lemma is_abs_Cons [simp]: "is_abs (slash # p)"
  by (simp add: is_abs_def)

lemma is_abs_hd: "is_abs p \<longleftrightarrow> p \<noteq> [] \<and> hd p = slash"
  by (cases p) (auto simp: is_abs_def)

lemma path_clean_abs [simp]: "is_abs (path_clean p) \<longleftrightarrow> is_abs p"
proof (cases "is_abs p")
  case False
  let ?ws = "clean_parts False (split_slash p)"
  have form: "clean_form False ?ws"
    by (rule clean_parts_form) (blast dest: split_slash_no_slash)
  have "\<not> is_abs (join_slash ?ws)"
  proof (cases ?ws)
    case (Cons w ws)
    with form have w: "w \<noteq> []" "slash \<notin> set w" by (auto simp: clean_form_def)
    have "hd (join_slash (w # ws)) = hd w" using w(1) by (cases ws) auto
    moreover have "hd w \<noteq> slash" using w by (metis hd_in_set)
    ultimately show ?thesis by (simp add: is_abs_hd Cons)
  qed (simp add: is_abs_def)
  moreover have "\<not> is_abs dot"
    by (simp add: is_abs_def dot_def)
  ultimately show ?thesis
    using False by (simp add: path_clean_def Let_def)
qed (simp add: path_clean_def)

lemma clean_step_Nil [simp]: "clean_step r acc [] = acc"
  by (simp add: clean_step_def)

lemma path_clean_dot [simp]: "path_clean dot = dot"
  by (simp add: path_clean_def split_slash_word clean_parts_def clean_step_def is_abs_hd Let_def)
    (simp add: dot_def)

lemma path_clean_idem: "path_clean (path_clean p) = path_clean p"
proof -
  let ?ws = "clean_parts (is_abs p) (split_slash p)"
  have form: "clean_form (is_abs p) ?ws"
    by (rule clean_parts_form) (blast dest: split_slash_no_slash)
  have again: "clean_parts (is_abs p) ?ws = ?ws"
    using foldl_clean_id[of "is_abs p" "[]" ?ws] form by (simp add: clean_parts_def)
  have noslash: "\<forall>w \<in> set ?ws. slash \<notin> set w"
    using form by (auto simp: clean_form_def plain_words_def)
  have again': "clean_parts (is_abs p) (split_slash (join_slash ?ws)) = ?ws"
  proof (cases "?ws = []")
    case True
    have "clean_parts (is_abs p) (split_slash []) = []"
      by (simp add: clean_parts_def clean_step_def)
    then show ?thesis by (simp only: True join_slash.simps)
  next
    case False
    then show ?thesis using noslash by (simp add: split_join again)
  qed
  show ?thesis
  proof (cases "is_abs p")
    case True
    then have "path_clean p = slash # join_slash ?ws" by (simp add: path_clean_def)
    moreover have "clean_parts True (split_slash (slash # join_slash ?ws))
        = clean_parts True (split_slash (join_slash ?ws))"
      by (simp add: clean_parts_def)
    ultimately show ?thesis using again' True by (simp add: path_clean_def)
  next
    case False
    then have "\<not> is_abs (path_clean p)" by simp
    then show ?thesis
      using again' False
      by (cases "join_slash ?ws = []") (simp_all add: path_clean_def [of p] path_clean_def [of "join_slash _"] is_abs_def)
  qed
qed

section \<open>Expanding environment variables\<close>

text \<open>\<open>os.Expand\<close>: \<open>$name\<close>, \<open>${name}\<close> and the one-character shell variables; a bad
  \<open>${\<close> is eaten.\<close>

type_synonym environment = "string \<Rightarrow> string"

definition is_shell_special :: "char \<Rightarrow> bool" where
  "is_shell_special c \<longleftrightarrow> c \<in> set ''*#$@!?-0123456789''"

definition is_alnum :: "char \<Rightarrow> bool" where
  "is_alnum c \<longleftrightarrow>
     (let n = (of_char c :: nat)
      in n = 95 \<or> (48 \<le> n \<and> n \<le> 57) \<or> (97 \<le> n \<and> n \<le> 122) \<or> (65 \<le> n \<and> n \<le> 90))"

definition get_shell_name :: "string \<Rightarrow> string \<times> nat" where
  "get_shell_name s =
     (if hd s = CHR ''{'' then
        (if 2 < length s \<and> is_shell_special (s ! 1) \<and> s ! 2 = CHR ''}'' then ([s ! 1], 3)
         else let body = takeWhile (\<lambda>c. c \<noteq> CHR ''}'') (tl s)
              in if length body = length (tl s) then ([], 1)
                 else if body = [] then ([], 2)
                 else (body, length body + 2))
      else if is_shell_special (hd s) then ([hd s], 1)
      else let body = takeWhile is_alnum s in (body, length body))"

function os_expand :: "(string \<Rightarrow> string) \<Rightarrow> string \<Rightarrow> string" where
  "os_expand m s =
     (case s of
        [] \<Rightarrow> []
      | c # cs \<Rightarrow>
          if c = CHR ''$'' \<and> cs \<noteq> [] then
            (let (name, w) = get_shell_name cs
             in if name = [] then (if 0 < w then [] else [c]) @ os_expand m (drop w cs)
                else m name @ os_expand m (drop w cs))
          else c # os_expand m cs)"
  by pat_completeness auto
termination
  by (relation "measure (length \<circ> snd)") (auto simp: le_imp_less_Suc)

declare os_expand.simps [simp del]

lemma os_expand_plain: "CHR ''$'' \<notin> set s \<Longrightarrow> os_expand m s = s"
  by (induction s) (auto simp: os_expand.simps)

section \<open>The base directories\<close>

text \<open>\<open>os.UserHomeDir\<close> is \<open>$HOME\<close>, an error when unset.\<close>

definition user_home_dir :: "environment \<Rightarrow> string option" where
  "user_home_dir env = (if env ''HOME'' = [] then None else Some (env ''HOME''))"

definition ConfigHome :: "environment \<Rightarrow> string" where
  "ConfigHome env =
     (if env ''XDG_CONFIG_HOME'' \<noteq> [] then env ''XDG_CONFIG_HOME''
      else (case user_home_dir env of None \<Rightarrow> ''.config'' | Some home \<Rightarrow> path_join [home, ''.config'']))"

definition DataHome :: "environment \<Rightarrow> string" where
  "DataHome env =
     (if env ''XDG_DATA_HOME'' \<noteq> [] then env ''XDG_DATA_HOME''
      else (case user_home_dir env of None \<Rightarrow> path_join [''.local'', ''share'']
            | Some home \<Rightarrow> path_join [home, ''.local'', ''share'']))"

definition RuntimeDir :: "environment \<Rightarrow> string option" where
  "RuntimeDir env =
     (if env ''XDG_RUNTIME_DIR'' \<noteq> [] then Some (env ''XDG_RUNTIME_DIR'') else None)"

definition ConfigDir :: "environment \<Rightarrow> string" where
  "ConfigDir env = path_join [ConfigHome env, ''kpxcd'']"

definition DataDir :: "environment \<Rightarrow> string" where
  "DataDir env = path_join [DataHome env, ''kpxcd'']"

definition RuntimeKpxcdDir :: "environment \<Rightarrow> string option" where
  "RuntimeKpxcdDir env = map_option (\<lambda>run. path_join [run, ''kpxcd'']) (RuntimeDir env)"

definition ConfigPath :: "environment \<Rightarrow> string" where
  "ConfigPath env = path_join [ConfigDir env, ''config.toml'']"

definition DefaultDatabasePath :: "environment \<Rightarrow> string" where
  "DefaultDatabasePath env = path_join [DataDir env, ''default.kdbx'']"

definition DefaultIdentityPath :: "environment \<Rightarrow> string" where
  "DefaultIdentityPath env = path_join [DataDir env, ''default.identity.age'']"

definition DefaultCredentialPath :: "environment \<Rightarrow> string" where
  "DefaultCredentialPath env = path_join [DataDir env, ''default.cred.age'']"

definition PAMSocketPath :: "environment \<Rightarrow> string option" where
  "PAMSocketPath env = map_option (\<lambda>dir. path_join [dir, ''pam.sock'']) (RuntimeKpxcdDir env)"

definition PAMTokenPath :: "environment \<Rightarrow> string option" where
  "PAMTokenPath env = map_option (\<lambda>dir. path_join [dir, ''pam-token'']) (RuntimeKpxcdDir env)"

definition expand_mapping :: "environment \<Rightarrow> string \<Rightarrow> string" where
  "expand_mapping env key =
     (if key = ''HOME'' then (case user_home_dir env of None \<Rightarrow> [] | Some h \<Rightarrow> h)
      else if key = ''XDG_CONFIG_HOME'' then ConfigHome env
      else if key = ''XDG_DATA_HOME'' then DataHome env
      else if key = ''XDG_RUNTIME_DIR'' then (case RuntimeDir env of None \<Rightarrow> [] | Some r \<Rightarrow> r)
      else env key)"

definition ExpandPath :: "environment \<Rightarrow> string \<Rightarrow> string" where
  "ExpandPath env path =
     (if path = [] then path
      else let expanded = os_expand (expand_mapping env) path;
               expanded =
                 (if prefix ''~/'' expanded then
                    (case user_home_dir env of None \<Rightarrow> expanded | Some home \<Rightarrow> path_join [home, drop 2 expanded])
                  else if expanded = ''~'' then
                    (case user_home_dir env of None \<Rightarrow> expanded | Some home \<Rightarrow> home)
                  else expanded);
               expanded = (if is_abs expanded then expanded else path_join [ConfigDir env, expanded])
           in path_clean expanded)"

lemma is_abs_nonempty: "is_abs p \<Longrightarrow> p \<noteq> []"
  by (auto simp: is_abs_def)

lemma is_abs_join: "is_abs p \<Longrightarrow> is_abs (path_join (p # ps))"
proof -
  assume p: "is_abs p"
  then have "p \<noteq> []" by (rule is_abs_nonempty)
  moreover have "is_abs (join_slash (p # ps))"
    using p by (cases ps) (auto simp: is_abs_def)
  ultimately show ?thesis by (simp add: path_join_def)
qed

lemma ConfigDir_abs: "is_abs (ConfigHome env) \<Longrightarrow> is_abs (ConfigDir env)"
  by (simp add: ConfigDir_def is_abs_join)

text \<open>An expanded path is cleaned, and absolute whenever the configuration directory
  is.\<close>

lemma ExpandPath_clean: "path_clean (ExpandPath env p) = (if p = [] then dot else ExpandPath env p)"
  by (simp add: ExpandPath_def Let_def path_clean_idem)
    (simp add: path_clean_def clean_parts_def is_abs_def)

lemma ExpandPath_abs:
  assumes "is_abs (ConfigHome env)" "p \<noteq> []"
  shows "is_abs (ExpandPath env p)"
  using assms by (simp add: ExpandPath_def Let_def is_abs_join ConfigDir_abs)

lemma path_clean_nonempty [simp]: "path_clean p \<noteq> []"
  by (simp add: path_clean_def Let_def)

lemma ExpandPath_Nil [simp]: "ExpandPath env p = [] \<longleftrightarrow> p = []"
  by (simp add: ExpandPath_def Let_def)

end
