(* ===== verification/Filesystem.thy ===== *)
theory Filesystem
  imports Xdg
begin

text \<open>
  The file system as the daemon sees it: files with identity, mode and contents,
  directories with a mode, and the system calls of \<open>xdg.go\<close>, \<open>save.go\<close>, \<open>create.go\<close> and
  \<open>pamcred.go\<close>. A program is a function on a history of file-system states: before its
  k-th system call other processes may act (\<open>io_world\<close>), and the call may fail
  (\<open>io_fails\<close>). The history keeps every state the disk goes through, so a property can
  speak of a crash at any point.
\<close>

section \<open>Files and directories\<close>

record disk_file =
  f_dev :: nat
  f_ino :: nat
  f_mtime :: nat
  f_ctime :: nat
  f_mode :: nat
  f_data :: bytes

record fs =
  fs_files :: "string \<rightharpoonup> disk_file"
  fs_dirs :: "string \<rightharpoonup> nat"
  fs_clock :: nat
  fs_next_ino :: nat

definition mode_private_file :: nat where "mode_private_file = 384"
definition mode_private_dir :: nat where "mode_private_dir = 448"

datatype io_error = Failed | NotExist | Exists

definition set_file :: "string \<Rightarrow> disk_file \<Rightarrow> fs \<Rightarrow> fs" where
  "set_file p f d = d\<lparr>fs_files := (fs_files d)(p \<mapsto> f)\<rparr>"

definition new_file :: "fs \<Rightarrow> nat \<Rightarrow> bytes \<Rightarrow> disk_file" where
  "new_file d mode dat =
     \<lparr>f_dev = 1, f_ino = fs_next_ino d, f_mtime = fs_clock d, f_ctime = fs_clock d,
      f_mode = mode, f_data = dat\<rparr>"

definition bump_ino :: "fs \<Rightarrow> fs" where
  "bump_ino d = d\<lparr>fs_next_ino := Suc (fs_next_ino d)\<rparr>"

section \<open>System calls\<close>

type_synonym 'a syscall = "fs \<Rightarrow> io_error + ('a \<times> fs)"

text \<open>\<open>os.MkdirAll\<close> followed by its \<open>os.Chmod\<close>: existing directories keep their entries.\<close>

definition sys_mkdir_all :: "string \<Rightarrow> nat \<Rightarrow> unit syscall" where
  "sys_mkdir_all p mode d =
     (if fs_files d p \<noteq> None then Err Exists
      else if fs_dirs d p \<noteq> None then Ok ((), d)
      else Ok ((), d\<lparr>fs_dirs := (fs_dirs d)(p \<mapsto> mode)\<rparr>))"

definition sys_chmod_dir :: "string \<Rightarrow> nat \<Rightarrow> unit syscall" where
  "sys_chmod_dir p mode d =
     (case fs_dirs d p of None \<Rightarrow> Err NotExist
      | Some _ \<Rightarrow> Ok ((), d\<lparr>fs_dirs := (fs_dirs d)(p \<mapsto> mode)\<rparr>))"

text \<open>\<open>O_CREATE|O_TRUNC\<close>: the mode argument counts only when the file is new.\<close>

definition sys_open_trunc :: "string \<Rightarrow> nat \<Rightarrow> unit syscall" where
  "sys_open_trunc p mode d =
     (case fs_files d p of
        None \<Rightarrow> Ok ((), bump_ino (set_file p (new_file d mode []) d))
      | Some f \<Rightarrow> Ok ((), set_file p (f\<lparr>f_data := [], f_mtime := fs_clock d, f_ctime := fs_clock d\<rparr>) d))"

text \<open>\<open>O_CREATE|O_EXCL\<close>.\<close>

definition sys_open_excl :: "string \<Rightarrow> nat \<Rightarrow> unit syscall" where
  "sys_open_excl p mode d =
     (case fs_files d p of
        None \<Rightarrow> Ok ((), bump_ino (set_file p (new_file d mode []) d))
      | Some _ \<Rightarrow> Err Exists)"

text \<open>Appending to the file just opened under that name.\<close>

definition sys_write :: "string \<Rightarrow> bytes \<Rightarrow> unit syscall" where
  "sys_write p dat d =
     (case fs_files d p of
        None \<Rightarrow> Ok ((), d)
      | Some f \<Rightarrow> Ok ((), set_file p (f\<lparr>f_data := f_data f @ dat, f_mtime := fs_clock d, f_ctime := fs_clock d\<rparr>) d))"

definition sys_chmod :: "string \<Rightarrow> nat \<Rightarrow> unit syscall" where
  "sys_chmod p mode d =
     (case fs_files d p of
        None \<Rightarrow> Ok ((), d)
      | Some f \<Rightarrow> Ok ((), set_file p (f\<lparr>f_mode := mode, f_ctime := fs_clock d\<rparr>) d))"

definition sys_noop :: "unit syscall" where
  "sys_noop d = Ok ((), d)"

definition sys_stat :: "string \<Rightarrow> disk_file syscall" where
  "sys_stat p d = (case fs_files d p of None \<Rightarrow> Err NotExist | Some f \<Rightarrow> Ok (f, d))"

definition sys_read_file :: "string \<Rightarrow> bytes syscall" where
  "sys_read_file p d = (case fs_files d p of None \<Rightarrow> Err NotExist | Some f \<Rightarrow> Ok (f_data f, d))"

definition sys_rename :: "string \<Rightarrow> string \<Rightarrow> unit syscall" where
  "sys_rename p q d =
     (case fs_files d p of
        None \<Rightarrow> Err NotExist
      | Some f \<Rightarrow> Ok ((), d\<lparr>fs_files := (fs_files d)(p := None, q \<mapsto> f\<lparr>f_ctime := fs_clock d\<rparr>)\<rparr>))"

definition sys_remove :: "string \<Rightarrow> unit syscall" where
  "sys_remove p d =
     (case fs_files d p of None \<Rightarrow> Err NotExist
      | Some _ \<Rightarrow> Ok ((), d\<lparr>fs_files := (fs_files d)(p := None)\<rparr>))"

section \<open>Programs over the history\<close>

record io =
  io_world :: "nat \<Rightarrow> fs \<Rightarrow> fs"
  io_fails :: "nat \<Rightarrow> bool"

record sys =
  sys_now :: fs
  sys_past :: "fs list"
  sys_calls :: nat

definition sys_start :: "fs \<Rightarrow> sys" where
  "sys_start d = \<lparr>sys_now = d, sys_past = [], sys_calls = 0\<rparr>"

type_synonym ('e, 'a) prog = "sys \<Rightarrow> ('e + 'a) \<times> sys"

text \<open>The others act; then the call commits its new state.\<close>

definition advance :: "io \<Rightarrow> sys \<Rightarrow> sys" where
  "advance io s =
     \<lparr>sys_now = io_world io (sys_calls s) (sys_now s), sys_past = sys_now s # sys_past s,
      sys_calls = Suc (sys_calls s)\<rparr>"

definition commit :: "fs \<Rightarrow> sys \<Rightarrow> sys" where
  "commit d s = s\<lparr>sys_now := d, sys_past := sys_now s # sys_past s\<rparr>"

definition call :: "io \<Rightarrow> 'a syscall \<Rightarrow> (io_error, 'a) prog" where
  "call io c s =
     (let s1 = advance io s
      in if io_fails io (sys_calls s) then (Err Failed, s1)
         else (case c (sys_now s1) of
                 Inl e \<Rightarrow> (Err e, s1)
               | Inr (v, d) \<Rightarrow> (Ok v, commit d s1)))"

text \<open>Sequence with early return on error, a call whose error is looked at later or
  ignored, an error of another type, and a deferred clean-up.\<close>

definition andthen :: "('e, 'a) prog \<Rightarrow> ('a \<Rightarrow> ('e, 'b) prog) \<Rightarrow> ('e, 'b) prog" where
  "andthen p k s = (case p s of (Inl e, s') \<Rightarrow> (Err e, s') | (Inr v, s') \<Rightarrow> k v s')"

definition return_io :: "'a \<Rightarrow> ('e, 'a) prog" where
  "return_io v s = (Ok v, s)"

definition fail_io :: "'e \<Rightarrow> ('e, 'a) prog" where
  "fail_io e s = (Err e, s)"

definition try_io :: "('e, 'a) prog \<Rightarrow> ('f, 'e + 'a) prog" where
  "try_io p s = (case p s of (r, s') \<Rightarrow> (Ok r, s'))"

definition or_fail :: "('e, 'a) prog \<Rightarrow> 'f \<Rightarrow> ('f, 'a) prog" where
  "or_fail p f s = (case p s of (Inl _, s') \<Rightarrow> (Err f, s') | (Inr v, s') \<Rightarrow> (Ok v, s'))"

definition deferring :: "('f, 'b) prog \<Rightarrow> ('e, 'a) prog \<Rightarrow> ('e, 'a) prog" where
  "deferring cleanup p s = (case p s of (r, s1) \<Rightarrow> (case cleanup s1 of (_, s2) \<Rightarrow> (r, s2)))"

section \<open>Reasoning about programs\<close>

text \<open>
  A triple: from a state with \<open>A\<close> the program ends normally with \<open>B\<close> or with an error in
  \<open>E\<close>. An invariant of all states of the history, \<open>always I\<close>, is a part of the assertions.
\<close>

definition triple ::
  "(sys \<Rightarrow> bool) \<Rightarrow> ('e, 'a) prog \<Rightarrow> ('a \<Rightarrow> sys \<Rightarrow> bool) \<Rightarrow> (sys \<Rightarrow> bool) \<Rightarrow> bool" where
  "triple A p B E \<longleftrightarrow> (\<forall>s. A s \<longrightarrow> (case p s of (Inl _, s') \<Rightarrow> E s' | (Inr v, s') \<Rightarrow> B v s'))"

definition always :: "(fs \<Rightarrow> bool) \<Rightarrow> sys \<Rightarrow> bool" where
  "always I s \<longleftrightarrow> I (sys_now s) \<and> (\<forall>d \<in> set (sys_past s). I d)"

lemma always_start [simp]: "always I (sys_start d) \<longleftrightarrow> I d"
  by (simp add: always_def sys_start_def)

lemma advance_simps [simp]:
  "sys_now (advance io s) = io_world io (sys_calls s) (sys_now s)"
  "sys_past (advance io s) = sys_now s # sys_past s"
  "sys_calls (advance io s) = Suc (sys_calls s)"
  by (simp_all add: advance_def)

lemma commit_simps [simp]:
  "sys_now (commit d s) = d" "sys_past (commit d s) = sys_now s # sys_past s"
  "sys_calls (commit d s) = sys_calls s"
  by (simp_all add: commit_def)

lemma always_advance [simp]:
  "always I (advance io s) \<longleftrightarrow> always I s \<and> I (io_world io (sys_calls s) (sys_now s))"
  by (auto simp: always_def)

lemma always_commit [simp]: "always I (commit d s) \<longleftrightarrow> always I s \<and> I d"
  by (auto simp: always_def)

lemma tripleI: "(\<And>s. A s \<Longrightarrow> (case p s of (Inl _, s') \<Rightarrow> E s' | (Inr v, s') \<Rightarrow> B v s')) \<Longrightarrow> triple A p B E"
  by (simp add: triple_def)

lemma triple_andthen:
  assumes "triple A p M E" "\<And>v. triple (M v) (k v) B E"
  shows "triple A (andthen p k) B E"
proof (rule tripleI)
  fix s assume "A s"
  show "case andthen p k s of (Inl _, s') \<Rightarrow> E s' | (Inr v, s') \<Rightarrow> B v s'"
  proof (cases "p s")
    case (Pair r s1)
    then show ?thesis
      using assms \<open>A s\<close> by (cases r) (force simp: triple_def andthen_def split: prod.splits)+
  qed
qed

lemma triple_call:
  assumes "\<And>s. A s \<Longrightarrow> E (advance io s)"
    and "\<And>s v d. A s \<Longrightarrow> c (sys_now (advance io s)) = Ok (v, d) \<Longrightarrow> B v (commit d (advance io s))"
  shows "triple A (call io c) B E"
  using assms by (intro tripleI) (auto simp: call_def Let_def split: sum.splits)

lemma triple_or_fail: "triple A p B E \<Longrightarrow> triple A (or_fail p f) B E"
  by (force simp: triple_def or_fail_def split: prod.splits sum.splits)

lemma triple_try: "triple A p (\<lambda>_. B) B \<Longrightarrow> triple A (try_io p) (\<lambda>_. B) E"
  by (force simp: triple_def try_io_def split: prod.splits sum.splits)

lemma triple_return: "(\<And>s. A s \<Longrightarrow> B v s) \<Longrightarrow> triple A (return_io v) B E"
  by (simp add: triple_def return_io_def)

lemma triple_fail: "(\<And>s. A s \<Longrightarrow> E s) \<Longrightarrow> triple A (fail_io e) B E"
  by (simp add: triple_def fail_io_def)

lemma triple_deferring:
  assumes "triple A p (\<lambda>v s. M v s) F" "\<And>v. triple (M v) c (\<lambda>_. B v) (B v)" "triple F c (\<lambda>_. E) E"
  shows "triple A (deferring c p) B E"
proof (rule tripleI)
  fix s assume "A s"
  obtain r s1 where p: "p s = (r, s1)" by fastforce
  obtain r2 s2 where c: "c s1 = (r2, s2)" by fastforce
  show "case deferring c p s of (Inl _, s') \<Rightarrow> E s' | (Inr v, s') \<Rightarrow> B v s'"
    using assms \<open>A s\<close> p c
    by (cases r; cases r2) (force simp: triple_def deferring_def split: prod.splits)+
qed

lemma triple_conseq:
  "triple A p B E \<Longrightarrow> (\<And>s. A' s \<Longrightarrow> A s) \<Longrightarrow> (\<And>v s. B v s \<Longrightarrow> B' v s) \<Longrightarrow> (\<And>s. E s \<Longrightarrow> E' s) \<Longrightarrow> triple A' p B' E'"
  by (fastforce simp: triple_def split: prod.splits sum.splits)

lemma tripleD:
  "triple A p B E \<Longrightarrow> A s \<Longrightarrow> p s = (Inr v, s') \<Longrightarrow> B v s'"
  "triple A p B E \<Longrightarrow> A s \<Longrightarrow> p s = (Inl e, s') \<Longrightarrow> E s'"
  by (force simp: triple_def)+

section \<open>Private directories and files\<close>

definition EnsurePrivateDir :: "io \<Rightarrow> string \<Rightarrow> (io_error, unit) prog" where
  "EnsurePrivateDir io p =
     andthen (call io (sys_mkdir_all p mode_private_dir)) (\<lambda>_.
     call io (sys_chmod_dir p mode_private_dir))"

text \<open>\<open>WritePrivateFile\<close>: write, sync and close are all attempted and the first error of
  the three is returned. A failing write leaves the first \<open>short\<close> bytes.\<close>

definition write_data :: "io \<Rightarrow> nat \<Rightarrow> string \<Rightarrow> bytes \<Rightarrow> (io_error, unit) prog" where
  "write_data io short p dat s =
     (if io_fails io (sys_calls s)
      then (case call (io\<lparr>io_fails := \<lambda>_. False\<rparr>) (sys_write p (take short dat)) s of (_, s') \<Rightarrow> (Err Failed, s'))
      else call io (sys_write p dat) s)"

definition WritePrivateFile :: "io \<Rightarrow> nat \<Rightarrow> string \<Rightarrow> bytes \<Rightarrow> (io_error, unit) prog" where
  "WritePrivateFile io short p dat =
     andthen (EnsurePrivateDir io (path_dir p)) (\<lambda>_.
     andthen (call io (sys_open_trunc p mode_private_file)) (\<lambda>_.
     andthen (try_io (write_data io short p dat)) (\<lambda>write_err.
     andthen (try_io (call io sys_noop)) (\<lambda>sync_err.
     andthen (try_io (call io sys_noop)) (\<lambda>close_err.
       (case write_err of Inl e \<Rightarrow> fail_io e
        | Inr _ \<Rightarrow> (case sync_err of Inl e \<Rightarrow> fail_io e
                   | Inr _ \<Rightarrow> (case close_err of Inl e \<Rightarrow> fail_io e | Inr _ \<Rightarrow> return_io ()))))))))"

section \<open>Quiet runs\<close>

text \<open>No interference, no faults.\<close>

definition quiet :: io where
  "quiet = \<lparr>io_world = \<lambda>_ d. d, io_fails = \<lambda>_. False\<rparr>"

lemma quiet_simps [simp]: "io_fails quiet k = False" "io_world quiet k d = d"
  by (simp_all add: quiet_def)

lemmas sys_call_defs =
  sys_mkdir_all_def sys_chmod_dir_def sys_open_trunc_def sys_open_excl_def sys_write_def
  sys_chmod_def sys_noop_def sys_stat_def sys_read_file_def sys_rename_def sys_remove_def

lemma call_quiet:
  "call quiet c s =
     (case c (sys_now s) of
        Inl e \<Rightarrow> (Err e, \<lparr>sys_now = sys_now s, sys_past = sys_now s # sys_past s, sys_calls = Suc (sys_calls s)\<rparr>)
      | Inr (v, d') \<Rightarrow> (Ok v, \<lparr>sys_now = d', sys_past = sys_now s # sys_now s # sys_past s,
                            sys_calls = Suc (sys_calls s)\<rparr>))"
  by (simp add: call_def advance_def commit_def Let_def split: sum.splits prod.splits)

lemma WritePrivateFile_quiet:
  assumes "fs_files d (path_dir p) = None"
  shows "\<exists>s. WritePrivateFile quiet n p dat (sys_start d) = (Ok (), s)
           \<and> (\<exists>f. fs_files (sys_now s) p = Some f \<and> f_data f = dat
                  \<and> f_mode f = (case fs_files d p of None \<Rightarrow> mode_private_file | Some f0 \<Rightarrow> f_mode f0))
           \<and> fs_dirs (sys_now s) (path_dir p) = Some mode_private_dir
           \<and> (\<forall>q. q \<noteq> p \<longrightarrow> fs_files (sys_now s) q = fs_files d q)"
  using assms
  by (cases "fs_dirs d (path_dir p)"; cases "fs_files d p")
    (simp_all add: WritePrivateFile_def EnsurePrivateDir_def andthen_def try_io_def return_io_def
      write_data_def sys_call_defs call_quiet sys_start_def set_file_def new_file_def bump_ino_def)

end
