(* ===== verification/Go_Encoding.thy ===== *)
theory Go_Encoding
  imports Prelude
begin

text \<open>
  The encodings of Go's standard library that the daemon's identifiers go through:
  lower-case hexadecimal (\<open>fmt.Sprintf("%x", uuid[:])\<close>, \<open>hex.EncodeToString\<close>) and
  base64 (\<open>UUID.MarshalText\<close>, key fingerprints, random passwords), with the lemma each
  identifier rests on: the encoding is injective.
\<close>

section \<open>Hexadecimal\<close>

definition hex_digit :: "nat \<Rightarrow> char" where
  "hex_digit n = (if n < 10 then char_of (48 + n) else char_of (87 + n))"

fun hex_encode :: "bytes \<Rightarrow> string" where
  "hex_encode [] = []"
| "hex_encode (b # bs) = hex_digit (unat b div 16) # hex_digit (unat b mod 16) # hex_encode bs"

lemma char_of_eq_small: "m < 256 \<Longrightarrow> n < 256 \<Longrightarrow> char_of m = (char_of n :: char) \<longleftrightarrow> m = (n :: nat)"
  by (metis char_of_eq_iff mod_less of_char_of)

lemma hex_digit_inj: "m < 16 \<Longrightarrow> n < 16 \<Longrightarrow> hex_digit m = hex_digit n \<longleftrightarrow> m = n"
  by (auto simp: hex_digit_def char_of_eq_small)

lemma byte_less [simp]: "unat (b :: byte) < 256"
  using unsigned_less[of b] by simp

lemma hex_encode_inj [simp]: "hex_encode xs = hex_encode ys \<longleftrightarrow> xs = ys"
proof (induction xs arbitrary: ys)
  case Nil
  then show ?case by (cases ys) auto
next
  case (Cons x xs)
  show ?case
  proof (cases ys)
    case (Cons y ys')
    have "unat x div 16 = unat y div 16 \<Longrightarrow> unat x mod 16 = unat y mod 16 \<Longrightarrow> x = y"
      by (metis div_mult_mod_eq unsigned_word_eqI)
    moreover have "unat x div 16 < 16" "unat y div 16 < 16"
      by (simp_all add: div_less_iff_less_mult)
    ultimately show ?thesis
      using Cons Cons.IH by (auto simp: hex_digit_inj)
  qed simp
qed

lemma length_hex_encode [simp]: "length (hex_encode bs) = 2 * length bs"
  by (induction bs) auto

section \<open>Base64\<close>

definition b64_digit :: "string \<Rightarrow> nat \<Rightarrow> char" where
  "b64_digit alphabet n = alphabet ! n"

definition std_alphabet :: string where
  "std_alphabet = ''ABCDEFGHIJKLMNOPQRSTUVWXYZabcdefghijklmnopqrstuvwxyz0123456789+/''"

definition url_alphabet :: string where
  "url_alphabet = ''ABCDEFGHIJKLMNOPQRSTUVWXYZabcdefghijklmnopqrstuvwxyz0123456789-_''"

text \<open>\<open>pad\<close> is the padding of a one-character gap: \<open>''=''\<close> for \<open>StdEncoding\<close>, empty
  for the raw encodings.\<close>

fun base64 :: "string \<Rightarrow> string \<Rightarrow> bytes \<Rightarrow> string" where
  "base64 al pad [] = []"
| "base64 al pad [a] =
     [b64_digit al (unat a div 4), b64_digit al (unat a mod 4 * 16)] @ pad @ pad"
| "base64 al pad [a, b] =
     [b64_digit al (unat a div 4), b64_digit al (unat a mod 4 * 16 + unat b div 16),
      b64_digit al (unat b mod 16 * 4)] @ pad"
| "base64 al pad (a # b # c # rest) =
     b64_digit al (unat a div 4) # b64_digit al (unat a mod 4 * 16 + unat b div 16)
     # b64_digit al (unat b mod 16 * 4 + unat c div 64) # b64_digit al (unat c mod 64)
     # base64 al pad rest"

definition base64_std :: "bytes \<Rightarrow> string" where
  "base64_std = base64 std_alphabet ''=''"

definition base64_raw_std :: "bytes \<Rightarrow> string" where
  "base64_raw_std = base64 std_alphabet []"

definition base64_raw_url :: "bytes \<Rightarrow> string" where
  "base64_raw_url = base64 url_alphabet []"

definition good_alphabet :: "string \<Rightarrow> bool" where
  "good_alphabet al \<longleftrightarrow> length al = 64 \<and> distinct al"

lemma good_std: "good_alphabet std_alphabet"
  by (simp add: good_alphabet_def std_alphabet_def)

lemma good_url: "good_alphabet url_alphabet"
  by (simp add: good_alphabet_def url_alphabet_def)

lemma b64_digit_inj:
  "good_alphabet al \<Longrightarrow> m < 64 \<Longrightarrow> n < 64 \<Longrightarrow> b64_digit al m = b64_digit al n \<longleftrightarrow> m = n"
  by (simp add: good_alphabet_def b64_digit_def nth_eq_iff_index_eq)

lemma byte_div4 [simp]: "unat (a :: byte) div 4 < 64"
  by (simp add: div_less_iff_less_mult)

lemma byte_div16 [simp]: "unat (a :: byte) div 16 < 16"
  by (simp add: div_less_iff_less_mult)

lemma byte_div64 [simp]: "unat (a :: byte) div 64 < 4"
  by (simp add: div_less_iff_less_mult)

lemma digits_eq:
  assumes "x * k + y = x' * k + (y' :: nat)" "y < k" "y' < k"
  shows "x = x'" "y = y'"
proof -
  have "(x * k + y) div k = x" "(x' * k + y') div k = x'"
    using assms(2,3) by simp_all
  then show "x = x'" using assms(1) by metis
  then show "y = y'" using assms(1) by simp
qed

lemma byte_eqI: "unat (a :: byte) div k = unat b div k \<Longrightarrow> unat a mod k = unat b mod k \<Longrightarrow> a = b"
  by (metis div_mult_mod_eq unsigned_word_eqI)

lemma sextet_bounds [simp]:
  "unat (a :: byte) mod 4 * 16 + unat (b :: byte) div 16 < 64"
  "unat (b :: byte) mod 16 * 4 + unat (c :: byte) div 64 < 64"
  "unat (a :: byte) mod 4 * 16 < 64"
  "unat (b :: byte) mod 16 * 4 < 64"
proof -
  have *: "p < 4 \<Longrightarrow> q < 16 \<Longrightarrow> p * 16 + q < 64" "q < 16 \<Longrightarrow> p < 4 \<Longrightarrow> q * 4 + p < 64" for p q :: nat
    by linarith+
  show "unat a mod 4 * 16 + unat b div 16 < 64" "unat b mod 16 * 4 + unat c div 64 < 64"
    by (rule *; simp)+
  show "unat a mod 4 * 16 < 64" "unat b mod 16 * 4 < 64"
    using *(1)[of "unat a mod 4" 0] *(2)[of "unat b mod 16" 0] by simp_all
qed

lemma b64_digitD:
  "b64_digit al m = b64_digit al n \<Longrightarrow> good_alphabet al \<Longrightarrow> m < 64 \<Longrightarrow> n < 64 \<Longrightarrow> m = n"
  by (simp add: b64_digit_inj)

lemma sextets1:
  assumes "good_alphabet al" "b64_digit al (unat (a :: byte) div 4) = b64_digit al (unat a' div 4)"
    and "b64_digit al (unat a mod 4 * 16) = b64_digit al (unat (a' :: byte) mod 4 * 16)"
  shows "a = a'"
proof (rule byte_eqI)
  show "unat a div 4 = unat a' div 4"
    by (rule b64_digitD [OF assms(2,1)]) simp_all
  have "unat a mod 4 * 16 = unat a' mod 4 * 16"
    by (rule b64_digitD [OF assms(3,1)]) simp_all
  then show "unat a mod 4 = unat a' mod 4" by simp
qed

lemma sextets2:
  assumes "good_alphabet al" "b64_digit al (unat (a :: byte) div 4) = b64_digit al (unat a' div 4)"
    and "b64_digit al (unat a mod 4 * 16 + unat (b :: byte) div 16)
       = b64_digit al (unat a' mod 4 * 16 + unat (b' :: byte) div 16)"
  shows "a = a'" "unat b div 16 = unat b' div 16"
proof -
  have hi: "unat a div 4 = unat a' div 4"
    by (rule b64_digitD [OF assms(2,1)]) simp_all
  have "unat a mod 4 * 16 + unat b div 16 = unat a' mod 4 * 16 + unat b' div 16"
    by (rule b64_digitD [OF assms(3,1)]) simp_all
  note eq = digits_eq [OF this byte_div16 byte_div16]
  show "a = a'" by (rule byte_eqI [OF hi eq(1)])
  show "unat b div 16 = unat b' div 16" by (rule eq(2))
qed

lemma sextets3:
  assumes "good_alphabet al" "unat (b :: byte) div 16 = unat b' div 16"
    and "b64_digit al (unat b mod 16 * 4 + unat (c :: byte) div 64)
       = b64_digit al (unat b' mod 16 * 4 + unat (c' :: byte) div 64)"
  shows "b = b'" "unat c div 64 = unat c' div 64"
proof -
  have "unat b mod 16 * 4 + unat c div 64 = unat b' mod 16 * 4 + unat c' div 64"
    by (rule b64_digitD [OF assms(3,1)]) simp_all
  note eq = digits_eq [OF this byte_div64 byte_div64]
  show "b = b'" by (rule byte_eqI [OF assms(2) eq(1)])
  show "unat c div 64 = unat c' div 64" by (rule eq(2))
qed

text \<open>Two inputs of the same length with the same encoding are equal; identifiers are
  always encoded from inputs of one fixed length.\<close>

lemma base64_inj:
  assumes "length xs = length ys" "base64 al pad xs = base64 al pad ys" "good_alphabet al"
  shows "xs = ys"
  using assms
proof (induction al pad xs arbitrary: ys rule: base64.induct)
  case (2 al pad a)
  then obtain a' where "ys = [a']" by (cases ys) auto
  with 2 show ?case using sextets1 by auto
next
  case (3 al pad a b)
  then obtain a' b' where ys: "ys = [a', b']" by (auto simp: Suc_length_conv length_Suc_conv eq_commute [of _ "length ys"])
  with 3(2) have eq: "b64_digit al (unat a div 4) = b64_digit al (unat a' div 4)"
    "b64_digit al (unat a mod 4 * 16 + unat b div 16) = b64_digit al (unat a' mod 4 * 16 + unat b' div 16)"
    "b64_digit al (unat b mod 16 * 4) = b64_digit al (unat b' mod 16 * 4)" by simp_all
  note ab = sextets2 [OF 3(3) eq(1,2)]
  have "unat b mod 16 * 4 = unat b' mod 16 * 4"
    by (rule b64_digitD [OF eq(3) 3(3)]) simp_all
  then have "b = b'" using byte_eqI [OF ab(2)] by simp
  with ys ab show ?case by simp
next
  case (4 al pad a b c rest)
  then obtain a' b' c' rest' where ys: "ys = a' # b' # c' # rest'" "length rest = length rest'"
    by (auto simp: Suc_length_conv length_Suc_conv eq_commute [of _ "length ys"])
  with 4(3) have eq: "b64_digit al (unat a div 4) = b64_digit al (unat a' div 4)"
    "b64_digit al (unat a mod 4 * 16 + unat b div 16) = b64_digit al (unat a' mod 4 * 16 + unat b' div 16)"
    "b64_digit al (unat b mod 16 * 4 + unat c div 64) = b64_digit al (unat b' mod 16 * 4 + unat c' div 64)"
    "b64_digit al (unat c mod 64) = b64_digit al (unat c' mod 64)"
    "base64 al pad rest = base64 al pad rest'" by simp_all
  note ab = sextets2 [OF 4(4) eq(1,2)]
  note bc = sextets3 [OF 4(4) ab(2) eq(3)]
  have "unat c mod 64 = unat c' mod 64"
    by (rule b64_digitD [OF eq(4) 4(4)]) simp_all
  then have "c = c'" by (rule byte_eqI [OF bc(2)])
  with ys ab bc 4(1) [OF ys(2) eq(5) 4(4)] show ?case by simp
qed simp

lemma base64_std_inj: "length xs = length ys \<Longrightarrow> base64_std xs = base64_std ys \<longleftrightarrow> xs = ys"
  unfolding base64_std_def using base64_inj good_std by blast

lemma base64_raw_std_inj: "length xs = length ys \<Longrightarrow> base64_raw_std xs = base64_raw_std ys \<longleftrightarrow> xs = ys"
  unfolding base64_raw_std_def using base64_inj good_std by blast

lemma base64_raw_url_inj: "length xs = length ys \<Longrightarrow> base64_raw_url xs = base64_raw_url ys \<longleftrightarrow> xs = ys"
  unfolding base64_raw_url_def using base64_inj good_url by blast

end
