(* ===== verification/Keepass.thy ===== *)
theory Keepass
  imports Go_Encoding
begin

text \<open>
  The KeePass object model the daemon works on: the structures of the vendored
  gokeepasslib (\<open>entry.go\<close>, \<open>group.go\<close>, \<open>root_data.go\<close>, \<open>binary.go\<close>) with the fields
  the daemon reads, writes or wipes, their accessors and \<open>Clone\<close>, and the traversals of
  \<open>internal/dbpool/pool.go\<close> that skip the recycle bin. Icons, auto-type data and the
  XML names are left out: no code of the daemon reads or writes them.

  \<open>UUID\<close> is a 16-byte array; it is a 128-bit word here, whose bytes are taken most
  significant first.
\<close>

section \<open>Data\<close>

type_synonym uuid = "128 word"

record value_data =
  v_key :: string
  v_content :: string
  v_protected :: bool

record custom_data =
  cd_key :: string
  cd_value :: string

record binary_ref =
  ref_name :: string
  ref_id :: int

record time_data =
  creation_time :: "int option"
  last_modification_time :: "int option"
  last_access_time :: "int option"

record entry_data =
  e_uuid :: uuid
  e_foreground_color :: string
  e_background_color :: string
  e_override_url :: string
  e_tags :: string
  e_times :: time_data
  e_values :: "value_data list"
  e_binaries :: "binary_ref list"
  e_custom_data :: "custom_data list"

text \<open>An entry carries its histories; a \<open>History\<close> is its list of earlier entries.\<close>

datatype entry = Entry (edata: entry_data) (histories: "entry list list")

record group_data =
  g_uuid :: uuid
  g_name :: string
  g_notes :: string
  g_last_top_visible_entry :: string
  g_times :: time_data

datatype grp = Group (gdata: group_data) (g_entries: "entry list") (g_groups: "grp list")

record binary =
  b_id :: int
  b_content :: bytes
  b_compressed :: bool

record meta_data =
  recycle_bin_uuid :: uuid
  history_max_items :: int
  history_max_size :: int
  m_binaries :: "binary list"
  m_custom_data :: "custom_data list"
  default_user_name :: string

record root_data =
  r_groups :: "grp list"
  r_deleted :: "(uuid \<times> int option) list"

text \<open>\<open>c_inner\<close> holds the attachments of a KDBX 4 file (\<open>InnerHeader.Binaries\<close>); a
  KDBX 3 file keeps them in the metadata.\<close>

record db_content =
  c_raw :: bytes
  c_inner :: "binary list option"
  c_meta :: "meta_data option"
  c_root :: "root_data option"

record db_credentials =
  passphrase :: bytes
  cred_key :: bytes
  cred_windows :: bytes

record database =
  db_credentials :: "db_credentials option"
  db_kdbx4 :: bool
  db_content :: "db_content option"

section \<open>Accessors\<close>

definition set_data :: "(entry_data \<Rightarrow> entry_data) \<Rightarrow> entry \<Rightarrow> entry" where
  "set_data f e = Entry (f (edata e)) (histories e)"

definition entry_uuid :: "entry \<Rightarrow> uuid" where
  "entry_uuid e = e_uuid (edata e)"

definition entry_values :: "entry \<Rightarrow> value_data list" where
  "entry_values e = e_values (edata e)"

lemma edata_set_data [simp]: "edata (set_data f e) = f (edata e)"
  by (simp add: set_data_def)

lemma histories_set_data [simp]: "histories (set_data f e) = histories e"
  by (simp add: set_data_def)

fun get_index_from :: "value_data list \<Rightarrow> string \<Rightarrow> nat \<Rightarrow> int" where
  "get_index_from [] k i = - 1"
| "get_index_from (v # vs) k i = (if v_key v = k then int i else get_index_from vs k (Suc i))"

definition get_index :: "entry \<Rightarrow> string \<Rightarrow> int" where
  "get_index e k = get_index_from (entry_values e) k 0"

definition get_value :: "entry \<Rightarrow> string \<Rightarrow> value_data option" where
  "get_value e k = List.find (\<lambda>v. v_key v = k) (entry_values e)"

definition get_content :: "entry \<Rightarrow> string \<Rightarrow> string" where
  "get_content e k = (case get_value e k of None \<Rightarrow> [] | Some v \<Rightarrow> v_content v)"

definition get_password :: "entry \<Rightarrow> string" where
  "get_password e = get_content e ''Password''"

definition get_title :: "entry \<Rightarrow> string" where
  "get_title e = get_content e ''Title''"

lemma get_index_from_absent: "k \<notin> v_key ` set vs \<Longrightarrow> get_index_from vs k i = - 1"
  by (induction vs arbitrary: i) auto

lemma get_index_from_present:
  "k \<in> v_key ` set vs \<Longrightarrow>
     \<exists>n < length vs. get_index_from vs k i = int (i + n) \<and> v_key (vs ! n) = k
       \<and> (\<forall>m < n. v_key (vs ! m) \<noteq> k)"
proof (induction vs arbitrary: i)
  case (Cons v vs)
  show ?case
  proof (cases "v_key v = k")
    case True
    then show ?thesis by (intro exI[of _ 0]) simp
  next
    case False
    with Cons.prems have "k \<in> v_key ` set vs" by auto
    from Cons.IH [OF this, of "Suc i"] obtain n where "n < length vs"
      "get_index_from vs k (Suc i) = int (Suc i + n)" "v_key (vs ! n) = k"
      "\<forall>m < n. v_key (vs ! m) \<noteq> k" by blast
    with False show ?thesis
      by (intro exI[of _ "Suc n"]) (auto simp: nth_Cons split: nat.splits)
  qed
qed simp

lemma get_value_SomeD: "get_value e k = Some v \<Longrightarrow> v \<in> set (entry_values e) \<and> v_key v = k"
  unfolding get_value_def by (rule find_Some_in)

lemma get_value_None_iff: "get_value e k = None \<longleftrightarrow> k \<notin> v_key ` set (entry_values e)"
  by (auto simp: get_value_def find_None_iff_not)

section \<open>Identifiers\<close>

definition uuid_bytes :: "uuid \<Rightarrow> bytes" where
  "uuid_bytes u = map (\<lambda>i. ucast (drop_bit (8 * (15 - i)) u)) [0..<16]"

definition uuid_hex :: "uuid \<Rightarrow> string" where
  "uuid_hex u = hex_encode (uuid_bytes u)"

definition uuid_text :: "uuid \<Rightarrow> string" where
  "uuid_text u = base64_std (uuid_bytes u)"

lemma length_uuid_bytes [simp]: "length (uuid_bytes u) = 16"
  by (simp add: uuid_bytes_def)

lemma uuid_bytes_inj [simp]: "uuid_bytes u = uuid_bytes v \<longleftrightarrow> u = v"
proof
  assume eq: "uuid_bytes u = uuid_bytes v"
  show "u = v"
  proof (rule bit_word_eqI)
    fix n assume "n < LENGTH(128)"
    then have n: "n < 128" by simp
    let ?i = "15 - n div 8"
    have i: "?i < 16" "15 - ?i = n div 8" using n by auto
    have "uuid_bytes u ! ?i = uuid_bytes v ! ?i" using eq by simp
    then have "(ucast (drop_bit (8 * (n div 8)) u) :: byte) = ucast (drop_bit (8 * (n div 8)) v)"
      using i by (simp add: uuid_bytes_def)
    then have "bit (ucast (drop_bit (8 * (n div 8)) u) :: byte) (n mod 8)
             = bit (ucast (drop_bit (8 * (n div 8)) v) :: byte) (n mod 8)" by simp
    then show "bit u n = bit v n"
      by (simp add: bit_ucast_iff bit_drop_bit_eq)
  qed
qed simp

lemma uuid_hex_inj [simp]: "uuid_hex u = uuid_hex v \<longleftrightarrow> u = v"
  by (simp add: uuid_hex_def)

lemma length_uuid_hex [simp]: "length (uuid_hex u) = 32"
  by (simp add: uuid_hex_def)

lemma uuid_text_inj [simp]: "uuid_text u = uuid_text v \<longleftrightarrow> u = v"
  by (simp add: uuid_text_def base64_std_inj)

section \<open>Clone\<close>

text \<open>
  \<open>Clone\<close> draws a fresh random UUID for every entry and group it copies. The random
  source is the sequence \<open>rnd\<close> of UUIDs; the counter says how many were drawn.
\<close>

type_synonym uuid_source = "nat \<Rightarrow> uuid"

fun clone_entry :: "uuid_source \<Rightarrow> nat \<Rightarrow> entry \<Rightarrow> entry \<times> nat"
  and clone_history :: "uuid_source \<Rightarrow> nat \<Rightarrow> entry list \<Rightarrow> entry list \<times> nat"
  and clone_histories :: "uuid_source \<Rightarrow> nat \<Rightarrow> entry list list \<Rightarrow> entry list list \<times> nat" where
  "clone_entry rnd n (Entry d hs) =
     (let (hs', n') = clone_histories rnd (Suc n) hs in (Entry (d\<lparr>e_uuid := rnd n\<rparr>) hs', n'))"
| "clone_history rnd n [] = ([], n)"
| "clone_history rnd n (e # es) =
     (let (e', n') = clone_entry rnd n e; (es', n'') = clone_history rnd n' es in (e' # es', n''))"
| "clone_histories rnd n [] = ([], n)"
| "clone_histories rnd n (h # hs) =
     (let (h', n') = clone_history rnd n h; (hs', n'') = clone_histories rnd n' hs
      in (h' # hs', n''))"

fun clone_groups :: "uuid_source \<Rightarrow> nat \<Rightarrow> grp list \<Rightarrow> grp list \<times> nat" where
  "clone_groups rnd n [] = ([], n)"
| "clone_groups rnd n (Group d es gs # rest) =
     (let (es', n1) = clone_history rnd (Suc n) es;
          (gs', n2) = clone_groups rnd n1 gs;
          (rest', n3) = clone_groups rnd n2 rest
      in (Group (d\<lparr>g_uuid := rnd n\<rparr>) es' gs' # rest', n3))"

section \<open>Traversal\<close>

definition recycle_bin_uuid_for_db :: "database \<Rightarrow> uuid" where
  "recycle_bin_uuid_for_db db =
     (case db_content db of None \<Rightarrow> 0
      | Some c \<Rightarrow> (case c_meta c of None \<Rightarrow> 0 | Some m \<Rightarrow> recycle_bin_uuid m))"

definition is_recycled :: "group_data \<Rightarrow> uuid \<Rightarrow> bool" where
  "is_recycled g rb \<longleftrightarrow> g_name g = ''Recycle Bin'' \<or> (rb \<noteq> 0 \<and> g_uuid g = rb)"

text \<open>\<open>collectEntries\<close> over a list of groups (the loop of \<open>RootEntries\<close> and the
  recursive calls).\<close>

fun collect_entries :: "grp list \<Rightarrow> uuid \<Rightarrow> entry list" where
  "collect_entries [] rb = []"
| "collect_entries (Group d es gs # rest) rb =
     (if is_recycled d rb then [] else es @ collect_entries gs rb) @ collect_entries rest rb"

definition root_groups :: "database \<Rightarrow> grp list option" where
  "root_groups db =
     (case db_content db of None \<Rightarrow> None
      | Some c \<Rightarrow> (case c_root c of None \<Rightarrow> None | Some r \<Rightarrow> Some (r_groups r)))"

text \<open>Every entry of the tree, recycled or not.\<close>

fun all_entries :: "grp list \<Rightarrow> entry list" where
  "all_entries [] = []"
| "all_entries (Group d es gs # rest) = es @ all_entries gs @ all_entries rest"

lemma collect_entries_subset: "set (collect_entries gs rb) \<subseteq> set (all_entries gs)"
  by (induction gs rb rule: collect_entries.induct) auto

lemma all_entries_append: "all_entries (gs @ hs) = all_entries gs @ all_entries hs"
  by (induction gs rule: all_entries.induct) auto

text \<open>Where an entry lives: the group it is in and the groups above it.\<close>

inductive entry_at :: "grp list \<Rightarrow> group_data list \<Rightarrow> entry \<Rightarrow> bool" where
  here: "Group d es gs \<in> set tree \<Longrightarrow> e \<in> set es \<Longrightarrow> entry_at tree [d] e"
| below: "Group d es gs \<in> set tree \<Longrightarrow> entry_at gs path e \<Longrightarrow> entry_at tree (d # path) e"

inductive_cases entry_at_Nil [elim!]: "entry_at [] path e"

lemma entry_at_mono: "entry_at tree path e \<Longrightarrow> set tree \<subseteq> set tree' \<Longrightarrow> entry_at tree' path e"
  by (erule entry_at.cases) (auto intro: entry_at.intros)

lemma entry_at_Cons:
  "entry_at (Group d es gs # rest) path e \<longleftrightarrow>
     (path = [d] \<and> e \<in> set es) \<or> (\<exists>p. path = d # p \<and> entry_at gs p e) \<or> entry_at rest path e"
  (is "?L \<longleftrightarrow> ?R")
proof
  assume ?L
  then show ?R
    by (cases rule: entry_at.cases) (auto intro: entry_at.intros)
next
  assume ?R
  then show ?L
    by (auto intro: entry_at.intros elim: entry_at_mono)
qed

lemma all_entries_iff: "e \<in> set (all_entries gs) \<longleftrightarrow> (\<exists>path. entry_at gs path e)"
  by (induction gs rule: all_entries.induct) (auto simp: entry_at_Cons)

lemma ex_image_conj: "(\<exists>x. (\<exists>p. x = f p \<and> Q p) \<and> R x) \<longleftrightarrow> (\<exists>p. Q p \<and> R (f p))"
  by blast

lemma ex_entry_at_Cons:
  "(\<exists>path. entry_at (Group d es gs # rest) path e \<and> (\<forall>x \<in> set path. P x)) \<longleftrightarrow>
     P d \<and> (e \<in> set es \<or> (\<exists>p. entry_at gs p e \<and> (\<forall>x \<in> set p. P x)))
     \<or> (\<exists>path. entry_at rest path e \<and> (\<forall>x \<in> set path. P x))"
  unfolding entry_at_Cons conj_disj_distribR ex_disj_distrib ex_image_conj by auto

text \<open>The traversal returns exactly the entries no recycled group is above.\<close>

lemma collect_entries_iff:
  "e \<in> set (collect_entries gs rb) \<longleftrightarrow>
     (\<exists>path. entry_at gs path e \<and> (\<forall>d \<in> set path. \<not> is_recycled d rb))"
  by (induction gs rb rule: collect_entries.induct) (auto simp: ex_entry_at_Cons)

section \<open>Clone keeps everything but the identifiers\<close>

text \<open>The structure without its UUIDs.\<close>

fun erase_entry :: "entry \<Rightarrow> entry"
  and erase_history :: "entry list \<Rightarrow> entry list"
  and erase_histories :: "entry list list \<Rightarrow> entry list list" where
  "erase_entry (Entry d hs) = Entry (d\<lparr>e_uuid := 0\<rparr>) (erase_histories hs)"
| "erase_history [] = []"
| "erase_history (e # es) = erase_entry e # erase_history es"
| "erase_histories [] = []"
| "erase_histories (h # hs) = erase_history h # erase_histories hs"

fun erase_groups :: "grp list \<Rightarrow> grp list" where
  "erase_groups [] = []"
| "erase_groups (Group d es gs # rest) =
     Group (d\<lparr>g_uuid := 0\<rparr>) (erase_history es) (erase_groups gs) # erase_groups rest"

lemma clone_entry_erase:
  "erase_entry (fst (clone_entry rnd n e)) = erase_entry e"
  "erase_history (fst (clone_history rnd n es)) = erase_history es"
  "erase_histories (fst (clone_histories rnd n hs)) = erase_histories hs"
  by (induction rnd n e and rnd n es and rnd n hs rule: clone_entry_clone_history_clone_histories.induct)
    (auto split: prod.splits)

lemma clone_history_eraseD: "clone_history rnd n es = (es', n') \<Longrightarrow> erase_history es' = erase_history es"
  by (metis clone_entry_erase(2) fst_conv)

lemma clone_groups_erase: "erase_groups (fst (clone_groups rnd n gs)) = erase_groups gs"
  by (induction rnd n gs rule: clone_groups.induct)
    (auto split: prod.splits dest: clone_history_eraseD)

end
