(* ===== verification/Database_File.thy ===== *)
theory Database_File
  imports Filesystem Keepass
begin

text \<open>
  Saving a database: \<open>internal/dbpool/save.go\<close> and \<open>create.go\<close>. A save compares the
  fingerprint of the file with the one remembered, writes a temporary file beside it,
  compares again and renames. The encoder and the stream cipher of protected values are
  parameters. The theorems hold for every interference of other processes between the
  system calls and every pattern of failing calls that their hypotheses allow.
\<close>

section \<open>Fingerprints\<close>

record file_fingerprint =
  fp_dev :: nat
  fp_ino :: nat
  fp_size :: nat
  fp_mtime :: nat
  fp_ctime :: nat
  fp_sha256 :: string

definition fingerprint_file :: "(bytes \<Rightarrow> bytes) \<Rightarrow> disk_file \<Rightarrow> file_fingerprint" where
  "fingerprint_file sha f =
     \<lparr>fp_dev = f_dev f, fp_ino = f_ino f, fp_size = length (f_data f), fp_mtime = f_mtime f,
      fp_ctime = f_ctime f, fp_sha256 = hex_encode (sha (f_data f))\<rparr>"

text \<open>\<open>FingerprintFile\<close>. The code asks for the status of the path, opens it and reads it
  through in separate calls; they are one step here, so a foreign write in their midst is one
  before or after all of them.\<close>

definition FingerprintFile :: "(bytes \<Rightarrow> bytes) \<Rightarrow> string \<Rightarrow> file_fingerprint syscall" where
  "FingerprintFile sha p d =
     (case fs_files d p of None \<Rightarrow> Err NotExist | Some f \<Rightarrow> Ok (fingerprint_file sha f, d))"

definition Fingerprint_Equal :: "file_fingerprint \<Rightarrow> file_fingerprint \<Rightarrow> bool" where
  "Fingerprint_Equal a b \<longleftrightarrow>
     fp_dev a = fp_dev b \<and> fp_ino a = fp_ino b \<and> fp_size a = fp_size b \<and>
     fp_mtime a = fp_mtime b \<and> fp_ctime a = fp_ctime b \<and> fp_sha256 a = fp_sha256 b"

lemma Fingerprint_Equal_iff [simp]: "Fingerprint_Equal a b \<longleftrightarrow> a = b"
  by (auto simp: Fingerprint_Equal_def)

section \<open>An open database\<close>

record open_database =
  od_uuid :: string
  od_name :: string
  od_path :: string
  od_locked :: bool
  od_db :: "database option"
  od_fingerprint :: file_fingerprint
  od_watcher :: "nat option"

record save_lib =
  sl_sha256 :: "bytes \<Rightarrow> bytes"
  sl_lock_entries :: "database \<Rightarrow> bool \<times> database"
  sl_unlock_entries :: "database \<Rightarrow> bool \<times> database"
  sl_encode :: "database \<Rightarrow> bytes option"
  sl_temp_name :: "string \<Rightarrow> fs \<Rightarrow> string"

datatype save_error =
    DatabaseLocked
  | FingerprintBeforeUpdate
  | RefusedUpdate
  | FingerprintBeforeSave
  | RefusedSave
  | LockEntriesFailed
  | StatFailed
  | TempFailed
  | ChmodFailed
  | EncodeFailed
  | SyncFailed
  | CloseFailed
  | FingerprintBeforeRename
  | ChangedDuringSave
  | RenameFailed
  | UnlockEntriesFailed
  | FingerprintAfterSave

section \<open>The atomic write\<close>

text \<open>\<open>os.CreateTemp\<close> picks an unused name of the pattern and creates it with mode 0600.\<close>

definition sys_create_temp :: "save_lib \<Rightarrow> string \<Rightarrow> string syscall" where
  "sys_create_temp L path d =
     (let name = sl_temp_name L path d
      in case sys_open_excl name mode_private_file d of
           Inl e \<Rightarrow> Err e
         | Inr (_, d') \<Rightarrow> Ok (name, d'))"

text \<open>\<open>Encode\<close> writes to the temporary file; it fails when the database cannot be encoded
  or the disk does not take the bytes.\<close>

definition encode_to :: "save_lib \<Rightarrow> io \<Rightarrow> nat \<Rightarrow> string \<Rightarrow> database \<Rightarrow> (io_error, unit) prog" where
  "encode_to L io short tmp db =
     (case sl_encode L db of None \<Rightarrow> fail_io Failed | Some dat \<Rightarrow> write_data io short tmp dat)"

definition check_unchanged ::
  "save_lib \<Rightarrow> io \<Rightarrow> string \<Rightarrow> file_fingerprint \<Rightarrow> save_error \<Rightarrow> save_error \<Rightarrow> (save_error, unit) prog" where
  "check_unchanged L io path expected unreadable refused =
     andthen (or_fail (call io (FingerprintFile (sl_sha256 L) path)) unreadable) (\<lambda>current.
     if \<not> Fingerprint_Equal expected current then fail_io refused else return_io ())"

definition fill_temp :: "save_lib \<Rightarrow> io \<Rightarrow> nat \<Rightarrow> string \<Rightarrow> nat \<Rightarrow> database \<Rightarrow> (save_error, unit) prog" where
  "fill_temp L io short tmp mode db =
     andthen (or_fail (call io (sys_chmod tmp mode)) ChmodFailed) (\<lambda>_.
     andthen (or_fail (encode_to L io short tmp db) EncodeFailed) (\<lambda>_.
     andthen (or_fail (call io sys_noop) SyncFailed) (\<lambda>_.
     or_fail (call io sys_noop) CloseFailed)))"

definition publish_temp :: "save_lib \<Rightarrow> io \<Rightarrow> string \<Rightarrow> string \<Rightarrow> file_fingerprint \<Rightarrow> (save_error, unit) prog" where
  "publish_temp L io path tmp expected =
     andthen (check_unchanged L io path expected FingerprintBeforeRename ChangedDuringSave) (\<lambda>_.
     andthen (or_fail (call io (sys_rename tmp path)) RenameFailed) (\<lambda>_.
     andthen (try_io (call io sys_noop)) (\<lambda>_. return_io ())))"

definition atomicEncode ::
  "save_lib \<Rightarrow> io \<Rightarrow> nat \<Rightarrow> string \<Rightarrow> database \<Rightarrow> file_fingerprint \<Rightarrow> (save_error, unit) prog" where
  "atomicEncode L io short path db expected =
     andthen (or_fail (call io (sys_stat path)) StatFailed) (\<lambda>info.
     andthen (or_fail (call io (sys_create_temp L path)) TempFailed) (\<lambda>tmp.
     deferring (call io (sys_remove tmp))
       (andthen (fill_temp L io short tmp (f_mode info) db) (\<lambda>_.
        publish_temp L io path tmp expected))))"

section \<open>Save and UpdateAndSave\<close>

text \<open>\<open>saveLocked\<close>, with the database in memory (already mutated) as an argument; the result
  holds the open database with that content restored to unlocked form.\<close>

definition saveLocked ::
  "save_lib \<Rightarrow> io \<Rightarrow> nat \<Rightarrow> database \<Rightarrow> open_database \<Rightarrow> sys \<Rightarrow> save_error option \<times> open_database \<times> sys" where
  "saveLocked L io short db od s =
     (case check_unchanged L io (od_path od) (od_fingerprint od) FingerprintBeforeSave RefusedSave s of
        (Inl e, s1) \<Rightarrow> (Some e, od\<lparr>od_db := Some db\<rparr>, s1)
      | (Inr _, s1) \<Rightarrow>
          (case sl_lock_entries L db of
             (False, db1) \<Rightarrow> (Some LockEntriesFailed, od\<lparr>od_db := Some db1\<rparr>, s1)
           | (True, db1) \<Rightarrow>
               (case atomicEncode L io short (od_path od) db1 (od_fingerprint od) s1 of
                  (Inl e, s2) \<Rightarrow> (Some e, od\<lparr>od_db := Some (snd (sl_unlock_entries L db1))\<rparr>, s2)
                | (Inr _, s2) \<Rightarrow>
                    (case sl_unlock_entries L db1 of
                       (False, db2) \<Rightarrow> (Some UnlockEntriesFailed, od\<lparr>od_db := Some db2\<rparr>, s2)
                     | (True, db2) \<Rightarrow>
                         (case call io (FingerprintFile (sl_sha256 L) (od_path od)) s2 of
                            (Inl _, s3) \<Rightarrow> (Some FingerprintAfterSave, od\<lparr>od_db := Some db2\<rparr>, s3)
                          | (Inr fp, s3) \<Rightarrow> (None, od\<lparr>od_db := Some db2, od_fingerprint := fp\<rparr>, s3))))))"

text \<open>\<open>Save\<close> on a database that is not in memory dereferences nil once the fingerprint
  check has passed.\<close>

definition Save ::
  "save_lib \<Rightarrow> io \<Rightarrow> nat \<Rightarrow> open_database \<Rightarrow> sys \<Rightarrow> (save_error option \<times> open_database \<times> sys) run" where
  "Save L io short od s =
     (case od_db od of
        Some db \<Rightarrow> Returned (saveLocked L io short db od s)
      | None \<Rightarrow>
          (case check_unchanged L io (od_path od) (od_fingerprint od) FingerprintBeforeSave RefusedSave s of
             (Inl e, s1) \<Rightarrow> Returned (Some e, od, s1)
           | (Inr _, s1) \<Rightarrow> Panicked))"

definition cloneRootData :: "uuid_source \<Rightarrow> root_data \<Rightarrow> root_data" where
  "cloneRootData rnd root =
     \<lparr>r_groups = fst (clone_groups rnd 0 (r_groups root)), r_deleted = r_deleted root\<rparr>"

definition root_of :: "database \<Rightarrow> root_data option" where
  "root_of db = (case db_content db of None \<Rightarrow> None | Some c \<Rightarrow> c_root c)"

definition with_root :: "root_data \<Rightarrow> database \<Rightarrow> database" where
  "with_root root db =
     db\<lparr>db_content := (case db_content db of None \<Rightarrow> None | Some c \<Rightarrow> Some (c\<lparr>c_root := Some root\<rparr>))\<rparr>"

definition restore_root :: "root_data option \<Rightarrow> open_database \<Rightarrow> open_database" where
  "restore_root original od =
     (case original of None \<Rightarrow> od
      | Some root \<Rightarrow> od\<lparr>od_db := (case od_db od of None \<Rightarrow> None | Some db \<Rightarrow> Some (with_root root db))\<rparr>)"

datatype 'e update_error = SaveError save_error | MutateError 'e

text \<open>The mutation is a function on the database, with an error to report or none.\<close>

definition UpdateAndSave ::
  "save_lib \<Rightarrow> io \<Rightarrow> nat \<Rightarrow> uuid_source \<Rightarrow> (database \<Rightarrow> 'e option \<times> database) \<Rightarrow> open_database \<Rightarrow> sys
     \<Rightarrow> 'e update_error option \<times> open_database \<times> sys" where
  "UpdateAndSave L io short rnd mutate od s =
     (case od_db od of
        None \<Rightarrow> (Some (SaveError DatabaseLocked), od, s)
      | Some db \<Rightarrow>
          if od_locked od \<or> db_content db = None then (Some (SaveError DatabaseLocked), od, s)
          else (case check_unchanged L io (od_path od) (od_fingerprint od) FingerprintBeforeUpdate RefusedUpdate s of
                  (Inl e, s1) \<Rightarrow> (Some (SaveError e), od, s1)
                | (Inr _, s1) \<Rightarrow>
                    (let original = map_option (cloneRootData rnd) (root_of db)
                     in case mutate db of
                          (Some e, db') \<Rightarrow> (Some (MutateError e), od\<lparr>od_db := Some db'\<rparr>, s1)
                        | (None, db') \<Rightarrow>
                            (case saveLocked L io short db' od s1 of
                               (Some e, od', s2) \<Rightarrow> (Some (SaveError e), restore_root original od', s2)
                             | (None, od', s2) \<Rightarrow> (None, od', s2)))))"

section \<open>Creating a database\<close>

datatype create_error = CreateDirectory | AlreadyExists | CreateFailed | EncodeNewFailed | SyncNewFailed

text \<open>\<open>new_db\<close> is the library's empty KDBX 4 database with the password credentials.\<close>

definition named_default :: "database \<Rightarrow> database" where
  "named_default db =
     (case root_of db of
        None \<Rightarrow> db
      | Some root \<Rightarrow>
          (case r_groups root of
             [] \<Rightarrow> db
           | Group d es gs # rest \<Rightarrow>
               with_root (root\<lparr>r_groups := Group (d\<lparr>g_name := ''Default''\<rparr>) [] gs # rest\<rparr>) db))"

definition CreateDatabase ::
  "save_lib \<Rightarrow> io \<Rightarrow> nat \<Rightarrow> (bytes \<Rightarrow> database) \<Rightarrow> string \<Rightarrow> bytes \<Rightarrow> (create_error, unit) prog" where
  "CreateDatabase L io short new_db path password =
     andthen (or_fail (EnsurePrivateDir io (path_dir path)) CreateDirectory) (\<lambda>_.
     andthen (try_io (call io (sys_open_excl path mode_private_file))) (\<lambda>opened.
       (case opened of
          Inl Exists \<Rightarrow> fail_io AlreadyExists
        | Inl _ \<Rightarrow> fail_io CreateFailed
        | Inr _ \<Rightarrow>
            andthen (try_io (encode_to L io short path (named_default (new_db password)))) (\<lambda>written.
              (case written of
                 Inl _ \<Rightarrow> andthen (try_io (call io (sys_remove path))) (\<lambda>_. fail_io EncodeNewFailed)
               | Inr _ \<Rightarrow> or_fail (call io sys_noop) SyncNewFailed)))))"

section \<open>The file during a save\<close>

text \<open>Other processes leave the named files alone.\<close>

definition leaves :: "io \<Rightarrow> string set \<Rightarrow> bool" where
  "leaves io names \<longleftrightarrow> (\<forall>k d q. q \<in> names \<longrightarrow> fs_files (io_world io k d) q = fs_files d q)"

lemma leavesD: "leaves io names \<Longrightarrow> q \<in> names \<Longrightarrow> fs_files (io_world io k d) q = fs_files d q"
  by (simp add: leaves_def)

lemma leaves_mono: "leaves io names \<Longrightarrow> names' \<subseteq> names \<Longrightarrow> leaves io names'"
  by (auto simp: leaves_def)

lemma set_file_apply [simp]: "fs_files (set_file p f d) q = (if q = p then Some f else fs_files d q)"
  by (simp add: set_file_def)

lemma bump_ino_files [simp]: "fs_files (bump_ino d) = fs_files d"
  by (simp add: bump_ino_def)

text \<open>The file at \<open>path\<close> is one of two complete versions throughout.\<close>

definition new_version :: "save_lib \<Rightarrow> string \<Rightarrow> database \<Rightarrow> nat \<Rightarrow> fs \<Rightarrow> bool" where
  "new_version L path db mode d \<longleftrightarrow>
     (\<exists>g. fs_files d path = Some g \<and> sl_encode L db = Some (f_data g) \<and> f_mode g = mode)"

definition old_or_new :: "save_lib \<Rightarrow> string \<Rightarrow> database \<Rightarrow> disk_file \<Rightarrow> fs \<Rightarrow> bool" where
  "old_or_new L path db f d \<longleftrightarrow> fs_files d path = Some f \<or> new_version L path db (f_mode f) d"

definition saving :: "save_lib \<Rightarrow> string \<Rightarrow> database \<Rightarrow> disk_file \<Rightarrow> sys \<Rightarrow> bool" where
  "saving L path db f s \<longleftrightarrow> always (old_or_new L path db f) s \<and> fs_files (sys_now s) path = Some f"

definition temp_has :: "string \<Rightarrow> nat \<Rightarrow> bytes \<Rightarrow> sys \<Rightarrow> bool" where
  "temp_has tmp mode dat s \<longleftrightarrow> (\<exists>h. fs_files (sys_now s) tmp = Some h \<and> f_mode h = mode \<and> f_data h = dat)"

definition saved :: "save_lib \<Rightarrow> string \<Rightarrow> database \<Rightarrow> disk_file \<Rightarrow> sys \<Rightarrow> bool" where
  "saved L path db f s \<longleftrightarrow> always (old_or_new L path db f) s \<and> new_version L path db (f_mode f) (sys_now s)"

named_theorems save_simps

lemma saving_advance [save_simps]:
  "leaves io N \<Longrightarrow> path \<in> N \<Longrightarrow> saving L path db f s \<Longrightarrow> saving L path db f (advance io s)"
  by (auto simp: saving_def old_or_new_def leavesD)

lemma saving_commit [save_simps]:
  "saving L path db f s \<Longrightarrow> fs_files d path = Some f \<Longrightarrow> saving L path db f (commit d s)"
  by (auto simp: saving_def old_or_new_def)

lemma temp_has_advance [save_simps]:
  "leaves io N \<Longrightarrow> tmp \<in> N \<Longrightarrow> temp_has tmp mode dat s \<Longrightarrow> temp_has tmp mode dat (advance io s)"
  by (auto simp: temp_has_def leavesD)

lemma triple_fill_temp:
  assumes "leaves io N" "path \<in> N" "tmp \<in> N" "tmp \<noteq> path"
  shows "triple (\<lambda>s. saving L path db f s \<and> temp_has tmp mode0 [] s)
           (fill_temp L io short tmp (f_mode f) db)
           (\<lambda>_ s. saving L path db f s \<and> (\<exists>dat. sl_encode L db = Some dat \<and> temp_has tmp (f_mode f) dat s))
           (saving L path db f)"
proof -
  note adv = saving_advance[OF assms(1,2)] temp_has_advance[OF assms(1,3)]
  have chmod: "triple (\<lambda>s. saving L path db f s \<and> temp_has tmp mode0 [] s) (call io (sys_chmod tmp (f_mode f)))
      (\<lambda>_ s. saving L path db f s \<and> temp_has tmp (f_mode f) [] s) (saving L path db f)"
  proof (rule triple_call)
    fix s v d
    assume s: "saving L path db f s \<and> temp_has tmp mode0 [] s"
      and c: "sys_chmod tmp (f_mode f) (sys_now (advance io s)) = Ok (v, d)"
    let ?s = "advance io s"
    have a: "saving L path db f ?s" "temp_has tmp mode0 [] ?s" using s adv by blast+
    then obtain h where h: "fs_files (sys_now ?s) tmp = Some h" "f_data h = []"
      by (auto simp: temp_has_def)
    then have d: "d = set_file tmp (h\<lparr>f_mode := f_mode f, f_ctime := fs_clock (sys_now ?s)\<rparr>) (sys_now ?s)"
      using c by (simp add: sys_chmod_def)
    show "saving L path db f (commit d ?s) \<and> temp_has tmp (f_mode f) [] (commit d ?s)"
      using a h assms(4) by (auto simp: d temp_has_def saving_def old_or_new_def)
  qed (use adv in blast)
  have enc: "triple (\<lambda>s. saving L path db f s \<and> temp_has tmp (f_mode f) [] s) (encode_to L io short tmp db)
      (\<lambda>_ s. saving L path db f s \<and> (\<exists>dat. sl_encode L db = Some dat \<and> temp_has tmp (f_mode f) dat s))
      (saving L path db f)"
  proof (rule tripleI)
    fix s assume s: "saving L path db f s \<and> temp_has tmp (f_mode f) [] s"
    have a: "saving L path db f (advance io s)" "temp_has tmp (f_mode f) [] (advance io s)" using s adv by blast+
    then obtain h where h: "fs_files (io_world io (sys_calls s) (sys_now s)) tmp = Some h" "f_data h = []" "f_mode h = f_mode f"
      by (auto simp: temp_has_def)
    have adv_io: "advance (io\<lparr>io_fails := x\<rparr>) s = advance io s" for x
      by (simp add: advance_def)
    show "case encode_to L io short tmp db s of (Inl _, s') \<Rightarrow> saving L path db f s'
          | (Inr v, s') \<Rightarrow> saving L path db f s' \<and> (\<exists>dat. sl_encode L db = Some dat \<and> temp_has tmp (f_mode f) dat s')"
    proof (cases "sl_encode L db")
      case None
      then show ?thesis using s by (simp add: encode_to_def fail_io_def)
    next
      case (Some dat)
      then show ?thesis
        using a h assms(4)
        by (auto simp: encode_to_def write_data_def call_def adv_io sys_write_def Let_def temp_has_def
            saving_def old_or_new_def)
    qed
  qed
  have noop: "triple (\<lambda>s. saving L path db f s \<and> (\<exists>dat. sl_encode L db = Some dat \<and> temp_has tmp (f_mode f) dat s))
      (call io sys_noop)
      (\<lambda>_ s. saving L path db f s \<and> (\<exists>dat. sl_encode L db = Some dat \<and> temp_has tmp (f_mode f) dat s))
      (saving L path db f)"
  proof (rule triple_call)
    fix s v d
    assume s: "saving L path db f s \<and> (\<exists>dat. sl_encode L db = Some dat \<and> temp_has tmp (f_mode f) dat s)"
      and "sys_noop (sys_now (advance io s)) = Ok (v, d)"
    then have d: "d = sys_now (advance io s)" by (simp add: sys_noop_def)
    have a: "saving L path db f (advance io s)"
        "\<exists>dat. sl_encode L db = Some dat \<and> temp_has tmp (f_mode f) dat (advance io s)"
      using s adv by blast+
    then show "saving L path db f (commit d (advance io s))
        \<and> (\<exists>dat. sl_encode L db = Some dat \<and> temp_has tmp (f_mode f) dat (commit d (advance io s)))"
      by (auto simp: d temp_has_def saving_def old_or_new_def)
  qed (use adv in blast)
  show ?thesis
    unfolding fill_temp_def
    by (intro triple_andthen[OF triple_or_fail[OF chmod]] triple_andthen[OF triple_or_fail[OF enc]]
        triple_andthen[OF triple_or_fail[OF noop]] triple_or_fail[OF noop])
qed

text \<open>Calls that do not change files keep what is said of the current state.\<close>

lemma triple_readonly:
  assumes "\<And>d v d'. c d = Ok (v, d') \<Longrightarrow> d' = d"
    and "\<And>s. A s \<Longrightarrow> B (advance io s)" and "\<And>s. A s \<Longrightarrow> E (advance io s)"
    and "\<And>s. B s \<Longrightarrow> B (commit (sys_now s) s)"
  shows "triple A (call io c) (\<lambda>_. B) E"
proof (rule triple_call)
  fix s v d
  assume "A s" and c: "c (sys_now (advance io s)) = Ok (v, d)"
  have "B (commit (sys_now (advance io s)) (advance io s))"
    by (rule assms(4)[OF assms(2)[OF \<open>A s\<close>]])
  then show "B (commit d (advance io s))" by (simp only: assms(1)[OF c])
qed (use assms in auto)

lemma FingerprintFile_readonly: "FingerprintFile sha p d = Ok (v, d') \<Longrightarrow> d' = d"
  by (auto simp: FingerprintFile_def split: option.splits)

lemma sys_noop_readonly: "sys_noop d = Ok (v, d') \<Longrightarrow> d' = d"
  by (auto simp: sys_noop_def)

lemma triple_check_unchanged:
  assumes "\<And>s. A s \<Longrightarrow> A (advance io s)" "\<And>s. A s \<Longrightarrow> A (commit (sys_now s) s)" "\<And>s. A s \<Longrightarrow> E s"
  shows "triple A (check_unchanged L io path expected e1 e2) (\<lambda>_. A) E"
proof -
  have "triple A (call io (FingerprintFile (sl_sha256 L) path)) (\<lambda>_. A) E"
    using assms by (intro triple_readonly FingerprintFile_readonly) auto
  moreover have "triple A (if \<not> Fingerprint_Equal expected v then fail_io e2 else return_io ()) (\<lambda>_. A) E" for v
    using assms(3) by (auto intro: triple_fail triple_return)
  ultimately show ?thesis
    unfolding check_unchanged_def by (intro triple_andthen[OF triple_or_fail])
qed

lemma saved_advance: "leaves io N \<Longrightarrow> path \<in> N \<Longrightarrow> saved L path db f s \<Longrightarrow> saved L path db f (advance io s)"
  by (auto simp: saved_def old_or_new_def new_version_def leavesD)

lemma saved_commit:
  "saved L path db f s \<Longrightarrow> fs_files d path = fs_files (sys_now s) path \<Longrightarrow> saved L path db f (commit d s)"
  by (auto simp: saved_def old_or_new_def new_version_def)

lemma triple_publish_temp:
  assumes "leaves io N" "path \<in> N" "tmp \<in> N" "tmp \<noteq> path"
  shows "triple (\<lambda>s. saving L path db f s \<and> (\<exists>dat. sl_encode L db = Some dat \<and> temp_has tmp (f_mode f) dat s))
           (publish_temp L io path tmp expected) (\<lambda>_. saved L path db f) (saving L path db f)"
proof -
  let ?A = "\<lambda>s. saving L path db f s \<and> (\<exists>dat. sl_encode L db = Some dat \<and> temp_has tmp (f_mode f) dat s)"
  note adv = saving_advance[OF assms(1,2)] temp_has_advance[OF assms(1,3)]
  have check: "triple ?A (check_unchanged L io path expected FingerprintBeforeRename ChangedDuringSave)
      (\<lambda>_. ?A) (saving L path db f)"
    using adv by (intro triple_check_unchanged) (blast, auto simp: saving_def old_or_new_def temp_has_def)
  have rename: "triple ?A (call io (sys_rename tmp path)) (\<lambda>_. saved L path db f) (saving L path db f)"
  proof (rule triple_call)
    fix s v d
    assume s: "?A s" and c: "sys_rename tmp path (sys_now (advance io s)) = Ok (v, d)"
    let ?s = "advance io s"
    have a: "saving L path db f ?s" "\<exists>dat. sl_encode L db = Some dat \<and> temp_has tmp (f_mode f) dat ?s"
      using s adv by blast+
    then obtain h where h: "fs_files (sys_now ?s) tmp = Some h" "f_mode h = f_mode f" "sl_encode L db = Some (f_data h)"
      by (auto simp: temp_has_def)
    have "fs_files d path = Some (h\<lparr>f_ctime := fs_clock (sys_now ?s)\<rparr>)"
      using c h(1) by (auto simp: sys_rename_def)
    then have "new_version L path db (f_mode f) d"
      using h by (simp add: new_version_def)
    then show "saved L path db f (commit d ?s)"
      using a(1) by (simp add: saved_def saving_def old_or_new_def)
  qed (use adv in blast)
  have sync: "triple (saved L path db f) (try_io (call io sys_noop)) (\<lambda>_. saved L path db f) E" for E :: "sys \<Rightarrow> bool"
    by (rule triple_try, rule triple_readonly[OF sys_noop_readonly])
      (simp_all add: saved_advance[OF assms(1,2)] saved_commit)
  show ?thesis
    unfolding publish_temp_def
    by (intro triple_andthen[OF check] triple_andthen[OF triple_or_fail[OF rename]] triple_andthen[OF sync]
        triple_return)
qed

lemma remove_other:
  "sys_remove tmp d = Ok (v, d') \<Longrightarrow> path \<noteq> tmp \<Longrightarrow> fs_files d' path = fs_files d path"
  by (auto simp: sys_remove_def split: option.splits)

lemma triple_remove_temp:
  assumes "leaves io N" "path \<in> N" "tmp \<noteq> path"
  shows "triple (saving L path db f) (call io (sys_remove tmp)) (\<lambda>_. saving L path db f) (saving L path db f)"
    and "triple (saved L path db f) (call io (sys_remove tmp)) (\<lambda>_. saved L path db f) (saved L path db f)"
  using assms
  by (auto intro!: triple_call saved_advance[OF assms(1,2)] saving_advance[OF assms(1,2)] saved_commit saving_commit
      simp: remove_other saving_def leavesD)

definition save_names :: "save_lib \<Rightarrow> string \<Rightarrow> string set" where
  "save_names L path = insert path (range (sl_temp_name L path))"

lemma triple_atomicEncode:
  assumes "leaves io (save_names L path)"
  shows "triple (saving L path db f) (atomicEncode L io short path db expected)
           (\<lambda>_. saved L path db f) (saving L path db f)"
proof -
  have path: "path \<in> save_names L path" by (simp add: save_names_def)
  note adv = saving_advance[OF assms path]
  have stat: "triple (saving L path db f) (call io (sys_stat path))
      (\<lambda>info s. info = f \<and> saving L path db f s) (saving L path db f)"
  proof (rule triple_call)
    fix s v d
    assume s: "saving L path db f s" and c: "sys_stat path (sys_now (advance io s)) = Ok (v, d)"
    from adv[OF s] have "fs_files (sys_now (advance io s)) path = Some f" by (simp add: saving_def)
    with c have "v = f" "d = sys_now (advance io s)" by (simp_all add: sys_stat_def)
    then show "v = f \<and> saving L path db f (commit d (advance io s))"
      using saving_commit[OF adv[OF s]] \<open>fs_files (sys_now (advance io s)) path = Some f\<close> by simp
  qed (rule adv)
  have create: "triple (\<lambda>s. info = f \<and> saving L path db f s) (call io (sys_create_temp L path))
      (\<lambda>tmp s. info = f \<and> tmp \<in> save_names L path \<and> tmp \<noteq> path \<and> saving L path db f s \<and> temp_has tmp mode_private_file [] s)
      (saving L path db f)" for info
  proof (rule triple_call)
    fix s tmp d
    assume s: "info = f \<and> saving L path db f s"
      and c: "sys_create_temp L path (sys_now (advance io s)) = Ok (tmp, d)"
    have a: "saving L path db f (advance io s)" using s adv by blast
    then have "fs_files (sys_now (advance io s)) path = Some f" by (simp add: saving_def)
    with c have "tmp \<noteq> path" "tmp \<in> save_names L path" "fs_files d path = Some f"
        "fs_files d tmp = Some (new_file (sys_now (advance io s)) mode_private_file [])"
      by (auto simp: sys_create_temp_def sys_open_excl_def Let_def save_names_def split: sum.splits option.splits)
    then show "info = f \<and> tmp \<in> save_names L path \<and> tmp \<noteq> path \<and> saving L path db f (commit d (advance io s))
        \<and> temp_has tmp mode_private_file [] (commit d (advance io s))"
      using s a by (simp add: saving_commit temp_has_def new_file_def)
  qed (use adv in blast)
  have body: "triple (\<lambda>s. info = f \<and> tmp \<in> save_names L path \<and> tmp \<noteq> path \<and> saving L path db f s
          \<and> temp_has tmp mode_private_file [] s)
      (deferring (call io (sys_remove tmp))
        (andthen (fill_temp L io short tmp (f_mode info) db) (\<lambda>_. publish_temp L io path tmp expected)))
      (\<lambda>_. saved L path db f) (saving L path db f)" for info tmp
  proof (cases "info = f \<and> tmp \<in> save_names L path \<and> tmp \<noteq> path")
    case True
    then have t: "tmp \<in> save_names L path" "tmp \<noteq> path" and i: "info = f" by blast+
    show ?thesis
      unfolding i
      by (rule triple_conseq[OF triple_deferring[OF triple_andthen[OF triple_fill_temp[OF assms path t]
              triple_publish_temp[OF assms path t]] triple_remove_temp(2)[OF assms path t(2)]
            triple_remove_temp(1)[OF assms path t(2)]]]) auto
  next
    case False
    then show ?thesis by (auto intro: tripleI)
  qed
  show ?thesis
    unfolding atomicEncode_def
    by (intro triple_andthen[OF triple_or_fail[OF stat]] triple_andthen[OF triple_or_fail[OF create]] body)
qed

lemma saving_start: "fs_files d path = Some f \<Longrightarrow> saving L path db f (sys_start d)"
  by (simp add: saving_def old_or_new_def) (simp add: sys_start_def)

lemma triple_saving_check:
  assumes "leaves io (save_names L path)"
  shows "triple (saving L path db f) (check_unchanged L io path expected e1 e2) (\<lambda>_. saving L path db f) (saving L path db f)"
proof (rule triple_check_unchanged)
  show "saving L path db f s \<Longrightarrow> saving L path db f (advance io s)" for s
    by (rule saving_advance[OF assms]) (simp_all add: save_names_def)
  show "saving L path db f s \<Longrightarrow> saving L path db f (commit (sys_now s) s)" for s
    by (rule saving_commit) (simp_all add: saving_def)
qed

lemma saveLocked_states:
  assumes "leaves io (save_names L (od_path od))"
    and "saving L (od_path od) (snd (sl_lock_entries L db)) f s"
    and "saveLocked L io short db od s = (err, od', s')"
  shows "always (old_or_new L (od_path od) (snd (sl_lock_entries L db)) f) s'"
    and "err = None \<Longrightarrow> new_version L (od_path od) (snd (sl_lock_entries L db)) (f_mode f) (sys_now s')
           \<and> (\<exists>g. fs_files (sys_now s') (od_path od) = Some g \<and> od_fingerprint od' = fingerprint_file (sl_sha256 L) g)"
    and "err \<noteq> None \<Longrightarrow> err \<noteq> Some UnlockEntriesFailed \<Longrightarrow> err \<noteq> Some FingerprintAfterSave \<Longrightarrow>
           fs_files (sys_now s') (od_path od) = Some f"
proof -
  let ?p = "od_path od" and ?db = "snd (sl_lock_entries L db)"
  have path: "?p \<in> save_names L ?p" by (simp add: save_names_def)
  note check = triple_saving_check[OF assms(1), of ?db f "od_fingerprint od" FingerprintBeforeSave RefusedSave]
  note enc = triple_atomicEncode[OF assms(1), of ?db f short "od_fingerprint od"]
  have "always (old_or_new L ?p ?db f) s' \<and>
      (err = None \<longrightarrow> new_version L ?p ?db (f_mode f) (sys_now s') \<and>
         (\<exists>g. fs_files (sys_now s') ?p = Some g \<and> od_fingerprint od' = fingerprint_file (sl_sha256 L) g)) \<and>
      (err \<noteq> None \<longrightarrow> err \<noteq> Some UnlockEntriesFailed \<longrightarrow> err \<noteq> Some FingerprintAfterSave \<longrightarrow>
         fs_files (sys_now s') ?p = Some f)"
  proof (cases "check_unchanged L io ?p (od_fingerprint od) FingerprintBeforeSave RefusedSave s")
    case (Pair r s1)
    show ?thesis
    proof (cases r)
      case (Inl e)
      then have "saving L ?p ?db f s1" using tripleD(2)[OF check assms(2)] Pair by blast
      then show ?thesis using assms(3) Pair Inl by (auto simp: saveLocked_def saving_def)
    next
      case (Inr u)
      then have s1: "saving L ?p ?db f s1" using tripleD(1)[OF check assms(2)] Pair by blast
      obtain ok db1 where lock: "sl_lock_entries L db = (ok, db1)" by fastforce
      show ?thesis
      proof (cases ok)
        case False
        then show ?thesis using assms(3) Pair Inr lock s1 by (auto simp: saveLocked_def saving_def)
      next
        case True
        obtain r2 s2 where a: "atomicEncode L io short ?p db1 (od_fingerprint od) s1 = (r2, s2)" by fastforce
        have db1: "?db = db1" using lock by simp
        show ?thesis
        proof (cases r2)
          case Inl2: (Inl e)
          then have "saving L ?p ?db f s2" using tripleD(2)[OF enc s1] a db1 by blast
          then show ?thesis using assms(3) Pair Inr lock True a Inl2 by (auto simp: saveLocked_def saving_def)
        next
          case Inr2: (Inr u2)
          then have s2: "saved L ?p ?db f s2" using tripleD(1)[OF enc s1] a db1 by blast
          then have s3: "saved L ?p ?db f (advance io s2)" using saved_advance[OF assms(1) path] by blast
          obtain ok2 db2 where unlock: "sl_unlock_entries L db1 = (ok2, db2)" by fastforce
          show ?thesis
          proof (cases ok2)
            case False
            then show ?thesis using assms(3) Pair Inr lock True a Inr2 unlock s2 by (auto simp: saveLocked_def saved_def)
          next
            case ok2: True
            show ?thesis
              using assms(3) Pair Inr lock True a Inr2 unlock s3 ok2
              by (auto simp: saveLocked_def saved_def call_def FingerprintFile_def Let_def new_version_def
                  split: if_splits option.splits)
          qed
        qed
      qed
    qed
  qed
  then show "always (old_or_new L ?p ?db f) s'"
    and "err = None \<Longrightarrow> new_version L ?p ?db (f_mode f) (sys_now s')
           \<and> (\<exists>g. fs_files (sys_now s') ?p = Some g \<and> od_fingerprint od' = fingerprint_file (sl_sha256 L) g)"
    and "err \<noteq> None \<Longrightarrow> err \<noteq> Some UnlockEntriesFailed \<Longrightarrow> err \<noteq> Some FingerprintAfterSave \<Longrightarrow>
           fs_files (sys_now s') ?p = Some f"
    by blast+
qed

text \<open>What a run of \<open>UpdateAndSave\<close> that reaches the save does.\<close>

lemma UpdateAndSave_cases:
  assumes "UpdateAndSave L io short rnd mutate od s = (err, od', s')" "od_db od = Some db"
  obtains (locked) "err = Some (SaveError DatabaseLocked)" "od' = od" "s' = s"
  | (refused) e where "check_unchanged L io (od_path od) (od_fingerprint od) FingerprintBeforeUpdate RefusedUpdate s
        = (Inl e, s')" "err = Some (SaveError e)" "od' = od"
  | (mutation) e where "check_unchanged L io (od_path od) (od_fingerprint od) FingerprintBeforeUpdate RefusedUpdate s
        = (Inr (), s')" "err = Some (MutateError e)" "mutate db = (Some e, snd (mutate db))"
        "od' = od\<lparr>od_db := Some (snd (mutate db))\<rparr>"
  | (saving) e od1 s1 where "check_unchanged L io (od_path od) (od_fingerprint od) FingerprintBeforeUpdate RefusedUpdate s
        = (Inr (), s1)" "fst (mutate db) = None" "saveLocked L io short (snd (mutate db)) od s1 = (e, od1, s')"
        "err = map_option SaveError e" "od_locked od = False"
        "od' = (if e = None then od1 else restore_root (map_option (cloneRootData rnd) (root_of db)) od1)"
proof (cases "od_locked od \<or> db_content db = None")
  case True
  with assms have "(err, od', s') = (Some (SaveError DatabaseLocked), od, s)"
    by (simp add: UpdateAndSave_def)
  then show ?thesis using locked by simp
next
  case False
  obtain r s1 where check: "check_unchanged L io (od_path od) (od_fingerprint od) FingerprintBeforeUpdate RefusedUpdate s
      = (r, s1)" by fastforce
  obtain m db' where m: "mutate db = (m, db')" by fastforce
  show ?thesis
  proof (cases r)
    case (Inl e)
    with assms False check have "(err, od', s') = (Some (SaveError e), od, s1)"
      by (simp add: UpdateAndSave_def)
    then show ?thesis using refused[of e] check Inl by simp
  next
    case (Inr u)
    show ?thesis
    proof (cases m)
      case (Some e)
      with assms False check Inr m have "(err, od', s') = (Some (MutateError e), od\<lparr>od_db := Some db'\<rparr>, s1)"
        by (simp add: UpdateAndSave_def)
      then show ?thesis using mutation[of e] check Inr m Some by simp
    next
      case None
      obtain e od1 s2 where sv: "saveLocked L io short db' od s1 = (e, od1, s2)" by (metis prod_cases3)
      have "(err, od', s') = (map_option SaveError e,
          if e = None then od1 else restore_root (map_option (cloneRootData rnd) (root_of db)) od1, s2)"
        using assms False check Inr m None sv by (cases e) (simp_all add: UpdateAndSave_def)
      then show ?thesis using saving[of s1 e od1] check Inr m None sv False by simp
    qed
  qed
qed

section \<open>Properties of saving\<close>

text \<open>C1. Crash safety: while \<open>UpdateAndSave\<close> runs, whatever system calls fail and whatever
  other processes do to other files, at every moment the database file is the complete old
  file or the complete encoding of the updated database with the old permissions. After a
  success it is the new one and the remembered fingerprint is that of a file with the
  same name, so the next update is not refused.\<close>

theorem update_crash_safe:
  assumes "leaves io (save_names L (od_path od))" and "od_db od = Some db"
    and "fs_files d (od_path od) = Some f"
    and "UpdateAndSave L io short rnd mutate od (sys_start d) = (err, od', s')"
  shows "always (old_or_new L (od_path od) (snd (sl_lock_entries L (snd (mutate db)))) f) s'
         \<and> (err = None \<longrightarrow>
              new_version L (od_path od) (snd (sl_lock_entries L (snd (mutate db)))) (f_mode f) (sys_now s')
              \<and> (\<exists>g. fs_files (sys_now s') (od_path od) = Some g
                    \<and> od_fingerprint od' = fingerprint_file (sl_sha256 L) g))"
proof -
  let ?db = "snd (sl_lock_entries L (snd (mutate db)))"
  have start: "saving L (od_path od) ?db f (sys_start d)"
    by (rule saving_start[OF assms(3)])
  note check = triple_saving_check[OF assms(1), of ?db f "od_fingerprint od" FingerprintBeforeUpdate RefusedUpdate]
  from assms(4,2) show ?thesis
  proof (cases rule: UpdateAndSave_cases)
    case locked
    then show ?thesis using start by (simp add: saving_def)
  next
    case (refused e)
    then show ?thesis using tripleD(2)[OF check start] by (auto simp: saving_def)
  next
    case (mutation e)
    then show ?thesis using tripleD(1)[OF check start] by (auto simp: saving_def)
  next
    case (saving e od1 s1)
    from tripleD(1)[OF check start saving(1)] have s1: "saving L (od_path od) ?db f s1" .
    from saveLocked_states[OF assms(1) s1 saving(3)] show ?thesis
      using saving(4,6) by (cases e) auto
  qed
qed

lemma saveLocked_db:
  assumes "saveLocked L io short db od s = (e, od', s')"
  shows "\<exists>db'. od_db od' = Some db' \<and> db' \<in> {db, snd (sl_lock_entries L db),
           snd (sl_unlock_entries L (snd (sl_lock_entries L db)))}"
  using assms
  by (auto simp: saveLocked_def split: prod.splits sum.splits bool.splits)

text \<open>A concrete library and database for the runs below.\<close>

definition sample_save_lib :: save_lib where
  "sample_save_lib =
     \<lparr>sl_sha256 = \<lambda>b. take 32 (b @ replicate 32 0), sl_lock_entries = \<lambda>db. (True, db),
      sl_unlock_entries = \<lambda>db. (True, db), sl_encode = \<lambda>_. Some [1, 2], sl_temp_name = \<lambda>_ _. ''/t''\<rparr>"

definition sample_file :: disk_file where
  "sample_file = \<lparr>f_dev = 1, f_ino = 1, f_mtime = 0, f_ctime = 0, f_mode = 384, f_data = [9]\<rparr>"

definition sample_disk :: fs where
  "sample_disk = \<lparr>fs_files = [''/d'' \<mapsto> sample_file], fs_dirs = Map.empty, fs_clock = 5, fs_next_ino = 2\<rparr>"

definition sample_root :: root_data where
  "sample_root = \<lparr>r_groups = [Group \<lparr>g_uuid = 1, g_name = ''Root'', g_notes = [], g_last_top_visible_entry = [],
     g_times = \<lparr>creation_time = None, last_modification_time = None, last_access_time = None\<rparr>\<rparr> [] []], r_deleted = []\<rparr>"

definition sample_database :: database where
  "sample_database = \<lparr>db_credentials = None, db_kdbx4 = True,
     db_content = Some \<lparr>c_raw = [], c_inner = None, c_meta = None, c_root = Some sample_root\<rparr>\<rparr>"

definition sample_open :: open_database where
  "sample_open = \<lparr>od_uuid = ''u'', od_name = ''d'', od_path = ''/d'', od_locked = False, od_db = Some sample_database,
     od_fingerprint = fingerprint_file (sl_sha256 sample_save_lib) sample_file, od_watcher = None\<rparr>"

lemma sample_open_simps [simp]:
  "od_db sample_open = Some sample_database" "od_path sample_open = ''/d''"
  "fs_files sample_disk ''/d'' = Some sample_file" "leaves quiet N"
  "root_of sample_database = Some sample_root" "db_content sample_database \<noteq> None"
  by (simp_all add: sample_open_def sample_disk_def leaves_def root_of_def sample_database_def)

lemma update_crash_safe_witness:
  "\<exists>err od' s'. UpdateAndSave sample_save_lib quiet 0 (\<lambda>n. word_of_nat n) (\<lambda>db. (None :: unit option, db))
       sample_open (sys_start sample_disk) = (err, od', s')
     \<and> always (old_or_new sample_save_lib ''/d'' sample_database sample_file) s'"
proof -
  obtain err od' s' where run: "UpdateAndSave sample_save_lib quiet 0 (\<lambda>n. word_of_nat n) (\<lambda>db. (None :: unit option, db))
      sample_open (sys_start sample_disk) = (err, od', s')" by (metis prod_cases3)
  have "leaves quiet (save_names sample_save_lib (od_path sample_open))" by simp
  from update_crash_safe[OF this _ _ run] run show ?thesis
    by (auto simp: sample_save_lib_def)
qed

text \<open>Another process replaces the file at the moment of the j-th system call.\<close>

definition intrudes :: "io \<Rightarrow> nat \<Rightarrow> string \<Rightarrow> disk_file \<Rightarrow> bool" where
  "intrudes io j path g \<longleftrightarrow>
     (\<forall>k d. fs_files (io_world io k d) path = (if k = j then Some g else fs_files d path))"

definition contested :: "string \<Rightarrow> disk_file \<Rightarrow> disk_file \<Rightarrow> nat \<Rightarrow> sys \<Rightarrow> bool" where
  "contested path f g j s \<longleftrightarrow>
     always (\<lambda>d. fs_files d path = Some f \<or> fs_files d path = Some g) s
     \<and> fs_files (sys_now s) path = (if j < sys_calls s then Some g else Some f)"

lemma contested_advance: "intrudes io j path g \<Longrightarrow> contested path f g j s \<Longrightarrow> contested path f g j (advance io s)"
  by (auto simp: contested_def intrudes_def)

lemma contested_commit:
  "contested path f g j s \<Longrightarrow> fs_files d path = fs_files (sys_now s) path \<Longrightarrow> contested path f g j (commit d s)"
  by (auto simp: contested_def)

definition contested_at :: "string \<Rightarrow> disk_file \<Rightarrow> disk_file \<Rightarrow> nat \<Rightarrow> nat \<Rightarrow> sys \<Rightarrow> bool" where
  "contested_at path f g j n s \<longleftrightarrow> contested path f g j s \<and> sys_calls s = n"

lemma triple_contested:
  assumes "intrudes io j path g" "\<And>d v d'. fs_files d path \<noteq> None \<Longrightarrow> c d = Ok (v, d') \<Longrightarrow> fs_files d' path = fs_files d path \<and> Q v"
  shows "triple (contested_at path f g j n) (call io c) (\<lambda>v s. Q v \<and> contested_at path f g j (Suc n) s) (contested path f g j)"
proof (rule triple_call)
  fix s assume s: "contested_at path f g j n s"
  then have a: "contested path f g j (advance io s)" "sys_calls s = n"
    using contested_advance[OF assms(1)] by (simp_all add: contested_at_def)
  show "contested path f g j (advance io s)" by (rule a(1))
  fix v d assume c: "c (sys_now (advance io s)) = Ok (v, d)"
  have "fs_files (sys_now (advance io s)) path \<noteq> None"
    using a(1) by (auto simp: contested_def split: if_splits)
  from assms(2)[OF this c] a show "Q v \<and> contested_at path f g j (Suc n) (commit d (advance io s))"
    by (simp add: contested_at_def contested_commit)
qed

lemma triple_contested_write:
  assumes "intrudes io j path g" "tmp \<noteq> path"
  shows "triple (contested_at path f g j n) (encode_to L io short tmp db)
           (\<lambda>_. contested_at path f g j (Suc n)) (contested path f g j)"
proof (cases "sl_encode L db")
  case None
  then show ?thesis
    by (auto intro!: tripleI simp: encode_to_def fail_io_def contested_at_def)
next
  case (Some dat)
  show ?thesis
  proof (rule tripleI)
    fix s assume s: "contested_at path f g j n s"
    then have a: "contested path f g j (advance io s)" "sys_calls s = n"
      using contested_advance[OF assms(1)] by (simp_all add: contested_at_def)
    have adv_io: "advance (io\<lparr>io_fails := x\<rparr>) s = advance io s" for x
      by (simp add: advance_def)
    have w: "sys_write tmp x d = Ok (v, d') \<Longrightarrow> fs_files d' path = fs_files d path" for x d v d'
      using assms(2) by (auto simp: sys_write_def split: option.splits)
    show "case encode_to L io short tmp db s of (Inl _, s') \<Rightarrow> contested path f g j s'
          | (Inr v, s') \<Rightarrow> contested_at path f g j (Suc n) s'"
      using Some a by (auto simp: encode_to_def write_data_def call_def adv_io Let_def contested_at_def
          split: sum.splits intro!: contested_commit dest: w)
  qed
qed

lemma triple_contested_check:
  assumes "intrudes io j path g" "fingerprint_file (sl_sha256 L) g \<noteq> expected"
  shows "triple (contested_at path f g j n) (check_unchanged L io path expected e1 e2)
           (\<lambda>_ s. n < j \<and> contested_at path f g j (Suc n) s) (contested path f g j)"
proof (rule tripleI)
  fix s assume s: "contested_at path f g j n s"
  then have a: "contested path f g j (advance io s)" "sys_calls s = n"
    using contested_advance[OF assms(1)] by (simp_all add: contested_at_def)
  then have "contested path f g j (commit (sys_now (advance io s)) (advance io s))"
    by (rule_tac contested_commit) simp_all
  then show "case check_unchanged L io path expected e1 e2 s of (Inl _, s') \<Rightarrow> contested path f g j s'
        | (Inr v, s') \<Rightarrow> n < j \<and> contested_at path f g j (Suc n) s'"
    using a assms(2)
    by (auto simp: check_unchanged_def andthen_def or_fail_def call_def FingerprintFile_def fail_io_def return_io_def
        contested_at_def contested_def[of _ _ _ _ "advance io s"] Let_def split: option.splits if_splits)
qed

lemma triple_contested_atomicEncode:
  assumes "intrudes io j path g" "fingerprint_file (sl_sha256 L) g \<noteq> expected" "j \<le> n + 6"
  shows "triple (contested_at path f g j n) (atomicEncode L io short path db expected)
           (\<lambda>_ _. False) (contested path f g j)"
proof -
  note adv = contested_advance[OF assms(1)]
  note step = triple_contested[OF assms(1), of _ "\<lambda>_. True", simplified]
  have stat: "triple (contested_at path f g j n) (call io (sys_stat path)) (\<lambda>_. contested_at path f g j (Suc n)) (contested path f g j)"
    by (rule step) (auto simp: sys_stat_def split: option.splits)
  have create: "triple (contested_at path f g j (Suc n)) (call io (sys_create_temp L path))
      (\<lambda>tmp s. tmp \<noteq> path \<and> contested_at path f g j (n + 2) s) (contested path f g j)"
  proof -
    have "fs_files d path \<noteq> None \<Longrightarrow> sys_create_temp L path d = Ok (v, d') \<Longrightarrow>
        fs_files d' path = fs_files d path \<and> v \<noteq> path" for d v d'
      by (auto simp: sys_create_temp_def sys_open_excl_def Let_def split: option.splits)
    from triple_contested[OF assms(1) this] show ?thesis by simp
  qed
  have "triple (\<lambda>s. tmp \<noteq> path \<and> contested_at path f g j (n + 2) s)
      (deferring (call io (sys_remove tmp))
        (andthen (fill_temp L io short tmp mode db) (\<lambda>_. publish_temp L io path tmp expected)))
      (\<lambda>_ _. False) (contested path f g j)" for tmp mode
  proof (cases "tmp = path")
    case False
    have chmod: "triple (contested_at path f g j (n + 2)) (call io (sys_chmod tmp mode))
        (\<lambda>_. contested_at path f g j (Suc (n + 2))) (contested path f g j)"
      by (rule step) (use False in \<open>auto simp: sys_chmod_def split: option.splits\<close>)
    have noop: "triple (contested_at path f g j k) (call io sys_noop) (\<lambda>_. contested_at path f g j (Suc k)) (contested path f g j)" for k
      by (rule step) (auto simp: sys_noop_def)
    have fill: "triple (contested_at path f g j (n + 2)) (fill_temp L io short tmp mode db)
        (\<lambda>_. contested_at path f g j (Suc (Suc (Suc (Suc (n + 2)))))) (contested path f g j)"
      unfolding fill_temp_def
      by (intro triple_andthen[OF triple_or_fail[OF chmod]] triple_andthen[OF triple_or_fail[OF noop]]
          triple_andthen[OF triple_or_fail[OF triple_contested_write[OF assms(1) False]]] triple_or_fail[OF noop])
    have check: "triple (contested_at path f g j (Suc (Suc (Suc (Suc (n + 2))))))
        (check_unchanged L io path expected FingerprintBeforeRename ChangedDuringSave)
        (\<lambda>_ _. False) (contested path f g j)"
      by (rule triple_conseq[OF triple_contested_check[OF assms(1,2)]]) (use assms(3) in auto)
    have nothing: "triple (\<lambda>_. False) p B E" for p :: "(save_error, unit) prog" and B E
      by (simp add: triple_def)
    have remove: "triple (contested path f g j) (call io (sys_remove tmp)) (\<lambda>_. contested path f g j) (contested path f g j)"
      by (rule triple_call) (use adv False in \<open>auto intro!: contested_commit simp: remove_other\<close>)
    show ?thesis
      unfolding publish_temp_def
      by (rule triple_conseq[OF triple_deferring[OF triple_andthen[OF fill triple_andthen[OF check nothing]]]])
        (use remove in \<open>auto simp: triple_def\<close>)
  qed (simp add: triple_def)
  then show ?thesis
    unfolding atomicEncode_def
    by (intro triple_andthen[OF triple_or_fail[OF stat]] triple_andthen[OF triple_or_fail[OF create]])
qed

text \<open>C2. No lost update: when another process replaces the file with one of a different
  fingerprint at any moment up to the last check (the ninth system call), the update is
  refused, and the file is at every moment the original or the other process's, never
  this one's.\<close>

theorem foreign_change_survives:
  assumes "intrudes io j (od_path od) g" and "j \<le> 8"
    and "fingerprint_file (sl_sha256 L) g \<noteq> od_fingerprint od"
    and "od_db od = Some db" and "fs_files d (od_path od) = Some f"
    and "UpdateAndSave L io short rnd mutate od (sys_start d) = (err, od', s')"
  shows "err \<noteq> None
         \<and> always (\<lambda>d. fs_files d (od_path od) = Some f \<or> fs_files d (od_path od) = Some g) s'"
proof -
  let ?p = "od_path od"
  have start: "contested_at ?p f g j 0 (sys_start d)"
    using assms(5) by (simp add: contested_at_def contested_def) (simp add: sys_start_def)
  note check = triple_contested_check[OF assms(1,3)]
  from assms(6,4) show ?thesis
  proof (cases rule: UpdateAndSave_cases)
    case locked
    then show ?thesis using start by (simp add: contested_at_def contested_def)
  next
    case (refused e)
    then show ?thesis using tripleD(2)[OF check start] by (auto simp: contested_def)
  next
    case (mutation e)
    then show ?thesis using tripleD(1)[OF check start] by (auto simp: contested_at_def contested_def)
  next
    case (saving e od1 s1)
    then have s1: "contested_at ?p f g j (Suc 0) s1" using tripleD(1)[OF check start] by blast
    have "e \<noteq> None \<and> contested ?p f g j s'"
    proof (cases "check_unchanged L io ?p (od_fingerprint od) FingerprintBeforeSave RefusedSave s1")
      case (Pair r s2)
      show ?thesis
      proof (cases r)
        case (Inl e2)
        then show ?thesis using saving(3) Pair tripleD(2)[OF check s1] by (auto simp: saveLocked_def)
      next
        case (Inr u)
        then have s2: "contested_at ?p f g j (Suc (Suc 0)) s2" using Pair tripleD(1)[OF check s1] by blast
        have j: "j \<le> Suc (Suc 0) + 6" using assms(2) by simp
        note enc = triple_contested_atomicEncode[OF assms(1,3) j, of f short]
        obtain ok db1 where lock: "sl_lock_entries L (snd (mutate db)) = (ok, db1)" by fastforce
        show ?thesis
        proof (cases ok)
          case False
          then show ?thesis using saving(3) Pair Inr lock s2 by (auto simp: saveLocked_def contested_at_def)
        next
          case True
          obtain r3 s3 where a: "atomicEncode L io short ?p db1 (od_fingerprint od) s2 = (r3, s3)" by fastforce
          then obtain e3 where e3: "r3 = Inl e3" using tripleD(1)[OF enc s2] by (cases r3) auto
          then have "contested ?p f g j s3" using tripleD(2)[OF enc s2] a by blast
          then show ?thesis using saving(3) Pair Inr lock True a e3 by (auto simp: saveLocked_def)
        qed
      qed
    qed
    then show ?thesis using saving(4) by (auto simp: contested_def)
  qed
qed

lemma foreign_change_survives_witness:
  "\<exists>err od' s'. UpdateAndSave sample_save_lib
       \<lparr>io_world = \<lambda>k d. if k = 8 then set_file ''/d'' (sample_file\<lparr>f_data := [7]\<rparr>) d else d, io_fails = \<lambda>_. False\<rparr>
       0 (\<lambda>n. word_of_nat n) (\<lambda>db. (None :: unit option, db)) sample_open (sys_start sample_disk) = (err, od', s')
     \<and> err \<noteq> None"
proof -
  let ?io = "\<lparr>io_world = \<lambda>k d. if k = 8 then set_file ''/d'' (sample_file\<lparr>f_data := [7]\<rparr>) d else d, io_fails = \<lambda>_ :: nat. False\<rparr>"
  obtain x where x: "UpdateAndSave sample_save_lib ?io 0 (\<lambda>n. word_of_nat n) (\<lambda>db. (None :: unit option, db))
      sample_open (sys_start sample_disk) = x" by blast
  obtain err od' s' where "x = (err, od', s')" by (cases x)
  note run = x[unfolded this]
  have i: "intrudes ?io 8 (od_path sample_open) (sample_file\<lparr>f_data := [7]\<rparr>)"
    by (simp add: intrudes_def)
  have fp: "fingerprint_file (sl_sha256 sample_save_lib) (sample_file\<lparr>f_data := [7]\<rparr>) \<noteq> od_fingerprint sample_open"
    by (simp add: fingerprint_file_def sample_open_def sample_save_lib_def sample_file_def hex_digit_inj)
  have present: "fs_files sample_disk (od_path sample_open) = Some sample_file" by simp
  have "err \<noteq> None"
    using foreign_change_survives[OF i order.refl fp sample_open_simps(1) present run] by (rule conjunct1)
  with run show ?thesis by blast
qed

text \<open>C35. A failed save rolls the memory back: after an error of the save, either nothing in
  memory was touched, or the root is the copy taken before the mutation, which equals the
  original in everything except the identifiers of groups and entries. Those are drawn
  anew, so they are not the identifiers clients knew.\<close>

theorem failed_save_rolls_back:
  assumes "UpdateAndSave L io short rnd mutate od s = (Some (SaveError e), od', s')"
    and "od_db od = Some db" and "root_of db = Some root"
    and "db_content (snd (mutate db)) \<noteq> None"
    and "\<And>x. db_content x \<noteq> None \<Longrightarrow> db_content (snd (sl_lock_entries L x)) \<noteq> None"
    and "\<And>x. db_content x \<noteq> None \<Longrightarrow> db_content (snd (sl_unlock_entries L x)) \<noteq> None"
  shows "\<exists>db' root'. od_db od' = Some db' \<and> root_of db' = Some root'
           \<and> erase_groups (r_groups root') = erase_groups (r_groups root) \<and> r_deleted root' = r_deleted root
           \<and> (od' = od \<or> root' = cloneRootData rnd root)"
proof -
  have clone: "erase_groups (r_groups (cloneRootData rnd root)) = erase_groups (r_groups root)"
      "r_deleted (cloneRootData rnd root) = r_deleted root"
    by (simp_all add: cloneRootData_def clone_groups_erase)
  from assms(1,2) show ?thesis
  proof (cases rule: UpdateAndSave_cases)
    case (saving e' od1 s1)
    then obtain db1 where db1: "od_db od1 = Some db1" "db_content db1 \<noteq> None"
      using saveLocked_db[OF saving(3)] assms(4-6) by blast
    then obtain c where "db_content db1 = Some c" by blast
    moreover have "od' = restore_root (Some (cloneRootData rnd root)) od1"
      using saving(4,6) assms(3) by (cases e') auto
    ultimately show ?thesis
      using db1(1) clone by (simp add: restore_root_def with_root_def root_of_def)
  qed (use assms(2,3) in auto)
qed

lemma failed_save_rolls_back_witness:
  "\<exists>od' s' db'. UpdateAndSave (sample_save_lib\<lparr>sl_lock_entries := \<lambda>db. (False, db)\<rparr>) quiet 0 (\<lambda>n. 77)
       (\<lambda>db. (None :: unit option, db)) sample_open (sys_start sample_disk) = (Some (SaveError LockEntriesFailed), od', s')
     \<and> od_db od' = Some db' \<and> map_option (erase_groups \<circ> r_groups) (root_of db') = Some (erase_groups (r_groups sample_root))"
proof -
  let ?L = "sample_save_lib\<lparr>sl_lock_entries := \<lambda>db. (False, db)\<rparr>"
  have ok: "check_unchanged ?L quiet ''/d'' (od_fingerprint sample_open) e1 e2 s = (Ok (), s')"
    if "call quiet (FingerprintFile (sl_sha256 ?L) ''/d'') s = (Ok (od_fingerprint sample_open), s')" for s s' e1 e2
    using that by (simp add: check_unchanged_def andthen_def or_fail_def return_io_def)
  have "\<exists>s'. call quiet (FingerprintFile (sl_sha256 ?L) ''/d'') s = (Ok (od_fingerprint sample_open), s')
          \<and> fs_files (sys_now s') ''/d'' = Some sample_file"
    if "fs_files (sys_now s) ''/d'' = Some sample_file" for s
    using that by (simp add: call_quiet FingerprintFile_def sample_open_def sample_save_lib_def)
  then obtain s1 s2 where
    s1: "call quiet (FingerprintFile (sl_sha256 ?L) ''/d'') (sys_start sample_disk) = (Ok (od_fingerprint sample_open), s1)" and
    s2: "call quiet (FingerprintFile (sl_sha256 ?L) ''/d'') s1 = (Ok (od_fingerprint sample_open), s2)"
    by (metis sample_open_simps(3) sys_start_def sys.select_convs(1))
  have "od_locked sample_open = False" by (simp add: sample_open_def)
  then obtain od' where run: "UpdateAndSave ?L quiet 0 (\<lambda>n. 77) (\<lambda>db. (None :: unit option, db)) sample_open (sys_start sample_disk)
      = (Some (SaveError LockEntriesFailed), od', s2)"
    using ok[OF s1] ok[OF s2] by (simp add: UpdateAndSave_def saveLocked_def)
  have "\<exists>db' root'. od_db od' = Some db' \<and> root_of db' = Some root'
      \<and> erase_groups (r_groups root') = erase_groups (r_groups sample_root) \<and> r_deleted root' = r_deleted sample_root
      \<and> (od' = sample_open \<or> root' = cloneRootData (\<lambda>n. 77) sample_root)"
    by (rule failed_save_rolls_back[OF run sample_open_simps(1) sample_open_simps(5)])
      (simp_all add: sample_save_lib_def)
  with run show ?thesis by auto
qed

section \<open>Creating never overwrites\<close>

lemma triple_EnsurePrivateDir:
  assumes "leaves io {path}"
  shows "triple (\<lambda>s. always (\<lambda>d. fs_files d path = x) s) (EnsurePrivateDir io dir)
           (\<lambda>_ s. always (\<lambda>d. fs_files d path = x) s) (\<lambda>s. always (\<lambda>d. fs_files d path = x) s)"
proof -
  have step: "triple (\<lambda>s. always (\<lambda>d. fs_files d path = x) s) (call io c)
      (\<lambda>_ s. always (\<lambda>d. fs_files d path = x) s) (\<lambda>s. always (\<lambda>d. fs_files d path = x) s)"
    if "\<And>d v d'. c d = Ok (v, d') \<Longrightarrow> fs_files d' path = fs_files d path" for c :: "unit syscall"
    using leavesD[OF assms] that by (intro triple_call) (auto simp: always_def)
  show ?thesis
    unfolding EnsurePrivateDir_def
    by (rule triple_andthen[OF step step])
      (auto simp: sys_mkdir_all_def sys_chmod_dir_def split: if_splits option.splits)
qed

text \<open>Creating a database never touches an existing file: when the path exists the
  creation fails and the file stays as it is at every moment; and when the creation
  succeeds, the file holds the complete encoding and is readable by its owner only.\<close>

theorem create_never_overwrites:
  assumes "leaves io {path}"
    and "CreateDatabase L io short new_db path pw (sys_start d) = (r, s')"
  shows "case fs_files d path of
           Some f \<Rightarrow> (\<exists>e. r = Err e) \<and> always (\<lambda>d. fs_files d path = Some f) s'
         | None \<Rightarrow> r = Ok () \<longrightarrow>
             (\<exists>g. fs_files (sys_now s') path = Some g \<and> f_mode g = mode_private_file
                  \<and> sl_encode L (named_default (new_db pw)) = Some (f_data g))"
proof -
  have start: "always (\<lambda>d'. fs_files d' path = fs_files d path) (sys_start d)" by simp
  note dir = triple_EnsurePrivateDir[OF assms(1), of "fs_files d path" "path_dir path"]
  note world = leavesD[OF assms(1), of path, simplified]
  obtain r1 s1 where e: "EnsurePrivateDir io (path_dir path) (sys_start d) = (r1, s1)" by fastforce
  have s1: "always (\<lambda>d'. fs_files d' path = fs_files d path) s1"
    using tripleD[OF dir start] e by (cases r1) blast+
  then have a1: "fs_files (sys_now (advance io s1)) path = fs_files d path"
    and a2: "always (\<lambda>d'. fs_files d' path = fs_files d path) (advance io s1)"
    using world by (simp_all add: always_def)
  show ?thesis
  proof (cases r1)
    case (Inl er)
    then show ?thesis
      using assms(2) e s1 by (auto simp: CreateDatabase_def andthen_def or_fail_def split: option.splits)
  next
    case (Inr u)
    show ?thesis
    proof (cases "fs_files d path")
      case (Some f)
      then show ?thesis
        using assms(2) e Inr a1 a2
        by (auto simp: CreateDatabase_def andthen_def or_fail_def try_io_def call_def sys_open_excl_def fail_io_def Let_def
            split: if_splits)
    next
      case None
      have adv_io: "advance (io\<lparr>io_fails := x\<rparr>) s = advance io s" for x s
        by (simp add: advance_def)
      show ?thesis
        using assms(2) e Inr a1 None
        by (auto simp: CreateDatabase_def andthen_def or_fail_def try_io_def call_def sys_open_excl_def fail_io_def
            encode_to_def write_data_def adv_io sys_write_def sys_noop_def new_file_def world Let_def
            split: if_splits option.splits sum.splits prod.splits)
    qed
  qed
qed

lemma create_never_overwrites_witness:
  "\<exists>r s'. CreateDatabase sample_save_lib quiet 0 (\<lambda>_. sample_database) ''/d'' [1] (sys_start sample_disk) = (r, s')
     \<and> (\<exists>e. r = Err e)"
proof -
  obtain x where x: "CreateDatabase sample_save_lib quiet 0 (\<lambda>_. sample_database) ''/d'' [1] (sys_start sample_disk) = x" by blast
  obtain r s' where "x = (r, s')" by (cases x)
  note run = x[unfolded this]
  have "leaves quiet {''/d''}" by simp
  from create_never_overwrites[OF this run] run show ?thesis by simp
qed

section \<open>An undisturbed update succeeds\<close>

lemma sys_eqI: "sys_now s = sys_now t \<Longrightarrow> sys_past s = sys_past t \<Longrightarrow> sys_calls s = sys_calls t \<Longrightarrow> s = (t :: sys)"
  by simp

lemma quiet_check:
  assumes "fs_files (sys_now s) p = Some f" "expected = fingerprint_file (sl_sha256 L) f"
  shows "\<exists>s'. check_unchanged L quiet p expected e1 e2 s = (Ok (), s') \<and> sys_now s' = sys_now s"
  using assms
  by (simp add: check_unchanged_def andthen_def or_fail_def call_quiet FingerprintFile_def return_io_def)

lemma quiet_fill:
  assumes "fs_files (sys_now s) tmp = Some g" "f_data g = []" "sl_encode L db = Some dat"
  shows "\<exists>s' f'. fill_temp L quiet short tmp mode db s = (Ok (), s')
           \<and> fs_files (sys_now s') = (fs_files (sys_now s))(tmp \<mapsto> f') \<and> f_data f' = dat \<and> f_mode f' = mode"
  using assms
  by (simp add: fill_temp_def encode_to_def write_data_def andthen_def or_fail_def call_quiet sys_call_defs set_file_def)
    (rule exI[of _ "g\<lparr>f_mode := mode, f_data := dat, f_mtime := fs_clock (sys_now s), f_ctime := fs_clock (sys_now s)\<rparr>"], simp)

lemma quiet_publish:
  assumes "fs_files (sys_now s) p = Some f" "expected = fingerprint_file (sl_sha256 L) f"
    and "fs_files (sys_now s) tmp = Some g" "tmp \<noteq> p"
  shows "\<exists>s' g'. publish_temp L quiet p tmp expected s = (Ok (), s')
           \<and> fs_files (sys_now s') = (fs_files (sys_now s))(tmp := None, p \<mapsto> g') \<and> f_data g' = f_data g \<and> f_mode g' = f_mode g"
proof -
  obtain s1 where s1: "check_unchanged L quiet p expected FingerprintBeforeRename ChangedDuringSave s = (Ok (), s1)"
    "sys_now s1 = sys_now s" using quiet_check[OF assms(1,2)] by blast
  with assms(3) show ?thesis
    by (auto simp: publish_temp_def andthen_def or_fail_def try_io_def return_io_def call_quiet sys_rename_def sys_noop_def)
qed

lemma quiet_atomicEncode:
  assumes "fs_files (sys_now s) p = Some f" "expected = fingerprint_file (sl_sha256 L) f"
    and "sl_encode L db = Some dat" "sl_temp_name L p (sys_now s) \<noteq> p"
    and "fs_files (sys_now s) (sl_temp_name L p (sys_now s)) = None"
  shows "\<exists>s' g. atomicEncode L quiet short p db expected s = (Ok (), s')
           \<and> fs_files (sys_now s') p = Some g \<and> f_data g = dat \<and> f_mode g = f_mode f"
proof -
  let ?tmp = "sl_temp_name L p (sys_now s)"
  obtain s1 where s1: "call quiet (sys_stat p) s = (Ok f, s1)" "sys_now s1 = sys_now s"
    using assms(1) by (simp add: call_quiet sys_stat_def)
  obtain s2 g0 where s2: "call quiet (sys_create_temp L p) s1 = (Ok ?tmp, s2)"
    "fs_files (sys_now s2) = (fs_files (sys_now s))(?tmp \<mapsto> g0)" "f_data g0 = []"
    using assms(5) s1(2)
    by (simp add: call_quiet sys_create_temp_def sys_open_excl_def set_file_def bump_ino_def new_file_def Let_def)
  have "fs_files (sys_now s2) ?tmp = Some g0" using s2(2) by simp
  from quiet_fill[OF this s2(3) assms(3), of short "f_mode f"] obtain s3 g1 where s3:
    "fill_temp L quiet short ?tmp (f_mode f) db s2 = (Ok (), s3)"
    "fs_files (sys_now s3) = (fs_files (sys_now s2))(?tmp \<mapsto> g1)" "f_data g1 = dat" "f_mode g1 = f_mode f" by blast
  have at3: "fs_files (sys_now s3) p = Some f" "fs_files (sys_now s3) ?tmp = Some g1"
    using s3(2) s2(2) assms(1,4) by auto
  from quiet_publish[OF at3(1) assms(2) at3(2) assms(4)] obtain s4 g2 where s4:
    "publish_temp L quiet p ?tmp expected s3 = (Ok (), s4)"
    "fs_files (sys_now s4) = (fs_files (sys_now s3))(?tmp := None, p \<mapsto> g2)" "f_data g2 = f_data g1" "f_mode g2 = f_mode g1"
    by blast
  obtain r s5 where s5: "call quiet (sys_remove ?tmp) s4 = (r, s5)" "sys_now s5 = sys_now s4"
    using s4(2) assms(4) by (simp add: call_quiet sys_remove_def)
  have "atomicEncode L quiet short p db expected s = (Ok (), s5)"
    using s1 s2 s3 s4 s5 by (simp add: atomicEncode_def andthen_def or_fail_def deferring_def)
  then show ?thesis using s3 s4 s5 by auto
qed

lemma quiet_update:
  assumes "od_db od = Some db" and "\<not> od_locked od" and "db_content db \<noteq> None"
    and "fs_files (sys_now s) (od_path od) = Some f" and "od_fingerprint od = fingerprint_file (sl_sha256 L) f"
    and "mutate db = (None, db1)" and "sl_lock_entries L db1 = (True, db2)" and "sl_unlock_entries L db2 = (True, db3)"
    and "sl_encode L db2 = Some dat"
    and "sl_temp_name L (od_path od) (sys_now s) \<noteq> od_path od"
    and "fs_files (sys_now s) (sl_temp_name L (od_path od) (sys_now s)) = None"
  shows "\<exists>od' s' g. UpdateAndSave L quiet short rnd mutate od s = (None, od', s')
           \<and> od_db od' = Some db3 \<and> \<not> od_locked od'
           \<and> fs_files (sys_now s') (od_path od) = Some g \<and> f_data g = dat \<and> f_mode g = f_mode f
           \<and> od_fingerprint od' = fingerprint_file (sl_sha256 L) g"
proof -
  let ?p = "od_path od"
  obtain s1 where s1: "check_unchanged L quiet ?p (od_fingerprint od) FingerprintBeforeUpdate RefusedUpdate s = (Ok (), s1)"
    "sys_now s1 = sys_now s" using quiet_check[OF assms(4,5)] by blast
  have f1: "fs_files (sys_now s1) ?p = Some f" using s1(2) assms(4) by simp
  obtain s2 where s2: "check_unchanged L quiet ?p (od_fingerprint od) FingerprintBeforeSave RefusedSave s1 = (Ok (), s2)"
    "sys_now s2 = sys_now s1" using quiet_check[OF f1 assms(5)] by blast
  have f2: "fs_files (sys_now s2) ?p = Some f" using s2(2) f1 by simp
  have now: "sys_now s2 = sys_now s" using s1(2) s2(2) by simp
  from quiet_atomicEncode[OF f2 assms(5) assms(9) assms(10,11)[folded now], of short] obtain s3 g where s3:
    "atomicEncode L quiet short ?p db2 (od_fingerprint od) s2 = (Ok (), s3)" "fs_files (sys_now s3) ?p = Some g"
    "f_data g = dat" "f_mode g = f_mode f" by blast
  have fp: "\<exists>s4. call quiet (FingerprintFile (sl_sha256 L) ?p) s3 = (Ok (fingerprint_file (sl_sha256 L) g), s4)
      \<and> sys_now s4 = sys_now s3"
    using s3(2) by (simp add: call_quiet FingerprintFile_def)
  then obtain s4 where s4: "call quiet (FingerprintFile (sl_sha256 L) ?p) s3 = (Ok (fingerprint_file (sl_sha256 L) g), s4)"
    "sys_now s4 = sys_now s3" by blast
  have "saveLocked L quiet short db1 od s1
      = (None, od\<lparr>od_db := Some db3, od_fingerprint := fingerprint_file (sl_sha256 L) g\<rparr>, s4)"
    using s2 s3 s4 assms(7,8) by (simp add: saveLocked_def)
  then have "UpdateAndSave L quiet short rnd mutate od s
      = (None, od\<lparr>od_db := Some db3, od_fingerprint := fingerprint_file (sl_sha256 L) g\<rparr>, s4)"
    using assms(1-3,6) s1 by (simp add: UpdateAndSave_def)
  then show ?thesis using s3 s4 assms(2) by auto
qed

text \<open>C36. An undisturbed update goes through: with no interference and no failing system call,
  an update of an unlocked database whose file is as last seen succeeds, provided the mutation
  does, the library can encode the result and the temporary name is free. Afterwards the file
  holds the encoding with the old permissions, the memory the updated database, and the
  remembered fingerprint is the file's, so that the next update is accepted again.\<close>

theorem undisturbed_update_succeeds:
  assumes "od_db od = Some db" and "\<not> od_locked od" and "db_content db \<noteq> None"
    and "fs_files (sys_now s) (od_path od) = Some f" and "od_fingerprint od = fingerprint_file (sl_sha256 L) f"
    and "mutate db = (None, db1)" and "sl_lock_entries L db1 = (True, db2)" and "sl_unlock_entries L db2 = (True, db3)"
    and "sl_encode L db2 = Some dat"
    and "sl_temp_name L (od_path od) (sys_now s) \<noteq> od_path od"
    and "fs_files (sys_now s) (sl_temp_name L (od_path od) (sys_now s)) = None"
  shows "\<exists>od' s' g. UpdateAndSave L quiet short rnd mutate od s = (None, od', s')
           \<and> od_db od' = Some db3 \<and> \<not> od_locked od'
           \<and> fs_files (sys_now s') (od_path od) = Some g \<and> f_data g = dat \<and> f_mode g = f_mode f
           \<and> od_fingerprint od' = fingerprint_file (sl_sha256 L) g"
  using assms by (rule quiet_update)

lemma undisturbed_update_succeeds_witness:
  "\<exists>od' s' g. UpdateAndSave sample_save_lib quiet 0 (\<lambda>n. word_of_nat n) (\<lambda>db. (None :: unit option, db))
       sample_open (sys_start sample_disk) = (None, od', s') \<and> fs_files (sys_now s') ''/d'' = Some g \<and> f_data g = [1, 2]"
proof -
  have "\<exists>od' s' g. UpdateAndSave sample_save_lib quiet 0 (\<lambda>n. word_of_nat n) (\<lambda>db. (None :: unit option, db))
           sample_open (sys_start sample_disk) = (None, od', s')
           \<and> od_db od' = Some sample_database \<and> \<not> od_locked od'
           \<and> fs_files (sys_now s') (od_path sample_open) = Some g \<and> f_data g = [1, 2] \<and> f_mode g = f_mode sample_file
           \<and> od_fingerprint od' = fingerprint_file (sl_sha256 sample_save_lib) g"
    by (rule undisturbed_update_succeeds[where ?db = sample_database and ?db1.0 = sample_database and ?db2.0 = sample_database])
      (simp_all add: sample_save_lib_def sys_start_def sample_open_def sample_disk_def)
  then show ?thesis by auto
qed

end
