(* ===== verification/Security.thy ===== *)
theory Security
  imports Prelude
begin

text \<open>
  Secret buffers (\<open>internal/security/security.go\<close>). A \<open>SecureString\<close> is its buffer, nil
  after \<open>Destroy\<close>; \<open>mlock\<close> says for which lengths the kernel accepts to lock the pages.
  Buffers are values here, so the copies \<open>Bytes\<close> makes need no separate treatment;
  \<open>runtime/secret.Do\<close> calls its argument and is the identity.
\<close>

section \<open>Buffers\<close>

definition Wipe :: "bytes \<Rightarrow> bytes" where
  "Wipe b = (if length b = 0 then b else map (\<lambda>_. 0) b)"

definition Mlock :: "(nat \<Rightarrow> bool) \<Rightarrow> bytes \<Rightarrow> bool" where
  "Mlock mlock b = (if length b = 0 then True else mlock (length b))"

definition Alloc :: "(nat \<Rightarrow> bool) \<Rightarrow> nat \<Rightarrow> bytes option" where
  "Alloc mlock n = (let b = replicate n 0 in if Mlock mlock b then Some b else None)"

definition Memset :: "bytes \<Rightarrow> byte \<Rightarrow> bytes" where
  "Memset b v = map (\<lambda>_. v) b"

text \<open>\<open>copy(dst, src)\<close>: as many bytes as both have.\<close>

definition copy_bytes :: "bytes \<Rightarrow> bytes \<Rightarrow> bytes" where
  "copy_bytes dst src = take (length dst) src @ drop (length src) dst"

lemma Wipe_zero: "Wipe b = replicate (length b) 0"
  by (simp add: Wipe_def map_replicate_const)

lemma length_Wipe [simp]: "length (Wipe b) = length b"
  by (simp add: Wipe_def)

lemma copy_bytes_full: "length dst = length src \<Longrightarrow> copy_bytes dst src = src"
  by (simp add: copy_bytes_def)

section \<open>Secure strings, slices and booleans\<close>

type_synonym secure_string = "bytes option"

text \<open>The outer option is the nil pointer, the inner one the nil buffer.\<close>

definition NewSecureString :: "(nat \<Rightarrow> bool) \<Rightarrow> string \<Rightarrow> secure_string option" where
  "NewSecureString mlock s =
     (case Alloc mlock (length s) of None \<Rightarrow> None | Some b \<Rightarrow> Some (Some (copy_bytes b (bytes_of s))))"

definition Secure_Bytes :: "secure_string option \<Rightarrow> bytes" where
  "Secure_Bytes p =
     (case p of None \<Rightarrow> []
      | Some dat \<Rightarrow> (let d = (case dat of None \<Rightarrow> [] | Some b \<Rightarrow> b) in copy_bytes (replicate (length d) 0) d))"

definition Secure_Len :: "secure_string option \<Rightarrow> nat" where
  "Secure_Len p = (case p of None \<Rightarrow> 0 | Some None \<Rightarrow> 0 | Some (Some b) \<Rightarrow> length b)"

definition Secure_Destroy :: "secure_string option \<Rightarrow> secure_string option" where
  "Secure_Destroy p = (case p of None \<Rightarrow> None | Some _ \<Rightarrow> Some None)"

definition NewSecureSlice :: "(nat \<Rightarrow> bool) \<Rightarrow> nat \<Rightarrow> secure_string option" where
  "NewSecureSlice mlock n = (case Alloc mlock n of None \<Rightarrow> None | Some b \<Rightarrow> Some (Some b))"

definition NewSecureBool :: "bool \<Rightarrow> byte" where
  "NewSecureBool v = (if v then 1 else 0)"

definition SecureBool_Value :: "byte option \<Rightarrow> bool" where
  "SecureBool_Value s = (case s of None \<Rightarrow> False | Some b \<Rightarrow> b \<noteq> 0)"

definition SecureBool_Destroy :: "byte option \<Rightarrow> byte option" where
  "SecureBool_Destroy s = (case s of None \<Rightarrow> None | Some _ \<Rightarrow> Some 0)"

lemma Alloc_SomeD: "Alloc mlock n = Some b \<Longrightarrow> b = replicate n 0"
  by (auto simp: Alloc_def Let_def split: if_splits)

text \<open>A secure string gives back the bytes it was made from, until it is destroyed.\<close>

lemma Secure_Bytes_New: "NewSecureString mlock s = Some p \<Longrightarrow> Secure_Bytes (Some p) = bytes_of s"
  by (auto simp: NewSecureString_def Secure_Bytes_def copy_bytes_full split: option.splits dest!: Alloc_SomeD)

lemma Secure_Bytes_Destroy: "Secure_Bytes (Secure_Destroy p) = []"
  by (cases p) (simp_all add: Secure_Bytes_def Secure_Destroy_def copy_bytes_def)

lemma SecureBool_roundtrip: "SecureBool_Value (Some (NewSecureBool v)) = v"
  by (simp add: SecureBool_Value_def NewSecureBool_def)

end
