(* ===== verification/Machine.thy ===== *)
theory Machine
  imports Prelude
begin

text \<open>
  State machines: the states reachable from an initial one by steps, and the interface of
  an inductive invariant. The pool, the prompts and the daemon's dispatch interpret it.
\<close>

inductive reachable :: "('s \<Rightarrow> bool) \<Rightarrow> ('s \<Rightarrow> 's \<Rightarrow> bool) \<Rightarrow> 's \<Rightarrow> bool"
  for init step where
  start: "init s \<Longrightarrow> reachable init step s"
| move: "reachable init step s \<Longrightarrow> step s s' \<Longrightarrow> reachable init step s'"

locale machine =
  fixes init :: "'s \<Rightarrow> bool" and step :: "'s \<Rightarrow> 's \<Rightarrow> bool" and inv :: "'s \<Rightarrow> bool"
  assumes init_inv: "init s \<Longrightarrow> inv s"
    and step_inv: "inv s \<Longrightarrow> step s s' \<Longrightarrow> inv s'"
begin

lemma reachable_inv: "reachable init step s \<Longrightarrow> inv s"
  by (induction rule: reachable.induct) (auto intro: init_inv step_inv)

lemma steps_inv: "step\<^sup>*\<^sup>* s s' \<Longrightarrow> inv s \<Longrightarrow> inv s'"
  by (induction rule: rtranclp_induct) (auto intro: step_inv)

end

text \<open>A machine with a measure that never grows: what it counted once stays a bound.\<close>

locale bounded_machine = machine +
  fixes weight :: "'s \<Rightarrow> nat" and bound :: nat
  assumes weight_bound: "inv s \<Longrightarrow> weight s \<le> bound"
begin

lemma reachable_bound: "reachable init step s \<Longrightarrow> weight s \<le> bound"
  by (rule weight_bound) (rule reachable_inv)

end

end
