(* ===== verification/Pool.thy ===== *)
theory Pool
  imports Database_File Security Machine
begin

text \<open>
  The database pool of \<open>internal/dbpool/pool.go\<close> and the wiping of \<open>wipe.go\<close>. Open
  databases are objects on a heap (callers keep pointers to them across operations); the
  pool maps a UUID to an object. Events go to a bounded channel without blocking. A file
  watcher is a number; \<open>pl_watching\<close> is the set of the watchers that run.
\<close>

section \<open>Credentials\<close>

datatype credential_kind =
    CredentialNone
  | CredentialPassword
  | CredentialKeyfile
  | CredentialPasswordAndKeyfile
  | CredentialYubiKey
  | CredentialSystemdCredential

record credential =
  cr_kind :: credential_kind
  cr_password :: "secure_string option"
  cr_keyfile :: string
  cr_slot :: int
  cr_name :: string

definition blank_credential :: credential where
  "blank_credential = \<lparr>cr_kind = CredentialNone, cr_password = None, cr_keyfile = [], cr_slot = 0, cr_name = []\<rparr>"

definition PasswordCredential :: "secure_string option \<Rightarrow> credential" where
  "PasswordCredential pw = blank_credential\<lparr>cr_kind := CredentialPassword, cr_password := pw\<rparr>"

definition KeyfileCredential :: "string \<Rightarrow> credential" where
  "KeyfileCredential path = blank_credential\<lparr>cr_kind := CredentialKeyfile, cr_keyfile := path\<rparr>"

definition PasswordKeyfileCredential :: "secure_string option \<Rightarrow> string \<Rightarrow> credential" where
  "PasswordKeyfileCredential pw keyfile =
     blank_credential\<lparr>cr_kind := CredentialPasswordAndKeyfile, cr_password := pw, cr_keyfile := keyfile\<rparr>"

definition YubiKeyCredential :: "int \<Rightarrow> credential" where
  "YubiKeyCredential slot = blank_credential\<lparr>cr_kind := CredentialYubiKey, cr_slot := slot\<rparr>"

text \<open>The library: credentials, decoder and stream cipher.\<close>

record pool_lib =
  pb_password :: "bytes \<Rightarrow> db_credentials"
  pb_key :: "string \<Rightarrow> db_credentials option"
  pb_password_and_key :: "bytes \<Rightarrow> string \<Rightarrow> db_credentials option"
  pb_decode :: "bytes \<Rightarrow> db_credentials option \<Rightarrow> database option"
  pb_unlock :: "database \<Rightarrow> database option"
  pb_sha256 :: "bytes \<Rightarrow> bytes"

definition build_credentials :: "pool_lib \<Rightarrow> credential \<Rightarrow> db_credentials option option" where
  "build_credentials L cred =
     (case cr_kind cred of
        CredentialPassword \<Rightarrow>
          (case cr_password cred of None \<Rightarrow> Some None | Some _ \<Rightarrow> Some (Some (pb_password L (Secure_Bytes (cr_password cred)))))
      | CredentialKeyfile \<Rightarrow> (case pb_key L (cr_keyfile cred) of None \<Rightarrow> None | Some c \<Rightarrow> Some (Some c))
      | CredentialPasswordAndKeyfile \<Rightarrow>
          (let pw = (case cr_password cred of None \<Rightarrow> [] | Some _ \<Rightarrow> Secure_Bytes (cr_password cred))
           in case pb_password_and_key L pw (cr_keyfile cred) of None \<Rightarrow> None | Some c \<Rightarrow> Some (Some c))
      | _ \<Rightarrow> Some None)"

section \<open>Wiping\<close>

definition wipe_custom_data :: "custom_data list \<Rightarrow> custom_data list" where
  "wipe_custom_data items = map (\<lambda>c. c\<lparr>cd_value := []\<rparr>) items"

definition wipe_entry_data :: "entry_data \<Rightarrow> entry_data" where
  "wipe_entry_data e =
     e\<lparr>e_foreground_color := [], e_background_color := [], e_override_url := [], e_tags := [],
       e_values := map (\<lambda>v. v\<lparr>v_content := []\<rparr>) (e_values e),
       e_binaries := map (\<lambda>r. r\<lparr>ref_name := []\<rparr>) (e_binaries e),
       e_custom_data := wipe_custom_data (e_custom_data e)\<rparr>"

fun wipe_entry :: "entry \<Rightarrow> entry"
  and wipe_entries :: "entry list \<Rightarrow> entry list"
  and wipe_histories :: "entry list list \<Rightarrow> entry list list" where
  "wipe_entry (Entry d hs) = Entry (wipe_entry_data d) (wipe_histories hs)"
| "wipe_entries [] = []"
| "wipe_entries (e # es) = wipe_entry e # wipe_entries es"
| "wipe_histories [] = []"
| "wipe_histories (h # hs) = wipe_entries h # wipe_histories hs"

fun wipe_groups :: "grp list \<Rightarrow> grp list" where
  "wipe_groups [] = []"
| "wipe_groups (Group d es gs # rest) =
     Group (d\<lparr>g_name := [], g_notes := [], g_last_top_visible_entry := []\<rparr>) (wipe_entries es) (wipe_groups gs)
     # wipe_groups rest"

definition wipe_meta :: "meta_data \<Rightarrow> meta_data" where
  "wipe_meta m =
     m\<lparr>m_binaries := map (\<lambda>b. b\<lparr>b_content := []\<rparr>) (m_binaries m),
       m_custom_data := wipe_custom_data (m_custom_data m), default_user_name := []\<rparr>"

text \<open>\<open>wipeDatabaseContent\<close>: the root is dereferenced without a nil check.\<close>

definition wipe_content :: "db_content \<Rightarrow> db_content run" where
  "wipe_content c =
     (let c1 = c\<lparr>c_meta := map_option wipe_meta (c_meta c)\<rparr>
      in case c_root c1 of
           None \<Rightarrow> Panicked
         | Some r \<Rightarrow> Returned (c1\<lparr>c_root := Some (r\<lparr>r_groups := wipe_groups (r_groups r)\<rparr>)\<rparr>))"

definition wipe_database_content :: "database option \<Rightarrow> database option run" where
  "wipe_database_content odb =
     (case odb of
        None \<Rightarrow> Returned None
      | Some db \<Rightarrow>
          (let db1 = db\<lparr>db_credentials := None\<rparr>
           in case db_content db1 of
                None \<Rightarrow> Returned (Some db1)
              | Some c \<Rightarrow>
                  (case wipe_content c of
                     Panicked \<Rightarrow> Panicked
                   | Returned c' \<Rightarrow> Returned (Some (db1\<lparr>db_content := Some c'\<rparr>)))))"

section \<open>The pool\<close>

datatype event_type = EventDatabaseUnlocked | EventDatabaseLocked | EventDatabaseReloaded | EventDatabaseError

record event =
  ev_type :: event_type
  ev_uuid :: string
  ev_name :: string
  ev_path :: string

type_synonym ref = nat

record pool =
  pl_dbs :: "string \<rightharpoonup> ref"
  pl_heap :: "ref \<rightharpoonup> open_database"
  pl_next :: ref
  pl_cap :: "nat option"
  pl_events :: "event list"
  pl_watching :: "nat set"

datatype pool_error = OpenFailed | BadCredentials | DecodeFailed | UnlockFailed | FingerprintFailed | NotFound string

definition NewDatabasePool :: "nat option \<Rightarrow> pool" where
  "NewDatabasePool cap =
     \<lparr>pl_dbs = Map.empty, pl_heap = Map.empty, pl_next = 0, pl_cap = cap, pl_events = [], pl_watching = {}\<rparr>"

text \<open>\<open>select { case ch <- ev: default: }\<close>: a full channel drops the event.\<close>

definition send_event :: "event \<Rightarrow> pool \<Rightarrow> pool" where
  "send_event ev p =
     (case pl_cap p of
        None \<Rightarrow> p
      | Some n \<Rightarrow> if length (pl_events p) < n then p\<lparr>pl_events := pl_events p @ [ev]\<rparr> else p)"

definition extract_uuid :: "pool_lib \<Rightarrow> database \<Rightarrow> string \<Rightarrow> string" where
  "extract_uuid L db path =
     (case root_groups db of
        Some (Group d _ _ # _) \<Rightarrow>
          if g_uuid d \<noteq> 0 then uuid_text (g_uuid d)
          else hex_encode (take 16 (pb_sha256 L (bytes_of path)))
      | _ \<Rightarrow> hex_encode (take 16 (pb_sha256 L (bytes_of path))))"

text \<open>
  \<open>Open\<close> on the bytes of the file, or none when it cannot be opened. The fingerprint is
  taken after decoding. The new object replaces one the pool may hold under the same UUID;
  its watcher gets the object's number.
\<close>

definition load_database ::
  "pool_lib \<Rightarrow> bytes option \<Rightarrow> file_fingerprint option \<Rightarrow> string \<Rightarrow> credential \<Rightarrow> pool_error + open_database" where
  "load_database L content fp path cred =
     (case content of
        None \<Rightarrow> Err OpenFailed
      | Some dat \<Rightarrow>
          (case build_credentials L cred of
             None \<Rightarrow> Err BadCredentials
           | Some creds \<Rightarrow>
               (case pb_decode L dat creds of
                  None \<Rightarrow> Err DecodeFailed
                | Some db0 \<Rightarrow>
                    (case pb_unlock L db0 of
                       None \<Rightarrow> Err UnlockFailed
                     | Some db \<Rightarrow>
                         (case fp of
                            None \<Rightarrow> Err FingerprintFailed
                          | Some fpr \<Rightarrow>
                              Ok \<lparr>od_uuid = extract_uuid L db path, od_name = path_base path, od_path = path,
                                  od_locked = False, od_db = Some db, od_fingerprint = fpr, od_watcher = None\<rparr>)))))"

definition install :: "open_database \<Rightarrow> pool \<Rightarrow> pool" where
  "install od p =
     (let r = pl_next p
      in p\<lparr>pl_dbs := (pl_dbs p)(od_uuid od \<mapsto> r), pl_heap := (pl_heap p)(r \<mapsto> od\<lparr>od_watcher := Some r\<rparr>),
           pl_next := Suc r, pl_watching := insert r (pl_watching p)\<rparr>)"

definition Open ::
  "pool_lib \<Rightarrow> bytes option \<Rightarrow> file_fingerprint option \<Rightarrow> string \<Rightarrow> credential \<Rightarrow> pool
     \<Rightarrow> (pool_error + string) \<times> pool" where
  "Open L content fp path cred p =
     (case load_database L content fp path cred of
        Inl e \<Rightarrow> (Err e, p)
      | Inr od \<Rightarrow>
          (Ok (od_uuid od),
           send_event \<lparr>ev_type = EventDatabaseUnlocked, ev_uuid = od_uuid od, ev_name = od_name od, ev_path = path\<rparr>
             (install od p)))"

definition Lock :: "string \<Rightarrow> pool \<Rightarrow> (pool_error option \<times> pool) run" where
  "Lock uuid p =
     (case pl_dbs p uuid of
        None \<Rightarrow> Returned (Some (NotFound uuid), p)
      | Some r \<Rightarrow>
          (case pl_heap p r of
             None \<Rightarrow> Panicked
           | Some od \<Rightarrow>
               (case wipe_database_content (od_db od) of
                  Panicked \<Rightarrow> Panicked
                | Returned _ \<Rightarrow>
                    (let p1 = p\<lparr>pl_heap := (pl_heap p)(r \<mapsto> od\<lparr>od_db := None, od_locked := True, od_watcher := None\<rparr>),
                              pl_watching := (case od_watcher od of None \<Rightarrow> pl_watching p
                                              | Some w \<Rightarrow> pl_watching p - {w})\<rparr>
                     in Returned (None,
                          send_event \<lparr>ev_type = EventDatabaseLocked, ev_uuid = uuid, ev_name = od_name od,
                                      ev_path = od_path od\<rparr> p1)))))"

text \<open>The loop of \<open>LockAll\<close> over the UUIDs collected first; it keeps the first error.\<close>

fun lock_uuids :: "string list \<Rightarrow> pool \<Rightarrow> pool_error option \<Rightarrow> (pool_error option \<times> pool) run" where
  "lock_uuids [] p err = Returned (err, p)"
| "lock_uuids (u # us) p err =
     (case Lock u p of
        Panicked \<Rightarrow> Panicked
      | Returned (e, p') \<Rightarrow> lock_uuids us p' (if e \<noteq> None \<and> err = None then e else err))"

definition is_unlocked :: "pool \<Rightarrow> string \<Rightarrow> bool" where
  "is_unlocked p u =
     (case pl_dbs p u of None \<Rightarrow> False
      | Some r \<Rightarrow> (case pl_heap p r of None \<Rightarrow> False | Some od \<Rightarrow> \<not> od_locked od))"

definition LockAll :: "string list \<Rightarrow> pool \<Rightarrow> (pool_error option \<times> pool) run" where
  "LockAll order p = lock_uuids (filter (is_unlocked p) order) p None"

definition Get :: "string \<Rightarrow> pool \<Rightarrow> ref option" where
  "Get uuid p = pl_dbs p uuid"

definition ListDatabases :: "string list \<Rightarrow> pool \<Rightarrow> ref list" where
  "ListDatabases order p = map_values order (pl_dbs p)"

definition Close :: "string list \<Rightarrow> pool \<Rightarrow> (pool_error option \<times> pool) run" where
  "Close order p =
     (case LockAll order p of
        Panicked \<Rightarrow> Panicked
      | Returned (e, p') \<Rightarrow> Returned (e, p'\<lparr>pl_dbs := Map.empty\<rparr>))"

text \<open>\<open>RootEntries\<close> and \<open>RootGroups\<close> of an open database; nil is the empty list.\<close>

definition RootEntries :: "open_database \<Rightarrow> entry list" where
  "RootEntries od =
     (case od_db od of None \<Rightarrow> []
      | Some db \<Rightarrow> (case root_groups db of None \<Rightarrow> [] | Some gs \<Rightarrow> collect_entries gs (recycle_bin_uuid_for_db db)))"

definition RootGroups :: "open_database \<Rightarrow> grp list" where
  "RootGroups od =
     (case od_db od of None \<Rightarrow> [] | Some db \<Rightarrow> (case root_groups db of None \<Rightarrow> [] | Some gs \<Rightarrow> gs))"

section \<open>The file watcher\<close>

record fs_event =
  fe_name :: string
  fe_write :: bool
  fe_create :: bool
  fe_remove :: bool
  fe_rename :: bool

definition is_watch_event_for_file :: "fs_event \<Rightarrow> string \<Rightarrow> bool" where
  "is_watch_event_for_file evt path \<longleftrightarrow>
     (if fe_name evt = path then fe_write evt \<or> fe_create evt \<or> fe_remove evt \<or> fe_rename evt
      else if path_base (fe_name evt) = path_base path then fe_create evt \<or> fe_remove evt \<or> fe_rename evt
      else False)"

text \<open>What a watcher does with one event: nothing, stop because the file did not come back
  or cannot be watched again, or report a reload.\<close>

datatype watch_action = Ignore | StopWatching | Report

definition watch_step :: "string \<Rightarrow> (unit \<Rightarrow> bool) \<Rightarrow> (unit \<Rightarrow> bool) \<Rightarrow> fs_event \<Rightarrow> watch_action" where
  "watch_step path recreated rewatched evt =
     (if \<not> is_watch_event_for_file evt path then Ignore
      else if fe_remove evt \<or> fe_rename evt then
        (if \<not> recreated () then StopWatching else if \<not> rewatched () then StopWatching else Report)
      else Report)"

definition reload_event :: "open_database \<Rightarrow> event" where
  "reload_event od = \<lparr>ev_type = EventDatabaseReloaded, ev_uuid = od_uuid od, ev_name = [], ev_path = od_path od\<rparr>"

section \<open>What wiping removes\<close>

text \<open>The strings of a database that hold secrets or names, histories included.\<close>

definition custom_secrets :: "custom_data list \<Rightarrow> string list" where
  "custom_secrets items = map cd_value items"

definition entry_data_secrets :: "entry_data \<Rightarrow> string list" where
  "entry_data_secrets e =
     [e_foreground_color e, e_background_color e, e_override_url e, e_tags e]
     @ map v_content (e_values e) @ map ref_name (e_binaries e) @ custom_secrets (e_custom_data e)"

fun entry_secrets :: "entry \<Rightarrow> string list"
  and entries_secrets :: "entry list \<Rightarrow> string list"
  and histories_secrets :: "entry list list \<Rightarrow> string list" where
  "entry_secrets (Entry d hs) = entry_data_secrets d @ histories_secrets hs"
| "entries_secrets [] = []"
| "entries_secrets (e # es) = entry_secrets e @ entries_secrets es"
| "histories_secrets [] = []"
| "histories_secrets (h # hs) = entries_secrets h @ histories_secrets hs"

fun groups_secrets :: "grp list \<Rightarrow> string list" where
  "groups_secrets [] = []"
| "groups_secrets (Group d es gs # rest) =
     [g_name d, g_notes d, g_last_top_visible_entry d] @ entries_secrets es @ groups_secrets gs @ groups_secrets rest"

definition meta_secrets :: "meta_data \<Rightarrow> string list" where
  "meta_secrets m = default_user_name m # custom_secrets (m_custom_data m)"

definition database_secrets :: "database \<Rightarrow> string list" where
  "database_secrets db =
     (case db_content db of None \<Rightarrow> []
      | Some c \<Rightarrow> (case c_meta c of None \<Rightarrow> [] | Some m \<Rightarrow> meta_secrets m)
                 @ (case c_root c of None \<Rightarrow> [] | Some r \<Rightarrow> groups_secrets (r_groups r)))"

lemma wiped_custom: "set (custom_secrets (wipe_custom_data cs)) \<subseteq> {[]}"
  by (auto simp: custom_secrets_def wipe_custom_data_def)

lemma wiped_entry_data: "set (entry_data_secrets (wipe_entry_data d)) \<subseteq> {[]}"
  using wiped_custom by (auto simp: entry_data_secrets_def wipe_entry_data_def)

lemma wiped_entries:
  "set (entry_secrets (wipe_entry e)) \<subseteq> {[]}"
  "set (entries_secrets (wipe_entries es)) \<subseteq> {[]}"
  "set (histories_secrets (wipe_histories hs)) \<subseteq> {[]}"
proof (induction e and es and hs rule: wipe_entry_wipe_entries_wipe_histories.induct)
  case (1 d hs)
  then show ?case using wiped_entry_data[of d] by simp
qed simp_all

lemma wiped_groups: "set (groups_secrets (wipe_groups gs)) \<subseteq> {[]}"
proof (induction gs rule: wipe_groups.induct)
  case (2 d es gs rest)
  then show ?case using wiped_entries(2)[of es] by simp
qed simp

lemma wipe_keeps_uuids: "map (g_uuid \<circ> gdata) (wipe_groups gs) = map (g_uuid \<circ> gdata) gs"
  by (induction gs rule: wipe_groups.induct) simp_all

section \<open>The pool as a state machine\<close>

definition rooted :: "database \<Rightarrow> bool" where
  "rooted db \<longleftrightarrow> root_of db \<noteq> None"

text \<open>The documented result of the decoder: a database with content and root.\<close>

definition decoder_ok :: "pool_lib \<Rightarrow> bool" where
  "decoder_ok L \<longleftrightarrow> (\<forall>dat creds db0 db. pb_decode L dat creds = Some db0 \<longrightarrow> pb_unlock L db0 = Some db \<longrightarrow> rooted db)"

inductive pool_step :: "pool_lib \<Rightarrow> pool \<Rightarrow> pool \<Rightarrow> bool" for L where
  pool_open: "Open L content fp path cred p = (res, p') \<Longrightarrow> pool_step L p p'"
| pool_lock: "Lock uuid p = Returned (e, p') \<Longrightarrow> pool_step L p p'"
| pool_close: "Close order p = Returned (e, p') \<Longrightarrow> pool_step L p p'"
| pool_receive: "pl_events p = ev # evs \<Longrightarrow> pool_step L p (p\<lparr>pl_events := evs\<rparr>)"
| pool_watch: "w \<in> pl_watching p \<Longrightarrow> pl_heap p w = Some od \<Longrightarrow> pl_cap p = Some n \<Longrightarrow> length (pl_events p) < n
    \<Longrightarrow> pool_step L p (p\<lparr>pl_events := pl_events p @ [reload_event od]\<rparr>)"
| pool_give_up: "pool_step L p (p\<lparr>pl_watching := pl_watching p - {w}\<rparr>)"
| pool_update: "pl_heap p r = Some od \<Longrightarrow> \<not> od_locked od \<Longrightarrow> rooted db
    \<Longrightarrow> pool_step L p (p\<lparr>pl_heap := (pl_heap p)(r \<mapsto> od\<lparr>od_db := Some db, od_fingerprint := fp\<rparr>)\<rparr>)"

definition object_ok :: "pool \<Rightarrow> ref \<Rightarrow> open_database \<Rightarrow> bool" where
  "object_ok p r od \<longleftrightarrow>
     r < pl_next p \<and> (if od_locked od then od_db od = None \<and> od_watcher od = None
                       else (\<exists>db. od_db od = Some db \<and> rooted db) \<and> od_watcher od = Some r)"

definition pool_ok :: "pool \<Rightarrow> bool" where
  "pool_ok p \<longleftrightarrow>
     (\<forall>u r. pl_dbs p u = Some r \<longrightarrow> (\<exists>od. pl_heap p r = Some od \<and> od_uuid od = u)) \<and>
     (\<forall>r od. pl_heap p r = Some od \<longrightarrow> object_ok p r od) \<and>
     (\<forall>w \<in> pl_watching p. \<exists>od. pl_heap p w = Some od \<and> \<not> od_locked od) \<and>
     (\<forall>n. pl_cap p = Some n \<longrightarrow> length (pl_events p) \<le> n)"

lemma pool_okD:
  assumes "pool_ok p"
  shows "pl_dbs p u = Some r \<Longrightarrow> \<exists>od. pl_heap p r = Some od \<and> od_uuid od = u"
    and "pl_heap p r = Some od \<Longrightarrow> object_ok p r od"
    and "w \<in> pl_watching p \<Longrightarrow> \<exists>od. pl_heap p w = Some od \<and> \<not> od_locked od"
    and "pl_cap p = Some n \<Longrightarrow> length (pl_events p) \<le> n"
  using assms unfolding pool_ok_def by blast+

lemma send_event_fields [simp]:
  "pl_dbs (send_event ev p) = pl_dbs p" "pl_heap (send_event ev p) = pl_heap p"
  "pl_next (send_event ev p) = pl_next p" "pl_cap (send_event ev p) = pl_cap p"
  "pl_watching (send_event ev p) = pl_watching p"
  by (auto simp: send_event_def split: option.splits)

lemma object_ok_cong: "pl_next p' = pl_next p \<Longrightarrow> object_ok p' r od = object_ok p r od"
  by (simp add: object_ok_def)

lemma send_event_ok: "pool_ok p \<Longrightarrow> pool_ok (send_event ev p)"
  unfolding pool_ok_def
  by (auto simp: object_ok_cong[of "send_event ev p" p])
    (auto simp: send_event_def split: option.splits)

lemma install_ok:
  assumes "pool_ok p" "\<not> od_locked od" "od_db od = Some db" "rooted db"
  shows "pool_ok (install od p)"
proof -
  have "object_ok p r o2 \<Longrightarrow> object_ok (install od p) r o2 \<and> r \<noteq> pl_next p" for r o2
    by (auto simp: object_ok_def install_def Let_def)
  then show ?thesis
    using assms unfolding pool_ok_def
    by (auto simp: install_def Let_def object_ok_def[of _ "pl_next p"]) blast+
qed

lemma load_database_OkD:
  "load_database L content fp path cred = Ok od \<Longrightarrow> decoder_ok L \<Longrightarrow>
     \<not> od_locked od \<and> od_path od = path \<and> (\<exists>db. od_db od = Some db \<and> rooted db)"
  by (auto simp: load_database_def decoder_ok_def split: option.splits)

lemma Open_ok: "pool_ok p \<Longrightarrow> decoder_ok L \<Longrightarrow> Open L content fp path cred p = (res, p') \<Longrightarrow> pool_ok p'"
  by (auto simp: Open_def split: sum.splits dest!: load_database_OkD intro!: send_event_ok install_ok)

lemma wipe_rooted: "rooted db \<Longrightarrow> \<exists>db'. wipe_database_content (Some db) = Returned (Some db')"
  by (auto simp: rooted_def root_of_def wipe_database_content_def wipe_content_def Let_def split: option.splits)

text \<open>Under the invariant a lock never panics, and its result is explicit.\<close>

definition locked_object :: "open_database \<Rightarrow> open_database" where
  "locked_object od = od\<lparr>od_db := None, od_locked := True, od_watcher := None\<rparr>"

lemma Lock_eq:
  assumes "pool_ok p" "pl_dbs p uuid = Some r" "pl_heap p r = Some od"
  shows "Lock uuid p = Returned (None,
           send_event \<lparr>ev_type = EventDatabaseLocked, ev_uuid = uuid, ev_name = od_name od, ev_path = od_path od\<rparr>
             (p\<lparr>pl_heap := (pl_heap p)(r \<mapsto> locked_object od), pl_watching := pl_watching p - {r}\<rparr>))"
proof -
  have ok: "object_ok p r od" using pool_okD(2)[OF assms(1,3)] .
  show ?thesis
  proof (cases "od_locked od")
    case True
    then have "r \<notin> pl_watching p" using pool_okD(3)[OF assms(1), of r] assms(3) by auto
    then have "pl_watching p - {r} = pl_watching p" by simp
    with True ok assms show ?thesis
      by (simp add: Lock_def object_ok_def wipe_database_content_def locked_object_def)
  next
    case False
    with ok obtain db where db: "od_db od = Some db" "rooted db" "od_watcher od = Some r"
      by (auto simp: object_ok_def)
    with wipe_rooted[OF db(2)] assms show ?thesis
      by (auto simp: Lock_def locked_object_def)
  qed
qed

lemma lock_object_ok:
  assumes "pool_ok p" "pl_heap p r = Some od"
  shows "pool_ok (p\<lparr>pl_heap := (pl_heap p)(r \<mapsto> locked_object od), pl_watching := pl_watching p - {r}\<rparr>)"
proof -
  let ?p = "p\<lparr>pl_heap := (pl_heap p)(r \<mapsto> locked_object od), pl_watching := pl_watching p - {r}\<rparr>"
  have obj: "object_ok ?p r2 o2 = object_ok p r2 o2" for r2 o2
    by (simp add: object_ok_def)
  have "object_ok p r (locked_object od)"
    using pool_okD(2)[OF assms] by (auto simp: object_ok_def locked_object_def split: if_splits)
  then have ok: "object_ok p r2 o2" if "pl_heap ?p r2 = Some o2" for r2 o2
    using that pool_okD(2)[OF assms(1)] by (auto split: if_splits)
  have dbs: "\<exists>o2. pl_heap ?p r2 = Some o2 \<and> od_uuid o2 = u" if "pl_dbs p u = Some r2" for u r2
    using pool_okD(1)[OF assms(1) that] assms(2) by (auto simp: locked_object_def)
  have watch: "\<exists>o2. pl_heap ?p w = Some o2 \<and> \<not> od_locked o2" if "w \<in> pl_watching p - {r}" for w
    using pool_okD(3)[OF assms(1), of w] that by auto
  show ?thesis
    unfolding pool_ok_def obj
    using ok dbs watch pool_okD(4)[OF assms(1)] by simp
qed

lemma Lock_cases:
  assumes "pool_ok p"
  obtains (missing) "pl_dbs p uuid = None" "Lock uuid p = Returned (Some (NotFound uuid), p)"
  | (found) r od p' where "pl_dbs p uuid = Some r" "pl_heap p r = Some od" "od_uuid od = uuid"
      "Lock uuid p = Returned (None, p')" "pool_ok p'"
      "pl_heap p' = (pl_heap p)(r \<mapsto> locked_object od)" "pl_dbs p' = pl_dbs p"
      "pl_watching p' = pl_watching p - {r}" "pl_next p' = pl_next p"
proof (cases "pl_dbs p uuid")
  case None
  then show ?thesis using missing by (simp add: Lock_def)
next
  case (Some r)
  then obtain od where od: "pl_heap p r = Some od" "od_uuid od = uuid"
    using pool_okD(1)[OF assms] by blast
  show ?thesis
    using found[OF Some od Lock_eq[OF assms Some od(1)]] send_event_ok[OF lock_object_ok[OF assms od(1)]]
    by simp
qed

lemma Lock_ok:
  assumes "pool_ok p" "Lock uuid p = Returned (e, p')"
  shows "pool_ok p'"
  using assms(1) by (cases rule: Lock_cases[where uuid = uuid]) (use assms in auto)

lemma lock_uuids_ok:
  assumes "pool_ok p"
  shows "\<exists>e p'. lock_uuids us p err = Returned (e, p') \<and> pool_ok p' \<and> pl_dbs p' = pl_dbs p \<and>
           (\<forall>r. pl_heap p' r = (case pl_heap p r of None \<Rightarrow> None
                 | Some od \<Rightarrow> Some (if \<exists>u \<in> set us. pl_dbs p u = Some r then locked_object od else od)))
           \<and> ((\<forall>u \<in> set us. pl_dbs p u \<noteq> None) \<longrightarrow> e = err)"
  using assms
proof (induction us arbitrary: p err)
  case Nil
  then show ?case by (auto split: option.splits)
next
  case (Cons u us)
  have idem: "locked_object (locked_object od) = locked_object od" for od
    by (simp add: locked_object_def)
  from Cons.prems show ?case
  proof (cases rule: Lock_cases[where uuid = u])
    case missing
    let ?err = "if err = None then Some (NotFound u) else err"
    have none: "(\<exists>v \<in> set (u # us). pl_dbs p v = Some r) \<longleftrightarrow> (\<exists>v \<in> set us. pl_dbs p v = Some r)" for r
      using missing(1) by auto
    have "lock_uuids (u # us) p err = lock_uuids us p ?err"
      using missing(2) by simp
    with Cons.IH[OF Cons.prems, of ?err] missing(1) show ?thesis
      unfolding none by fastforce
  next
    case (found r od p1)
    from Cons.IH[OF found(5), of err] obtain e p2 where
      p2: "lock_uuids us p1 err = Returned (e, p2)" "pool_ok p2" "pl_dbs p2 = pl_dbs p1"
        "\<forall>r. pl_heap p2 r = (case pl_heap p1 r of None \<Rightarrow> None
                 | Some od \<Rightarrow> Some (if \<exists>u \<in> set us. pl_dbs p1 u = Some r then locked_object od else od))"
        "(\<forall>u \<in> set us. pl_dbs p1 u \<noteq> None) \<longrightarrow> e = err" by blast
    show ?thesis
      using found p2 idem by (auto split: option.splits)
  qed
qed

lemma LockAll_ok:
  assumes "pool_ok p" "set order = dom (pl_dbs p)"
  shows "\<exists>p'. LockAll order p = Returned (None, p') \<and> pool_ok p' \<and> pl_dbs p' = pl_dbs p \<and>
           (\<forall>r. pl_heap p' r = (case pl_heap p r of None \<Rightarrow> None
                 | Some od \<Rightarrow> Some (if r \<in> ran (pl_dbs p) then locked_object od else od)))"
proof -
  let ?us = "filter (is_unlocked p) order"
  from lock_uuids_ok[OF assms(1), of ?us None] obtain e p' where
    p': "lock_uuids ?us p None = Returned (e, p')" "pool_ok p'" "pl_dbs p' = pl_dbs p"
      "\<forall>r. pl_heap p' r = (case pl_heap p r of None \<Rightarrow> None
                 | Some od \<Rightarrow> Some (if \<exists>u \<in> set ?us. pl_dbs p u = Some r then locked_object od else od))"
      "(\<forall>u \<in> set ?us. pl_dbs p u \<noteq> None) \<longrightarrow> e = None" by blast
  have "e = None" using p'(5) by (auto simp: is_unlocked_def split: option.splits)
  moreover have "pl_heap p' r = (case pl_heap p r of None \<Rightarrow> None
      | Some od \<Rightarrow> Some (if r \<in> ran (pl_dbs p) then locked_object od else od))" for r
  proof (cases "pl_heap p r")
    case (Some od)
    show ?thesis
    proof (cases "od_locked od")
      case True
      then have "locked_object od = od"
        using pool_okD(2)[OF assms(1) Some] by (simp add: locked_object_def object_ok_def)
      then show ?thesis using p'(4) Some by simp
    next
      case False
      have "(\<exists>u \<in> set ?us. pl_dbs p u = Some r) \<longleftrightarrow> r \<in> ran (pl_dbs p)"
        using assms(2) False Some by (force simp: ran_def is_unlocked_def)
      then show ?thesis using p'(4) Some by simp
    qed
  qed (use p'(4) in simp)
  ultimately show ?thesis using p' by (auto simp: LockAll_def)
qed

lemma Close_pool_ok:
  assumes "pool_ok p" "Close order p = Returned (e, p')"
  shows "pool_ok p'"
proof -
  obtain e2 p2 where "LockAll order p = Returned (e2, p2)" "p' = p2\<lparr>pl_dbs := Map.empty\<rparr>"
    using assms(2) by (auto simp: Close_def split: run.splits)
  moreover from lock_uuids_ok[OF assms(1)] have "LockAll order p = Returned (e3, p3) \<Longrightarrow> pool_ok p3" for e3 p3
    unfolding LockAll_def by (metis Pair_inject run.inject)
  ultimately show ?thesis
    by (auto simp: pool_ok_def object_ok_def)
qed

lemma pool_ok_new: "pool_ok (NewDatabasePool cap)"
  by (simp add: pool_ok_def NewDatabasePool_def)

lemma pool_step_ok:
  assumes "decoder_ok L" "pool_ok p" "pool_step L p p'"
  shows "pool_ok p'"
  using assms(3)
proof (cases rule: pool_step.cases)
  case (pool_open content fp path cred res)
  show ?thesis by (rule Open_ok[OF assms(2,1) pool_open])
next
  case (pool_lock uuid e)
  show ?thesis by (rule Lock_ok[OF assms(2) pool_lock])
next
  case (pool_close order e)
  show ?thesis by (rule Close_pool_ok[OF assms(2) pool_close])
next
  case (pool_receive ev evs)
  have obj: "object_ok (p\<lparr>pl_events := es\<rparr>) r2 o2 = object_ok p r2 o2" for es r2 o2
    by (simp add: object_ok_def)
  show ?thesis
    using assms(2) pool_receive(2) unfolding pool_receive(1) pool_ok_def obj by auto
next
  case (pool_watch w od n)
  have obj: "object_ok (p\<lparr>pl_events := es\<rparr>) r2 o2 = object_ok p r2 o2" for es r2 o2
    by (simp add: object_ok_def)
  show ?thesis
    using assms(2) pool_watch(4,5) unfolding pool_watch(1) pool_ok_def obj by auto
next
  case (pool_give_up w)
  have obj: "object_ok (p\<lparr>pl_watching := ws\<rparr>) r2 o2 = object_ok p r2 o2" for ws r2 o2
    by (simp add: object_ok_def)
  show ?thesis
    using assms(2) unfolding pool_give_up pool_ok_def obj by auto
next
  case (pool_update r od db fp)
  have obj: "object_ok (p\<lparr>pl_heap := h\<rparr>) r2 o2 = object_ok p r2 o2" for h r2 o2
    by (simp add: object_ok_def)
  have "od_uuid od = u" if "pl_dbs p u = Some r" for u
    using pool_okD(1)[OF assms(2) that] pool_update(2) by auto
  then show ?thesis
    unfolding pool_update(1) pool_ok_def obj
    using pool_okD[OF assms(2)] pool_update(2-4)
    by (auto simp: object_ok_def split: if_splits)
qed

interpretation pool: machine "\<lambda>p. p = NewDatabasePool cap" "pool_step L" "\<lambda>p. decoder_ok L \<longrightarrow> pool_ok p"
  for L cap
  by unfold_locales (auto simp: pool_step_ok pool_ok_new)

section \<open>Properties of the pool\<close>

text \<open>C4. The pool's invariant: in every state the pool reaches by opening, locking, closing,
  saving, watching and event delivery, each UUID names an object with that UUID; a locked
  object holds no database and no watcher; an unlocked one holds a database with a root;
  every running watcher belongs to an unlocked object; and the channel is within its
  capacity.\<close>

theorem pool_invariant:
  assumes "decoder_ok L" and "reachable (\<lambda>p. p = NewDatabasePool (Some cap)) (pool_step L) p"
  shows "(\<forall>u r. pl_dbs p u = Some r \<longrightarrow> (\<exists>od. pl_heap p r = Some od \<and> od_uuid od = u))
         \<and> (\<forall>r od. pl_heap p r = Some od \<longrightarrow>
              (if od_locked od then od_db od = None \<and> od_watcher od = None
               else (\<exists>db. od_db od = Some db \<and> rooted db) \<and> od_watcher od = Some r))
         \<and> (\<forall>w \<in> pl_watching p. \<exists>od. pl_heap p w = Some od \<and> \<not> od_locked od)
         \<and> (\<forall>n. pl_cap p = Some n \<longrightarrow> length (pl_events p) \<le> n)"
proof -
  have "pool_ok p" using pool.reachable_inv[OF assms(2)] assms(1) by blast
  then show ?thesis
    using pool_okD(2) unfolding pool_ok_def object_ok_def by blast
qed

definition sample_pool_lib :: pool_lib where
  "sample_pool_lib =
     \<lparr>pb_password = \<lambda>b. \<lparr>passphrase = b, cred_key = [], cred_windows = []\<rparr>, pb_key = \<lambda>_. None,
      pb_password_and_key = \<lambda>_ _. None, pb_decode = \<lambda>_ _. Some sample_database, pb_unlock = Some,
      pb_sha256 = \<lambda>b. take 32 (b @ replicate 32 0)\<rparr>"

definition sample_pool :: pool where
  "sample_pool = snd (Open sample_pool_lib (Some []) (Some (od_fingerprint sample_open)) ''/d'' blank_credential
                        (NewDatabasePool (Some 16)))"

lemma sample_decoder_ok [simp]: "decoder_ok sample_pool_lib"
  by (simp add: decoder_ok_def sample_pool_lib_def rooted_def root_of_def sample_database_def)

lemma sample_pool_reachable:
  "reachable (\<lambda>p. p = NewDatabasePool (Some 16)) (pool_step sample_pool_lib) sample_pool"
proof (rule reachable.move)
  show "reachable (\<lambda>p. p = NewDatabasePool (Some 16)) (pool_step sample_pool_lib) (NewDatabasePool (Some 16))"
    by (rule reachable.start) (rule refl)
  show "pool_step sample_pool_lib (NewDatabasePool (Some 16)) sample_pool"
    unfolding sample_pool_def by (metis pool_open prod.collapse)
qed

lemma sample_pool_dbs: "pl_dbs sample_pool (uuid_text 1) = Some 0"
  by (simp add: sample_pool_def Open_def load_database_def build_credentials_def blank_credential_def
      sample_pool_lib_def install_def extract_uuid_def root_groups_def sample_database_def sample_root_def
      NewDatabasePool_def)

lemma pool_invariant_witness:
  "\<exists>od. pl_heap sample_pool 0 = Some od \<and> od_uuid od = uuid_text 1"
  using pool_invariant[OF sample_decoder_ok sample_pool_reachable] sample_pool_dbs by blast

text \<open>Locking clears the memory: for an open UUID the lock returns without error or
  panic; the object then holds no database, no watcher and is marked locked; its watcher
  no longer runs; every other object and the map of UUIDs are unchanged; and an unlock of
  the file can find the same UUID in the pool.\<close>

theorem Lock_clears:
  assumes "pool_ok p" and "pl_dbs p uuid = Some r" and "pl_heap p r = Some od"
  shows "\<exists>p'. Lock uuid p = Returned (None, p') \<and> pl_dbs p' = pl_dbs p \<and> r \<notin> pl_watching p'
           \<and> (\<exists>od'. pl_heap p' r = Some od' \<and> od_db od' = None \<and> od_locked od' \<and> od_watcher od' = None
                   \<and> od_uuid od' = uuid)
           \<and> (\<forall>r2. r2 \<noteq> r \<longrightarrow> pl_heap p' r2 = pl_heap p r2) \<and> pool_ok p'"
  using assms(1)
proof (cases rule: Lock_cases[where uuid = uuid])
  case missing
  then show ?thesis using assms(2) by simp
next
  case (found r2 od2 p')
  then show ?thesis using assms(2,3) by (auto simp: locked_object_def)
qed

lemma sample_pool_facts: "pool_ok sample_pool" "pl_dbs sample_pool (uuid_text 1) = Some 0"
  "\<exists>od. pl_heap sample_pool 0 = Some od"
proof -
  show ok: "pool_ok sample_pool"
    using pool.reachable_inv[OF sample_pool_reachable] by simp
  show "pl_dbs sample_pool (uuid_text 1) = Some 0" by (rule sample_pool_dbs)
  with pool_okD(1)[OF ok] show "\<exists>od. pl_heap sample_pool 0 = Some od" by blast
qed

lemma Lock_clears_witness:
  "\<exists>p'. Lock (uuid_text 1) sample_pool = Returned (None, p') \<and> 0 \<notin> pl_watching p'"
  using Lock_clears[OF sample_pool_facts(1,2)] sample_pool_facts(3) by blast

text \<open>Locking all locks all: whatever the order of the map, \<open>LockAll\<close> returns without an
  error, every object the pool names is locked and holds no database afterwards, and the
  objects it does not name are untouched.\<close>

theorem LockAll_locks_all:
  assumes "pool_ok p" and "enumerates order (pl_dbs p)"
  shows "\<exists>p'. LockAll order p = Returned (None, p') \<and> pl_dbs p' = pl_dbs p
           \<and> (\<forall>u r. pl_dbs p' u = Some r \<longrightarrow> (\<exists>od. pl_heap p' r = Some od \<and> od_locked od \<and> od_db od = None))
           \<and> (\<forall>r. r \<notin> ran (pl_dbs p) \<longrightarrow> pl_heap p' r = pl_heap p r)"
proof -
  from LockAll_ok[OF assms(1), of order] assms(2) obtain p' where
    p': "LockAll order p = Returned (None, p')" "pool_ok p'" "pl_dbs p' = pl_dbs p"
      "\<forall>r. pl_heap p' r = (case pl_heap p r of None \<Rightarrow> None
                 | Some od \<Rightarrow> Some (if r \<in> ran (pl_dbs p) then locked_object od else od))"
    by (auto simp: enumerates_def)
  have "\<exists>od. pl_heap p' r = Some od \<and> od_locked od \<and> od_db od = None" if "pl_dbs p' u = Some r" for u r
  proof -
    from that p'(3) have "pl_dbs p u = Some r" "r \<in> ran (pl_dbs p)" by (auto intro: ranI)
    moreover from this(1) obtain od where "pl_heap p r = Some od" using pool_okD(1)[OF assms(1)] by blast
    ultimately show ?thesis using p'(4) by (simp add: locked_object_def)
  qed
  moreover have "pl_heap p' r = pl_heap p r" if "r \<notin> ran (pl_dbs p)" for r
    using p'(4) that by (simp split: option.splits)
  ultimately show ?thesis using p'(1,3) by blast
qed

lemma LockAll_locks_all_witness:
  "\<exists>p' od. LockAll [uuid_text 1] sample_pool = Returned (None, p') \<and> pl_heap p' 0 = Some od \<and> od_locked od"
proof -
  have dom: "enumerates [uuid_text 1] (pl_dbs sample_pool)"
    by (simp add: enumerates_def sample_pool_def Open_def load_database_def build_credentials_def blank_credential_def
        sample_pool_lib_def install_def extract_uuid_def root_groups_def sample_database_def sample_root_def
        NewDatabasePool_def)
  from LockAll_locks_all[OF sample_pool_facts(1) dom] sample_pool_dbs show ?thesis by fastforce
qed

text \<open>Wiping is complete over the text of a database: after it, credentials are gone and
  every string that can carry a secret, in every group, entry and history and in the
  metadata, is empty; group identities are unchanged. What it leaves is stated too: the raw
  content and the attachments of a KDBX 4 file stay in memory.\<close>

theorem wipe_clears_text:
  assumes "wipe_database_content (Some db) = Returned (Some db')"
  shows "db_credentials db' = None \<and> set (database_secrets db') \<subseteq> {[]}
         \<and> (\<forall>c. db_content db = Some c \<longrightarrow>
              (\<exists>c'. db_content db' = Some c' \<and> c_inner c' = c_inner c \<and> c_raw c' = c_raw c
                   \<and> (\<forall>m. c_meta c' = Some m \<longrightarrow> (\<forall>b \<in> set (m_binaries m). b_content b = []))))"
proof (cases "db_content db")
  case None
  with assms show ?thesis by (auto simp: wipe_database_content_def database_secrets_def)
next
  case (Some c)
  with assms obtain r where r: "c_root c = Some r" and
    db': "db' = db\<lparr>db_credentials := None, db_content := Some (c\<lparr>c_meta := map_option wipe_meta (c_meta c),
            c_root := Some (r\<lparr>r_groups := wipe_groups (r_groups r)\<rparr>)\<rparr>)\<rparr>"
    by (auto simp: wipe_database_content_def wipe_content_def Let_def split: option.splits)
  have "set (meta_secrets (wipe_meta m)) \<subseteq> {[]}" for m
    using wiped_custom by (auto simp: meta_secrets_def wipe_meta_def)
  then show ?thesis
    using Some r wiped_groups[of "r_groups r"]
    by (auto simp: db' database_secrets_def wipe_meta_def split: option.splits)
qed

lemma wipe_clears_text_witness:
  "\<exists>db'. wipe_database_content (Some sample_database) = Returned (Some db') \<and> set (database_secrets db') \<subseteq> {[]}"
proof -
  obtain db' where w: "wipe_database_content (Some sample_database) = Returned (Some db')"
    using wipe_rooted[of sample_database] by (auto simp: rooted_def)
  with wipe_clears_text[OF w] show ?thesis by blast
qed

text \<open>Reopening leaks: opening a file whose UUID is already unlocked in the pool leaves the
  earlier object unlocked with its database and its watcher running, and no UUID names it
  any more, so that neither \<open>Lock\<close> nor \<open>LockAll\<close> reaches it.\<close>

theorem reopen_leaks:
  assumes "pool_ok p" and "Open L content fp path cred p = (Ok uuid, p')"
    and "pl_dbs p uuid = Some r" and "pl_heap p r = Some od" and "\<not> od_locked od"
  shows "pl_heap p' r = Some od \<and> od_db od \<noteq> None \<and> r \<notin> ran (pl_dbs p')
         \<and> (r \<in> pl_watching p \<longrightarrow> r \<in> pl_watching p')"
proof -
  from assms(2) obtain od2 where od2: "od_uuid od2 = uuid" "pl_dbs p' = pl_dbs (install od2 p)"
      "pl_heap p' = pl_heap (install od2 p)" "pl_watching p' = pl_watching (install od2 p)"
    by (auto simp: Open_def split: sum.splits)
  have r: "r < pl_next p" "od_db od \<noteq> None" "od_uuid od = uuid"
    using pool_okD(2)[OF assms(1,4)] pool_okD(1)[OF assms(1,3)] assms(4,5) by (auto simp: object_ok_def)
  have "u = uuid" if "pl_dbs p u = Some r" for u
    using pool_okD(1)[OF assms(1) that] assms(4) r(3) by auto
  then show ?thesis
    using od2 assms(4) r by (auto simp: install_def Let_def ran_def split: if_splits)
qed

lemma reopen_leaks_witness:
  "\<exists>p' od. Open sample_pool_lib (Some []) (Some (od_fingerprint sample_open)) ''/d'' blank_credential sample_pool
       = (Ok (uuid_text 1), p') \<and> pl_heap p' 0 = Some od \<and> od_db od \<noteq> None \<and> 0 \<notin> ran (pl_dbs p')"
proof -
  obtain p' where run: "Open sample_pool_lib (Some []) (Some (od_fingerprint sample_open)) ''/d'' blank_credential sample_pool
      = (Ok (uuid_text 1), p')"
    by (simp add: Open_def load_database_def build_credentials_def blank_credential_def
        sample_pool_lib_def extract_uuid_def root_groups_def sample_database_def sample_root_def)
  have "\<exists>od. pl_heap sample_pool 0 = Some od \<and> \<not> od_locked od"
    by (simp add: sample_pool_def Open_def load_database_def build_credentials_def blank_credential_def
        sample_pool_lib_def install_def extract_uuid_def root_groups_def sample_database_def sample_root_def
        NewDatabasePool_def)
  then obtain od where od: "pl_heap sample_pool 0 = Some od" "\<not> od_locked od" by blast
  from reopen_leaks[OF sample_pool_facts(1) run sample_pool_facts(2) od] run show ?thesis by blast
qed

end
