(* ===== verification/Secret_Attributes.thy ===== *)
theory Secret_Attributes
  imports Pool
begin

text \<open>
  Attributes of Secret Service items (\<open>internal/secretservice/attributes.go\<close> and the
  matching half of \<open>write.go\<close>): what an entry advertises, when a search or a replacing
  write takes it, and which entries of a database an expose group makes visible.

  A search map is a partial function; its \<open>range\<close> loops take the order of the keys.
\<close>

type_synonym attrs = "string \<rightharpoonup> string"

section \<open>What an entry advertises\<close>

definition EntryAttributes :: "open_database \<Rightarrow> entry \<Rightarrow> attrs" where
  "EntryAttributes odb e =
     (((((Map.empty(''kpxcd:dbname'' \<mapsto> od_name odb))(''kpxcd:dbuuid'' \<mapsto> od_uuid odb))
        (''title'' \<mapsto> get_title e))(''UserName'' \<mapsto> get_content e ''UserName''))
        (''URL'' \<mapsto> get_content e ''URL''))"

section \<open>Matching\<close>

text \<open>The loops over \<open>entry.Values\<close>: the first value with the key decides
  (\<open>matchExactEntryAttribute\<close>, which also tells whether there was one); any value with the
  key will do (\<open>custom:\<close>).\<close>

fun match_exact_values :: "value_data list \<Rightarrow> string \<Rightarrow> string \<Rightarrow> bool \<times> bool" where
  "match_exact_values [] k x = (False, False)"
| "match_exact_values (v # vs) k x =
     (if v_key v = k then (equal_fold (v_content v) x, True) else match_exact_values vs k x)"

definition matchExactEntryAttribute :: "entry \<Rightarrow> string \<Rightarrow> string \<Rightarrow> bool \<times> bool" where
  "matchExactEntryAttribute e k x = match_exact_values (entry_values e) k x"

fun match_custom_values :: "value_data list \<Rightarrow> string \<Rightarrow> string \<Rightarrow> bool" where
  "match_custom_values [] k x = False"
| "match_custom_values (v # vs) k x =
     (if v_key v = k \<and> equal_fold (v_content v) x then True else match_custom_values vs k x)"

definition contains_fold :: "string \<Rightarrow> string \<Rightarrow> bool" where
  "contains_fold s sub = contains_sub (to_lower s) (to_lower sub)"

definition matchAttribute :: "entry \<Rightarrow> open_database \<Rightarrow> string \<Rightarrow> string \<Rightarrow> bool" where
  "matchAttribute e odb k x =
     (if k = ''title'' then equal_fold (get_title e) x \<or> contains_fold (get_title e) x
      else if k = ''UserName'' then equal_fold (get_content e ''UserName'') x
      else if k = ''username'' then
        (let (matched, found) = matchExactEntryAttribute e k x
         in if found then matched else equal_fold (get_content e ''UserName'') x)
      else if k = ''URL'' then
        equal_fold (get_content e ''URL'') x \<or> contains_fold (get_content e ''URL'') x
      else if k = ''url'' then
        (let (matched, found) = matchExactEntryAttribute e k x
         in if found then matched else equal_fold (get_content e ''URL'') x)
      else if k = ''Notes'' then contains_fold (get_content e ''Notes'') x
      else if k = ''kpxcd:dbname'' then equal_fold (od_name odb) x
      else if k = ''kpxcd:dbuuid'' then equal_fold (od_uuid odb) x
      else if prefix ''custom:'' k then match_custom_values (entry_values e) (strip_prefix ''custom:'' k) x
      else fst (matchExactEntryAttribute e k x))"

fun MatchAttributes :: "string list \<Rightarrow> entry \<Rightarrow> open_database \<Rightarrow> attrs \<Rightarrow> bool" where
  "MatchAttributes [] e odb as = True"
| "MatchAttributes (k # ks) e odb as =
     (case as k of
        None \<Rightarrow> MatchAttributes ks e odb as
      | Some x \<Rightarrow> if matchAttribute e odb k x then MatchAttributes ks e odb as else False)"

text \<open>The stricter test of a replacing write: \<open>entryHasAttribute\<close> knows neither substrings
  nor the \<open>custom:\<close> prefix.\<close>

definition entryHasAttribute :: "entry \<Rightarrow> string \<Rightarrow> string \<Rightarrow> bool" where
  "entryHasAttribute e k x =
     (if k = ''title'' then equal_fold (get_title e) x
      else if k = ''UserName'' then equal_fold (get_content e ''UserName'') x
      else if k = ''username'' then
        (let (matched, found) = matchExactEntryAttribute e k x
         in if found then matched else equal_fold (get_content e ''UserName'') x)
      else if k = ''URL'' then equal_fold (get_content e ''URL'') x
      else if k = ''url'' then
        (let (matched, found) = matchExactEntryAttribute e k x
         in if found then matched else equal_fold (get_content e ''URL'') x)
      else if k = ''Notes'' then equal_fold (get_content e ''Notes'') x
      else fst (matchExactEntryAttribute e k x))"

record mock_open_database =
  mo_name :: string
  mo_uuid :: string

fun matchAttributesForWrite :: "string list \<Rightarrow> entry \<Rightarrow> mock_open_database \<Rightarrow> attrs \<Rightarrow> bool" where
  "matchAttributesForWrite [] e odb as = True"
| "matchAttributesForWrite (k # ks) e odb as =
     (case as k of
        None \<Rightarrow> matchAttributesForWrite ks e odb as
      | Some x \<Rightarrow>
          if k = ''kpxcd:dbname'' then
            (if \<not> equal_fold (mo_name odb) x then False else matchAttributesForWrite ks e odb as)
          else if k = ''kpxcd:dbuuid'' then
            (if \<not> equal_fold (mo_uuid odb) x then False else matchAttributesForWrite ks e odb as)
          else if \<not> entryHasAttribute e k x then False
          else matchAttributesForWrite ks e odb as)"

section \<open>Visibility\<close>

definition groupUUIDString :: "group_data \<Rightarrow> string" where
  "groupUUIDString g = hex_encode (uuid_bytes (g_uuid g))"

definition exposes :: "group_data \<Rightarrow> string \<Rightarrow> bool" where
  "exposes g wanted \<longleftrightarrow> equal_fold (g_name g) wanted \<or> equal_fold (groupUUIDString g) wanted"

text \<open>\<open>collectEntriesVisibleInto\<close>: what it appends to its accumulator. The expose group is
  already trimmed; \<open>visible\<close> is inherited from the groups above.\<close>

fun collectEntriesVisibleInto :: "grp list \<Rightarrow> uuid \<Rightarrow> string \<Rightarrow> bool \<Rightarrow> entry list" where
  "collectEntriesVisibleInto [] rb wanted visible = []"
| "collectEntriesVisibleInto (Group d es gs # rest) rb wanted visible =
     (if is_recycled d rb then []
      else let groupVisible = visible \<or> exposes d wanted
           in (if groupVisible then es else []) @ collectEntriesVisibleInto gs rb wanted groupVisible)
     @ collectEntriesVisibleInto rest rb wanted visible"

definition collectEntriesVisible :: "grp list \<Rightarrow> uuid \<Rightarrow> string \<Rightarrow> entry list" where
  "collectEntriesVisible gs rb exposeGroup =
     (let wanted = trim_space exposeGroup
      in collectEntriesVisibleInto gs rb wanted (wanted = []))"

definition collectEntries :: "grp list \<Rightarrow> uuid \<Rightarrow> entry list" where
  "collectEntries gs rb = collectEntriesVisible gs rb []"

section \<open>Searching the pool\<close>

text \<open>\<open>SearchEntries\<close> over the databases \<open>pool.List\<close> returned. A database without a root
  makes it panic: the root is not tested for nil.\<close>

fun SearchEntries_in ::
  "string list \<Rightarrow> attrs \<Rightarrow> open_database list \<Rightarrow> (open_database \<times> entry) list run" where
  "SearchEntries_in order as [] = Returned []"
| "SearchEntries_in order as (odb # odbs) =
     (if od_locked odb then SearchEntries_in order as odbs
      else case od_db odb of
        None \<Rightarrow> SearchEntries_in order as odbs
      | Some db \<Rightarrow>
          (case db_content db of
             None \<Rightarrow> SearchEntries_in order as odbs
           | Some c \<Rightarrow>
               (case c_root c of
                  None \<Rightarrow> Panicked
                | Some r \<Rightarrow>
                    (case SearchEntries_in order as odbs of
                       Panicked \<Rightarrow> Panicked
                     | Returned found \<Rightarrow>
                         Returned (map (Pair odb)
                            (filter (\<lambda>e. MatchAttributes order e odb as)
                               (collectEntries (r_groups r) (recycle_bin_uuid_for_db db))) @ found)))))"

definition SearchEntries ::
  "string list \<Rightarrow> attrs \<Rightarrow> open_database list \<Rightarrow> (open_database \<times> entry) list run" where
  "SearchEntries order as odbs = (if order = [] then Returned [] else SearchEntries_in order as odbs)"

section \<open>Lemmas\<close>

lemma match_exact_values_eq:
  "match_exact_values vs k x =
     (case List.find (\<lambda>v. v_key v = k) vs of None \<Rightarrow> (False, False) | Some v \<Rightarrow> (equal_fold (v_content v) x, True))"
  by (induction vs) auto

lemma matchExact_eq:
  "matchExactEntryAttribute e k x =
     (case get_value e k of None \<Rightarrow> (False, False) | Some v \<Rightarrow> (equal_fold (v_content v) x, True))"
  by (simp add: matchExactEntryAttribute_def match_exact_values_eq get_value_def)

lemma match_custom_values_iff:
  "match_custom_values vs k x \<longleftrightarrow> (\<exists>v \<in> set vs. v_key v = k \<and> equal_fold (v_content v) x)"
  by (induction vs) auto

lemma contains_fold_of_equal: "equal_fold s x \<Longrightarrow> contains_fold s x"
  by (simp add: contains_fold_def equal_fold_def)

lemma MatchAttributes_iff:
  "MatchAttributes ks e odb as \<longleftrightarrow> (\<forall>k x. k \<in> set ks \<longrightarrow> as k = Some x \<longrightarrow> matchAttribute e odb k x)"
  by (induction ks) (auto split: option.splits)

definition has_attribute :: "entry \<Rightarrow> mock_open_database \<Rightarrow> string \<Rightarrow> string \<Rightarrow> bool" where
  "has_attribute e odb k x \<longleftrightarrow>
     (if k = ''kpxcd:dbname'' then equal_fold (mo_name odb) x
      else if k = ''kpxcd:dbuuid'' then equal_fold (mo_uuid odb) x
      else entryHasAttribute e k x)"

lemma matchAttributesForWrite_iff:
  "matchAttributesForWrite ks e odb as \<longleftrightarrow> (\<forall>k x. k \<in> set ks \<longrightarrow> as k = Some x \<longrightarrow> has_attribute e odb k x)"
proof (induction ks)
  case (Cons k ks)
  have "matchAttributesForWrite (k # ks) e odb as \<longleftrightarrow>
      (case as k of None \<Rightarrow> True | Some x \<Rightarrow> has_attribute e odb k x) \<and> matchAttributesForWrite ks e odb as"
    unfolding has_attribute_def
    by (cases "as k"; cases "k = ''kpxcd:dbname''"; cases "k = ''kpxcd:dbuuid''"; simp)
  with Cons.IH show ?case by (auto split: option.splits)
qed simp

text \<open>Whatever the order of the map.\<close>

lemma MatchAttributes_enum:
  "enumerates ks as \<Longrightarrow> MatchAttributes ks e odb as \<longleftrightarrow> (\<forall>k x. as k = Some x \<longrightarrow> matchAttribute e odb k x)"
  unfolding MatchAttributes_iff enumerates_def by blast

lemma matchAttributesForWrite_enum:
  "enumerates ks as \<Longrightarrow> matchAttributesForWrite ks e odb as \<longleftrightarrow> (\<forall>k x. as k = Some x \<longrightarrow> has_attribute e odb k x)"
  unfolding matchAttributesForWrite_iff enumerates_def by blast

text \<open>What an attribute of a search asks for, independently of the code's cases: the texts its key
  stands for, of which one must be the value up to case, or for the free-text keys contain it.\<close>

definition attribute_texts :: "entry \<Rightarrow> open_database \<Rightarrow> string \<Rightarrow> string set" where
  "attribute_texts e odb k =
     (if k = ''title'' then {get_title e}
      else if k \<in> {''UserName'', ''URL'', ''Notes''} then {get_content e k}
      else if k = ''username'' \<and> get_value e k = None then {get_content e ''UserName''}
      else if k = ''url'' \<and> get_value e k = None then {get_content e ''URL''}
      else if k = ''kpxcd:dbname'' then {od_name odb}
      else if k = ''kpxcd:dbuuid'' then {od_uuid odb}
      else if prefix ''custom:'' k then {v_content v | v. v \<in> set (entry_values e) \<and> k = ''custom:'' @ v_key v}
      else {v_content v | v. get_value e k = Some v})"

definition attribute_answers :: "entry \<Rightarrow> open_database \<Rightarrow> string \<Rightarrow> string \<Rightarrow> bool" where
  "attribute_answers e odb k x \<longleftrightarrow>
     (\<exists>t \<in> attribute_texts e odb k. to_lower t = to_lower x
        \<or> k \<in> {''title'', ''URL'', ''Notes''} \<and> sublist (to_lower x) (to_lower t))"

lemma match_custom_texts:
  "prefix ''custom:'' k \<Longrightarrow> match_custom_values vs (strip_prefix ''custom:'' k) x
     \<longleftrightarrow> (\<exists>v \<in> set vs. k = ''custom:'' @ v_key v \<and> to_lower (v_content v) = to_lower x)"
  by (erule prefixE) (auto simp: match_custom_values_iff equal_fold_def strip_prefix_def)

lemma match_exact_texts:
  "fst (matchExactEntryAttribute e k x) \<longleftrightarrow> (\<exists>v. get_value e k = Some v \<and> to_lower (v_content v) = to_lower x)"
  by (simp add: matchExact_eq equal_fold_def split: option.split)

lemma match_exact_else:
  "(let (matched, found) = matchExactEntryAttribute e k x in if found then matched else Q)
     \<longleftrightarrow> (case get_value e k of None \<Rightarrow> Q | Some v \<Rightarrow> to_lower (v_content v) = to_lower x)"
  by (simp add: matchExact_eq equal_fold_def split: option.split)

lemma contains_fold_texts: "contains_fold t x \<longleftrightarrow> sublist (to_lower x) (to_lower t)"
  by (simp add: contains_fold_def contains_sub_iff)

lemma matchAttribute_answers: "matchAttribute e odb k x \<longleftrightarrow> attribute_answers e odb k x"
proof -
  note defs = matchAttribute_def attribute_answers_def attribute_texts_def match_exact_texts match_exact_else
    match_custom_texts contains_fold_texts equal_fold_def
  consider "k = ''kpxcd:dbname''" | "k = ''kpxcd:dbuuid''" | "k = ''title''" | "k = ''UserName''"
    | "k = ''username''" | "k = ''URL''" | "k = ''url''" | "k = ''Notes''"
    | "k \<noteq> ''kpxcd:dbname''" "k \<noteq> ''kpxcd:dbuuid''" "k \<noteq> ''title''" "k \<noteq> ''UserName''"
      "k \<noteq> ''username''" "k \<noteq> ''URL''" "k \<noteq> ''url''" "k \<noteq> ''Notes''"
    by argo
  then show ?thesis
  proof cases
    case 9
    show ?thesis
    proof (cases "prefix ''custom:'' k")
      case True
      show ?thesis unfolding matchAttribute_def attribute_answers_def attribute_texts_def match_custom_texts[OF True]
        using 9 True by (simp only: simp_thms if_False if_True insert_iff empty_iff) blast
    next
      case False
      show ?thesis unfolding matchAttribute_def attribute_answers_def attribute_texts_def match_exact_texts
        using 9 False by (simp only: simp_thms if_False if_True insert_iff empty_iff) blast
    qed
  qed (simp add: defs; (auto split: option.split)?)+
qed

text \<open>Every attribute a write requires is one a search accepts, except that a search reads
  a key with the prefix \<open>custom:\<close> as the name behind it.\<close>

lemma has_attribute_matches:
  assumes "has_attribute e \<lparr>mo_name = od_name odb, mo_uuid = od_uuid odb\<rparr> k x" "\<not> prefix ''custom:'' k"
  shows "matchAttribute e odb k x"
proof -
  consider "k = ''kpxcd:dbname''" | "k = ''kpxcd:dbuuid''" | "k = ''title''" | "k = ''UserName''"
    | "k = ''username''" | "k = ''URL''" | "k = ''url''" | "k = ''Notes''"
    | "k \<noteq> ''kpxcd:dbname''" "k \<noteq> ''kpxcd:dbuuid''" "k \<noteq> ''title''" "k \<noteq> ''UserName''"
      "k \<noteq> ''username''" "k \<noteq> ''URL''" "k \<noteq> ''url''" "k \<noteq> ''Notes''"
    by argo
  then show ?thesis
  proof cases
    case 1
    with assms(1) show ?thesis
      by (simp add: has_attribute_def entryHasAttribute_def matchAttribute_def contains_fold_of_equal)
  next
    case 2
    with assms(1) show ?thesis
      by (simp add: has_attribute_def entryHasAttribute_def matchAttribute_def contains_fold_of_equal)
  next
    case 3
    with assms(1) show ?thesis
      by (simp add: has_attribute_def entryHasAttribute_def matchAttribute_def contains_fold_of_equal)
  next
    case 4
    with assms(1) show ?thesis
      by (simp add: has_attribute_def entryHasAttribute_def matchAttribute_def contains_fold_of_equal)
  next
    case 5
    with assms(1) show ?thesis
      by (simp add: has_attribute_def entryHasAttribute_def matchAttribute_def contains_fold_of_equal)
  next
    case 6
    with assms(1) show ?thesis
      by (simp add: has_attribute_def entryHasAttribute_def matchAttribute_def contains_fold_of_equal)
  next
    case 7
    with assms(1) show ?thesis
      by (simp add: has_attribute_def entryHasAttribute_def matchAttribute_def contains_fold_of_equal)
  next
    case 8
    with assms(1) show ?thesis
      by (simp add: has_attribute_def entryHasAttribute_def matchAttribute_def contains_fold_of_equal)
  next
    case 9
    with assms show ?thesis
      by (simp add: has_attribute_def entryHasAttribute_def matchAttribute_def)
  qed
qed

lemma visible_into_iff:
  "e \<in> set (collectEntriesVisibleInto gs rb wanted visible) \<longleftrightarrow>
     (\<exists>path. entry_at gs path e \<and> (\<forall>d \<in> set path. \<not> is_recycled d rb)
        \<and> (visible \<or> (\<exists>d \<in> set path. exposes d wanted)))"
proof (induction gs rb wanted visible rule: collectEntriesVisibleInto.induct)
  case (1 rb wanted visible)
  then show ?case by auto
next
  case (2 d es gs rest rb wanted visible)
  let ?Q = "\<lambda>v path. (\<forall>x \<in> set path. \<not> is_recycled x rb) \<and> (v \<or> (\<exists>x \<in> set path. exposes x wanted))"
  have split: "(\<exists>path. entry_at (Group d es gs # rest) path e \<and> ?Q visible path) \<longleftrightarrow>
      (e \<in> set es \<and> ?Q visible [d]) \<or> (\<exists>p. entry_at gs p e \<and> ?Q visible (d # p))
      \<or> (\<exists>path. entry_at rest path e \<and> ?Q visible path)"
    unfolding entry_at_Cons conj_disj_distribR ex_disj_distrib by blast
  show ?case
  proof (cases "is_recycled d rb")
    case True
    with 2 split show ?thesis by auto
  next
    case False
    define v where "v \<longleftrightarrow> visible \<or> exposes d wanted"
    have "e \<in> set (collectEntriesVisibleInto gs rb wanted v) \<longleftrightarrow> (\<exists>p. entry_at gs p e \<and> ?Q v p)"
      using 2(1)[OF False refl] unfolding v_def by simp
    moreover have "?Q visible (d # p) \<longleftrightarrow> ?Q v p" for p
      using False by (auto simp: v_def)
    ultimately show ?thesis
      unfolding split 2(2)[symmetric] using False by (auto simp: v_def Let_def)
  qed
qed

lemma visible_iff:
  "e \<in> set (collectEntriesVisible gs rb x) \<longleftrightarrow>
     (\<exists>path. entry_at gs path e \<and> (\<forall>d \<in> set path. \<not> is_recycled d rb)
        \<and> (trim_space x = [] \<or> (\<exists>d \<in> set path. exposes d (trim_space x))))"
  unfolding collectEntriesVisible_def Let_def visible_into_iff by (rule refl)

lemma visible_into_True: "collectEntriesVisibleInto gs rb wanted True = collect_entries gs rb"
  by (induction gs rb rule: collect_entries.induct) auto

lemma collectEntries_eq: "collectEntries gs rb = collect_entries gs rb"
  by (simp add: collectEntries_def collectEntriesVisible_def visible_into_True)

lemma visible_subset: "set (collectEntriesVisible gs rb x) \<subseteq> set (collect_entries gs rb)"
  by (auto simp: visible_iff collect_entries_iff)

text \<open>What \<open>SearchEntries\<close> finds in one database.\<close>

definition searchable :: "open_database \<Rightarrow> grp list \<times> uuid \<Rightarrow> bool" where
  "searchable odb = (\<lambda>(gs, rb). \<not> od_locked odb
     \<and> (\<exists>db. od_db odb = Some db \<and> root_groups db = Some gs \<and> rb = recycle_bin_uuid_for_db db))"

lemma SearchEntries_in_result:
  "SearchEntries_in ks as odbs = Returned found \<Longrightarrow>
     (odb, e) \<in> set found \<longleftrightarrow>
       odb \<in> set odbs \<and> MatchAttributes ks e odb as
       \<and> (\<exists>gs rb. searchable odb (gs, rb) \<and> e \<in> set (collect_entries gs rb))"
proof (induction ks as odbs arbitrary: found rule: SearchEntries_in.induct)
  case (2 ks as odb0 odbs)
  show ?case
  proof (cases "od_locked odb0 \<or> od_db odb0 = None \<or> (\<exists>db. od_db odb0 = Some db \<and> db_content db = None)")
    case True
    then have ns: "\<not> searchable odb0 g" for g
      by (cases g) (auto simp: searchable_def root_groups_def)
    have found: "SearchEntries_in ks as odbs = Returned found"
      using True 2(5) by (auto split: if_splits)
    have "(odb, e) \<in> set found \<longleftrightarrow> odb \<in> set odbs \<and> MatchAttributes ks e odb as
        \<and> (\<exists>gs rb. searchable odb (gs, rb) \<and> e \<in> set (collect_entries gs rb))"
    proof (cases "od_locked odb0")
      case True
      then show ?thesis using 2(1) found by blast
    next
      case nl: False
      show ?thesis
      proof (cases "od_db odb0")
        case None
        then show ?thesis using 2(2)[OF nl None] found by blast
      next
        case (Some db)
        then have "db_content db = None" using True nl by auto
        then show ?thesis using 2(3)[OF nl Some] found by blast
      qed
    qed
    then show ?thesis using ns by auto
  next
    case False
    then obtain db c where db: "\<not> od_locked odb0" "od_db odb0 = Some db" "db_content db = Some c" by auto
    with 2(5) obtain r found' where r: "c_root c = Some r" "SearchEntries_in ks as odbs = Returned found'"
      "found = map (Pair odb0) (filter (\<lambda>e. MatchAttributes ks e odb0 as)
                 (collectEntries (r_groups r) (recycle_bin_uuid_for_db db))) @ found'"
      by (auto split: option.splits run.splits)
    have "searchable odb0 (gs, rb) \<longleftrightarrow> gs = r_groups r \<and> rb = recycle_bin_uuid_for_db db" for gs rb
      using db r by (auto simp: searchable_def root_groups_def)
    then show ?thesis
      using 2(4)[OF db r(1) r(2)] db r by (auto simp: collectEntries_eq)
  qed
qed auto

section \<open>Properties\<close>

text \<open>C21. Visibility. The entries the Secret Service shows of a database are exactly the
  entries no recycled group is above and, when an expose group is set, that lie in a group
  with that name or UUID or below one.\<close>

theorem collectEntriesVisible_exact:
  "set (collectEntriesVisible gs rb x) =
     {e. \<exists>path. entry_at gs path e \<and> (\<forall>d \<in> set path. \<not> is_recycled d rb)
           \<and> (trim_space x \<noteq> [] \<longrightarrow>
                (\<exists>d \<in> set path. equal_fold (g_name d) (trim_space x) \<or> equal_fold (uuid_hex (g_uuid d)) (trim_space x)))}"
  unfolding set_eq_iff mem_Collect_eq visible_iff exposes_def groupUUIDString_def uuid_hex_def
  by (simp only: imp_conv_disj not_not) blast

definition sample_value :: "string \<Rightarrow> string \<Rightarrow> value_data" where
  "sample_value k x = \<lparr>v_key = k, v_content = x, v_protected = False\<rparr>"

definition sample_times :: time_data where
  "sample_times = \<lparr>creation_time = None, last_modification_time = None, last_access_time = None\<rparr>"

definition sample_entry :: "uuid \<Rightarrow> value_data list \<Rightarrow> entry" where
  "sample_entry u vs = Entry \<lparr>e_uuid = u, e_foreground_color = [], e_background_color = [], e_override_url = [],
     e_tags = [], e_times = sample_times, e_values = vs, e_binaries = [], e_custom_data = []\<rparr> []"

definition sample_group :: "uuid \<Rightarrow> string \<Rightarrow> group_data" where
  "sample_group u n = \<lparr>g_uuid = u, g_name = n, g_notes = [], g_last_top_visible_entry = [], g_times = sample_times\<rparr>"

definition sample_tree :: "grp list" where
  "sample_tree = [Group (sample_group 1 ''Root'')
     [sample_entry 10 [sample_value ''Title'' ''outside'']]
     [Group (sample_group 2 ''Shared'') [sample_entry 11 [sample_value ''Title'' ''in'', sample_value ''Password'' ''pw'']] [],
      Group (sample_group 3 ''Recycle Bin'') [sample_entry 12 []] []]]"

lemma collectEntriesVisible_exact_witness:
  "sample_entry 11 [sample_value ''Title'' ''in'', sample_value ''Password'' ''pw'']
     \<in> set (collectEntriesVisible sample_tree 0 '' shared '')"
proof -
  let ?e = "sample_entry 11 [sample_value ''Title'' ''in'', sample_value ''Password'' ''pw'']"
  have "entry_at sample_tree [sample_group 1 ''Root'', sample_group 2 ''Shared''] ?e"
    unfolding sample_tree_def by (simp add: entry_at_Cons)
  moreover have "trim_space '' shared '' = ''shared''" "equal_fold ''Shared'' ''shared''"
    by code_simp+
  moreover have "\<forall>d \<in> set [sample_group 1 ''Root'', sample_group 2 ''Shared'']. \<not> is_recycled d 0"
    by (simp add: is_recycled_def sample_group_def)
  ultimately have "\<exists>path. entry_at sample_tree path ?e \<and> (\<forall>d \<in> set path. \<not> is_recycled d 0)
      \<and> (trim_space '' shared '' \<noteq> [] \<longrightarrow> (\<exists>d \<in> set path. equal_fold (g_name d) (trim_space '' shared '')
             \<or> equal_fold (uuid_hex (g_uuid d)) (trim_space '' shared '')))"
    by (intro exI[of _ "[sample_group 1 ''Root'', sample_group 2 ''Shared'']"]) (simp add: sample_group_def)
  then show ?thesis unfolding collectEntriesVisible_exact by blast
qed

end
