(* ===== verification/Secret_Session.thy ===== *)
theory Secret_Session
  imports Machine Go_Encoding
begin

text \<open>
  Sessions and prompts of the Secret Service (\<open>internal/secretservice/session.go\<close>,
  \<open>prompt.go\<close> and the key exchange of \<open>service.go\<close>): the transport that carries secrets over
  D-Bus, its padding and its key derivation. CBC mode, HMAC and the big-integer encoding of
  Go's standard library are written out; AES on one block and SHA-256 are arguments.
\<close>

section \<open>D-Bus variants\<close>

text \<open>The dynamic types the service looks for inside a variant.\<close>

datatype dbus_variant =
    VString string
  | VBytes bytes
  | VList "dbus_variant list"
  | VStrings "string \<rightharpoonup> string"
  | VVariants "string \<Rightarrow> dbus_variant option"
  | VOther

section \<open>Padding\<close>

definition pkcs7Pad :: "bytes \<Rightarrow> nat \<Rightarrow> bytes" where
  "pkcs7Pad dat blockSize =
     (let padLen = blockSize - length dat mod blockSize
      in dat @ replicate padLen (word_of_nat padLen))"

datatype pad_error = EmptyData | InvalidPadding | InvalidPaddingByte

definition pkcs7Unpad :: "bytes \<Rightarrow> pad_error + bytes" where
  "pkcs7Unpad dat =
     (if dat = [] then Err EmptyData
      else let padLen = unat (last dat)
           in if padLen = 0 \<or> padLen > length dat then Err InvalidPadding
              else if \<not> list_all (\<lambda>b. b = word_of_nat padLen) (drop (length dat - padLen) dat)
              then Err InvalidPaddingByte
              else Ok (take (length dat - padLen) dat))"

section \<open>CBC mode\<close>

definition block_size :: nat where
  "block_size = 16"

definition xor_block :: "bytes \<Rightarrow> bytes \<Rightarrow> bytes" where
  "xor_block a b = map2 (\<lambda>x y. x XOR y) a b"

fun cbc_encrypt :: "(bytes \<Rightarrow> bytes) \<Rightarrow> bytes \<Rightarrow> bytes \<Rightarrow> bytes" where
  "cbc_encrypt enc iv [] = []"
| "cbc_encrypt enc iv (x # xs) =
     (let c = enc (xor_block (x # take 15 xs) iv) in c @ cbc_encrypt enc c (drop 15 xs))"

fun cbc_decrypt :: "(bytes \<Rightarrow> bytes) \<Rightarrow> bytes \<Rightarrow> bytes \<Rightarrow> bytes" where
  "cbc_decrypt dec iv [] = []"
| "cbc_decrypt dec iv (x # xs) =
     (let c = x # take 15 xs in xor_block (dec c) iv @ cbc_decrypt dec c (drop 15 xs))"

text \<open>AES by key and block; \<open>aes.NewCipher\<close> accepts keys of 16, 24 and 32 bytes.\<close>

record cipher_lib =
  aes_encrypt :: "bytes \<Rightarrow> bytes \<Rightarrow> bytes"
  aes_decrypt :: "bytes \<Rightarrow> bytes \<Rightarrow> bytes"

definition key_size_ok :: "bytes \<Rightarrow> bool" where
  "key_size_ok k \<longleftrightarrow> length k = 16 \<or> length k = 24 \<or> length k = 32"

section \<open>Sessions\<close>

record session =
  s_path :: string
  s_alg :: string
  s_key :: bytes
  s_closed :: bool

definition NewPlainSession :: "string \<Rightarrow> session" where
  "NewPlainSession path = \<lparr>s_path = path, s_alg = ''plain'', s_key = [], s_closed = False\<rparr>"

definition NewEncryptedSession :: "string \<Rightarrow> bytes \<Rightarrow> session" where
  "NewEncryptedSession path key =
     \<lparr>s_path = path, s_alg = ''dh-ietf1024-sha256-aes128-cbc'', s_key = key, s_closed = False\<rparr>"

definition Session_Close :: "session \<Rightarrow> session" where
  "Session_Close s = s\<lparr>s_closed := True\<rparr>"

datatype session_error = NoKey | SessionClosed | BadKeySize | NoRandom | BadCiphertext | BadPadding pad_error

text \<open>\<open>rnd\<close> is what \<open>rand.Read\<close> delivers: 16 bytes, or none when it fails.\<close>

definition Encrypt :: "cipher_lib \<Rightarrow> bytes option \<Rightarrow> session \<Rightarrow> bytes \<Rightarrow> session_error + bytes \<times> bytes" where
  "Encrypt C rnd s plaintext =
     (if s_alg s = ''plain'' then Ok ([], plaintext)
      else if s_key s = [] then Err NoKey
      else if s_closed s then Err SessionClosed
      else if \<not> key_size_ok (s_key s) then Err BadKeySize
      else case rnd of
             None \<Rightarrow> Err NoRandom
           | Some iv \<Rightarrow> Ok (iv, cbc_encrypt (aes_encrypt C (s_key s)) iv (pkcs7Pad plaintext block_size)))"

text \<open>\<open>NewCBCDecrypter\<close> panics on an IV that is not one block long.\<close>

definition Decrypt :: "cipher_lib \<Rightarrow> session \<Rightarrow> bytes \<Rightarrow> bytes \<Rightarrow> (session_error + bytes) run" where
  "Decrypt C s iv ciphertext =
     (if s_alg s = ''plain'' then Returned (Ok ciphertext)
      else if s_key s = [] then Returned (Err NoKey)
      else if s_closed s then Returned (Err SessionClosed)
      else if \<not> key_size_ok (s_key s) then Returned (Err BadKeySize)
      else if ciphertext = [] \<or> length ciphertext mod block_size \<noteq> 0 then Returned (Err BadCiphertext)
      else if length iv \<noteq> block_size then Panicked
      else case pkcs7Unpad (cbc_decrypt (aes_decrypt C (s_key s)) iv ciphertext) of
             Inl e \<Rightarrow> Returned (Err (BadPadding e))
           | Inr p \<Rightarrow> Returned (Ok p))"

section \<open>Key derivation\<close>

text \<open>\<open>crypto/hmac\<close> over a hash with 64-byte blocks.\<close>

definition hmac_block :: "(bytes \<Rightarrow> bytes) \<Rightarrow> bytes \<Rightarrow> bytes" where
  "hmac_block sha key =
     (let k = if length key > 64 then sha key else key in k @ replicate (64 - length k) 0)"

definition hmac :: "(bytes \<Rightarrow> bytes) \<Rightarrow> bytes \<Rightarrow> bytes \<Rightarrow> bytes" where
  "hmac sha key msg =
     sha (map (\<lambda>b. b XOR 0x5c) (hmac_block sha key) @ sha (map (\<lambda>b. b XOR 0x36) (hmac_block sha key) @ msg))"

definition DeriveSessionKey :: "(bytes \<Rightarrow> bytes) \<Rightarrow> bytes \<Rightarrow> bytes" where
  "DeriveSessionKey sha sharedSecret =
     (let prk = hmac sha (replicate 32 0) sharedSecret
      in take 16 (hmac sha prk [1]))"

section \<open>Diffie-Hellman\<close>

text \<open>\<open>big.Int.SetBytes\<close> and \<open>big.Int.Bytes\<close>: big-endian, the latter without leading zeros.\<close>

definition set_bytes :: "bytes \<Rightarrow> nat" where
  "set_bytes bs = foldl (\<lambda>n b. n * 256 + unat b) 0 bs"

fun big_bytes :: "nat \<Rightarrow> bytes" where
  "big_bytes n = (if n = 0 then [] else big_bytes (n div 256) @ [word_of_nat (n mod 256)])"

declare big_bytes.simps [simp del]

definition big_exp :: "nat \<Rightarrow> nat \<Rightarrow> nat \<Rightarrow> nat" where
  "big_exp x y m = x ^ y mod m"

definition dhPrime :: nat where
  "dhPrime = 0xFFFFFFFFFFFFFFFFC90FDAA22168C234C4C6628B80DC1CD129024E088A67CC74020BBEA63B139B22514A08798E3404DDEF9519B3CD3A431B302B0A6DF25F14374FE1356D6D51C245E485B576625E7EC6F44C42E9A637ED6B0BFF5CB6F406B7EDEE386BFB5A899FA5AE9F24117C4B1FE649286651ECE65381FFFFFFFFFFFFFFFF"

text \<open>The key pair from the 128 random bytes drawn.\<close>

definition generateDHKeyPair :: "bytes \<Rightarrow> nat \<times> nat" where
  "generateDHKeyPair privBytes =
     (let priv = set_bytes privBytes mod (dhPrime - 2) + 2
      in (priv, big_exp 2 priv dhPrime))"

text \<open>
  The exchange: the variant for the client and the new session. The nested form
  \<open>[]interface{}\<close> is meant to be accepted too, but its result is assigned to an \<open>ok\<close> that
  shadows the one tested, so that only a plain byte array is.
\<close>

definition handleDHKeyExchange ::
  "(bytes \<Rightarrow> bytes) \<Rightarrow> bytes \<Rightarrow> dbus_variant \<Rightarrow> string \<Rightarrow> (dbus_variant \<times> session) option" where
  "handleDHKeyExchange sha privBytes input sessionPath =
     (case input of
        VBytes clientPubBytes \<Rightarrow>
          (let (priv, pub) = generateDHKeyPair privBytes;
               clientPub = set_bytes clientPubBytes;
               sharedSecret = big_exp clientPub priv dhPrime;
               key = DeriveSessionKey sha (big_bytes sharedSecret)
           in Some (VBytes (big_bytes pub), NewEncryptedSession sessionPath key))
      | _ \<Rightarrow> None)"

section \<open>Prompts\<close>

text \<open>
  A prompt: \<open>p_pending\<close> goroutines started by \<open>Prompt\<close> have not run yet; \<open>p_signals\<close> are the
  \<open>Completed\<close> signals emitted; \<open>p_crashed\<close> holds once a channel was closed twice, which ends
  the daemon.
\<close>

record prompt =
  p_path :: string
  p_pending :: nat
  p_completed :: bool
  p_dismissed :: bool
  p_signals :: "bool list"
  p_crashed :: bool

definition NewPrompt :: "string \<Rightarrow> prompt" where
  "NewPrompt path =
     \<lparr>p_path = path, p_pending = 0, p_completed = False, p_dismissed = False, p_signals = [], p_crashed = False\<rparr>"

definition close_completed :: "prompt \<Rightarrow> prompt" where
  "close_completed p = (if p_completed p then p\<lparr>p_crashed := True\<rparr> else p\<lparr>p_completed := True\<rparr>)"

definition finish_prompt :: "bool \<Rightarrow> bool \<Rightarrow> prompt \<Rightarrow> prompt" where
  "finish_prompt conn dismissed p =
     close_completed (p\<lparr>p_dismissed := dismissed,
                        p_signals := (if conn then p_signals p @ [dismissed] else p_signals p)\<rparr>)"

definition Prompt_Prompt :: "prompt \<Rightarrow> prompt" where
  "Prompt_Prompt p = p\<lparr>p_pending := Suc (p_pending p)\<rparr>"

definition Prompt_run :: "bool \<Rightarrow> prompt \<Rightarrow> prompt" where
  "Prompt_run conn p = finish_prompt conn False (p\<lparr>p_pending := p_pending p - 1\<rparr>)"

definition Prompt_Dismiss :: "bool \<Rightarrow> prompt \<Rightarrow> prompt" where
  "Prompt_Dismiss conn p = finish_prompt conn True p"

inductive prompt_step :: "bool \<Rightarrow> prompt \<Rightarrow> prompt \<Rightarrow> bool" for conn where
  step_prompt: "\<not> p_crashed p \<Longrightarrow> prompt_step conn p (Prompt_Prompt p)"
| step_run: "\<not> p_crashed p \<Longrightarrow> p_pending p > 0 \<Longrightarrow> prompt_step conn p (Prompt_run conn p)"
| step_dismiss: "\<not> p_crashed p \<Longrightarrow> prompt_step conn p (Prompt_Dismiss conn p)"

inductive_cases prompt_stepE: "prompt_step conn p p'"

section \<open>Padding and mode\<close>

lemma pad_length_bounds:
  fixes n :: nat
  assumes "0 < n"
  shows "0 < n - m mod n" "n - m mod n \<le> n"
  using assms by simp_all

lemma unat_pad: "k < 256 \<Longrightarrow> unat (word_of_nat k :: byte) = k"
  by (simp add: unat_of_nat take_bit_eq_mod)

text \<open>Unpadding accepts exactly the byte strings that end in \<open>k\<close> bytes \<open>k\<close> for a \<open>k\<close> between 1
  and 255, block size or not.\<close>

lemma pkcs7Unpad_iff:
  "pkcs7Unpad x = Ok d \<longleftrightarrow> (\<exists>k. 0 < k \<and> k < 256 \<and> x = d @ replicate k (word_of_nat k))"
proof
  assume ok: "pkcs7Unpad x = Ok d"
  define k where "k = unat (last x)"
  have k: "x \<noteq> []" "0 < k" "k \<le> length x" "list_all (\<lambda>b. b = word_of_nat k) (drop (length x - k) x)"
    "d = take (length x - k) x" "k < 256"
    using ok by (auto simp: pkcs7Unpad_def k_def Let_def split: if_splits)
  have "drop (length x - k) x = replicate k (word_of_nat k)"
    using k(3,4) by (intro replicate_eqI) (auto simp: list_all_iff)
  then have "x = d @ replicate k (word_of_nat k)"
    using k(5) by (metis append_take_drop_id)
  with k show "\<exists>k. 0 < k \<and> k < 256 \<and> x = d @ replicate k (word_of_nat k)" by blast
next
  assume "\<exists>k. 0 < k \<and> k < 256 \<and> x = d @ replicate k (word_of_nat k)"
  then obtain k where k: "0 < k" "k < 256" "x = d @ replicate k (word_of_nat k)" by blast
  then have "unat (last x) = k" by (simp add: unat_pad)
  with k show "pkcs7Unpad x = Ok d"
    by (auto simp: pkcs7Unpad_def Let_def list_all_iff)
qed

lemma pkcs7Unpad_Pad:
  assumes "0 < n" "n < 256"
  shows "pkcs7Unpad (pkcs7Pad x n) = Ok x"
  unfolding pkcs7Unpad_iff pkcs7Pad_def Let_def
  using pad_length_bounds[OF assms(1), of "length x"] assms(2)
  by (intro exI[of _ "n - length x mod n"]) simp

lemma pkcs7Pad_length:
  assumes "0 < n"
  shows "length (pkcs7Pad x n) mod n = 0" "pkcs7Pad x n \<noteq> []"
proof -
  have "length x + (n - length x mod n) = n * (length x div n + 1)"
    using pad_length_bounds[OF assms, of "length x"] by (simp add: algebra_simps minus_mod_eq_mult_div [symmetric])
  then show "length (pkcs7Pad x n) mod n = 0" by (simp add: pkcs7Pad_def Let_def)
  show "pkcs7Pad x n \<noteq> []" using assms by (simp add: pkcs7Pad_def Let_def)
qed

lemma length_xor_block [simp]: "length (xor_block a b) = min (length a) (length b)"
  by (simp add: xor_block_def)

lemma xor_block_cancel: "length a = length b \<Longrightarrow> xor_block (xor_block a b) b = a"
  by (auto simp: xor_block_def list_eq_iff_nth_eq xor.assoc)

definition inverse_blocks :: "(bytes \<Rightarrow> bytes) \<Rightarrow> (bytes \<Rightarrow> bytes) \<Rightarrow> bool" where
  "inverse_blocks enc dec \<longleftrightarrow> (\<forall>b. length b = 16 \<longrightarrow> length (enc b) = 16 \<and> dec (enc b) = b)"

lemma cbc_decrypt_block:
  assumes "length c = 16"
  shows "cbc_decrypt dec iv (c @ rest) = xor_block (dec c) iv @ cbc_decrypt dec c rest"
proof -
  from assms obtain y ys where c: "c = y # ys" "length ys = 15" by (cases c) auto
  then show ?thesis by (simp add: Let_def)
qed

lemma cbc_encrypt_block:
  assumes "length b = 16"
  shows "cbc_encrypt enc iv (b @ rest) =
           enc (xor_block b iv) @ cbc_encrypt enc (enc (xor_block b iv)) rest"
proof -
  from assms obtain y ys where "b = y # ys" "length ys = 15" by (cases b) auto
  then show ?thesis by (simp add: Let_def)
qed

lemma cbc_round:
  assumes "inverse_blocks enc dec"
  shows "length iv = 16 \<Longrightarrow> length xs = 16 * n \<Longrightarrow>
           length (cbc_encrypt enc iv xs) = 16 * n \<and> cbc_decrypt dec iv (cbc_encrypt enc iv xs) = xs"
proof (induction n arbitrary: iv xs)
  case (Suc n)
  define b rest where "b = take 16 xs" and "rest = drop 16 xs"
  have xs: "xs = b @ rest" "length b = 16" "length rest = 16 * n"
    using Suc.prems(2) by (simp_all add: b_def rest_def)
  define c where "c = enc (xor_block b iv)"
  have c: "length c = 16" "dec c = xor_block b iv"
    using assms xs(2) Suc.prems(1) by (simp_all add: c_def inverse_blocks_def)
  have e: "cbc_encrypt enc iv xs = c @ cbc_encrypt enc c rest"
    unfolding xs(1) cbc_encrypt_block[OF xs(2)] c_def ..
  show ?case
    unfolding e cbc_decrypt_block[OF c(1)] c(2)
    using Suc.IH[OF c(1) xs(3)] c(1) xs Suc.prems(1) by (simp add: xor_block_cancel)
qed simp

text \<open>The interface of a padding: CBC over padded text can be undone.\<close>

locale padding =
  fixes pad :: "bytes \<Rightarrow> bytes" and unpad :: "bytes \<Rightarrow> pad_error + bytes"
  assumes unpad_pad: "unpad (pad x) = Ok x"
    and whole_blocks: "length (pad x) mod 16 = 0"
    and pad_nonempty: "pad x \<noteq> []"
begin

lemma cbc_unpad:
  assumes "inverse_blocks enc dec" "length iv = 16"
  shows "unpad (cbc_decrypt dec iv (cbc_encrypt enc iv (pad x))) = Ok x"
    and "length (cbc_encrypt enc iv (pad x)) mod 16 = 0" "cbc_encrypt enc iv (pad x) \<noteq> []"
proof -
  have "length (pad x) = 16 * (length (pad x) div 16)" using whole_blocks[of x] by presburger
  from cbc_round[OF assms this]
  have r: "length (cbc_encrypt enc iv (pad x)) = length (pad x)"
    "cbc_decrypt dec iv (cbc_encrypt enc iv (pad x)) = pad x"
    using whole_blocks[of x] by (presburger, blast)
  show "unpad (cbc_decrypt dec iv (cbc_encrypt enc iv (pad x))) = Ok x"
    unfolding r by (rule unpad_pad)
  show "length (cbc_encrypt enc iv (pad x)) mod 16 = 0" using r whole_blocks by simp
  show "cbc_encrypt enc iv (pad x) \<noteq> []" using r(1) pad_nonempty by auto
qed

end

interpretation pkcs7: padding "\<lambda>x. pkcs7Pad x block_size" pkcs7Unpad
  by unfold_locales (simp_all add: block_size_def pkcs7Unpad_Pad pkcs7Pad_length)

section \<open>Transport\<close>

text \<open>What a client and the service rely on: a secret sealed for a session opens to itself.\<close>

locale transport =
  fixes seal :: "'s \<Rightarrow> 'r \<Rightarrow> bytes \<Rightarrow> 'e + bytes \<times> bytes"
    and unseal :: "'s \<Rightarrow> bytes \<Rightarrow> bytes \<Rightarrow> ('e + bytes) run"
    and good :: "'s \<Rightarrow> 'r \<Rightarrow> bool"
  assumes seal_unseal: "good s r \<Longrightarrow> seal s r p = Ok (iv, c) \<Longrightarrow> unseal s iv c = Returned (Ok p)"
begin

lemma unseal_inj:
  assumes "good s r" "seal s r p = Ok x" "good s r'" "seal s r' q = Ok x"
  shows "p = q"
proof -
  obtain iv c where x: "x = (iv, c)" by (cases x)
  from seal_unseal[OF assms(1) assms(2)[unfolded x]] seal_unseal[OF assms(3) assms(4)[unfolded x]]
  show ?thesis by simp
qed

end

definition sound_cipher :: "cipher_lib \<Rightarrow> bool" where
  "sound_cipher C \<longleftrightarrow> (\<forall>k. key_size_ok k \<longrightarrow> inverse_blocks (aes_encrypt C k) (aes_decrypt C k))"

lemma Decrypt_Encrypt:
  assumes "sound_cipher C" "\<And>iv. rnd = Some iv \<Longrightarrow> length iv = 16" "Encrypt C rnd s p = Ok (iv, c)"
  shows "Decrypt C s iv c = Returned (Ok p)"
proof (cases "s_alg s = ''plain''")
  case True
  with assms(3) show ?thesis by (simp add: Encrypt_def Decrypt_def)
next
  case False
  with assms(3) have s: "s_key s \<noteq> []" "\<not> s_closed s" "key_size_ok (s_key s)" "rnd = Some iv"
    "c = cbc_encrypt (aes_encrypt C (s_key s)) iv (pkcs7Pad p block_size)"
    by (auto simp: Encrypt_def split: if_splits option.splits)
  have inv: "inverse_blocks (aes_encrypt C (s_key s)) (aes_decrypt C (s_key s))"
    using assms(1) s(3) by (simp add: sound_cipher_def)
  show ?thesis
    using pkcs7.cbc_unpad[OF inv assms(2)[OF s(4)], of p] s False assms(2)[OF s(4)]
    by (simp add: Decrypt_def block_size_def)
qed

interpretation session: transport "\<lambda>s rnd p. Encrypt C rnd s p" "Decrypt C"
    "\<lambda>s rnd. sound_cipher C \<and> (\<forall>iv. rnd = Some iv \<longrightarrow> length iv = 16)"
  for C
  by unfold_locales (auto intro: Decrypt_Encrypt)

section \<open>Diffie-Hellman\<close>

lemma set_bytes_snoc: "set_bytes (bs @ [b]) = set_bytes bs * 256 + unat b"
  by (simp add: set_bytes_def)

lemma set_big_bytes [simp]: "set_bytes (big_bytes n) = n"
proof (induction n rule: big_bytes.induct)
  case (1 n)
  show ?case
  proof (cases "n = 0")
    case False
    with 1 have "set_bytes (big_bytes (n div 256)) = n div 256" by simp
    with False show ?thesis
      by (subst big_bytes.simps) (simp add: set_bytes_snoc unat_pad)
  qed (simp add: big_bytes.simps[of 0] set_bytes_def)
qed

lemma dhPrime_large: "2 < dhPrime"
  by (simp add: dhPrime_def)

lemma generateDHKeyPair_range:
  "generateDHKeyPair r = (priv, pub) \<Longrightarrow> 2 \<le> priv \<and> priv < dhPrime \<and> pub = 2 ^ priv mod dhPrime"
  using dhPrime_large mod_less_divisor[of "dhPrime - 2" "set_bytes r"]
  by (auto simp: generateDHKeyPair_def Let_def big_exp_def less_diff_conv)

section \<open>Prompts\<close>

definition prompt_ok :: "bool \<Rightarrow> prompt \<Rightarrow> bool" where
  "prompt_ok conn p \<longleftrightarrow>
     (if p_crashed p then p_completed p \<and> length (p_signals p) = (if conn then 2 else 0)
      else length (p_signals p) = (if conn \<and> p_completed p then 1 else 0))"

lemma prompt_step_ok: "prompt_ok conn p \<Longrightarrow> prompt_step conn p p' \<Longrightarrow> prompt_ok conn p'"
  by (erule prompt_stepE)
    (auto simp: prompt_ok_def Prompt_Prompt_def Prompt_run_def Prompt_Dismiss_def finish_prompt_def
      close_completed_def split: if_splits)

lemma prompt_ok_new: "prompt_ok conn (NewPrompt path)"
  by (simp add: prompt_ok_def NewPrompt_def)

lemma prompt_ok_bound: "prompt_ok conn p \<Longrightarrow> length (p_signals p) \<le> 2"
  by (simp add: prompt_ok_def split: if_splits)

interpretation prompt: bounded_machine "\<lambda>p. p = NewPrompt path" "prompt_step conn" "prompt_ok conn"
    "\<lambda>p. length (p_signals p)" 2
  for path conn
  by unfold_locales (auto simp: prompt_ok_new intro: prompt_step_ok prompt_ok_bound)

section \<open>Properties\<close>

text \<open>C37. Secrets survive the transport: what \<open>Encrypt\<close> produces for a session, \<open>Decrypt\<close> of
  the same session gives back, for every plaintext, provided AES decryption undoes
  encryption block by block and the random source delivers 16 bytes. The vector is returned
  beside the ciphertext and is no part of it, as \<open>Decrypt\<close> and the protocol expect; the comment
  above \<open>Encrypt\<close> says that it is prepended.\<close>

theorem session_roundtrip:
  assumes "sound_cipher C" and "length iv0 = 16" and "Encrypt C (Some iv0) s p = Ok (iv, c)"
  shows "Decrypt C s iv c = Returned (Ok p) \<and> (s_alg s = ''plain'' \<or> iv = iv0 \<and> length c = 16 * (length p div 16 + 1))"
proof -
  have "Decrypt C s iv c = Returned (Ok p)"
    by (rule Decrypt_Encrypt[OF assms(1) _ assms(3)]) (use assms(2) in auto)
  moreover have "iv = iv0 \<and> length c = 16 * (length p div 16 + 1)" if "s_alg s \<noteq> ''plain''"
  proof -
    from that assms(3) have s: "key_size_ok (s_key s)" "iv = iv0"
      "c = cbc_encrypt (aes_encrypt C (s_key s)) iv (pkcs7Pad p block_size)"
      by (auto simp: Encrypt_def split: if_splits)
    have len: "length (pkcs7Pad p block_size) = 16 * (length p div 16 + 1)"
      by (simp add: pkcs7Pad_def block_size_def Let_def) presburger
    have inv: "inverse_blocks (aes_encrypt C (s_key s)) (aes_decrypt C (s_key s))"
      using assms(1) s(1) by (simp add: sound_cipher_def)
    show ?thesis using cbc_round[OF inv assms(2) len] s by simp
  qed
  ultimately show ?thesis by blast
qed

definition sample_cipher :: cipher_lib where
  "sample_cipher = \<lparr>aes_encrypt = \<lambda>k b. rev b, aes_decrypt = \<lambda>k b. rev b\<rparr>"

lemma sample_cipher_sound [simp]: "sound_cipher sample_cipher"
  by (simp add: sound_cipher_def sample_cipher_def inverse_blocks_def)

lemma session_roundtrip_witness:
  "\<exists>iv c. Encrypt sample_cipher (Some (replicate 16 7)) (NewEncryptedSession ''/s'' (replicate 16 1)) [1, 2, 3] = Ok (iv, c)
     \<and> Decrypt sample_cipher (NewEncryptedSession ''/s'' (replicate 16 1)) iv c = Returned (Ok [1, 2, 3])"
proof -
  obtain iv c where e: "Encrypt sample_cipher (Some (replicate 16 7)) (NewEncryptedSession ''/s'' (replicate 16 1)) [1, 2, 3]
      = Ok (iv, c)"
    by (simp add: Encrypt_def NewEncryptedSession_def key_size_ok_def)
  from session_roundtrip[OF sample_cipher_sound _ e] e show ?thesis by auto
qed

text \<open>Unpadding is exact: it accepts the byte strings that end in \<open>k\<close> bytes of value
  \<open>k\<close>, for some \<open>k\<close> from 1 to 255, and returns what precedes them; a \<open>k\<close> above the block
  size is accepted too.\<close>

theorem pkcs7Unpad_exact:
  "pkcs7Unpad x = Ok d \<longleftrightarrow> (\<exists>k. 0 < k \<and> k < 256 \<and> x = d @ replicate k (word_of_nat k))"
  by (rule pkcs7Unpad_iff)

text \<open>Both sides derive the same key: a client that sends its public value \<open>2^a mod p\<close> and
  raises the server's answer to \<open>a\<close> obtains the shared secret from which the session's AES
  key was derived; the key has 16 bytes when the hash delivers that many.\<close>

theorem dh_agreement:
  assumes "handleDHKeyExchange sha privBytes (VBytes (big_bytes (2 ^ a mod dhPrime))) path = Some (VBytes srv, s)"
    and "\<And>x. length (sha x) = 32"
  shows "s_key s = DeriveSessionKey sha (big_bytes (set_bytes srv ^ a mod dhPrime))
         \<and> length (s_key s) = 16 \<and> \<not> s_closed s \<and> s_path s = path"
proof -
  obtain priv pub where kp: "generateDHKeyPair privBytes = (priv, pub)" by (cases "generateDHKeyPair privBytes")
  note range = generateDHKeyPair_range[OF kp]
  have "(2 ^ a mod dhPrime) ^ priv mod dhPrime = (2 ^ priv mod dhPrime) ^ a mod dhPrime"
    by (simp add: power_mod power_mult [symmetric] mult.commute)
  with assms(1) kp range show ?thesis
    by (auto simp: handleDHKeyExchange_def big_exp_def NewEncryptedSession_def DeriveSessionKey_def hmac_def Let_def assms(2))
qed

lemma dh_agreement_witness:
  "\<exists>srv s. handleDHKeyExchange (\<lambda>x. replicate 32 (of_nat (length x))) (replicate 128 3)
         (VBytes (big_bytes (2 ^ 5 mod dhPrime))) ''/s'' = Some (VBytes srv, s) \<and> length (s_key s) = 16"
proof -
  let ?sha = "\<lambda>x :: bytes. replicate 32 (of_nat (length x) :: byte)"
  obtain srv s where run: "handleDHKeyExchange ?sha (replicate 128 3) (VBytes (big_bytes (2 ^ 5 mod dhPrime))) ''/s''
      = Some (VBytes srv, s)"
    by (cases "generateDHKeyPair (replicate 128 3)") (simp add: handleDHKeyExchange_def)
  from dh_agreement[OF run] run show ?thesis by auto
qed

text \<open>A prompt completes once: in every state a prompt reaches, as long as the daemon has
  not crashed, a connected prompt has emitted one \<open>Completed\<close> signal if its channel is closed
  and none before; and whatever the calls, it never emits more than two, the second only when
  a second completion closes the closed channel and brings the daemon down.\<close>

theorem prompt_completes_once:
  assumes "reachable (\<lambda>p. p = NewPrompt path) (prompt_step True) p"
  shows "(\<not> p_crashed p \<longrightarrow> length (p_signals p) = (if p_completed p then 1 else 0))
         \<and> (p_crashed p \<longrightarrow> length (p_signals p) = 2) \<and> length (p_signals p) \<le> 2"
  using prompt.reachable_inv[OF assms] prompt.reachable_bound[OF assms]
  by (simp add: prompt_ok_def split: if_splits)

lemma prompt_completes_once_witness:
  "\<exists>p. p = Prompt_Dismiss True (Prompt_Dismiss True (NewPrompt ''/p'')) \<and> p_crashed p \<and> length (p_signals p) = 2"
proof -
  let ?p = "Prompt_Dismiss True (NewPrompt ''/p'')"
  have nc: "\<not> p_crashed (NewPrompt ''/p'')" "\<not> p_crashed ?p" "p_crashed (Prompt_Dismiss True ?p)"
    by (simp_all add: NewPrompt_def Prompt_Dismiss_def finish_prompt_def close_completed_def)
  let ?R = "reachable (\<lambda>p. p = NewPrompt ''/p'') (prompt_step True)"
  have start: "?R (NewPrompt ''/p'')" by (rule reachable.start) (rule refl)
  have once: "?R ?p" using start step_dismiss[OF nc(1)] by (rule reachable.move)
  have "?R (Prompt_Dismiss True ?p)" using once step_dismiss[OF nc(2)] by (rule reachable.move)
  from prompt_completes_once[OF this] nc(3) show ?thesis by blast
qed

end
