(* ===== verification/Secret_Write.thy ===== *)
theory Secret_Write
  imports Secret_Attributes Secret_Session
begin

text \<open>
  The editing half of \<open>internal/secretservice/write.go\<close>: finding entries and groups in a
  tree, writing values and attributes into an entry, keeping its history, and removing it,
  with the constructors of the vendored library it calls.

  A Go pointer into the tree is the path of group indices to it, with the entry's index for
  a pointer to an entry; reading and writing through a pointer are \<open>entry_ref\<close> and
  \<open>entry_store\<close>. One clock reading and one stream of random UUIDs serve an operation.
\<close>

section \<open>Constructors of the library\<close>

definition NewTimeData :: "int \<Rightarrow> time_data" where
  "NewTimeData now = \<lparr>creation_time = Some now, last_modification_time = Some now, last_access_time = Some now\<rparr>"

definition NewGroup :: "uuid \<Rightarrow> int \<Rightarrow> group_data" where
  "NewGroup u now = \<lparr>g_uuid = u, g_name = [], g_notes = [], g_last_top_visible_entry = [], g_times = NewTimeData now\<rparr>"

definition NewEntry :: "uuid \<Rightarrow> int \<Rightarrow> entry" where
  "NewEntry u now =
     Entry \<lparr>e_uuid = u, e_foreground_color = [], e_background_color = [], e_override_url = [], e_tags = [],
            e_times = NewTimeData now, e_values = [], e_binaries = [], e_custom_data = []\<rparr> []"

definition NewRootData :: "uuid_source \<Rightarrow> nat \<Rightarrow> int \<Rightarrow> root_data \<times> nat" where
  "NewRootData rnd n now =
     (\<lparr>r_groups = [Group ((NewGroup (rnd n) now)\<lparr>g_name := ''NewDatabase''\<rparr>)
         [set_data (\<lambda>d. d\<lparr>e_values := [\<lparr>v_key = ''Title'', v_content = ''Sample Entry'', v_protected = False\<rparr>]\<rparr>)
            (NewEntry (rnd (Suc n)) now)] []],
       r_deleted = []\<rparr>, Suc (Suc n))"

definition NewMetaData :: meta_data where
  "NewMetaData = \<lparr>recycle_bin_uuid = 0, history_max_items = 10, history_max_size = 6291456, m_binaries = [],
     m_custom_data = [], default_user_name = []\<rparr>"

definition NewContent :: "uuid_source \<Rightarrow> nat \<Rightarrow> int \<Rightarrow> db_content \<times> nat" where
  "NewContent rnd n now =
     (let (root, n') = NewRootData rnd n now
      in (\<lparr>c_raw = [], c_inner = None, c_meta = Some NewMetaData, c_root = Some root\<rparr>, n'))"

section \<open>Pointers into a tree\<close>

definition entryUUIDString :: "entry \<Rightarrow> string" where
  "entryUUIDString e = hex_encode (uuid_bytes (entry_uuid e))"

type_synonym group_ptr = "nat list"
type_synonym entry_ptr = "nat list \<times> nat"

text \<open>The entries of the group behind a pointer, and the tree after a change of them.\<close>

fun entries_at :: "grp list \<Rightarrow> group_ptr \<Rightarrow> entry list option" where
  "entries_at [] p = None"
| "entries_at (Group d es gs # rest) [] = None"
| "entries_at (Group d es gs # rest) (0 # p) = (if p = [] then Some es else entries_at gs p)"
| "entries_at (Group d es gs # rest) (Suc i # p) = entries_at rest (i # p)"

fun update_entries :: "(entry list \<Rightarrow> entry list) \<Rightarrow> grp list \<Rightarrow> group_ptr \<Rightarrow> grp list" where
  "update_entries f [] p = []"
| "update_entries f (Group d es gs # rest) [] = Group d es gs # rest"
| "update_entries f (Group d es gs # rest) (0 # p) =
     (if p = [] then Group d (f es) gs # rest else Group d es (update_entries f gs p) # rest)"
| "update_entries f (Group d es gs # rest) (Suc i # p) = Group d es gs # update_entries f rest (i # p)"

definition entry_ref :: "grp list \<Rightarrow> entry_ptr \<Rightarrow> entry option" where
  "entry_ref gs ptr =
     (case entries_at gs (fst ptr) of None \<Rightarrow> None
      | Some es \<Rightarrow> if snd ptr < length es then Some (es ! snd ptr) else None)"

definition entry_store :: "grp list \<Rightarrow> entry_ptr \<Rightarrow> entry \<Rightarrow> grp list" where
  "entry_store gs ptr e = update_entries (\<lambda>es. es[snd ptr := e]) gs (fst ptr)"

definition append_entry :: "grp list \<Rightarrow> group_ptr \<Rightarrow> entry \<Rightarrow> grp list" where
  "append_entry gs p e = update_entries (\<lambda>es. es @ [e]) gs p"

text \<open>Pointers relative to the subgroups of the first group, and to the groups after it.\<close>

definition in_subgroups :: "entry_ptr \<Rightarrow> entry_ptr" where
  "in_subgroups = (\<lambda>(p, i). (0 # p, i))"

definition in_next :: "entry_ptr \<Rightarrow> entry_ptr" where
  "in_next = (\<lambda>(p, i). (case p of [] \<Rightarrow> [] | n # q \<Rightarrow> Suc n # q, i))"

fun index_where :: "('a \<Rightarrow> bool) \<Rightarrow> 'a list \<Rightarrow> nat option" where
  "index_where P [] = None"
| "index_where P (x # xs) = (if P x then Some 0 else map_option Suc (index_where P xs))"

section \<open>Finding and removing\<close>

fun findEntryPtrByUUID :: "grp list \<Rightarrow> string \<Rightarrow> entry_ptr option" where
  "findEntryPtrByUUID [] uuidHex = None"
| "findEntryPtrByUUID (Group d es gs # rest) uuidHex =
     (case index_where (\<lambda>e. entryUUIDString e = uuidHex) es of
        Some i \<Rightarrow> Some ([0], i)
      | None \<Rightarrow>
          (case findEntryPtrByUUID gs uuidHex of
             Some ptr \<Rightarrow> Some (in_subgroups ptr)
           | None \<Rightarrow> map_option in_next (findEntryPtrByUUID rest uuidHex)))"

fun removeEntryByUUID :: "grp list \<Rightarrow> string \<Rightarrow> bool \<times> grp list" where
  "removeEntryByUUID [] uuidHex = (False, [])"
| "removeEntryByUUID (Group d es gs # rest) uuidHex =
     (case index_where (\<lambda>e. entryUUIDString e = uuidHex) es of
        Some i \<Rightarrow> (True, Group d (take i es @ drop (Suc i) es) gs # rest)
      | None \<Rightarrow>
          (let (removed, gs') = removeEntryByUUID gs uuidHex
           in if removed then (True, Group d es gs' # rest)
              else let (removed', rest') = removeEntryByUUID rest uuidHex
                   in (removed', Group d es gs # rest')))"

text \<open>\<open>findMatchingVisibleEntryPtr\<close> trims the expose group at every level.\<close>

fun findMatchingVisibleEntryPtr ::
  "string list \<Rightarrow> grp list \<Rightarrow> string \<Rightarrow> string \<Rightarrow> attrs \<Rightarrow> uuid \<Rightarrow> string \<Rightarrow> bool \<Rightarrow> entry_ptr option" where
  "findMatchingVisibleEntryPtr order [] dbName dbUUID as rb exposeGroup visible = None"
| "findMatchingVisibleEntryPtr order (Group d es gs # rest) dbName dbUUID as rb exposeGroup visible =
     (let wanted = trim_space exposeGroup;
          next_group = map_option in_next (findMatchingVisibleEntryPtr order rest dbName dbUUID as rb exposeGroup visible)
      in if is_recycled d rb then next_group
         else
           (let groupVisible = visible \<or> wanted = [] \<or> exposes d wanted
            in case (if groupVisible
                     then index_where (\<lambda>e. matchAttributesForWrite order e \<lparr>mo_name = dbName, mo_uuid = dbUUID\<rparr> as) es
                     else None) of
                 Some i \<Rightarrow> Some ([0], i)
               | None \<Rightarrow>
                   (case findMatchingVisibleEntryPtr order gs dbName dbUUID as rb wanted groupVisible of
                      Some ptr \<Rightarrow> Some (in_subgroups ptr)
                    | None \<Rightarrow> next_group)))"

definition findMatchingEntryPtr :: "string list \<Rightarrow> grp list \<Rightarrow> string \<Rightarrow> string \<Rightarrow> attrs \<Rightarrow> entry_ptr option" where
  "findMatchingEntryPtr order gs dbName dbUUID as = findMatchingVisibleEntryPtr order gs dbName dbUUID as 0 [] False"

fun findGroupPtrByExposure_in :: "grp list \<Rightarrow> uuid \<Rightarrow> string \<Rightarrow> group_ptr option" where
  "findGroupPtrByExposure_in [] rb wanted = None"
| "findGroupPtrByExposure_in (Group d es gs # rest) rb wanted =
     (let next_group = map_option (\<lambda>p. case p of [] \<Rightarrow> [] | n # q \<Rightarrow> Suc n # q) (findGroupPtrByExposure_in rest rb wanted)
      in if is_recycled d rb then next_group
         else if exposes d wanted then Some [0]
         else (case findGroupPtrByExposure_in gs rb wanted of
                 Some p \<Rightarrow> Some (0 # p)
               | None \<Rightarrow> next_group))"

text \<open>The recursive calls trim again, which changes nothing, and return early on an empty
  name, which a trimmed non-empty name is not.\<close>

definition findGroupPtrByExposure :: "grp list \<Rightarrow> uuid \<Rightarrow> string \<Rightarrow> group_ptr option" where
  "findGroupPtrByExposure gs rb exposeGroup =
     (let wanted = trim_space exposeGroup
      in if wanted = [] then None else findGroupPtrByExposure_in gs rb wanted)"

definition secretServiceGroupName :: string where
  "secretServiceGroupName = ''Secret Service''"

definition with_groups :: "grp list \<Rightarrow> database \<Rightarrow> database" where
  "with_groups gs db =
     db\<lparr>db_content := map_option (\<lambda>c. c\<lparr>c_root := map_option (\<lambda>r. r\<lparr>r_groups := gs\<rparr>) (c_root c)\<rparr>) (db_content db)\<rparr>"

text \<open>\<open>findOrCreateSecretServiceGroup\<close> on the groups of a root: the group \<open>Secret Service\<close>
  under the first root group, whatever else is in the tree.\<close>

definition secret_service_group :: "uuid_source \<Rightarrow> nat \<Rightarrow> int \<Rightarrow> grp list \<Rightarrow> grp list \<times> group_ptr \<times> nat" where
  "secret_service_group rnd n now groups =
     (let (groups', n') =
            (if groups = [] then ([Group ((NewGroup (rnd n) now)\<lparr>g_name := ''Root''\<rparr>) [] []], Suc n) else (groups, n))
      in case groups' of
           [] \<Rightarrow> (groups', [], n')
         | Group d es gs # rest \<Rightarrow>
             (case index_where (\<lambda>g. g_name (gdata g) = secretServiceGroupName) gs of
                Some i \<Rightarrow> (groups', [0, i], n')
              | None \<Rightarrow>
                  (Group d es (gs @ [Group ((NewGroup (rnd n') now)\<lparr>g_name := secretServiceGroupName\<rparr>) [] []]) # rest,
                   [0, length gs], Suc n')))"

definition findOrCreateSecretServiceGroup ::
  "uuid_source \<Rightarrow> nat \<Rightarrow> int \<Rightarrow> database \<Rightarrow> database \<times> group_ptr \<times> nat" where
  "findOrCreateSecretServiceGroup rnd n now db =
     (let (c, n1) = (case db_content db of None \<Rightarrow> NewContent rnd n now | Some c \<Rightarrow> (c, n));
          (r, n2) = (case c_root c of None \<Rightarrow> NewRootData rnd n1 now | Some r \<Rightarrow> (r, n1));
          (gs, p, n3) = secret_service_group rnd n2 now (r_groups r)
      in (db\<lparr>db_content := Some (c\<lparr>c_root := Some (r\<lparr>r_groups := gs\<rparr>)\<rparr>)\<rparr>, p, n3))"

section \<open>Editing an entry\<close>

definition setEntryValue :: "string \<Rightarrow> string \<Rightarrow> bool \<Rightarrow> entry \<Rightarrow> entry" where
  "setEntryValue k x protected e =
     (let idx = get_index e k;
          v = \<lparr>v_key = k, v_content = x, v_protected = protected\<rparr>
      in if idx \<ge> 0 then set_data (\<lambda>d. d\<lparr>e_values := (e_values d)[nat idx := v]\<rparr>) e
         else set_data (\<lambda>d. d\<lparr>e_values := e_values d @ [v]\<rparr>) e)"

definition updateModificationTime :: "int \<Rightarrow> entry \<Rightarrow> entry" where
  "updateModificationTime now =
     set_data (\<lambda>d. d\<lparr>e_times := (e_times d)\<lparr>last_modification_time := Some now, last_access_time := Some now\<rparr>\<rparr>)"

fun apply_field_loop :: "string list \<Rightarrow> attrs \<Rightarrow> string \<Rightarrow> entry \<Rightarrow> entry" where
  "apply_field_loop [] as label e = e"
| "apply_field_loop (k # ks) as label e =
     (case as k of
        None \<Rightarrow> apply_field_loop ks as label e
      | Some x \<Rightarrow>
          apply_field_loop ks as label
            (if k = ''kpxcd:dbname'' \<or> k = ''kpxcd:dbuuid'' then e
             else if k = ''title'' then setEntryValue ''Title'' label False e
             else setEntryValue k x False e))"

definition item_label :: "string \<Rightarrow> attrs \<Rightarrow> string" where
  "item_label label as =
     (let or_attr = (\<lambda>k l. if l = [] then (case as k of None \<Rightarrow> [] | Some x \<Rightarrow> x) else l);
          l2 = or_attr ''application'' (or_attr ''title'' label)
      in if l2 = [] then ''Secret Service Item'' else l2)"

definition applyEntryFields :: "int \<Rightarrow> string list \<Rightarrow> string \<Rightarrow> attrs \<Rightarrow> string \<Rightarrow> entry \<Rightarrow> entry" where
  "applyEntryFields now order label as secret e =
     (let l = item_label label as;
          e1 = setEntryValue ''Password'' secret True (setEntryValue ''Title'' l False e)
      in updateModificationTime now (apply_field_loop order as l e1))"

definition newSecretServiceEntry ::
  "uuid \<Rightarrow> int \<Rightarrow> string list \<Rightarrow> string \<Rightarrow> attrs \<Rightarrow> bytes \<Rightarrow> entry" where
  "newSecretServiceEntry u now order label as secret =
     applyEntryFields now order label as (string_of secret) (NewEntry u now)"

fun apply_attribute_loop :: "string list \<Rightarrow> attrs \<Rightarrow> entry \<Rightarrow> entry" where
  "apply_attribute_loop [] as e = e"
| "apply_attribute_loop (k # ks) as e =
     (case as k of
        None \<Rightarrow> apply_attribute_loop ks as e
      | Some x \<Rightarrow>
          apply_attribute_loop ks as
            (if k = ''kpxcd:dbname'' \<or> k = ''kpxcd:dbuuid'' then e
             else if k = ''title'' then setEntryValue ''Title'' x False e
             else setEntryValue k x False e))"

definition applyEntryAttributes :: "int \<Rightarrow> string list \<Rightarrow> attrs \<Rightarrow> entry \<Rightarrow> entry" where
  "applyEntryAttributes now order as e =
     set_data (\<lambda>d. d\<lparr>e_times := (e_times d)\<lparr>last_modification_time := Some now\<rparr>\<rparr>) (apply_attribute_loop order as e)"

section \<open>History\<close>

definition entry_size :: "entry \<Rightarrow> nat" where
  "entry_size e =
     (\<Sum>v \<leftarrow> entry_values e. length (v_key v) + length (v_content v))
     + length (e_tags (edata e)) + length (e_override_url (edata e))"

definition historySize :: "entry list \<Rightarrow> int" where
  "historySize h = int (\<Sum>e \<leftarrow> h. entry_size e)"

text \<open>The two loops that drop the oldest entries.\<close>

fun trim_items :: "int \<Rightarrow> entry list \<Rightarrow> entry list" where
  "trim_items maxItems [] = []"
| "trim_items maxItems (e # es) =
     (if int (length (e # es)) > maxItems then trim_items maxItems es else e # es)"

fun trim_size :: "int \<Rightarrow> entry list \<Rightarrow> entry list" where
  "trim_size maxSize [] = []"
| "trim_size maxSize (e # es) =
     (if historySize (e # es) \<le> maxSize \<or> length (e # es) \<le> 1 then e # es else trim_size maxSize es)"

definition history_limits :: "database \<Rightarrow> int \<times> int" where
  "history_limits db =
     (case db_content db of
        None \<Rightarrow> (10, 6 * 1024 * 1024)
      | Some c \<Rightarrow>
          (case c_meta c of
             None \<Rightarrow> (10, 6 * 1024 * 1024)
           | Some m \<Rightarrow> (if history_max_items m > 0 then history_max_items m else 10,
                        if history_max_size m > 0 then history_max_size m else 6 * 1024 * 1024)))"

definition trimHistory :: "database \<Rightarrow> entry \<Rightarrow> entry" where
  "trimHistory db e =
     (case histories e of
        [] \<Rightarrow> e
      | h # hs \<Rightarrow>
          if h = [] then e
          else let (maxItems, maxSize) = history_limits db
               in Entry (edata e) (trim_size maxSize (trim_items maxItems h) # hs))"

definition appendHistory :: "uuid_source \<Rightarrow> nat \<Rightarrow> database \<Rightarrow> entry \<Rightarrow> entry" where
  "appendHistory rnd n db e =
     (let clone = Entry (edata (fst (clone_entry rnd n e))) [];
          hs = (case histories e of [] \<Rightarrow> [[]] | _ \<Rightarrow> histories e)
      in trimHistory db (Entry (edata e) ((hd hs @ [clone]) # tl hs)))"

section \<open>D-Bus properties\<close>

definition InterfaceItem :: string where
  "InterfaceItem = ''org.freedesktop.Secret.Item''"

type_synonym properties = "string \<rightharpoonup> dbus_variant"

definition propertyString :: "properties \<Rightarrow> string \<Rightarrow> string" where
  "propertyString ps p =
     (case ps (InterfaceItem @ ''.'' @ p) of
        Some (VString s) \<Rightarrow> s
      | _ \<Rightarrow> (case ps p of Some (VString s) \<Rightarrow> s | _ \<Rightarrow> []))"

definition attrs_of_variant :: "dbus_variant \<Rightarrow> attrs option" where
  "attrs_of_variant v =
     (case v of
        VStrings m \<Rightarrow> Some m
      | VVariants m \<Rightarrow> Some (\<lambda>k. case m k of Some (VString s) \<Rightarrow> Some s | _ \<Rightarrow> None)
      | _ \<Rightarrow> None)"

definition propertyAttributes :: "properties \<Rightarrow> attrs" where
  "propertyAttributes ps =
     (case Option.bind (ps (InterfaceItem @ ''.Attributes'')) attrs_of_variant of
        Some m \<Rightarrow> m
      | None \<Rightarrow> (case Option.bind (ps ''Attributes'') attrs_of_variant of Some m \<Rightarrow> m | None \<Rightarrow> Map.empty))"

section \<open>Lemmas: lists\<close>

lemma index_where_None: "index_where P xs = None \<longleftrightarrow> (\<forall>x \<in> set xs. \<not> P x)"
  by (induction xs) auto

lemma index_where_Some:
  "index_where P xs = Some i \<Longrightarrow> i < length xs \<and> P (xs ! i) \<and> (\<forall>x \<in> set (take i xs). \<not> P x)"
  by (induction xs arbitrary: i) (auto split: if_splits)

lemma index_where_split:
  assumes "index_where P xs = Some i"
  shows "xs = take i xs @ xs ! i # drop (Suc i) xs"
  using index_where_Some[OF assms] by (simp add: id_take_nth_drop)

lemma find_index_where: "List.find P xs = map_option ((!) xs) (index_where P xs)"
  by (induction xs) (auto simp: option.map_comp o_def)

section \<open>Lemmas: pointers\<close>

lemma entries_at_Nil [simp]: "entries_at gs [] = None"
  by (cases gs rule: list.exhaust) (metis entries_at.simps(1), metis entries_at.simps(2) grp.exhaust)

lemma entry_ref_here: "entry_ref (Group d es gs # rest) ([0], i) = (if i < length es then Some (es ! i) else None)"
  by (simp add: entry_ref_def)

lemma entry_ref_sub:
  "fst ptr \<noteq> [] \<Longrightarrow> entry_ref (Group d es gs # rest) (in_subgroups ptr) = entry_ref gs ptr"
  by (cases ptr) (simp add: entry_ref_def in_subgroups_def split: option.split)

lemma entry_ref_next:
  "fst ptr \<noteq> [] \<Longrightarrow> entry_ref (Group d es gs # rest) (in_next ptr) = entry_ref rest ptr"
  by (cases ptr; cases "fst ptr") (simp_all add: entry_ref_def in_next_def split: option.split)

lemma entry_store_here:
  "entry_store (Group d es gs # rest) ([0], i) e = Group d (es[i := e]) gs # rest"
  by (simp add: entry_store_def)

lemma entry_store_sub:
  "fst ptr \<noteq> [] \<Longrightarrow> entry_store (Group d es gs # rest) (in_subgroups ptr) e = Group d es (entry_store gs ptr e) # rest"
  by (cases ptr) (simp add: entry_store_def in_subgroups_def)

lemma entry_store_next:
  "fst ptr \<noteq> [] \<Longrightarrow> entry_store (Group d es gs # rest) (in_next ptr) e = Group d es gs # entry_store rest ptr e"
  by (cases ptr; cases "fst ptr") (simp_all add: entry_store_def in_next_def)

lemma fst_in_ptr [simp]: "fst (in_subgroups ptr) \<noteq> []" "fst (in_next ptr) = [] \<longleftrightarrow> fst ptr = []"
  by (cases ptr; simp add: in_subgroups_def in_next_def split: list.split)+

lemmas ptr_simps = entry_ref_here entry_ref_sub entry_ref_next entry_store_here entry_store_sub entry_store_next

section \<open>Lemmas: finding by UUID\<close>

lemma entryUUIDString_inj [simp]: "entryUUIDString e = entryUUIDString e' \<longleftrightarrow> entry_uuid e = entry_uuid e'"
  by (simp add: entryUUIDString_def)

lemma find_uuid_None:
  "findEntryPtrByUUID gs u = None \<longleftrightarrow> u \<notin> entryUUIDString ` set (all_entries gs)"
  by (induction gs u rule: findEntryPtrByUUID.induct)
    (auto simp: index_where_None split: option.splits dest: index_where_Some)

text \<open>Found is the first entry with the UUID in the order of the traversal, and a store
  through the pointer replaces just that one.\<close>

lemma find_uuid_Some:
  "findEntryPtrByUUID gs u = Some ptr \<Longrightarrow>
     fst ptr \<noteq> [] \<and> (\<exists>xs e ys. entry_ref gs ptr = Some e \<and> entryUUIDString e = u \<and> all_entries gs = xs @ e # ys
        \<and> u \<notin> entryUUIDString ` set xs \<and> (\<forall>e'. all_entries (entry_store gs ptr e') = xs @ e' # ys))"
proof (induction gs u arbitrary: ptr rule: findEntryPtrByUUID.induct)
  case (2 d es gs rest u)
  let ?P = "\<lambda>e. entryUUIDString e = u"
  show ?case
  proof (cases "index_where ?P es")
    case (Some i)
    note i = index_where_Some[OF Some]
    have ptr: "ptr = ([0], i)" using 2(3) Some by simp
    have "all_entries (Group d es gs # rest) = take i es @ es ! i # (drop (Suc i) es @ all_entries gs @ all_entries rest)"
      using index_where_split[OF Some] by (metis all_entries.simps(2) append_Cons append_assoc)
    moreover have "all_entries (entry_store (Group d es gs # rest) ptr e')
        = take i es @ e' # (drop (Suc i) es @ all_entries gs @ all_entries rest)" for e'
      using i by (simp add: ptr ptr_simps upd_conv_take_nth_drop)
    moreover have "entry_ref (Group d es gs # rest) ptr = Some (es ! i)" "fst ptr \<noteq> []"
      using i by (simp_all add: ptr entry_ref_here)
    moreover have "entryUUIDString (es ! i) = u" "u \<notin> entryUUIDString ` set (take i es)" using i by auto
    ultimately show ?thesis by blast
  next
    case None
    then have es: "u \<notin> entryUUIDString ` set es" by (auto simp: index_where_None)
    show ?thesis
    proof (cases "findEntryPtrByUUID gs u")
      case (Some q)
      from 2(1)[OF None Some] obtain xs e ys where q: "fst q \<noteq> []" "entry_ref gs q = Some e" "entryUUIDString e = u"
        "all_entries gs = xs @ e # ys" "u \<notin> entryUUIDString ` set xs"
        "\<And>e'. all_entries (entry_store gs q e') = xs @ e' # ys" by blast
      have ptr: "ptr = in_subgroups q" using 2(3) None Some by simp
      show ?thesis
        unfolding ptr using q es
        by (intro conjI exI[of _ "es @ xs"] exI[of _ e] exI[of _ "ys @ all_entries rest"]) (auto simp: ptr_simps)
    next
      case nog: None
      with 2(3) None obtain q where q0: "findEntryPtrByUUID rest u = Some q" "ptr = in_next q" by auto
      from 2(2)[OF None nog q0(1)] obtain xs e ys where q: "fst q \<noteq> []" "entry_ref rest q = Some e" "entryUUIDString e = u"
        "all_entries rest = xs @ e # ys" "u \<notin> entryUUIDString ` set xs"
        "\<And>e'. all_entries (entry_store rest q e') = xs @ e' # ys" by blast
      have gs: "u \<notin> entryUUIDString ` set (all_entries gs)" using nog by (simp add: find_uuid_None)
      show ?thesis
        unfolding q0(2) using q es gs
        by (intro conjI exI[of _ "es @ all_entries gs @ xs"] exI[of _ e] exI[of _ ys]) (auto simp: ptr_simps)
    qed
  qed
qed simp

lemma remove_uuid_absent:
  "u \<notin> entryUUIDString ` set (all_entries gs) \<Longrightarrow> removeEntryByUUID gs u = (False, gs)"
proof (induction gs u rule: removeEntryByUUID.induct)
  case (2 d es gs rest u)
  then have none: "index_where (\<lambda>e. entryUUIDString e = u) es = None"
    by (auto simp: index_where_None)
  have gs: "removeEntryByUUID gs u = (False, gs)" using 2(1)[OF none] 2(3) by auto
  have "removeEntryByUUID rest u = (False, rest)" using 2(2)[OF none gs[symmetric] refl] 2(3) by auto
  with none gs show ?case by simp
qed simp

lemma remove_uuid_present:
  "u \<in> entryUUIDString ` set (all_entries gs) \<Longrightarrow>
     \<exists>xs e ys gs'. removeEntryByUUID gs u = (True, gs') \<and> all_entries gs = xs @ e # ys \<and> entryUUIDString e = u
       \<and> u \<notin> entryUUIDString ` set xs \<and> all_entries gs' = xs @ ys"
proof (induction gs u rule: removeEntryByUUID.induct)
  case (2 d es gs rest u)
  let ?P = "\<lambda>e. entryUUIDString e = u"
  show ?case
  proof (cases "index_where ?P es")
    case (Some i)
    note i = index_where_Some[OF Some]
    have "all_entries (Group d es gs # rest) = take i es @ es ! i # (drop (Suc i) es @ all_entries gs @ all_entries rest)"
      using index_where_split[OF Some] by (metis all_entries.simps(2) append_Cons append_assoc)
    then show ?thesis
      using i Some
      by (intro exI[of _ "take i es"] exI[of _ "es ! i"] exI[of _ "drop (Suc i) es @ all_entries gs @ all_entries rest"]) auto
  next
    case None
    then have es: "u \<notin> entryUUIDString ` set es" by (auto simp: index_where_None)
    show ?thesis
    proof (cases "u \<in> entryUUIDString ` set (all_entries gs)")
      case True
      from 2(1)[OF None True] obtain xs e ys gs' where q: "removeEntryByUUID gs u = (True, gs')"
        "all_entries gs = xs @ e # ys" "entryUUIDString e = u" "u \<notin> entryUUIDString ` set xs" "all_entries gs' = xs @ ys"
        by blast
      show ?thesis
        using q es None
        by (intro exI[of _ "es @ xs"] exI[of _ e] exI[of _ "ys @ all_entries rest"]) auto
    next
      case nog: False
      note gs = remove_uuid_absent[OF nog]
      have "u \<in> entryUUIDString ` set (all_entries rest)" using 2(3) es nog by auto
      from 2(2)[OF None gs[symmetric] refl _ this] obtain xs e ys gs' where q: "removeEntryByUUID rest u = (True, gs')"
        "all_entries rest = xs @ e # ys" "entryUUIDString e = u" "u \<notin> entryUUIDString ` set xs" "all_entries gs' = xs @ ys"
        by auto
      show ?thesis
        using q es nog None gs
        by (intro exI[of _ "es @ all_entries gs @ xs"] exI[of _ e] exI[of _ ys]) auto
    qed
  qed
qed simp

section \<open>Lemmas: edits as maps over the tree\<close>

text \<open>When UUIDs are unique, a store and a removal act on the tree entry by entry, so that
  every traversal commutes with them.\<close>

fun map_entries :: "(entry \<Rightarrow> entry) \<Rightarrow> grp list \<Rightarrow> grp list" where
  "map_entries f [] = []"
| "map_entries f (Group d es gs # rest) = Group d (map f es) (map_entries f gs) # map_entries f rest"

fun filter_entries :: "(entry \<Rightarrow> bool) \<Rightarrow> grp list \<Rightarrow> grp list" where
  "filter_entries P [] = []"
| "filter_entries P (Group d es gs # rest) = Group d (filter P es) (filter_entries P gs) # filter_entries P rest"

lemma visible_into_map:
  "collectEntriesVisibleInto (map_entries f gs) rb w v = map f (collectEntriesVisibleInto gs rb w v)"
  by (induction gs rb w v rule: collectEntriesVisibleInto.induct) (auto simp: Let_def)

lemma visible_into_filter:
  "collectEntriesVisibleInto (filter_entries P gs) rb w v = filter P (collectEntriesVisibleInto gs rb w v)"
  by (induction gs rb w v rule: collectEntriesVisibleInto.induct) (auto simp: Let_def)

lemma visible_map: "collectEntriesVisible (map_entries f gs) rb x = map f (collectEntriesVisible gs rb x)"
  by (simp add: collectEntriesVisible_def visible_into_map Let_def)

lemma visible_filter: "collectEntriesVisible (filter_entries P gs) rb x = filter P (collectEntriesVisible gs rb x)"
  by (simp add: collectEntriesVisible_def visible_into_filter Let_def)

lemma map_entries_idle: "(\<And>e. e \<in> set (all_entries gs) \<Longrightarrow> f e = e) \<Longrightarrow> map_entries f gs = gs"
  by (induction f gs rule: map_entries.induct) (auto simp: map_idI)

lemma filter_entries_idle: "(\<And>e. e \<in> set (all_entries gs) \<Longrightarrow> P e) \<Longrightarrow> filter_entries P gs = gs"
  by (induction P gs rule: filter_entries.induct) auto

lemma all_entries_map: "all_entries (map_entries f gs) = map f (all_entries gs)"
  by (induction f gs rule: map_entries.induct) auto

lemma all_entries_filter: "all_entries (filter_entries P gs) = filter P (all_entries gs)"
  by (induction P gs rule: filter_entries.induct) auto

definition replace_uuid :: "string \<Rightarrow> entry \<Rightarrow> entry \<Rightarrow> entry" where
  "replace_uuid u e' = (\<lambda>e. if entryUUIDString e = u then e' else e)"

lemma replace_uuid_idle:
  "u \<notin> entryUUIDString ` set (all_entries gs) \<Longrightarrow> map_entries (replace_uuid u e') gs = gs"
  by (rule map_entries_idle) (auto simp: replace_uuid_def)

lemma map_replace_at:
  assumes "index_where (\<lambda>e. entryUUIDString e = u) es = Some i" "distinct (map entry_uuid es)"
  shows "map (replace_uuid u e') es = es[i := e']"
    and "filter (\<lambda>e. entryUUIDString e \<noteq> u) es = take i es @ drop (Suc i) es"
proof -
  note i = index_where_Some[OF assms(1)]
  have es: "es = take i es @ es ! i # drop (Suc i) es" by (rule index_where_split[OF assms(1)])
  have "distinct (map entry_uuid (take i es @ es ! i # drop (Suc i) es))"
    using assms(2) es by simp
  then have rest: "entry_uuid e \<noteq> entry_uuid (es ! i)" if "e \<in> set (take i es) \<or> e \<in> set (drop (Suc i) es)" for e
    using that by auto (metis imageI)+
  have u: "u = entryUUIDString (es ! i)" using i by simp
  have a: "map (replace_uuid u e') (take i es) = take i es" "map (replace_uuid u e') (drop (Suc i) es) = drop (Suc i) es"
    "filter (\<lambda>e. entryUUIDString e \<noteq> u) (take i es) = take i es"
    "filter (\<lambda>e. entryUUIDString e \<noteq> u) (drop (Suc i) es) = drop (Suc i) es"
    using rest by (auto simp: replace_uuid_def u intro!: map_idI filter_True)
  show "map (replace_uuid u e') es = es[i := e']"
    by (subst es) (use a i in \<open>simp add: upd_conv_take_nth_drop replace_uuid_def\<close>)
  show "filter (\<lambda>e. entryUUIDString e \<noteq> u) es = take i es @ drop (Suc i) es"
    by (subst es) (use a i in simp)
qed

lemma entry_store_map:
  "findEntryPtrByUUID gs u = Some ptr \<Longrightarrow> distinct (map entry_uuid (all_entries gs)) \<Longrightarrow>
     entry_store gs ptr e' = map_entries (replace_uuid u e') gs"
proof (induction gs u arbitrary: ptr rule: findEntryPtrByUUID.induct)
  case (2 d es gs rest u)
  have dist: "distinct (map entry_uuid es)" "distinct (map entry_uuid (all_entries gs))"
    "distinct (map entry_uuid (all_entries rest))" using 2(4) by simp_all
  have apart: "entry_uuid x \<noteq> entry_uuid y"
    if "x \<in> set es" "y \<in> set (all_entries gs) \<union> set (all_entries rest)" for x y
    using 2(4) that by auto
  have apart2: "entry_uuid x \<noteq> entry_uuid y"
    if "x \<in> set (all_entries gs)" "y \<in> set (all_entries rest)" for x y
    using 2(4) that by auto
  show ?case
  proof (cases "index_where (\<lambda>e. entryUUIDString e = u) es")
    case (Some i)
    have "es ! i \<in> set es" "entryUUIDString (es ! i) = u" using index_where_Some[OF Some] by auto
    then have no: "u \<notin> entryUUIDString ` set (all_entries gs)" "u \<notin> entryUUIDString ` set (all_entries rest)"
      using apart by auto
    have "ptr = ([0], i)" using 2(3) Some by simp
    then show ?thesis
      using map_replace_at(1)[OF Some dist(1)] replace_uuid_idle[OF no(1)] replace_uuid_idle[OF no(2)]
      by (simp add: ptr_simps)
  next
    case None
    then have es: "map (replace_uuid u e') es = es"
      by (auto simp: index_where_None replace_uuid_def intro: map_idI)
    show ?thesis
    proof (cases "findEntryPtrByUUID gs u")
      case (Some q)
      from find_uuid_Some[OF this] obtain xs e ys where e: "fst q \<noteq> []" "all_entries gs = xs @ e # ys" "entryUUIDString e = u"
        by blast
      then have "e \<in> set (all_entries gs)" by simp
      then have "u \<notin> entryUUIDString ` set (all_entries rest)" using apart2 e(3) by auto
      moreover have "ptr = in_subgroups q" using 2(3) None Some by simp
      ultimately show ?thesis
        using 2(1)[OF None Some dist(2)] es e(1) by (simp add: ptr_simps replace_uuid_idle)
    next
      case nog: None
      with 2(3) None obtain q where q: "findEntryPtrByUUID rest u = Some q" "ptr = in_next q" by auto
      with find_uuid_Some[OF q(1)] have "fst q \<noteq> []" by blast
      moreover have "u \<notin> entryUUIDString ` set (all_entries gs)" using nog by (simp add: find_uuid_None)
      ultimately show ?thesis
        using 2(2)[OF None nog q(1) dist(3)] es q(2) by (simp add: ptr_simps replace_uuid_idle)
    qed
  qed
qed simp

lemma remove_uuid_filter:
  "distinct (map entry_uuid (all_entries gs)) \<Longrightarrow>
     snd (removeEntryByUUID gs u) = filter_entries (\<lambda>e. entryUUIDString e \<noteq> u) gs"
proof (induction gs u rule: removeEntryByUUID.induct)
  case (2 d es gs rest u)
  let ?P = "\<lambda>e. entryUUIDString e \<noteq> u"
  have dist: "distinct (map entry_uuid es)" "distinct (map entry_uuid (all_entries gs))"
    "distinct (map entry_uuid (all_entries rest))" using 2(3) by simp_all
  have idle: "u \<notin> entryUUIDString ` set (all_entries t) \<Longrightarrow> filter_entries ?P t = t" for t
    by (rule filter_entries_idle) auto
  show ?case
  proof (cases "index_where (\<lambda>e. entryUUIDString e = u) es")
    case (Some i)
    have "es ! i \<in> set es" "entryUUIDString (es ! i) = u" using index_where_Some[OF Some] by auto
    then have no: "u \<notin> entryUUIDString ` set (all_entries gs)" "u \<notin> entryUUIDString ` set (all_entries rest)"
      using 2(3) by auto
    then show ?thesis using Some map_replace_at(2)[OF Some dist(1)] idle by simp
  next
    case None
    then have es: "filter ?P es = es" by (auto simp: index_where_None intro: filter_True)
    show ?thesis
    proof (cases "u \<in> entryUUIDString ` set (all_entries gs)")
      case True
      with remove_uuid_present[OF True] obtain gs' where gs': "removeEntryByUUID gs u = (True, gs')" by blast
      have "u \<notin> entryUUIDString ` set (all_entries rest)" using True 2(3) by auto
      with 2(1)[OF None dist(2)] gs' None es idle show ?thesis by simp
    next
      case False
      note gs = remove_uuid_absent[OF False]
      from 2(2)[OF None gs[symmetric] refl _ dist(3)] None gs es idle[OF False] show ?thesis
        by (simp split: prod.split) (metis snd_conv)
    qed
  qed
qed simp

section \<open>Lemmas: matching and exposing\<close>

text \<open>\<open>findMatchingVisibleEntryPtr\<close> points to the first visible entry that matches.\<close>

definition write_match :: "string list \<Rightarrow> string \<Rightarrow> string \<Rightarrow> attrs \<Rightarrow> entry \<Rightarrow> bool" where
  "write_match order n u as e = matchAttributesForWrite order e \<lparr>mo_name = n, mo_uuid = u\<rparr> as"

definition points_to :: "grp list \<Rightarrow> entry_ptr option \<Rightarrow> entry option \<Rightarrow> bool" where
  "points_to gs r found \<longleftrightarrow>
     (case r of None \<Rightarrow> found = None
      | Some ptr \<Rightarrow> fst ptr \<noteq> [] \<and> entry_ref gs ptr = found \<and> found \<noteq> None)"

lemma points_to_next:
  "points_to rest r found \<Longrightarrow> points_to (Group d es gs # rest) (map_option in_next r) found"
  by (auto simp: points_to_def ptr_simps split: option.splits)

lemma points_to_sub:
  "points_to gs (Some ptr) found \<Longrightarrow> points_to (Group d es gs # rest) (Some (in_subgroups ptr)) found"
  by (auto simp: points_to_def ptr_simps)

lemma find_matching_points:
  "points_to gs (findMatchingVisibleEntryPtr order gs n u as rb x v)
     (List.find (write_match order n u as) (collectEntriesVisibleInto gs rb (trim_space x) (v \<or> trim_space x = [])))"
proof (induction order gs n u as rb x v rule: findMatchingVisibleEntryPtr.induct)
  case (2 order d es gs rest n u as rb x v)
  let ?w = "trim_space x"
  let ?P = "write_match order n u as"
  let ?next = "map_option in_next (findMatchingVisibleEntryPtr order rest n u as rb x v)"
  let ?tree = "Group d es gs # rest"
  define gv where "gv \<longleftrightarrow> v \<or> ?w = [] \<or> exposes d ?w"
  have nxt: "points_to ?tree ?next (List.find ?P (collectEntriesVisibleInto rest rb ?w (v \<or> ?w = [])))"
    by (rule points_to_next) (rule 2(1)[OF refl])
  show ?case
  proof (cases "is_recycled d rb")
    case True
    with nxt show ?thesis by (simp add: Let_def)
  next
    case False
    let ?here = "if gv then index_where (\<lambda>e. matchAttributesForWrite order e \<lparr>mo_name = n, mo_uuid = u\<rparr> as) es else None"
    have P: "?P = (\<lambda>e. matchAttributesForWrite order e \<lparr>mo_name = n, mo_uuid = u\<rparr> as)"
      by (simp add: write_match_def fun_eq_iff)
    have gv: "(gv \<or> ?w = []) = gv" "(v \<or> ?w = [] \<or> exposes d ?w) = gv" "((v \<or> ?w = []) \<or> exposes d ?w) = gv"
      by (auto simp: gv_def)
    have found: "List.find ?P (collectEntriesVisibleInto ?tree rb ?w (v \<or> ?w = [])) =
        (case map_option ((!) es) ?here of Some e \<Rightarrow> Some e
         | None \<Rightarrow> (case List.find ?P (collectEntriesVisibleInto gs rb ?w gv) of Some e \<Rightarrow> Some e
              | None \<Rightarrow> List.find ?P (collectEntriesVisibleInto rest rb ?w (v \<or> ?w = []))))"
    proof -
      have "map_option ((!) es) ?here = List.find ?P (if gv then es else [])"
        by (simp add: P find_index_where)
      moreover have "collectEntriesVisibleInto ?tree rb ?w (v \<or> ?w = []) =
          (if gv then es else []) @ collectEntriesVisibleInto gs rb ?w gv
          @ collectEntriesVisibleInto rest rb ?w (v \<or> ?w = [])"
        using False gv by (simp add: Let_def)
      ultimately show ?thesis by (simp only: find_append)
    qed
    show ?thesis
    proof (cases ?here)
      case (Some i)
      then have "i < length es" by (auto dest: index_where_Some split: if_splits)
      with Some False gv show ?thesis
        unfolding found by (simp add: points_to_def ptr_simps Let_def)
    next
      case None
      from 2(2)[OF refl refl False gv_def None]
      have sub: "points_to gs (findMatchingVisibleEntryPtr order gs n u as rb ?w gv)
          (List.find ?P (collectEntriesVisibleInto gs rb ?w gv))" using gv by simp
      show ?thesis
      proof (cases "findMatchingVisibleEntryPtr order gs n u as rb ?w gv")
        case nog: None
        then have "List.find ?P (collectEntriesVisibleInto gs rb ?w gv) = None"
          using sub by (simp add: points_to_def)
        with nxt None nog False gv show ?thesis unfolding found by (simp add: Let_def)
      next
        case (Some ptr)
        then obtain e where "List.find ?P (collectEntriesVisibleInto gs rb ?w gv) = Some e"
          using sub by (auto simp: points_to_def)
        with points_to_sub[of gs ptr] sub Some None False gv show ?thesis
          unfolding found by (simp add: Let_def)
      qed
    qed
  qed
qed (simp add: points_to_def)

lemma append_entry_here: "append_entry (Group d es gs # rest) [0] e = Group d (es @ [e]) gs # rest"
  by (simp add: append_entry_def)

lemma append_entry_sub: "p \<noteq> [] \<Longrightarrow> append_entry (Group d es gs # rest) (0 # p) e = Group d es (append_entry gs p e) # rest"
  by (simp add: append_entry_def)

lemma append_entry_next: "append_entry (Group d es gs # rest) (Suc i # p) e = Group d es gs # append_entry rest (i # p) e"
  by (simp add: append_entry_def)

text \<open>An entry appended to the group found by its exposure is visible, and nothing else
  becomes visible or disappears.\<close>

lemma exposed_append_visible:
  "findGroupPtrByExposure_in gs rb w = Some p \<Longrightarrow>
     p \<noteq> [] \<and> (\<forall>v. set (collectEntriesVisibleInto (append_entry gs p e) rb w v)
                  = insert e (set (collectEntriesVisibleInto gs rb w v)))"
proof (induction gs rb w arbitrary: p rule: findGroupPtrByExposure_in.induct)
  case (2 d es gs rest rb w)
  have skip: ?case if "findGroupPtrByExposure_in rest rb w = Some q" "p = (case q of [] \<Rightarrow> [] | n # r \<Rightarrow> Suc n # r)" for q
  proof -
    from 2(1)[OF that(1)] obtain n r where "q = n # r" by (cases q) auto
    with 2(1)[OF that(1)] that(2) show ?thesis by (auto simp: append_entry_next Let_def)
  qed
  show ?case
  proof (cases "is_recycled d rb")
    case True
    with 2(3) obtain q where "findGroupPtrByExposure_in rest rb w = Some q"
      "p = (case q of [] \<Rightarrow> [] | n # r \<Rightarrow> Suc n # r)" by (auto simp: Let_def)
    then show ?thesis by (rule skip)
  next
    case False
    show ?thesis
    proof (cases "exposes d w")
      case True
      with 2(3) False show ?thesis by (auto simp: Let_def append_entry_here)
    next
      case no: False
      show ?thesis
      proof (cases "findGroupPtrByExposure_in gs rb w")
        case None
        with 2(3) False no obtain q where "findGroupPtrByExposure_in rest rb w = Some q"
          "p = (case q of [] \<Rightarrow> [] | n # r \<Rightarrow> Suc n # r)" by (auto simp: Let_def)
        then show ?thesis by (rule skip)
      next
        case (Some q)
        from 2(2)[OF refl False no Some] 2(3) False no Some show ?thesis
          by (auto simp: Let_def append_entry_sub)
      qed
    qed
  qed
qed simp

section \<open>Lemmas: values\<close>

fun put_value :: "value_data list \<Rightarrow> value_data \<Rightarrow> value_data list" where
  "put_value [] v = [v]"
| "put_value (w # ws) v = (if v_key w = v_key v then v # ws else w # put_value ws v)"

lemma get_index_from_ge: "get_index_from vs k i = - 1 \<or> get_index_from vs k i \<ge> int i"
proof (induction vs arbitrary: i)
  case (Cons w vs)
  from Cons[of "Suc i"] show ?case by auto
qed simp

lemma put_value_at:
  "(if get_index_from vs (v_key v) i \<ge> 0 then vs[nat (get_index_from vs (v_key v) i) - i := v] else vs @ [v])
     = put_value vs v"
proof (induction vs arbitrary: i)
  case (Cons w vs)
  show ?case
  proof (cases "v_key w = v_key v")
    case False
    let ?j = "get_index_from vs (v_key v) (Suc i)"
    have "?j = - 1 \<or> nat ?j - i = Suc (nat ?j - Suc i) \<and> ?j \<ge> 0"
      using get_index_from_ge[of vs "v_key v" "Suc i"] by (auto simp: Suc_diff_Suc)
    with False Cons[of "Suc i"] show ?thesis by auto
  qed simp
qed simp

lemma entry_values_set:
  "entry_values (setEntryValue k x p e) = put_value (entry_values e) \<lparr>v_key = k, v_content = x, v_protected = p\<rparr>"
proof -
  let ?v = "\<lparr>v_key = k, v_content = x, v_protected = p\<rparr>"
  show ?thesis
    using put_value_at[of "entry_values e" ?v 0]
    by (simp add: setEntryValue_def get_index_def entry_values_def Let_def split: if_splits)
qed

lemma find_put_value:
  "List.find (\<lambda>w. v_key w = k) (put_value vs v) =
     (if k = v_key v then Some v else List.find (\<lambda>w. v_key w = k) vs)"
  by (induction vs) auto

lemma get_value_set [simp]:
  "get_value (setEntryValue k x p e) k' =
     (if k' = k then Some \<lparr>v_key = k, v_content = x, v_protected = p\<rparr> else get_value e k')"
  by (simp add: get_value_def entry_values_set find_put_value)

lemma setEntryValue_keeps [simp]:
  "entry_uuid (setEntryValue k x p e) = entry_uuid e" "histories (setEntryValue k x p e) = histories e"
  "e_times (edata (setEntryValue k x p e)) = e_times (edata e)"
  by (simp_all add: setEntryValue_def entry_uuid_def Let_def)

lemma updateModificationTime_keeps [simp]:
  "entry_uuid (updateModificationTime now e) = entry_uuid e" "histories (updateModificationTime now e) = histories e"
  "get_value (updateModificationTime now e) k = get_value e k"
  by (simp_all add: updateModificationTime_def entry_uuid_def get_value_def entry_values_def)

lemma NewEntry_simps [simp]: "get_value (NewEntry u now) k = None" "entry_uuid (NewEntry u now) = u" "histories (NewEntry u now) = []"
  by (simp_all add: NewEntry_def get_value_def entry_values_def entry_uuid_def)

lemma apply_field_loop_keeps [simp]:
  "entry_uuid (apply_field_loop ks as l e) = entry_uuid e" "histories (apply_field_loop ks as l e) = histories e"
  by (induction ks arbitrary: e) (auto split: option.splits)

definition special_attr :: "string \<Rightarrow> bool" where
  "special_attr k \<longleftrightarrow> k = ''kpxcd:dbname'' \<or> k = ''kpxcd:dbuuid'' \<or> k = ''title''"

text \<open>Away from \<open>Title\<close> the loop gives each key its attribute, whatever the order.\<close>

lemma apply_field_loop_value:
  assumes "k' \<noteq> ''Title''"
  shows "get_value (apply_field_loop ks as l e) k' =
           (case as k' of
              Some x \<Rightarrow> if k' \<in> set ks \<and> \<not> special_attr k' then Some \<lparr>v_key = k', v_content = x, v_protected = False\<rparr>
                        else get_value e k'
            | None \<Rightarrow> get_value e k')"
proof (induction ks arbitrary: e)
  case (Cons k ks)
  let ?e' = "\<lambda>x. if k = ''kpxcd:dbname'' \<or> k = ''kpxcd:dbuuid'' then e
                 else if k = ''title'' then setEntryValue ''Title'' l False e else setEntryValue k x False e"
  have e': "get_value (?e' x) k' = (if k' = k \<and> \<not> special_attr k then Some \<lparr>v_key = k, v_content = x, v_protected = False\<rparr>
      else get_value e k')" for x
    using assms by (simp add: special_attr_def)
  show ?case
  proof (cases "as k")
    case None
    with Cons.IH show ?thesis by (cases "k' = k") (auto split: option.split)
  next
    case (Some x)
    then have loop: "apply_field_loop (k # ks) as l e = apply_field_loop ks as l (?e' x)" by simp
    show ?thesis
      unfolding loop Cons.IH e' using Some by (cases "k' = k") (auto split: option.split)
  qed
qed (simp split: option.splits)

lemma apply_field_loop_title:
  "get_value (apply_field_loop ks as l e) ''Title'' =
     (case List.find (\<lambda>k. (k = ''title'' \<or> k = ''Title'') \<and> as k \<noteq> None) (rev ks) of
        None \<Rightarrow> get_value e ''Title''
      | Some k \<Rightarrow> Some \<lparr>v_key = ''Title'', v_content = (if k = ''title'' then l else the (as k)), v_protected = False\<rparr>)"
proof (induction ks arbitrary: e)
  case (Cons k ks)
  show ?case
  proof (cases "as k")
    case None
    with Cons.IH show ?thesis by (simp add: find_append split: option.split)
  next
    case (Some x)
    have "get_value (if k = ''kpxcd:dbname'' \<or> k = ''kpxcd:dbuuid'' then e
                 else if k = ''title'' then setEntryValue ''Title'' l False e else setEntryValue k x False e) ''Title''
        = (if k = ''title'' then Some \<lparr>v_key = ''Title'', v_content = l, v_protected = False\<rparr>
           else if k = ''Title'' then Some \<lparr>v_key = ''Title'', v_content = x, v_protected = False\<rparr> else get_value e ''Title'')"
      by simp
    then show ?thesis
      using Cons.IH Some by (simp add: find_append split: option.split)
  qed
qed simp

section \<open>Lemmas: history\<close>

lemma trim_items_eq: "0 \<le> m \<Longrightarrow> trim_items m h = drop (length h - nat m) h"
proof (induction m h rule: trim_items.induct)
  case (2 m e es)
  then show ?case
    by (cases "int (length (e # es)) > m") (auto simp: drop_Cons' Suc_diff_le nat_le_iff)
qed simp

lemma trim_size_eq:
  "\<exists>n. trim_size m h = drop n h \<and> (h \<noteq> [] \<longrightarrow> n < length h)
     \<and> (historySize (drop n h) \<le> m \<or> length (drop n h) \<le> 1) \<and> (\<forall>j < n. historySize (drop j h) > m)"
proof (induction m h rule: trim_size.induct)
  case (2 m e es)
  show ?case
  proof (cases "historySize (e # es) \<le> m \<or> length (e # es) \<le> 1")
    case True
    then show ?thesis by (intro exI[of _ 0]) auto
  next
    case False
    from 2[OF False] obtain n where n: "trim_size m es = drop n es" "es \<noteq> [] \<longrightarrow> n < length es"
      "historySize (drop n es) \<le> m \<or> length (drop n es) \<le> 1" "\<forall>j < n. historySize (drop j es) > m" by blast
    have "historySize (drop j (e # es)) > m" if "j < Suc n" for j
      using that n(4) False by (cases j) auto
    with n False show ?thesis by (intro exI[of _ "Suc n"]) auto
  qed
qed (auto intro: exI[of _ 0])

lemma history_limits_pos: "history_limits db = (a, b) \<Longrightarrow> 0 < a \<and> 0 < b"
  by (auto simp: history_limits_def split: option.splits if_splits)

definition archived :: "uuid_source \<Rightarrow> nat \<Rightarrow> entry \<Rightarrow> entry" where
  "archived rnd n e = Entry ((edata e)\<lparr>e_uuid := rnd n\<rparr>) []"

lemma archived_clone: "Entry (edata (fst (clone_entry rnd n e))) [] = archived rnd n e"
  by (cases e) (simp add: archived_def split: prod.split)

lemma appendHistory_eq:
  "appendHistory rnd n db e =
     (let h = (case histories e of [] \<Rightarrow> [] | h # _ \<Rightarrow> h) @ [archived rnd n e]; (a, b) = history_limits db
      in Entry (edata e) (trim_size b (trim_items a h) # tl (histories e)))"
  by (cases "histories e") (simp_all add: appendHistory_def trimHistory_def archived_clone Let_def split: prod.split)

lemma appendHistory_keeps [simp]:
  "edata (appendHistory rnd n db e) = edata e" "entry_uuid (appendHistory rnd n db e) = entry_uuid e"
  "get_value (appendHistory rnd n db e) k = get_value e k"
  by (simp_all add: appendHistory_eq entry_uuid_def get_value_def entry_values_def Let_def split: prod.split)

section \<open>Properties\<close>

text \<open>C40. Editing history is safe: before a write the current state of the entry is archived;
  what is kept is the longest tail of the history, with the new state last, that respects the
  database's limits on the number of items and on their size, the newest item being kept
  whatever its size; the entry itself is unchanged. The archived copy has the values of the
  entry but a fresh UUID, not the entry's.\<close>

theorem appendHistory_spec:
  assumes "old = (case histories e of [] \<Rightarrow> [] | h # _ \<Rightarrow> h)" and "history_limits db = (maxItems, maxSize)"
    and "now_copy = Entry ((edata e)\<lparr>e_uuid := rnd k\<rparr>) []"
  shows "\<exists>n kept. appendHistory rnd k db e = Entry (edata e) (kept # tl (histories e))
           \<and> kept = drop n (old @ [now_copy]) \<and> n \<le> length old
           \<and> int (length kept) \<le> maxItems \<and> (historySize kept \<le> maxSize \<or> length kept = 1)
           \<and> (\<forall>j < n. int (length (drop j (old @ [now_copy]))) > maxItems
                 \<or> historySize (drop j (old @ [now_copy])) > maxSize)"
proof -
  let ?full = "old @ [now_copy]"
  note pos = history_limits_pos[OF assms(2)]
  define m where "m = length ?full - nat maxItems"
  have items: "trim_items maxItems ?full = drop m ?full"
    using trim_items_eq[of maxItems ?full] pos by (simp add: m_def)
  from trim_size_eq[of maxSize "drop m ?full"] obtain n where
    n: "trim_size maxSize (drop m ?full) = drop n (drop m ?full)" "drop m ?full \<noteq> [] \<longrightarrow> n < length (drop m ?full)"
      "historySize (drop n (drop m ?full)) \<le> maxSize \<or> length (drop n (drop m ?full)) \<le> 1"
      "\<forall>j < n. historySize (drop j (drop m ?full)) > maxSize" by blast
  have m: "m < length ?full" using pos by (simp add: m_def)
  then have nm: "n + m \<le> length old" using n(2) by simp
  have res: "appendHistory rnd k db e = Entry (edata e) (drop (n + m) ?full # tl (histories e))"
    unfolding appendHistory_eq Let_def assms(2) assms(1)[symmetric] archived_def assms(3)[symmetric]
    using n(1) by (simp only: prod.case items drop_drop)
  have len: "int (length (drop (n + m) ?full)) \<le> maxItems" using pos by (simp add: m_def) linarith
  have last: "historySize (drop (n + m) ?full) \<le> maxSize \<or> length (drop (n + m) ?full) = 1"
    using n(3) nm by (auto simp: drop_drop le_Suc_eq)
  have max: "int (length (drop j ?full)) > maxItems \<or> historySize (drop j ?full) > maxSize" if j: "j < n + m" for j
  proof (cases "j < m")
    case True
    then show ?thesis using pos by (simp add: m_def) linarith
  next
    case False
    then have "j - m < n" "drop (j - m) (drop m ?full) = drop j ?full" using j by (auto simp del: drop_append)
    with n(4) show ?thesis by metis
  qed
  from res nm len last max show ?thesis by blast
qed

lemma appendHistory_spec_witness:
  "\<exists>kept. appendHistory (\<lambda>n. 7) 0 sample_database (sample_entry 11 [sample_value ''Password'' ''pw''])
       = Entry (edata (sample_entry 11 [sample_value ''Password'' ''pw''])) [kept] \<and> length kept \<le> 10"
proof -
  have lim: "history_limits sample_database = (10, 6 * 1024 * 1024)"
    by (simp add: history_limits_def sample_database_def)
  have none: "histories (sample_entry 11 [sample_value ''Password'' ''pw'']) = []" by (simp add: sample_entry_def)
  from appendHistory_spec[where e = "sample_entry 11 [sample_value ''Password'' ''pw'']" and k = 0 and rnd = "\<lambda>n. 7",
      OF refl lim refl] obtain n kept where
    kept: "appendHistory (\<lambda>n. 7) 0 sample_database (sample_entry 11 [sample_value ''Password'' ''pw''])
       = Entry (edata (sample_entry 11 [sample_value ''Password'' ''pw''])) (kept # tl [])"
      "n \<le> length ([] :: entry list)" "int (length kept) \<le> 10"
    unfolding none by auto
  from kept(3) have "length kept \<le> 10" by simp
  with kept(1) show ?thesis by auto
qed

text \<open>What a written item holds: after applying label, attributes and secret, in whatever
  order the attribute map is enumerated, the password is the secret, marked protected, unless
  an attribute is itself called \<open>Password\<close>, which then replaces it in the clear; every other
  attribute except the database markers and \<open>title\<close> is stored under its key; values of other
  keys are kept; and without \<open>Title\<close> among the attributes the title is the item's label.\<close>

theorem applyEntryFields_spec:
  assumes "enumerates order as"
  shows "get_value (applyEntryFields now order label as secret e) ''Password'' =
           Some (case as ''Password'' of
                   None \<Rightarrow> \<lparr>v_key = ''Password'', v_content = secret, v_protected = True\<rparr>
                 | Some x \<Rightarrow> \<lparr>v_key = ''Password'', v_content = x, v_protected = False\<rparr>)
         \<and> (\<forall>k. k \<noteq> ''Title'' \<and> k \<noteq> ''Password'' \<longrightarrow>
              get_value (applyEntryFields now order label as secret e) k =
                (case as k of
                   Some x \<Rightarrow> if k = ''title'' \<or> k = ''kpxcd:dbname'' \<or> k = ''kpxcd:dbuuid'' then get_value e k
                             else Some \<lparr>v_key = k, v_content = x, v_protected = False\<rparr>
                 | None \<Rightarrow> get_value e k))
         \<and> (as ''Title'' = None \<longrightarrow>
              get_value (applyEntryFields now order label as secret e) ''Title'' =
                Some \<lparr>v_key = ''Title'', v_content = item_label label as, v_protected = False\<rparr>)"
proof -
  have ord: "as k = Some x \<Longrightarrow> k \<in> set order" for k x
    using assms by (auto simp: enumerates_def)
  let ?e1 = "setEntryValue ''Password'' secret True (setEntryValue ''Title'' (item_label label as) False e)"
  have val: "get_value (applyEntryFields now order label as secret e) k
      = get_value (apply_field_loop order as (item_label label as) ?e1) k" for k
    by (simp add: applyEntryFields_def Let_def)
  have "get_value (applyEntryFields now order label as secret e) ''Password'' =
           Some (case as ''Password'' of
                   None \<Rightarrow> \<lparr>v_key = ''Password'', v_content = secret, v_protected = True\<rparr>
                 | Some x \<Rightarrow> \<lparr>v_key = ''Password'', v_content = x, v_protected = False\<rparr>)"
    unfolding val using ord by (simp add: apply_field_loop_value special_attr_def split: option.split)
  moreover have "get_value (applyEntryFields now order label as secret e) k =
                (case as k of
                   Some x \<Rightarrow> if k = ''title'' \<or> k = ''kpxcd:dbname'' \<or> k = ''kpxcd:dbuuid'' then get_value e k
                             else Some \<lparr>v_key = k, v_content = x, v_protected = False\<rparr>
                 | None \<Rightarrow> get_value e k)" if "k \<noteq> ''Title'' \<and> k \<noteq> ''Password''" for k
    unfolding val using ord that
    by (simp add: apply_field_loop_value special_attr_def disj_commute disj_left_commute split: option.split)
  moreover have "get_value (applyEntryFields now order label as secret e) ''Title'' =
                Some \<lparr>v_key = ''Title'', v_content = item_label label as, v_protected = False\<rparr>"
    if "as ''Title'' = None"
    unfolding val apply_field_loop_title
    using that by (auto split: option.split dest!: find_Some_in)
  ultimately show ?thesis by blast
qed

lemma applyEntryFields_spec_witness:
  "get_value (applyEntryFields 0 [''Password''] ''l'' [''Password'' \<mapsto> ''x''] ''secret'' (NewEntry 1 0)) ''Password''
     = Some \<lparr>v_key = ''Password'', v_content = ''x'', v_protected = False\<rparr>"
proof -
  have "enumerates [''Password''] [''Password'' \<mapsto> ''x'']" by (simp add: enumerates_def)
  from conjunct1[OF applyEntryFields_spec[OF this]] show ?thesis by simp
qed

text \<open>Removal is exact: removing by UUID reports whether the tree holds an entry with that
  UUID; if so it removes the first one in the order of the traversal and keeps every other
  entry in its place, and otherwise it leaves the tree alone.\<close>

theorem removeEntryByUUID_exact:
  "if u \<in> entryUUIDString ` set (all_entries gs)
   then (\<exists>xs e ys gs'. removeEntryByUUID gs u = (True, gs') \<and> all_entries gs = xs @ e # ys
          \<and> entryUUIDString e = u \<and> u \<notin> entryUUIDString ` set xs \<and> all_entries gs' = xs @ ys)
   else removeEntryByUUID gs u = (False, gs)"
  using remove_uuid_present[of u gs] remove_uuid_absent[of u gs] by simp

text \<open>A replacing write edits what a read would show: the entry it chooses is the first
  among the visible entries of the database, in the order in which they are shown, that has all
  the attributes; and there is none exactly if no visible entry has.\<close>

theorem findMatchingVisible_first:
  "case findMatchingVisibleEntryPtr order gs n u as rb x False of
     None \<Rightarrow> List.find (\<lambda>e. matchAttributesForWrite order e \<lparr>mo_name = n, mo_uuid = u\<rparr> as) (collectEntriesVisible gs rb x) = None
   | Some ptr \<Rightarrow>
       entry_ref gs ptr \<noteq> None \<and>
       entry_ref gs ptr = List.find (\<lambda>e. matchAttributesForWrite order e \<lparr>mo_name = n, mo_uuid = u\<rparr> as) (collectEntriesVisible gs rb x)"
proof -
  have "write_match order n u as = (\<lambda>e. matchAttributesForWrite order e \<lparr>mo_name = n, mo_uuid = u\<rparr> as)"
    by (simp add: write_match_def fun_eq_iff)
  moreover have "collectEntriesVisible gs rb x = collectEntriesVisibleInto gs rb (trim_space x) (False \<or> trim_space x = [])"
    by (simp add: collectEntriesVisible_def Let_def)
  ultimately show ?thesis
    using find_matching_points[of gs order n u as rb x False] by (auto simp: points_to_def split: option.splits)
qed

lemma has_stored_attribute:
  assumes "get_value e k = Some v" "k \<noteq> ''title''"
  shows "entryHasAttribute e k (v_content v)"
proof -
  have val: "matchExactEntryAttribute e k (v_content v) = (True, True)" "get_content e k = v_content v"
    using assms(1) by (simp_all add: matchExact_eq get_content_def)
  consider "k = ''UserName''" | "k = ''username''" | "k = ''URL''" | "k = ''url''" | "k = ''Notes''"
    | "k \<noteq> ''UserName''" "k \<noteq> ''username''" "k \<noteq> ''URL''" "k \<noteq> ''url''" "k \<noteq> ''Notes''"
    by argo
  then show ?thesis
  proof cases
    case 1
    with val show ?thesis by (simp add: entryHasAttribute_def)
  next
    case 2
    with val show ?thesis by (simp add: entryHasAttribute_def)
  next
    case 3
    with val show ?thesis by (simp add: entryHasAttribute_def)
  next
    case 4
    with val show ?thesis by (simp add: entryHasAttribute_def)
  next
    case 5
    with val show ?thesis by (simp add: entryHasAttribute_def)
  next
    case 6
    with val assms(2) show ?thesis by (simp add: entryHasAttribute_def)
  qed
qed

text \<open>What was created is found again: an entry written with a set of attributes passes
  the test of a later replacing write with the same attributes, so that the second write edits
  it instead of adding a duplicate. It needs the database markers, if given, to name the
  database, and a \<open>title\<close> attribute, if given, to be the item's label; a client whose label
  differs from its \<open>title\<close> attribute creates a new entry every time.\<close>

theorem created_entry_matches:
  assumes "enumerates order as" and "enumerates order' as"
    and "\<And>x. as ''kpxcd:dbname'' = Some x \<Longrightarrow> equal_fold n x"
    and "\<And>x. as ''kpxcd:dbuuid'' = Some x \<Longrightarrow> equal_fold u x"
    and "\<And>x. as ''title'' = Some x \<Longrightarrow> as ''Title'' = None \<and> equal_fold (item_label label as) x"
  shows "matchAttributesForWrite order' (applyEntryFields now order label as secret e) \<lparr>mo_name = n, mo_uuid = u\<rparr> as"
proof -
  let ?e = "applyEntryFields now order label as secret e"
  have stored: "get_value ?e k = Some \<lparr>v_key = k, v_content = x, v_protected = False\<rparr>"
    if "as k = Some x" "\<not> special_attr k" for k x
  proof (cases "k = ''Title''")
    case False
    show ?thesis
      using applyEntryFields_spec[OF assms(1), of now label secret e] that False
      by (cases "k = ''Password''") (auto simp: special_attr_def)
  next
    case True
    have order: "k \<in> set order" "as k \<noteq> None" using that assms(1) by (auto simp: enumerates_def)
    have "as ''title'' = None" using that(1) assms(5) True by (cases "as ''title''") auto
    then have "List.find (\<lambda>k. (k = ''title'' \<or> k = ''Title'') \<and> as k \<noteq> None) (rev order) = Some ''Title''"
      using order True by (cases "List.find (\<lambda>k. (k = ''title'' \<or> k = ''Title'') \<and> as k \<noteq> None) (rev order)")
        (auto simp: find_None_iff_not dest!: find_Some_in)
    then show ?thesis using that True by (simp add: applyEntryFields_def Let_def apply_field_loop_title)
  qed
  have "has_attribute ?e \<lparr>mo_name = n, mo_uuid = u\<rparr> k x" if k: "as k = Some x" for k x
  proof (cases "special_attr k")
    case True
    have "get_title ?e = item_label label as" if "k = ''title''"
      using applyEntryFields_spec[OF assms(1), of now label secret e] assms(5) k that
      by (simp add: get_title_def get_content_def)
    note title = this
    from True consider "k = ''kpxcd:dbname''" | "k = ''kpxcd:dbuuid''" | "k = ''title''"
      unfolding special_attr_def by argo
    then show ?thesis
    proof cases
      case 1
      with k assms(3) show ?thesis by (simp add: has_attribute_def)
    next
      case 2
      with k assms(4) show ?thesis by (simp add: has_attribute_def)
    next
      case 3
      with title k assms(5) show ?thesis by (simp add: has_attribute_def entryHasAttribute_def)
    qed
  next
    case False
    from stored[OF k False] have v: "get_value ?e k = Some \<lparr>v_key = k, v_content = x, v_protected = False\<rparr>" .
    moreover have "k \<noteq> ''kpxcd:dbname''" "k \<noteq> ''kpxcd:dbuuid''" "k \<noteq> ''title''"
      using False by (simp_all add: special_attr_def)
    ultimately show ?thesis
      using has_stored_attribute[of ?e k] by (simp add: has_attribute_def)
  qed
  then show ?thesis using matchAttributesForWrite_enum[OF assms(2)] by blast
qed

lemma created_entry_matches_witness:
  "matchAttributesForWrite [''service''] (applyEntryFields 0 [''service''] ''l'' [''service'' \<mapsto> ''mail''] ''s'' (NewEntry 1 0))
     \<lparr>mo_name = ''db'', mo_uuid = ''u''\<rparr> [''service'' \<mapsto> ''mail'']"
proof (rule created_entry_matches)
  show "enumerates [''service''] [''service'' \<mapsto> ''mail'']" "enumerates [''service''] [''service'' \<mapsto> ''mail'']"
    by (simp_all add: enumerates_def)
qed (simp_all split: if_splits)

end
