(* ===== verification/Config.thy ===== *)
theory Config
  imports Filesystem
begin

text \<open>
  The configuration of \<open>internal/config/config.go\<close>: the records of the TOML file, the
  defaults, \<open>Load\<close> with its first-run creation of the default file, the expansion of
  paths, and \<open>Validate\<close>, which fills in defaults while it checks. The TOML decoder is a
  parameter that maps the file's bytes and the defaults to a configuration.
\<close>

section \<open>Data\<close>

record daemon_config =
  idle_timeout :: int
  lock_on_screenlock :: bool
  log_level :: string
  log_to_journald :: bool
  ssh_socket_path :: string
  ssh_mode :: string

record database_config =
  dc_path :: string
  dc_name :: string
  dc_default :: bool
  dc_auto_unlock :: bool
  dc_unlock_credential :: string
  dc_systemd_credential_name :: string
  dc_keyfile :: string
  dc_yubikey_slot :: int
  dc_expose_group :: string
  dc_ssh_auto_add :: bool

record secret_service_config =
  ss_enabled :: bool
  ss_notify_on_access :: bool
  ss_notify_cache_ttl :: int
  ss_require_confirmation :: bool
  ss_confirmation_timeout :: int

record ssh_agent_config =
  ssh_enabled :: bool
  ssh_remove_on_lock :: bool
  ssh_confirm_on_use :: bool
  ssh_lifetime :: int
  ssh_security_key_provider :: string

record fido2_config =
  fido2_enabled :: bool
  fido2_aaguid :: string
  fido2_algorithms :: "int list"
  fido2_user_verification :: string

record config =
  cfg_daemon :: daemon_config
  cfg_databases :: "database_config list"
  cfg_secret_service :: secret_service_config
  cfg_ssh_agent :: ssh_agent_config
  cfg_fido2 :: fido2_config

definition DefaultConfig :: config where
  "DefaultConfig =
     \<lparr>cfg_daemon =
        \<lparr>idle_timeout = 0, lock_on_screenlock = False, log_level = ''info'', log_to_journald = True,
         ssh_socket_path = ''kpxcd/ssh.sock'', ssh_mode = ''agent''\<rparr>,
      cfg_databases = [],
      cfg_secret_service =
        \<lparr>ss_enabled = True, ss_notify_on_access = True, ss_notify_cache_ttl = 300,
         ss_require_confirmation = False, ss_confirmation_timeout = 30\<rparr>,
      cfg_ssh_agent =
        \<lparr>ssh_enabled = True, ssh_remove_on_lock = True, ssh_confirm_on_use = False,
         ssh_lifetime = 0, ssh_security_key_provider = ''internal''\<rparr>,
      cfg_fido2 =
        \<lparr>fido2_enabled = False, fido2_aaguid = ''f8a011f3-8c0a-4d15-8006-17111f9edc7d'',
         fido2_algorithms = [-7, -8], fido2_user_verification = ''preferred''\<rparr>\<rparr>"

section \<open>Loading\<close>

datatype config_error =
    CreateDefault io_error
  | FileNotFound string
  | CannotRead string io_error
  | ParseError string
  | InvalidSshMode string
  | PathRequired nat
  | InvalidUnlockCredential nat string
  | SystemdNameRequired nat
  | KeyfileRequired nat
  | TwoDefaults

definition createDefaultConfig :: "io \<Rightarrow> nat \<Rightarrow> bytes \<Rightarrow> string \<Rightarrow> (io_error, unit) prog" where
  "createDefaultConfig io short default_toml path = WritePrivateFile io short path default_toml"

definition finish_database :: "environment \<Rightarrow> database_config \<Rightarrow> database_config" where
  "finish_database env db =
     (let path = ExpandPath env (dc_path db)
      in db\<lparr>dc_path := path, dc_keyfile := ExpandPath env (dc_keyfile db),
            dc_name := (if dc_name db = [] then path_base path else dc_name db)\<rparr>)"

definition parse_config ::
  "environment \<Rightarrow> (bytes \<Rightarrow> config \<Rightarrow> config option) \<Rightarrow> string \<Rightarrow> bytes \<Rightarrow> config_error + config" where
  "parse_config env decode path dat =
     (case decode dat DefaultConfig of
        None \<Rightarrow> Err (ParseError path)
      | Some cfg \<Rightarrow> Ok (cfg\<lparr>cfg_databases := List.map (finish_database env) (cfg_databases cfg)\<rparr>))"

definition read_error :: "string \<Rightarrow> io_error \<Rightarrow> config_error" where
  "read_error path e = (if e = NotExist then FileNotFound path else CannotRead path e)"

definition Load ::
  "io \<Rightarrow> nat \<Rightarrow> environment \<Rightarrow> bytes \<Rightarrow> (bytes \<Rightarrow> config \<Rightarrow> config option) \<Rightarrow> string \<Rightarrow> sys
     \<Rightarrow> (config_error + config) \<times> sys" where
  "Load io short env default_toml decode path0 s =
     (let explicit = (path0 \<noteq> []);
          path = (if path0 = [] then ConfigPath env else path0)
      in case call io (sys_read_file path) s of
           (Inr dat, s1) \<Rightarrow> (parse_config env decode path dat, s1)
         | (Inl e, s1) \<Rightarrow>
             if e = NotExist \<and> \<not> explicit then
               (case createDefaultConfig io short default_toml path s1 of
                  (Inl e', s2) \<Rightarrow> (Err (CreateDefault e'), s2)
                | (Inr _, s2) \<Rightarrow>
                    (case call io (sys_read_file path) s2 of
                       (Inl e'', s3) \<Rightarrow> (Err (read_error path e''), s3)
                     | (Inr dat, s3) \<Rightarrow> (parse_config env decode path dat, s3)))
             else (Err (read_error path e), s1))"

section \<open>Validation\<close>

definition known_ssh_modes :: "string list" where
  "known_ssh_modes = [''agent'', ''proxy'', ''client'']"

definition known_credentials :: "string list" where
  "known_credentials = [''prompt'', ''systemd-credential'', ''keyfile'', ''pam'', ''none'']"

definition validate_database :: "nat \<Rightarrow> database_config \<Rightarrow> config_error + database_config" where
  "validate_database i db =
     (if dc_path db = [] then Err (PathRequired i)
      else if dc_unlock_credential db \<noteq> [] \<and> dc_unlock_credential db \<notin> set known_credentials
      then Err (InvalidUnlockCredential i (dc_unlock_credential db))
      else if dc_unlock_credential db = ''systemd-credential'' \<and> dc_systemd_credential_name db = []
      then Err (SystemdNameRequired i)
      else if dc_unlock_credential db = ''keyfile'' \<and> dc_keyfile db = []
      then Err (KeyfileRequired i)
      else Ok (if dc_unlock_credential db = [] then db\<lparr>dc_unlock_credential := ''prompt''\<rparr> else db))"

text \<open>The loop keeps the entries it already filled in when it stops on an error.\<close>

fun validate_databases ::
  "nat \<Rightarrow> database_config list \<Rightarrow> config_error option \<times> database_config list" where
  "validate_databases i [] = (None, [])"
| "validate_databases i (db # dbs) =
     (case validate_database i db of
        Inl e \<Rightarrow> (Some e, db # dbs)
      | Inr db' \<Rightarrow> (case validate_databases (Suc i) dbs of (r, dbs') \<Rightarrow> (r, db' # dbs')))"

definition Validate :: "config \<Rightarrow> config_error option \<times> config" where
  "Validate c =
     (let d = cfg_daemon c;
          d1 = (if trim_space (log_level d) = [] then d\<lparr>log_level := ''info''\<rparr> else d);
          mode = ssh_mode d1
      in if mode \<noteq> [] \<and> mode \<notin> set known_ssh_modes then (Some (InvalidSshMode mode), c\<lparr>cfg_daemon := d1\<rparr>)
         else let d2 = (if mode = [] then d1\<lparr>ssh_mode := ''agent''\<rparr> else d1)
              in case validate_databases 0 (cfg_databases c) of
                   (Some e, dbs) \<Rightarrow> (Some e, c\<lparr>cfg_daemon := d2, cfg_databases := dbs\<rparr>)
                 | (None, dbs) \<Rightarrow>
                     (if 1 < length (filter dc_default (cfg_databases c)) then Some TwoDefaults else None,
                      c\<lparr>cfg_daemon := d2, cfg_databases := dbs\<rparr>))"

section \<open>What a valid configuration is\<close>

definition valid_database :: "database_config \<Rightarrow> bool" where
  "valid_database db \<longleftrightarrow>
     dc_path db \<noteq> [] \<and> dc_unlock_credential db \<in> set known_credentials \<and>
     (dc_unlock_credential db = ''systemd-credential'' \<longrightarrow> dc_systemd_credential_name db \<noteq> []) \<and>
     (dc_unlock_credential db = ''keyfile'' \<longrightarrow> dc_keyfile db \<noteq> [])"

definition valid_config :: "config \<Rightarrow> bool" where
  "valid_config c \<longleftrightarrow>
     trim_space (log_level (cfg_daemon c)) \<noteq> [] \<and> ssh_mode (cfg_daemon c) \<in> set known_ssh_modes \<and>
     (\<forall>db \<in> set (cfg_databases c). valid_database db) \<and>
     length (filter dc_default (cfg_databases c)) \<le> 1"

definition with_credential_default :: "database_config \<Rightarrow> database_config" where
  "with_credential_default db =
     (if dc_unlock_credential db = [] then db\<lparr>dc_unlock_credential := ''prompt''\<rparr> else db)"

lemma validate_database_Ok:
  "validate_database i db = Ok db' \<longleftrightarrow> db' = with_credential_default db \<and> valid_database db'"
  by (auto simp: validate_database_def with_credential_default_def valid_database_def known_credentials_def
      split: if_splits)

lemma validate_databases_None:
  "validate_databases i dbs = (None, dbs')
   \<longleftrightarrow> dbs' = List.map with_credential_default dbs \<and> (\<forall>db \<in> set dbs'. valid_database db)"
proof (induction dbs arbitrary: i dbs')
  case (Cons db dbs)
  show ?case
  proof (cases "validate_database i db")
    case (Inl e)
    then have "\<not> valid_database (with_credential_default db)"
      using validate_database_Ok[of i db] by (metis sum.distinct(1))
    with Inl show ?thesis by auto
  next
    case (Inr db2)
    obtain r dbs2 where rest: "validate_databases (Suc i) dbs = (r, dbs2)" by fastforce
    from Inr have db2: "db2 = with_credential_default db" "valid_database db2"
      using validate_database_Ok[of i db db2] by blast+
    have r: "r = None \<longleftrightarrow> (\<forall>db \<in> set dbs. valid_database (with_credential_default db))"
        "r = None \<Longrightarrow> dbs2 = List.map with_credential_default dbs"
      using Cons.IH[of "Suc i" dbs2] Cons.IH[of "Suc i" "List.map with_credential_default dbs"]
      unfolding rest by auto
    show ?thesis
      using r db2 by (cases "r = None") (auto simp: Inr rest)
  qed
qed auto

lemma default_kept [simp]: "dc_default (with_credential_default db) = dc_default db"
  by (simp add: with_credential_default_def)

lemma default_kept_comp [simp]: "dc_default \<circ> with_credential_default = dc_default"
  by (rule ext) simp

lemma path_base_nonempty [simp]: "path_base q \<noteq> []"
proof (cases "q = []")
  case False
  let ?r = "dropWhile (\<lambda>c. c = slash) (rev q)"
  show ?thesis
  proof (cases "?r = []")
    case True
    then show ?thesis using False by (simp add: path_base_def)
  next
    case r: False
    then have "hd ?r \<noteq> slash" by (rule hd_dropWhile)
    with r have "takeWhile (\<lambda>c. c \<noteq> slash) ?r \<noteq> []" by (cases ?r) auto
    then show ?thesis using False r by (simp add: path_base_def Let_def)
  qed
qed (simp add: path_base_def)

lemma valid_with_default_id: "valid_database db \<Longrightarrow> with_credential_default db = db"
  by (auto simp: valid_database_def with_credential_default_def known_credentials_def)

lemma trim_info: "trim_space ''info'' \<noteq> []"
  by (simp add: trim_space_def is_space_def)

lemma validate_databases_length: "length (snd (validate_databases i dbs)) = length dbs"
  by (induction dbs arbitrary: i) (auto split: sum.splits prod.splits, metis snd_conv)

section \<open>Properties\<close>

text \<open>Validation is sound: when it reports no error, the configuration it leaves has a log
  level, a known SSH mode, a path and a usable unlock credential for every database and at
  most one default database; validating that configuration again changes nothing; and the
  sections it does not check are untouched.\<close>

theorem Validate_sound:
  assumes "Validate c = (None, c')"
  shows "valid_config c' \<and> Validate c' = (None, c')
         \<and> cfg_secret_service c' = cfg_secret_service c \<and> cfg_ssh_agent c' = cfg_ssh_agent c
         \<and> cfg_fido2 c' = cfg_fido2 c \<and> length (cfg_databases c') = length (cfg_databases c)"
proof -
  obtain r dbs where v: "validate_databases 0 (cfg_databases c) = (r, dbs)" by fastforce
  with assms have r: "r = None" and one: "length (filter dc_default (cfg_databases c)) \<le> 1"
    by (auto simp: Validate_def Let_def split: if_splits option.splits)
  with v have dbs: "dbs = List.map with_credential_default (cfg_databases c)"
      "\<forall>db \<in> set dbs. valid_database db"
    by (simp_all add: validate_databases_None)
  have again: "validate_databases 0 dbs = (None, dbs)"
    using dbs(2) by (simp add: validate_databases_None map_idI valid_with_default_id)
  have one': "length (filter dc_default dbs) \<le> 1"
    using one by (simp add: dbs(1))
  have parts: "cfg_databases c' = dbs" "cfg_secret_service c' = cfg_secret_service c"
      "cfg_ssh_agent c' = cfg_ssh_agent c" "cfg_fido2 c' = cfg_fido2 c"
      "trim_space (log_level (cfg_daemon c')) \<noteq> []" "ssh_mode (cfg_daemon c') \<in> set known_ssh_modes"
    using assms v r trim_info
    by (auto simp: Validate_def Let_def known_ssh_modes_def split: if_splits)
  then have "ssh_mode (cfg_daemon c') \<noteq> []" by (auto simp: known_ssh_modes_def)
  then have "Validate c' = (None, c')"
    using parts again one' by (simp add: Validate_def Let_def)
  then show ?thesis
    using parts dbs one' by (simp add: valid_config_def)
qed

lemma Validate_sound_witness:
  "valid_config DefaultConfig \<and> Validate DefaultConfig = (None, DefaultConfig)"
proof -
  have "Validate DefaultConfig = (None, DefaultConfig)"
    by (simp add: Validate_def DefaultConfig_def known_ssh_modes_def trim_info)
  from Validate_sound[OF this] show ?thesis by simp
qed

text \<open>Loading resolves every path: with an absolute configuration directory, each
  database of a loaded configuration has a clean path that is absolute unless the file left
  it empty, and a non-empty name.\<close>

theorem Load_paths:
  assumes "Load io short env default_toml decode path s = (Ok cfg, s')"
    and "is_abs (ConfigHome env)" and "db \<in> set (cfg_databases cfg)"
  shows "(dc_path db \<noteq> [] \<longrightarrow> is_abs (dc_path db) \<and> path_clean (dc_path db) = dc_path db)
         \<and> (dc_keyfile db \<noteq> [] \<longrightarrow> is_abs (dc_keyfile db)) \<and> dc_name db \<noteq> []"
proof -
  obtain p dat where "parse_config env decode p dat = Ok cfg"
    using assms(1) by (auto simp: Load_def Let_def split: prod.splits sum.splits if_splits)
  then obtain db0 where db: "db = finish_database env db0"
    using assms(3) by (auto simp: parse_config_def split: option.splits)
  show ?thesis
    using assms(2) ExpandPath_abs[of env] ExpandPath_clean[of env]
    by (auto simp: db finish_database_def Let_def)
qed

lemma Load_paths_witness:
  defines "cfg0 \<equiv> DefaultConfig\<lparr>cfg_databases := [\<lparr>dc_path = ''/d/../k.kdbx'', dc_name = [], dc_default = True,
      dc_auto_unlock = False, dc_unlock_credential = [], dc_systemd_credential_name = [],
      dc_keyfile = [], dc_yubikey_slot = 0, dc_expose_group = [], dc_ssh_auto_add = False\<rparr>]\<rparr>"
  defines "env0 \<equiv> (\<lambda>v. if v = ''XDG_CONFIG_HOME'' then ''/c'' else [])"
  defines "fs0 \<equiv> \<lparr>fs_files = [''/f'' \<mapsto> \<lparr>f_dev = 1, f_ino = 1, f_mtime = 0, f_ctime = 0, f_mode = 384, f_data = []\<rparr>],
      fs_dirs = Map.empty, fs_clock = 0, fs_next_ino = 2\<rparr>"
  shows "\<exists>cfg s' db. Load quiet 0 env0 [] (\<lambda>_ _. Some cfg0) ''/f'' (sys_start fs0) = (Ok cfg, s')
           \<and> db \<in> set (cfg_databases cfg) \<and> is_abs (dc_path db) \<and> dc_name db \<noteq> []"
proof -
  let ?db = "finish_database env0 (hd (cfg_databases cfg0))"
  have load: "\<exists>s'. Load quiet 0 env0 [] (\<lambda>_ _. Some cfg0) ''/f'' (sys_start fs0)
      = (Ok (cfg0\<lparr>cfg_databases := [?db]\<rparr>), s')"
    by (simp add: Load_def Let_def call_quiet sys_read_file_def sys_start_def fs0_def parse_config_def cfg0_def)
  then obtain s' where s': "Load quiet 0 env0 [] (\<lambda>_ _. Some cfg0) ''/f'' (sys_start fs0)
      = (Ok (cfg0\<lparr>cfg_databases := [?db]\<rparr>), s')" by blast
  have abs: "is_abs (ConfigHome env0)"
    by (simp add: ConfigHome_def env0_def is_abs_def)
  have "dc_path ?db \<noteq> []"
    using ExpandPath_abs[OF abs, of "''/d/../k.kdbx''"] is_abs_nonempty
    by (simp add: finish_database_def cfg0_def Let_def)
  then show ?thesis
    using Load_paths[OF s' abs, of ?db] s' by auto
qed

end
