(* ===== verification/Secret_Access.thy ===== *)
theory Secret_Access
  imports Config Machine
begin

text \<open>
  Who asks for a secret and what follows (\<open>internal/secretservice/access.go\<close>,
  \<open>notifycache.go\<close>): the caller's identity from the bus and \<open>/proc\<close>, the confirmation by
  polkit, and the cache that keeps one application from raising a notification on every
  read. The bus, \<open>/proc\<close> and polkit are arguments; times are nanoseconds.
\<close>

section \<open>The caller\<close>

record caller_info =
  ci_sender :: string
  ci_pid :: u32
  ci_uid :: u32
  ci_exe :: string
  ci_command :: string

definition AppName :: "caller_info \<Rightarrow> string" where
  "AppName c =
     (if ci_exe c \<noteq> [] then path_base (ci_exe c)
      else if ci_command c \<noteq> [] \<and> Prelude.fields (ci_command c) \<noteq> [] then path_base (hd (Prelude.fields (ci_command c)))
      else if ci_sender c \<noteq> [] then ci_sender c
      else ''unknown process'')"

definition notifyCacheKey :: "caller_info \<Rightarrow> string" where
  "notifyCacheKey c =
     (if ci_exe c \<noteq> [] then ''exe:'' @ ci_exe c
      else if ci_command c \<noteq> [] \<and> Prelude.fields (ci_command c) \<noteq> [] then ''cmd:'' @ hd (Prelude.fields (ci_command c))
      else if ci_sender c \<noteq> [] then ''sender:'' @ ci_sender c
      else ''unknown'')"

text \<open>The answers of the bus daemon and of \<open>/proc\<close>, none where a call fails.\<close>

record process_table =
  pr_pid :: "string \<Rightarrow> u32 option"
  pr_uid :: "string \<Rightarrow> u32 option"
  pr_exe :: "u32 \<Rightarrow> string option"
  pr_cmdline :: "u32 \<Rightarrow> bytes option"
  pr_stat :: "u32 \<Rightarrow> string option"

definition command_of :: "bytes \<Rightarrow> string" where
  "command_of cmdline =
     string_of (map (\<lambda>b. if b = 0 then 32 else b) (rev (dropWhile (\<lambda>b. b = 0) (rev cmdline))))"

definition callerInfo :: "process_table \<Rightarrow> bool \<Rightarrow> string \<Rightarrow> caller_info" where
  "callerInfo P connected sender =
     (let info = \<lparr>ci_sender = sender, ci_pid = 0, ci_uid = 0, ci_exe = [], ci_command = []\<rparr>
      in if \<not> connected \<or> sender = [] then info
         else
           (let info1 = (case pr_pid P sender of
                  None \<Rightarrow> info
                | Some pid \<Rightarrow>
                    (let info2 = info\<lparr>ci_pid := pid\<rparr>;
                         info3 = (case pr_exe P pid of None \<Rightarrow> info2 | Some exe \<Rightarrow> info2\<lparr>ci_exe := exe\<rparr>)
                     in case pr_cmdline P pid of
                          None \<Rightarrow> info3
                        | Some cmdline \<Rightarrow> info3\<lparr>ci_command := command_of cmdline\<rparr>))
            in case pr_uid P sender of None \<Rightarrow> info1 | Some uid \<Rightarrow> info1\<lparr>ci_uid := uid\<rparr>))"

text \<open>\<open>strings.LastIndex\<close> of one character and \<open>strconv.ParseUint(s, 10, 64)\<close>.\<close>

definition after_last :: "char \<Rightarrow> string \<Rightarrow> string option" where
  "after_last c s = (if c \<in> set s then Some (rev (takeWhile (\<lambda>x. x \<noteq> c) (rev s))) else None)"

definition is_digit :: "char \<Rightarrow> bool" where
  "is_digit c \<longleftrightarrow> 48 \<le> (of_char c :: nat) \<and> (of_char c :: nat) \<le> 57"

definition parse_uint64 :: "string \<Rightarrow> nat option" where
  "parse_uint64 s =
     (if s = [] \<or> \<not> list_all is_digit s then None
      else let n = foldl (\<lambda>n c. n * 10 + (of_char c - 48)) 0 s
           in if n < 2 ^ 64 then Some n else None)"

text \<open>Field 22 of \<open>/proc/<pid>/stat\<close>: the text two characters behind the last parenthesis
  starts with field 3.\<close>

definition procStartTime :: "process_table \<Rightarrow> u32 \<Rightarrow> nat option" where
  "procStartTime P pid =
     (case pr_stat P pid of
        None \<Rightarrow> None
      | Some stat \<Rightarrow>
          (case after_last CHR '')'' stat of
             None \<Rightarrow> None
           | Some rest \<Rightarrow>
               if length rest < 2 then None
               else let fs = Prelude.fields (drop 1 rest)
                    in if length fs \<le> 19 then None else parse_uint64 (fs ! 19)))"

section \<open>Confirmation\<close>

definition actionGetEntrySecret :: string where
  "actionGetEntrySecret = ''org.keepassxc.daemon.get-entry.secret''"

record polkit_subject =
  ps_kind :: string
  ps_pid :: u32
  ps_uid :: "int option"
  ps_start_time :: "nat option"

datatype polkit_reply = NoSystemBus | CallFailed | BadReply | Reply bool

datatype access_error = PolkitUnavailable | DecodeReply | PolkitDenied string | CallerUnknown

definition checkPolkitAuthorization ::
  "process_table \<Rightarrow> (polkit_subject \<Rightarrow> string \<Rightarrow> polkit_reply) \<Rightarrow> caller_info \<Rightarrow> string \<Rightarrow> access_error option" where
  "checkPolkitAuthorization P polkit caller actionID =
     (let subject = \<lparr>ps_kind = ''unix-process'', ps_pid = ci_pid caller,
                     ps_uid = (if ci_uid caller \<noteq> 0 then Some (sint (ci_uid caller)) else None),
                     ps_start_time = procStartTime P (ci_pid caller)\<rparr>
      in case polkit subject actionID of
           NoSystemBus \<Rightarrow> Some PolkitUnavailable
         | CallFailed \<Rightarrow> Some PolkitUnavailable
         | BadReply \<Rightarrow> Some DecodeReply
         | Reply authorized \<Rightarrow> if \<not> authorized then Some (PolkitDenied actionID) else None)"

definition authorizeSecretAccess ::
  "process_table \<Rightarrow> (polkit_subject \<Rightarrow> string \<Rightarrow> polkit_reply) \<Rightarrow> secret_service_config \<Rightarrow> caller_info
     \<Rightarrow> access_error option" where
  "authorizeSecretAccess P polkit cfg caller =
     (if \<not> ss_require_confirmation cfg then None
      else if ci_pid caller = 0 then Some CallerUnknown
      else checkPolkitAuthorization P polkit caller actionGetEntrySecret)"

section \<open>The notification cache\<close>

type_synonym notify_cache = "string \<rightharpoonup> int"

definition notifyCacheMaxEntries :: nat where
  "notifyCacheMaxEntries = 256"

definition pruneLocked :: "int \<Rightarrow> notify_cache \<Rightarrow> notify_cache" where
  "pruneLocked now c = delete_where (\<lambda>k expiry. \<not> now < expiry) c"

text \<open>The scan for the entry that expires soonest; the empty key stands for none yet.\<close>

fun soonest_scan :: "string list \<Rightarrow> notify_cache \<Rightarrow> string \<Rightarrow> int \<Rightarrow> string" where
  "soonest_scan [] c soonestKey soonest = soonestKey"
| "soonest_scan (k # ks) c soonestKey soonest =
     (case c k of
        None \<Rightarrow> soonest_scan ks c soonestKey soonest
      | Some expiry \<Rightarrow>
          if soonestKey = [] \<or> expiry < soonest then soonest_scan ks c k expiry
          else soonest_scan ks c soonestKey soonest)"

definition evictSoonestLocked :: "string list \<Rightarrow> notify_cache \<Rightarrow> notify_cache" where
  "evictSoonestLocked order c =
     (let k = soonest_scan order c [] 0 in if k \<noteq> [] then c(k := None) else c)"

definition cache_size :: "notify_cache \<Rightarrow> nat" where
  "cache_size c = card (dom c)"

text \<open>\<open>order\<close> enumerates the cache when an entry has to be evicted.\<close>

definition allow :: "string list \<Rightarrow> int \<Rightarrow> string \<Rightarrow> int \<Rightarrow> notify_cache \<Rightarrow> bool \<times> notify_cache" where
  "allow order now key ttl c =
     (if ttl \<le> 0 then (True, c)
      else if (case c key of None \<Rightarrow> False | Some expiry \<Rightarrow> now < expiry) then (False, c(key \<mapsto> now + ttl))
      else
        (let c1 = (if c key = None \<and> cache_size c \<ge> notifyCacheMaxEntries then
                     (let c2 = pruneLocked now c
                      in if cache_size c2 \<ge> notifyCacheMaxEntries then evictSoonestLocked order c2 else c2)
                   else c)
         in (True, c1(key \<mapsto> now + ttl))))"

text \<open>\<open>notifySecretAccess\<close>: the notification to send, if any. The configured seconds are
  multiplied as a 64-bit \<open>Duration\<close>.\<close>

record notification =
  nt_app :: string
  nt_item :: string
  nt_collection :: string

definition duration_seconds :: "int \<Rightarrow> int" where
  "duration_seconds n = sint (word_of_int n * 1000000000 :: 64 word)"

definition notifySecretAccess ::
  "secret_service_config \<Rightarrow> bool \<Rightarrow> string list \<Rightarrow> int \<Rightarrow> caller_info \<Rightarrow> string \<Rightarrow> string \<Rightarrow> notify_cache
     \<Rightarrow> notification option \<times> notify_cache" where
  "notifySecretAccess cfg connected order now caller label coll c =
     (if \<not> ss_notify_on_access cfg \<or> \<not> connected then (None, c)
      else let (ok, c') = allow order now (notifyCacheKey caller) (duration_seconds (ss_notify_cache_ttl cfg)) c
           in if \<not> ok then (None, c')
              else (Some \<lparr>nt_app = AppName caller, nt_item = label, nt_collection = coll\<rparr>, c'))"

section \<open>Lemmas\<close>

lemma notifyCacheKey_nonempty: "notifyCacheKey c \<noteq> []"
  by (simp add: notifyCacheKey_def)

lemma finite_dom_upd: "finite (dom c) \<Longrightarrow> finite (dom (c(k \<mapsto> v)))"
  by simp

lemma pruneLocked_apply:
  "pruneLocked now c k = (case c k of None \<Rightarrow> None | Some e \<Rightarrow> if now < e then Some e else None)"
  by (simp add: pruneLocked_def delete_where_apply split: option.split)

lemma dom_pruneLocked: "dom (pruneLocked now c) \<subseteq> dom c"
  unfolding pruneLocked_def by (rule dom_delete_where_subset)

text \<open>The scan ends at a key of the cache that no other undercuts, unless the cache is empty.\<close>

lemma soonest_scan_from:
  assumes "\<forall>k \<in> set ks. k \<noteq> [] \<and> c k \<noteq> None" "c k0 = Some t0" "k0 \<noteq> []"
  shows "soonest_scan ks c k0 t0 \<noteq> [] \<and> (\<exists>t. c (soonest_scan ks c k0 t0) = Some t \<and> t \<le> t0
           \<and> (\<forall>k' t'. k' \<in> set ks \<longrightarrow> c k' = Some t' \<longrightarrow> t \<le> t'))"
  using assms
proof (induction ks arbitrary: k0 t0)
  case (Cons a ks)
  then obtain ta where ta: "c a = Some ta" "a \<noteq> []" by auto
  have tail: "\<forall>k \<in> set ks. k \<noteq> [] \<and> c k \<noteq> None" using Cons.prems(1) by simp
  define k1 t1 where "k1 = (if ta < t0 then a else k0)" and "t1 = (if ta < t0 then ta else t0)"
  have k1: "c k1 = Some t1" "k1 \<noteq> []" "t1 \<le> t0" "t1 \<le> ta"
    using ta Cons.prems(2,3) by (simp_all add: k1_def t1_def)
  have scan: "soonest_scan (a # ks) c k0 t0 = soonest_scan ks c k1 t1"
    using ta Cons.prems(3) by (simp add: k1_def t1_def)
  from Cons.IH[OF tail k1(1,2)] obtain t where t: "soonest_scan ks c k1 t1 \<noteq> []"
    "c (soonest_scan ks c k1 t1) = Some t" "t \<le> t1" "\<And>k' t'. k' \<in> set ks \<Longrightarrow> c k' = Some t' \<Longrightarrow> t \<le> t'"
    by blast
  have "t \<le> t'" if "k' \<in> set (a # ks)" "c k' = Some t'" for k' t'
    using that t(3,4) ta(1) k1(4) by fastforce
  moreover have "t \<le> t0" using t(3) k1(3) by (rule order_trans)
  ultimately show ?case unfolding scan using t(1,2) by blast
qed simp

lemma evictSoonest_removes:
  assumes "enumerates order c" "c [] = None" "c \<noteq> Map.empty"
  shows "\<exists>k t. c k = Some t \<and> (\<forall>k' t'. c k' = Some t' \<longrightarrow> t \<le> t') \<and> evictSoonestLocked order c = c(k := None)"
proof -
  have keys: "set order = dom c" using assms(1) by (simp add: enumerates_def)
  have "dom c \<noteq> {}" using assms(3) by (simp add: dom_eq_empty_conv)
  then obtain a ks where order: "order = a # ks" using keys by (cases order) auto
  have ok: "\<forall>k \<in> set ks. k \<noteq> [] \<and> c k \<noteq> None" "a \<noteq> []"
    using keys order assms(2) by auto
  obtain ta where ta: "c a = Some ta" using keys order by auto
  from soonest_scan_from[OF ok(1) ta ok(2)] obtain t where t: "soonest_scan ks c a ta \<noteq> []"
    "c (soonest_scan ks c a ta) = Some t" "t \<le> ta" "\<And>k' t'. k' \<in> set ks \<Longrightarrow> c k' = Some t' \<Longrightarrow> t \<le> t'"
    by blast
  have scan: "soonest_scan order c [] 0 = soonest_scan ks c a ta"
    using ta by (simp add: order)
  have "t \<le> t'" if "c k' = Some t'" for k' t'
  proof -
    have "k' = a \<or> k' \<in> set ks" using that keys order by auto
    then show ?thesis using that t(3,4) ta by auto
  qed
  then show ?thesis
    using t(1,2) unfolding evictSoonestLocked_def scan Let_def by auto
qed

definition cache_ok :: "notify_cache \<Rightarrow> bool" where
  "cache_ok c \<longleftrightarrow> finite (dom c) \<and> card (dom c) \<le> notifyCacheMaxEntries \<and> c [] = None"

text \<open>The map \<open>allow\<close> writes the fresh expiry into.\<close>

definition make_room :: "string list \<Rightarrow> int \<Rightarrow> string \<Rightarrow> notify_cache \<Rightarrow> notify_cache" where
  "make_room order now key c =
     (if c key = None \<and> cache_size c \<ge> notifyCacheMaxEntries then
        (let c2 = pruneLocked now c
         in if cache_size c2 \<ge> notifyCacheMaxEntries then evictSoonestLocked order c2 else c2)
      else c)"

lemma allow_eq:
  "allow order now key ttl c =
     (if ttl \<le> 0 then (True, c)
      else if (case c key of None \<Rightarrow> False | Some expiry \<Rightarrow> now < expiry) then (False, c(key \<mapsto> now + ttl))
      else (True, (make_room order now key c)(key \<mapsto> now + ttl)))"
  by (simp add: allow_def make_room_def Let_def)

lemma make_room_ok:
  assumes "cache_ok c" "enumerates order (pruneLocked now c)"
  shows "cache_ok (make_room order now key c)"
    and "key \<notin> dom c \<Longrightarrow> card (dom (make_room order now key c)) < notifyCacheMaxEntries"
proof -
  let ?c2 = "pruneLocked now c"
  have fin: "finite (dom ?c2)" "card (dom ?c2) \<le> notifyCacheMaxEntries" "?c2 [] = None"
    using assms(1) finite_subset[OF dom_pruneLocked] card_mono[OF _ dom_pruneLocked[of now c]]
    by (auto simp: cache_ok_def pruneLocked_apply)
  have ev: "finite (dom (evictSoonestLocked order ?c2)) \<and> evictSoonestLocked order ?c2 [] = None
      \<and> card (dom (evictSoonestLocked order ?c2)) < notifyCacheMaxEntries"
    if full: "cache_size ?c2 \<ge> notifyCacheMaxEntries"
  proof -
    have "?c2 \<noteq> Map.empty"
      using full by (auto simp: cache_size_def notifyCacheMaxEntries_def)
    from evictSoonest_removes[OF assms(2) fin(3) this] obtain k t where
      k: "?c2 k = Some t" "evictSoonestLocked order ?c2 = ?c2(k := None)" by blast
    have "card (dom ?c2 - {k}) < card (dom ?c2)"
      using k(1) fin(1) by (intro psubset_card_mono) auto
    with k fin show ?thesis by (auto simp: dom_fun_upd)
  qed
  show "cache_ok (make_room order now key c)"
    using assms(1) fin ev by (auto simp: make_room_def cache_ok_def cache_size_def Let_def not_le less_imp_le)
  show "card (dom (make_room order now key c)) < notifyCacheMaxEntries" if "key \<notin> dom c"
    using that ev by (auto simp: make_room_def cache_size_def Let_def not_le domIff)
qed

lemma allow_ok:
  assumes "cache_ok c" "enumerates order (pruneLocked now c)" "key \<noteq> []"
  shows "cache_ok (snd (allow order now key ttl c))"
proof -
  have upd: "cache_ok (c'(key \<mapsto> v))"
    if "cache_ok c'" "key \<in> dom c' \<or> card (dom c') < notifyCacheMaxEntries" for c' v
    using that assms(3) by (auto simp: cache_ok_def insert_absorb card_insert_if)
  have kept: "key \<in> dom c \<Longrightarrow> make_room order now key c = c"
    by (auto simp: make_room_def)
  have "key \<in> dom (make_room order now key c) \<or> card (dom (make_room order now key c)) < notifyCacheMaxEntries"
    using make_room_ok(2)[OF assms(1,2), of key] kept by (cases "key \<in> dom c") auto
  then have "cache_ok ((make_room order now key c)(key \<mapsto> now + ttl))"
    by (rule upd[OF make_room_ok(1)[OF assms(1,2)]])
  then show ?thesis
    using assms(1) upd[of c] unfolding allow_eq by (auto split: option.splits)
qed

inductive notify_step :: "notify_cache \<Rightarrow> notify_cache \<Rightarrow> bool" where
  notified: "enumerates order (pruneLocked now c) \<Longrightarrow>
     notify_step c (snd (notifySecretAccess cfg connected order now caller label coll c))"

inductive_cases notify_stepE: "notify_step c c'"

lemma notify_step_ok: "cache_ok c \<Longrightarrow> notify_step c c' \<Longrightarrow> cache_ok c'"
proof (erule notify_stepE)
  fix order now cfg connected caller label coll
  assume c: "cache_ok c" and c': "c' = snd (notifySecretAccess cfg connected order now caller label coll c)"
    and order: "enumerates order (pruneLocked now c)"
  from allow_ok[OF c order notifyCacheKey_nonempty, of caller "duration_seconds (ss_notify_cache_ttl cfg)"]
  show "cache_ok c'"
    using c unfolding c' notifySecretAccess_def by (auto split: prod.splits)
qed

lemma cache_ok_empty: "cache_ok Map.empty"
  by (simp add: cache_ok_def)

interpretation notify: bounded_machine "\<lambda>c. c = Map.empty" notify_step cache_ok cache_size notifyCacheMaxEntries
  by unfold_locales (auto simp: cache_ok_empty notify_step_ok, simp add: cache_ok_def cache_size_def)

section \<open>Properties\<close>

text \<open>Confirmation fails closed: when confirmation is required, access is granted exactly
  if the caller's process is known and polkit, asked about that process and the secret-reading
  action, answered that it is authorised; an unreachable or malformed polkit denies.\<close>

theorem authorize_fails_closed:
  "authorizeSecretAccess P polkit cfg caller = None \<longleftrightarrow>
     (\<not> ss_require_confirmation cfg
      \<or> ci_pid caller \<noteq> 0
        \<and> polkit \<lparr>ps_kind = ''unix-process'', ps_pid = ci_pid caller,
                  ps_uid = (if ci_uid caller \<noteq> 0 then Some (sint (ci_uid caller)) else None),
                  ps_start_time = procStartTime P (ci_pid caller)\<rparr> actionGetEntrySecret = Reply True)"
  by (auto simp: authorizeSecretAccess_def checkPolkitAuthorization_def Let_def split: polkit_reply.splits)

text \<open>Suppression. With a positive lifetime, an access is announced exactly if its key has
  no unexpired entry, and its entry then lasts for the lifetime. Another entry is kept unless
  the cache was full, and then only an expired one or the one that expires soonest goes.\<close>

theorem allow_exact:
  assumes "cache_ok c" and "enumerates order (pruneLocked now c)" and "0 < ttl"
  shows "(fst (allow order now key ttl c) \<longleftrightarrow> \<not> (\<exists>t. c key = Some t \<and> now < t))
         \<and> snd (allow order now key ttl c) key = Some (now + ttl)
         \<and> (\<forall>k t. k \<noteq> key \<longrightarrow> c k = Some t \<longrightarrow>
              snd (allow order now key ttl c) k = Some t
              \<or> card (dom c) = notifyCacheMaxEntries
                \<and> (t \<le> now \<or> (\<forall>k' t'. c k' = Some t' \<longrightarrow> now < t' \<longrightarrow> t \<le> t')))"
proof -
  have room: "make_room order now key c k = Some t
        \<or> card (dom c) = notifyCacheMaxEntries \<and> (t \<le> now \<or> (\<forall>k' t'. c k' = Some t' \<longrightarrow> now < t' \<longrightarrow> t \<le> t'))"
    if k: "c k = Some t" for k t
  proof (cases "card (dom c) \<ge> notifyCacheMaxEntries")
    case False
    then show ?thesis using k by (simp add: make_room_def cache_size_def)
  next
    case True
    then have full: "card (dom c) = notifyCacheMaxEntries" using assms(1) by (simp add: cache_ok_def)
    show ?thesis
    proof (cases "t \<le> now")
      case live: False
      then have p: "pruneLocked now c k = Some t" using k by (simp add: pruneLocked_apply)
      then have ne: "pruneLocked now c \<noteq> Map.empty" by (rule contrapos_pn) simp
      have ne2: "pruneLocked now c [] = None"
        using assms(1) by (simp add: cache_ok_def pruneLocked_apply)
      from evictSoonest_removes[OF assms(2) ne2 ne] obtain k1 t1 where
        k1: "pruneLocked now c k1 = Some t1" "evictSoonestLocked order (pruneLocked now c) = (pruneLocked now c)(k1 := None)"
          "\<And>k' t'. pruneLocked now c k' = Some t' \<Longrightarrow> t1 \<le> t'" by blast
      have "t1 \<le> t'" if "c k' = Some t'" "now < t'" for k' t'
        using that by (intro k1(3)[of k']) (simp add: pruneLocked_apply)
      with k1(1,2) p full k show ?thesis
        by (cases "k = k1") (auto simp: make_room_def Let_def)
    qed (use full in simp)
  qed
  show ?thesis
    using assms(3) room unfolding allow_eq by (auto split: option.splits)
qed

lemma allow_exact_witness:
  "fst (allow [] 5 ''exe:/bin/a'' 10 Map.empty)"
  using allow_exact[of Map.empty "[]" 5 10 "''exe:/bin/a''"]
  by (simp add: cache_ok_empty pruneLocked_def delete_where_def)

text \<open>C39. The notification cache is bounded: whoever accesses secrets, whenever, and however
  the map is enumerated, it never holds more than 256 entries.\<close>

theorem notify_cache_bounded:
  assumes "reachable (\<lambda>c. c = Map.empty) notify_step c"
  shows "cache_size c \<le> 256 \<and> finite (dom c)"
  using notify.reachable_bound[OF assms] notify.reachable_inv[OF assms]
  by (simp add: notifyCacheMaxEntries_def cache_ok_def)

lemma notify_cache_bounded_witness:
  "cache_size (snd (notifySecretAccess (cfg_secret_service DefaultConfig) True [] 0
     \<lparr>ci_sender = '':1.7'', ci_pid = 42, ci_uid = 1000, ci_exe = ''/usr/bin/app'', ci_command = []\<rparr> ''l'' ''c'' Map.empty)) \<le> 256"
proof -
  have start: "reachable (\<lambda>c. c = Map.empty) notify_step Map.empty" by (rule reachable.start) (rule refl)
  have "enumerates [] (pruneLocked 0 Map.empty)" by (simp add: pruneLocked_def delete_where_def)
  note step = notified[OF this, of "cfg_secret_service DefaultConfig" True
      "\<lparr>ci_sender = '':1.7'', ci_pid = 42, ci_uid = 1000, ci_exe = ''/usr/bin/app'', ci_command = []\<rparr>" "''l''" "''c''"]
  from start step show ?thesis by (blast dest: reachable.move notify_cache_bounded)
qed

end
