(* ===== verification/Secret_Service.thy ===== *)
theory Secret_Service
  imports Secret_Write Secret_Access
begin

text \<open>
  The Secret Service object (\<open>internal/secretservice/service.go\<close>, \<open>collection.go\<close> and the
  lookup half of \<open>item.go\<close>) once it is exported on the bus: its state, the collections that
  pool events create and remove, sessions, aliases, prompts, search, lookup by path and
  locking.

  A collection holds a reference to an open database on the pool's heap, as the Go pointer
  does; a reference outside the heap, which no reachable state has, shows nothing. Map
  iterations take the order of the keys. \<open>sv_exports\<close> is what the bus can reach under a path;
  \<open>sv_signals\<close>, \<open>sv_log\<close> and \<open>sv_notes\<close> collect what was emitted, logged and announced.
\<close>

section \<open>Paths\<close>

definition ServicePath :: string where
  "ServicePath = ''/org/freedesktop/secrets''"

definition CollectionPrefix :: string where
  "CollectionPrefix = ServicePath @ ''/collection/''"

definition path_char :: "char \<Rightarrow> bool" where
  "path_char c \<longleftrightarrow>
     (let n = (of_char c :: nat)
      in (97 \<le> n \<and> n \<le> 122) \<or> (65 \<le> n \<and> n \<le> 90) \<or> (48 \<le> n \<and> n \<le> 57) \<or> n = 95)"

definition sanitizeCollectionName :: "string \<Rightarrow> string" where
  "sanitizeCollectionName name =
     (let result = map (\<lambda>c. if path_char c then c else CHR ''_'') name;
          result1 = (case result of
             [] \<Rightarrow> []
           | c # _ \<Rightarrow> if is_digit c then CHR ''_'' # result else result)
      in if result1 = [] then ''_'' else result1)"

definition collection_path :: "string \<Rightarrow> string" where
  "collection_path name = CollectionPrefix @ sanitizeCollectionName name"

definition itemPathForEntry :: "string \<Rightarrow> entry \<Rightarrow> string" where
  "itemPathForEntry dbName e = CollectionPrefix @ sanitizeCollectionName dbName @ ''/'' @ entryUUIDString e"

text \<open>\<open>%d\<close> of an unsigned number.\<close>

fun dec_string :: "nat \<Rightarrow> string" where
  "dec_string n = (if n < 10 then [char_of (48 + n)] else dec_string (n div 10) @ [char_of (48 + n mod 10)])"

declare dec_string.simps [simp del]

definition session_path :: "nat \<Rightarrow> string" where
  "session_path i = ServicePath @ ''/session/s'' @ dec_string i"

definition prompt_path :: "nat \<Rightarrow> string" where
  "prompt_path i = ServicePath @ ''/prompt/p'' @ dec_string i"

definition aliasPath :: "string \<Rightarrow> string" where
  "aliasPath a = ServicePath @ ''/aliases/'' @ a"

section \<open>State\<close>

record collection =
  co_path :: string
  co_db :: ref

record item =
  it_path :: string
  it_coll :: collection
  it_entry :: entry
  it_uuid :: string

datatype bus_object = CollectionObject collection | ItemObject item | PromptObject prompt

datatype signal =
    CollectionsChanged "string list" "string list"
  | ItemCreated string string
  | ItemChanged string string
  | ItemDeleted string string

record access_record =
  ar_via :: string
  ar_caller :: caller_info
  ar_collection :: string
  ar_item :: string

record svc =
  sv_pool :: pool
  sv_config :: secret_service_config
  sv_dbconfigs :: "database_config list"
  sv_collections :: "string \<rightharpoonup> collection"
  sv_sessions :: "string \<rightharpoonup> session"
  sv_aliases :: "string \<rightharpoonup> string"
  sv_cache :: notify_cache
  sv_next :: nat
  sv_exports :: "string \<rightharpoonup> bus_object"
  sv_signals :: "signal list"
  sv_log :: "access_record list"
  sv_notes :: "notification list"

datatype dbus_error = IsLocked | NoSession | NoSuchObject | AccessDenied | NotSupported | InvalidArgs

definition NewSecretService :: "pool \<Rightarrow> secret_service_config option \<Rightarrow> svc" where
  "NewSecretService p cfg =
     \<lparr>sv_pool = p, sv_config = (case cfg of None \<Rightarrow> cfg_secret_service DefaultConfig | Some c \<Rightarrow> c),
      sv_dbconfigs = [], sv_collections = Map.empty, sv_sessions = Map.empty, sv_aliases = Map.empty,
      sv_cache = Map.empty, sv_next = 0, sv_exports = Map.empty, sv_signals = [], sv_log = [], sv_notes = []\<rparr>"

definition UpdateConfig :: "secret_service_config \<Rightarrow> svc \<Rightarrow> svc" where
  "UpdateConfig cfg s = s\<lparr>sv_config := cfg\<rparr>"

definition UpdateDatabaseConfigs :: "database_config list \<Rightarrow> svc \<Rightarrow> svc" where
  "UpdateDatabaseConfigs dbs s = s\<lparr>sv_dbconfigs := dbs\<rparr>"

definition odb_at :: "svc \<Rightarrow> ref \<Rightarrow> open_database option" where
  "odb_at s r = pl_heap (sv_pool s) r"

section \<open>Entries shown\<close>

fun expose_group_in :: "database_config list \<Rightarrow> open_database \<Rightarrow> string" where
  "expose_group_in [] od = []"
| "expose_group_in (cfg # cfgs) od =
     (if dc_path cfg = od_path od \<or> dc_name cfg = od_name od then dc_expose_group cfg else expose_group_in cfgs od)"

definition exposeGroupForDB :: "svc \<Rightarrow> open_database \<Rightarrow> string" where
  "exposeGroupForDB s od = expose_group_in (sv_dbconfigs s) od"

definition collectEntriesForDB :: "svc \<Rightarrow> open_database \<Rightarrow> entry list" where
  "collectEntriesForDB s od =
     (case od_db od of
        None \<Rightarrow> []
      | Some db \<Rightarrow>
          (case root_groups db of
             None \<Rightarrow> []
           | Some gs \<Rightarrow> collectEntriesVisible gs (recycle_bin_uuid_for_db db) (exposeGroupForDB s od)))"

text \<open>The guard of every listing: unlocked, with a database and its content.\<close>

definition is_open :: "open_database \<Rightarrow> bool" where
  "is_open od \<longleftrightarrow>
     \<not> od_locked od \<and> (case od_db od of None \<Rightarrow> False | Some db \<Rightarrow> db_content db \<noteq> None)"

definition newCollection :: "open_database \<Rightarrow> ref \<Rightarrow> collection" where
  "newCollection od r = \<lparr>co_path = collection_path (od_name od), co_db = r\<rparr>"

definition newItem :: "open_database \<Rightarrow> collection \<Rightarrow> entry \<Rightarrow> item" where
  "newItem od coll e =
     \<lparr>it_path = itemPathForEntry (od_name od) e, it_coll = coll, it_entry = e, it_uuid = entryUUIDString e\<rparr>"

text \<open>The items of one collection, and of a list of collections with their databases.\<close>

definition items_of :: "svc \<Rightarrow> collection \<Rightarrow> item list" where
  "items_of s coll =
     (case odb_at s (co_db coll) of
        None \<Rightarrow> []
      | Some od \<Rightarrow> if is_open od then map (newItem od coll) (collectEntriesForDB s od) else [])"

definition itemsForCollection :: "svc \<Rightarrow> string \<Rightarrow> item list" where
  "itemsForCollection s path =
     (case sv_collections s path of None \<Rightarrow> [] | Some coll \<Rightarrow> items_of s coll)"

section \<open>Collections\<close>

definition export_object :: "string \<Rightarrow> bus_object \<Rightarrow> svc \<Rightarrow> svc" where
  "export_object path ob s = s\<lparr>sv_exports := (sv_exports s)(path \<mapsto> ob)\<rparr>"

definition emit_signal :: "signal \<Rightarrow> svc \<Rightarrow> svc" where
  "emit_signal sg s = s\<lparr>sv_signals := sv_signals s @ [sg]\<rparr>"

definition exportItemsForCollection :: "collection \<Rightarrow> svc \<Rightarrow> svc" where
  "exportItemsForCollection coll s =
     (case odb_at s (co_db coll) of
        None \<Rightarrow> s
      | Some od \<Rightarrow>
          fold (\<lambda>e. let it = newItem od coll e in export_object (it_path it) (ItemObject it))
            (collectEntriesForDB s od) s)"

definition exportAlias :: "string \<Rightarrow> collection \<Rightarrow> svc \<Rightarrow> svc" where
  "exportAlias a coll = export_object (aliasPath a) (CollectionObject coll)"

definition createCollection :: "open_database \<Rightarrow> ref \<Rightarrow> svc \<Rightarrow> svc" where
  "createCollection od r s =
     (let coll = newCollection od r;
          path = co_path coll;
          s1 = s\<lparr>sv_collections := (sv_collections s)(path \<mapsto> coll)\<rparr>;
          s2 = exportItemsForCollection coll (export_object path (CollectionObject coll) s1);
          s3 = (if sv_aliases s2 ''default'' = None
                then exportAlias ''default'' coll (s2\<lparr>sv_aliases := (sv_aliases s2)(''default'' \<mapsto> path)\<rparr>)
                else s2)
      in emit_signal (CollectionsChanged [] [path]) s3)"

text \<open>The signal lists the new path under the second argument, as the code's call
  \<open>emitCollectionsChanged(nil, {path})\<close> does, although that parameter is named \<open>deleted\<close>.\<close>

fun seed_refs :: "ref list \<Rightarrow> svc \<Rightarrow> svc" where
  "seed_refs [] s = s"
| "seed_refs (r # rs) s =
     (case odb_at s r of
        None \<Rightarrow> seed_refs rs s
      | Some od \<Rightarrow> if od_locked od then seed_refs rs s else seed_refs rs (createCollection od r s))"

definition seedCollections :: "string list \<Rightarrow> svc \<Rightarrow> svc" where
  "seedCollections order s = seed_refs (ListDatabases order (sv_pool s)) s"

definition has_uuid :: "svc \<Rightarrow> string \<Rightarrow> collection \<Rightarrow> bool" where
  "has_uuid s uuid coll \<longleftrightarrow> (case odb_at s (co_db coll) of None \<Rightarrow> False | Some od \<Rightarrow> od_uuid od = uuid)"

definition removeCollectionLocked :: "string \<Rightarrow> svc \<Rightarrow> svc" where
  "removeCollectionLocked path s = s\<lparr>sv_collections := (sv_collections s)(path := None)\<rparr>"

definition onDatabaseUnlocked :: "string \<Rightarrow> svc \<Rightarrow> svc" where
  "onDatabaseUnlocked uuid s =
     (case Get uuid (sv_pool s) of
        None \<Rightarrow> s
      | Some r \<Rightarrow> (case odb_at s r of None \<Rightarrow> s | Some od \<Rightarrow> createCollection od r s))"

definition onDatabaseLocked :: "string \<Rightarrow> svc \<Rightarrow> svc" where
  "onDatabaseLocked uuid s =
     s\<lparr>sv_collections := delete_where (\<lambda>path coll. has_uuid s uuid coll) (sv_collections s)\<rparr>"

definition onDatabaseReloaded :: "string list \<Rightarrow> string \<Rightarrow> svc \<Rightarrow> svc" where
  "onDatabaseReloaded order uuid s =
     (case Get uuid (sv_pool s) of
        None \<Rightarrow> s
      | Some r \<Rightarrow>
          (case odb_at s r of
             None \<Rightarrow> s
           | Some od \<Rightarrow>
               (let s1 = (case List.find (\<lambda>path. case sv_collections s path of None \<Rightarrow> False
                                     | Some coll \<Rightarrow> has_uuid s uuid coll) order of
                            None \<Rightarrow> s
                          | Some path \<Rightarrow> removeCollectionLocked path s)
                in if \<not> od_locked od then createCollection od r s1 else s1)))"

definition HandlePoolEvent :: "string list \<Rightarrow> event \<Rightarrow> svc \<Rightarrow> svc" where
  "HandlePoolEvent order ev s =
     (case ev_type ev of
        EventDatabaseUnlocked \<Rightarrow> onDatabaseUnlocked (ev_uuid ev) s
      | EventDatabaseLocked \<Rightarrow> onDatabaseLocked (ev_uuid ev) s
      | EventDatabaseReloaded \<Rightarrow> onDatabaseReloaded order (ev_uuid ev) s
      | EventDatabaseError \<Rightarrow> s)"

section \<open>Sessions and prompts\<close>

text \<open>\<open>nextID\<close> is an unsigned 64-bit counter shared by sessions and prompts. Of a session only the
  introspection is exported, not its interface, so that no client can close it.\<close>

definition next_id :: "nat \<Rightarrow> nat" where
  "next_id n = (n + 1) mod 2 ^ 64"

definition dh_algorithms :: "string list" where
  "dh_algorithms = [''dh-ietf1024-sha256-aes128-cbc'', ''dh-ietf1024-sha256-aes128-cbc-pkcs7'']"

definition OpenSession ::
  "(bytes \<Rightarrow> bytes) \<Rightarrow> bytes \<Rightarrow> string \<Rightarrow> dbus_variant \<Rightarrow> svc \<Rightarrow> (dbus_error + dbus_variant \<times> string) \<times> svc" where
  "OpenSession sha privBytes algorithm input s =
     (let path = session_path (sv_next s);
          s1 = s\<lparr>sv_next := next_id (sv_next s)\<rparr>;
          register = (\<lambda>sess. s1\<lparr>sv_sessions := (sv_sessions s1)(path \<mapsto> sess)\<rparr>)
      in if algorithm = ''plain'' then (Ok (VString [], path), register (NewPlainSession path))
         else if algorithm \<in> set dh_algorithms then
           (case handleDHKeyExchange sha privBytes input path of
              None \<Rightarrow> (Err IsLocked, s1)
            | Some (output, sess) \<Rightarrow> (Ok (output, path), register sess))
         else (Err NotSupported, s1))"

definition nextPrompt :: "svc \<Rightarrow> string \<times> svc" where
  "nextPrompt s =
     (let path = prompt_path (sv_next s)
      in (path, export_object path (PromptObject (NewPrompt path)) (s\<lparr>sv_next := next_id (sv_next s)\<rparr>)))"

definition CreateCollection :: "svc \<Rightarrow> (string \<times> string) \<times> svc" where
  "CreateCollection s = (let (p, s1) = nextPrompt s in ((''/'', p), s1))"

definition validateSession :: "svc \<Rightarrow> string \<Rightarrow> bool" where
  "validateSession s path \<longleftrightarrow>
     (case sv_sessions s path of None \<Rightarrow> False | Some sess \<Rightarrow> \<not> s_closed sess)"

section \<open>Search and lookup\<close>

text \<open>The entries of a collection with the paths they are shown under.\<close>

definition search_collection :: "string list \<Rightarrow> attrs \<Rightarrow> svc \<Rightarrow> collection \<Rightarrow> string list" where
  "search_collection attr_order as s coll =
     (case odb_at s (co_db coll) of
        None \<Rightarrow> []
      | Some od \<Rightarrow>
          if is_open od then
            map (itemPathForEntry (od_name od))
              (filter (\<lambda>e. MatchAttributes attr_order e od as) (collectEntriesForDB s od))
          else [])"

text \<open>\<open>SearchItems\<close> of the service: the unlocked matches; the list of locked ones is always
  empty.\<close>

definition SearchItems :: "string list \<Rightarrow> string list \<Rightarrow> attrs \<Rightarrow> svc \<Rightarrow> string list \<times> string list" where
  "SearchItems order attr_order as s =
     (concat (map (search_collection attr_order as s) (map_values order (sv_collections s))), [])"

fun find_item_in :: "svc \<Rightarrow> string \<Rightarrow> collection list \<Rightarrow> item option" where
  "find_item_in s path [] = None"
| "find_item_in s path (coll # colls) =
     (case List.find (\<lambda>it. it_path it = path) (items_of s coll) of
        Some it \<Rightarrow> Some it
      | None \<Rightarrow> find_item_in s path colls)"

definition getItemByPath :: "string list \<Rightarrow> svc \<Rightarrow> string \<Rightarrow> item option" where
  "getItemByPath order s path = find_item_in s path (map_values order (sv_collections s))"

text \<open>\<open>order\<close> enumerates the aliases here.\<close>

fun alias_target :: "svc \<Rightarrow> string \<Rightarrow> string list \<Rightarrow> collection option" where
  "alias_target s path [] = None"
| "alias_target s path (a # as) =
     (case sv_aliases s a of
        None \<Rightarrow> alias_target s path as
      | Some target \<Rightarrow>
          if aliasPath a = path \<and> sv_collections s target \<noteq> None then sv_collections s target
          else alias_target s path as)"

definition getCollectionByPath :: "string list \<Rightarrow> svc \<Rightarrow> string \<Rightarrow> collection option" where
  "getCollectionByPath order s path =
     (case sv_collections s path of Some coll \<Rightarrow> Some coll | None \<Rightarrow> alias_target s path order)"

definition ReadAlias :: "svc \<Rightarrow> string \<Rightarrow> string" where
  "ReadAlias s a = (case sv_aliases s a of None \<Rightarrow> ''/'' | Some _ \<Rightarrow> aliasPath a)"

definition SetAlias :: "string \<Rightarrow> string \<Rightarrow> svc \<Rightarrow> dbus_error option \<times> svc" where
  "SetAlias a path s =
     (case sv_collections s path of
        None \<Rightarrow> (Some NoSuchObject, s)
      | Some coll \<Rightarrow> (None, exportAlias a coll (s\<lparr>sv_aliases := (sv_aliases s)(a \<mapsto> path)\<rparr>)))"

section \<open>Locking\<close>

definition Collection_Locked :: "svc \<Rightarrow> collection \<Rightarrow> bool" where
  "Collection_Locked s coll = (case odb_at s (co_db coll) of None \<Rightarrow> True | Some od \<Rightarrow> od_locked od)"

definition Unlock :: "string list \<Rightarrow> string list \<Rightarrow> string list \<Rightarrow> svc \<Rightarrow> (string list \<times> string) \<times> svc" where
  "Unlock order alias_order objects s =
     (let unlocked = filter (\<lambda>path. case getCollectionByPath alias_order s path of
              Some coll \<Rightarrow> \<not> Collection_Locked s coll
            | None \<Rightarrow> getItemByPath order s path \<noteq> None) objects;
          needsUnlock = (\<exists>path \<in> set objects. case getCollectionByPath alias_order s path of
              Some coll \<Rightarrow> Collection_Locked s coll
            | None \<Rightarrow> False)
      in if \<not> needsUnlock then ((unlocked, ''/''), s)
         else let (p, s1) = nextPrompt s in ((unlocked, p), s1))"

fun lock_objects :: "string list \<Rightarrow> string list \<Rightarrow> string list \<Rightarrow> svc \<Rightarrow> (string list \<times> svc) run" where
  "lock_objects alias_order [] locked s = Returned (locked, s)"
| "lock_objects alias_order (path # paths) locked s =
     (case getCollectionByPath alias_order s path of
        None \<Rightarrow> lock_objects alias_order paths locked s
      | Some coll \<Rightarrow>
          (case odb_at s (co_db coll) of
             None \<Rightarrow> Panicked
           | Some od \<Rightarrow>
               (case Pool.Lock (od_uuid od) (sv_pool s) of
                  Panicked \<Rightarrow> Panicked
                | Returned (err, p) \<Rightarrow>
                    lock_objects alias_order paths (if err = None then locked @ [path] else locked) (s\<lparr>sv_pool := p\<rparr>))))"

definition Service_Lock :: "string list \<Rightarrow> string list \<Rightarrow> svc \<Rightarrow> ((string list \<times> string) \<times> svc) run" where
  "Service_Lock alias_order objects s =
     (case lock_objects alias_order objects [] s of
        Panicked \<Rightarrow> Panicked
      | Returned (locked, s1) \<Rightarrow>
          if locked = [] then Returned ((locked, ''/''), s1)
          else let (p, s2) = nextPrompt s1 in Returned ((locked, p), s2))"

section \<open>Collections on the bus\<close>

definition Collection_Label :: "svc \<Rightarrow> collection \<Rightarrow> string" where
  "Collection_Label s coll = (case odb_at s (co_db coll) of None \<Rightarrow> [] | Some od \<Rightarrow> od_name od)"

definition root_time :: "(time_data \<Rightarrow> int option) \<Rightarrow> svc \<Rightarrow> collection \<Rightarrow> int" where
  "root_time f s coll =
     (case odb_at s (co_db coll) of
        None \<Rightarrow> 0
      | Some od \<Rightarrow>
          (case Option.bind (od_db od) root_groups of
             Some (Group d _ _ # _) \<Rightarrow> (case f (g_times d) of None \<Rightarrow> 0 | Some t \<Rightarrow> t)
           | _ \<Rightarrow> 0))"

definition Collection_Created :: "svc \<Rightarrow> collection \<Rightarrow> int" where
  "Collection_Created = root_time creation_time"

definition Collection_Modified :: "svc \<Rightarrow> collection \<Rightarrow> int" where
  "Collection_Modified = root_time last_modification_time"

definition Collection_Items :: "svc \<Rightarrow> collection \<Rightarrow> string list" where
  "Collection_Items s coll =
     (case odb_at s (co_db coll) of
        None \<Rightarrow> []
      | Some od \<Rightarrow> if is_open od then map it_path (itemsForCollection s (co_path coll)) else [])"

definition Collection_SearchItems :: "string list \<Rightarrow> attrs \<Rightarrow> svc \<Rightarrow> collection \<Rightarrow> string list" where
  "Collection_SearchItems attr_order as s coll = search_collection attr_order as s coll"

definition Collection_Delete :: "svc \<Rightarrow> collection \<Rightarrow> dbus_error + string" where
  "Collection_Delete s coll = Err IsLocked"

section \<open>Lemmas\<close>

lemma is_open_locked: "od_locked od \<Longrightarrow> \<not> is_open od"
  by (simp add: is_open_def)

lemma collectEntriesForDB_nodb: "od_db od = None \<Longrightarrow> collectEntriesForDB s od = []"
  by (simp add: collectEntriesForDB_def)

lemma in_items_of:
  "it \<in> set (items_of s coll) \<longleftrightarrow>
     (\<exists>od e. odb_at s (co_db coll) = Some od \<and> is_open od \<and> e \<in> set (collectEntriesForDB s od) \<and> it = newItem od coll e)"
  by (cases "odb_at s (co_db coll)") (auto simp: items_of_def)
lemma in_search_collection:
  "path \<in> set (search_collection ks as s coll) \<longleftrightarrow>
     (\<exists>od e. odb_at s (co_db coll) = Some od \<and> is_open od \<and> e \<in> set (collectEntriesForDB s od)
        \<and> MatchAttributes ks e od as \<and> path = itemPathForEntry (od_name od) e)"
  by (cases "odb_at s (co_db coll)") (auto simp: search_collection_def)

text \<open>The collections met along an enumeration are those of the map.\<close>

lemma colls_iff:
  "enumerates order m \<Longrightarrow> coll \<in> set (map_values order m) \<longleftrightarrow> (\<exists>p. m p = Some coll)"
  by (auto simp: map_values_ran ran_def)

lemma find_item_in_Some:
  "find_item_in s path colls = Some it \<Longrightarrow> it_path it = path \<and> (\<exists>coll \<in> set colls. it \<in> set (items_of s coll))"
  by (induction colls) (auto split: option.splits dest!: find_Some_in)

lemma find_item_in_None:
  "find_item_in s path colls = None \<longleftrightarrow> (\<forall>coll \<in> set colls. \<forall>it \<in> set (items_of s coll). it_path it \<noteq> path)"
  by (induction colls) (auto split: option.splits simp: find_None_iff_not dest!: find_Some_in)

lemma getItemByPath_Some:
  assumes "enumerates order (sv_collections s)" "getItemByPath order s path = Some it"
  shows "\<exists>p coll od e. sv_collections s p = Some coll \<and> odb_at s (co_db coll) = Some od \<and> is_open od
           \<and> e \<in> set (collectEntriesForDB s od) \<and> it = newItem od coll e \<and> itemPathForEntry (od_name od) e = path"
proof -
  from find_item_in_Some assms(2) obtain coll where
    coll: "it_path it = path" "coll \<in> set (map_values order (sv_collections s))" "it \<in> set (items_of s coll)"
    unfolding getItemByPath_def by blast
  from coll(2) obtain p where "sv_collections s p = Some coll" using colls_iff[OF assms(1)] by blast
  moreover from coll(3) obtain od e where "odb_at s (co_db coll) = Some od" "is_open od"
    "e \<in> set (collectEntriesForDB s od)" "it = newItem od coll e"
    unfolding in_items_of by blast
  moreover from this(4) coll(1) have "itemPathForEntry (od_name od) e = path" by (simp add: newItem_def)
  ultimately show ?thesis by blast
qed

lemma getItemByPath_present:
  assumes "enumerates order (sv_collections s)" "sv_collections s p = Some coll" "odb_at s (co_db coll) = Some od"
    and "is_open od" "e \<in> set (collectEntriesForDB s od)"
  shows "getItemByPath order s (itemPathForEntry (od_name od) e) \<noteq> None"
proof -
  have "coll \<in> set (map_values order (sv_collections s))" using colls_iff[OF assms(1)] assms(2) by blast
  moreover have "newItem od coll e \<in> set (items_of s coll)" using assms(3-5) by (auto simp: in_items_of)
  moreover have "it_path (newItem od coll e) = itemPathForEntry (od_name od) e" by (simp add: newItem_def)
  ultimately show ?thesis
    unfolding getItemByPath_def find_item_in_None by blast
qed

section \<open>Names on the bus\<close>

lemma path_char_underscore: "path_char CHR ''_''"
  by (simp add: path_char_def)

lemma sanitize_chars: "c \<in> set (sanitizeCollectionName name) \<Longrightarrow> path_char c"
  by (auto simp: sanitizeCollectionName_def Let_def path_char_underscore split: list.splits if_splits)

lemma sanitize_nonempty: "sanitizeCollectionName name \<noteq> []"
  by (simp add: sanitizeCollectionName_def Let_def split: list.split)

lemma sanitize_first: "\<not> is_digit (hd (sanitizeCollectionName name))"
proof -
  have "\<not> is_digit CHR ''_''" by (simp add: is_digit_def)
  then show ?thesis
    by (auto simp: sanitizeCollectionName_def Let_def split: list.splits if_splits)
qed

lemma dec_string_nonempty [simp]: "dec_string n \<noteq> []"
  by (subst dec_string.simps) simp

lemma last_dec_string: "last (dec_string n) = char_of (48 + n mod 10)"
  by (subst dec_string.simps) simp

lemma butlast_dec_string: "butlast (dec_string n) = (if n < 10 then [] else dec_string (n div 10))"
  by (subst dec_string.simps) simp

lemma dec_string_inj [simp]: "dec_string m = dec_string n \<longleftrightarrow> m = n"
proof
  show "dec_string m = dec_string n \<Longrightarrow> m = n"
  proof (induction m arbitrary: n rule: dec_string.induct)
    case (1 m)
    have "char_of (48 + m mod 10) = (char_of (48 + n mod 10) :: char)"
      using 1(2) last_dec_string by metis
    moreover have "48 + m mod 10 < 256" "48 + n mod 10 < 256"
      using mod_less_divisor[of 10 m] mod_less_divisor[of 10 n] by linarith+
    ultimately have mods: "m mod 10 = n mod 10" by (simp add: char_of_eq_small)
    have "butlast (dec_string m) = butlast (dec_string n)" using 1(2) by simp
    then have b: "(if m < 10 then [] else dec_string (m div 10)) = (if n < 10 then [] else dec_string (n div 10))"
      by (simp only: butlast_dec_string)
    then have "(m < 10) = (n < 10)" by (auto split: if_splits dest: arg_cong[of _ _ "\<lambda>x. x = []"])
    with b 1(1) have "m div 10 = n div 10" by (cases "m < 10") auto
    with mods show "m = n" by (metis div_mult_mod_eq)
  qed
qed simp

lemma session_path_inj [simp]: "session_path i = session_path j \<longleftrightarrow> i = j"
  by (simp add: session_path_def)

section \<open>Properties\<close>

text \<open>Collection names are valid: whatever a database is called, its name on the bus is a
  valid path element, that is, not empty, made of letters, digits and underscores, and it does
  not start with a digit.\<close>

theorem sanitized_names_valid:
  "sanitizeCollectionName name \<noteq> [] \<and> list_all path_char (sanitizeCollectionName name)
   \<and> \<not> is_digit (hd (sanitizeCollectionName name))"
  using sanitize_nonempty sanitize_first sanitize_chars by (auto simp: list_all_iff)

text \<open>An entry the service shows of a database, by its place in the tree: no group above it is
  recycled, and when an expose group is set one of them has its name or UUID.\<close>

definition shown_in :: "svc \<Rightarrow> open_database \<Rightarrow> entry \<Rightarrow> bool" where
  "shown_in s od e \<longleftrightarrow>
     (\<exists>db gs path. od_db od = Some db \<and> root_groups db = Some gs \<and> entry_at gs path e
        \<and> (\<forall>d \<in> set path. \<not> is_recycled d (recycle_bin_uuid_for_db db))
        \<and> (let x = trim_space (exposeGroupForDB s od) in x = [] \<or> (\<exists>d \<in> set path. exposes d x)))"

lemma shown_in_iff: "e \<in> set (collectEntriesForDB s od) \<longleftrightarrow> shown_in s od e"
proof (cases "od_db od")
  case (Some db)
  then show ?thesis
    by (cases "root_groups db") (simp_all add: shown_in_def collectEntriesForDB_def visible_iff Let_def)
qed (simp add: shown_in_def collectEntriesForDB_def)
lemma open_shown: "is_open od \<and> shown_in s od e \<longleftrightarrow> \<not> od_locked od \<and> shown_in s od e"
  by (auto simp: shown_in_def is_open_def root_groups_def split: option.splits)

text \<open>C20. Search is exact: in whatever order the collections and the attributes are enumerated,
  \<open>SearchItems\<close> returns the paths of exactly the entries of unlocked databases with a collection
  that lie below no recycled group, and within the expose group if there is one, and that answer
  every attribute: one of the texts its key stands for is the value up to case, or, for \<open>title\<close>,
  \<open>URL\<close> and \<open>Notes\<close>, contains it. It never lists a locked item.\<close>

theorem SearchItems_exact:
  assumes "enumerates order (sv_collections s)" and "enumerates attr_order as"
  shows "set (fst (SearchItems order attr_order as s)) =
           {itemPathForEntry (od_name od) e | p coll od e.
              sv_collections s p = Some coll \<and> odb_at s (co_db coll) = Some od \<and> \<not> od_locked od
              \<and> shown_in s od e \<and> (\<forall>k x. as k = Some x \<longrightarrow> attribute_answers e od k x)}
         \<and> snd (SearchItems order attr_order as s) = []"
proof -
  have "path \<in> set (fst (SearchItems order attr_order as s)) \<longleftrightarrow>
      (\<exists>p coll od e. path = itemPathForEntry (od_name od) e \<and> sv_collections s p = Some coll
         \<and> odb_at s (co_db coll) = Some od \<and> is_open od \<and> shown_in s od e
         \<and> (\<forall>k x. as k = Some x \<longrightarrow> attribute_answers e od k x))" for path
  proof -
    have "path \<in> set (fst (SearchItems order attr_order as s)) \<longleftrightarrow>
        (\<exists>coll \<in> set (map_values order (sv_collections s)). path \<in> set (search_collection attr_order as s coll))"
      by (simp add: SearchItems_def)
    then show ?thesis
      unfolding in_search_collection MatchAttributes_enum[OF assms(2)] Bex_def colls_iff[OF assms(1)]
        matchAttribute_answers shown_in_iff by blast
  qed
  moreover have "is_open od \<and> shown_in s od e \<and> Q \<longleftrightarrow> \<not> od_locked od \<and> shown_in s od e \<and> Q" for od e Q
    using open_shown by blast
  ultimately show ?thesis by (simp add: SearchItems_def set_eq_iff)
qed

text \<open>A service with a collection for an open database of three entries, one of them recycled.\<close>

definition search_od :: open_database where
  "search_od = sample_open\<lparr>od_name := ''d'', od_db := Some (with_groups sample_tree sample_database)\<rparr>"

definition search_svc :: svc where
  "search_svc =
     (NewSecretService ((NewDatabasePool (Some 4))\<lparr>pl_dbs := [''u'' \<mapsto> 0], pl_heap := [0 \<mapsto> search_od], pl_next := 1\<rparr>) None)
       \<lparr>sv_collections := [collection_path ''d'' \<mapsto> \<lparr>co_path = collection_path ''d'', co_db = 0\<rparr>]\<rparr>"

definition search_found :: entry where
  "search_found = sample_entry 11 [sample_value ''Title'' ''in'', sample_value ''Password'' ''pw'']"

lemma search_shown: "shown_in search_svc search_od e \<longleftrightarrow> e \<in> {sample_entry 10 [sample_value ''Title'' ''outside''], search_found}"
proof -
  have "od_db search_od = Some (with_groups sample_tree sample_database)"
    "root_groups (with_groups sample_tree sample_database) = Some sample_tree"
    "recycle_bin_uuid_for_db (with_groups sample_tree sample_database) = 0" "exposeGroupForDB search_svc search_od = []"
    by (simp_all add: search_od_def root_groups_def with_groups_def sample_database_def sample_root_def recycle_bin_uuid_for_db_def
        search_svc_def NewSecretService_def exposeGroupForDB_def)
  then have "collectEntriesForDB search_svc search_od = [sample_entry 10 [sample_value ''Title'' ''outside''], search_found]"
    by (simp add: collectEntriesForDB_def collectEntriesVisible_def sample_tree_def search_found_def is_recycled_def sample_group_def
        exposes_def trim_space_def Let_def)
  then show ?thesis by (simp flip: shown_in_iff)
qed

lemma SearchItems_exact_witness:
  "set (fst (SearchItems [collection_path ''d''] [''title''] [''title'' \<mapsto> ''IN''] search_svc)) = {itemPathForEntry ''d'' search_found}"
proof -
  have colls: "enumerates [collection_path ''d''] (sv_collections search_svc)" "enumerates [''title''] [''title'' \<mapsto> ''IN'']"
    by (simp_all add: enumerates_def search_svc_def)
  have at: "odb_at search_svc 0 = Some search_od" "sv_collections search_svc p = Some coll
      \<longleftrightarrow> p = collection_path ''d'' \<and> coll = \<lparr>co_path = collection_path ''d'', co_db = 0\<rparr>"
    "od_name search_od = ''d''" "\<not> od_locked search_od" for p coll
    by (auto simp: search_svc_def odb_at_def search_od_def sample_open_def NewSecretService_def)
  have answers: "attribute_answers search_found search_od ''title'' ''IN''"
    "\<not> attribute_answers (sample_entry 10 [sample_value ''Title'' ''outside'']) search_od ''title'' ''IN''"
    by (simp_all add: flip: matchAttribute_answers) code_simp+
  show ?thesis
    unfolding conjunct1[OF SearchItems_exact[OF colls]] using at answers search_shown by auto
qed

text \<open>Locking takes effect at once: as soon as the pool has locked a database, and before the
  service hears of it, collections that show the database list no items, a search finds
  nothing in them, and a path that only they could resolve names no item.\<close>

theorem locked_reveals_nothing:
  assumes "pool_ok (sv_pool s)" and "pl_dbs (sv_pool s) uuid = Some (co_db coll)"
  shows "\<exists>p. Pool.Lock uuid (sv_pool s) = Returned (None, p)
           \<and> items_of (s\<lparr>sv_pool := p\<rparr>) coll = []
           \<and> search_collection attr_order as (s\<lparr>sv_pool := p\<rparr>) coll = []
           \<and> Collection_Locked (s\<lparr>sv_pool := p\<rparr>) coll"
proof -
  obtain od where od: "pl_heap (sv_pool s) (co_db coll) = Some od"
    using pool_okD(1)[OF assms] by blast
  obtain p od' where
    p: "Pool.Lock uuid (sv_pool s) = Returned (None, p)" "pl_heap p (co_db coll) = Some od'" "od_locked od'"
    using assms(1)
  proof (cases rule: Lock_cases[where uuid = uuid])
    case missing
    then show ?thesis using assms(2) by simp
  next
    case (found r od2 p')
    then show ?thesis using that assms(2) by (auto simp: locked_object_def)
  qed
  then show ?thesis
    by (auto simp: items_of_def search_collection_def Collection_Locked_def odb_at_def is_open_locked)
qed

lemma locked_reveals_nothing_witness:
  "\<exists>p. Pool.Lock (uuid_text 1) sample_pool = Returned (None, p)
     \<and> items_of ((NewSecretService sample_pool None)\<lparr>sv_pool := p\<rparr>) \<lparr>co_path = collection_path ''d'', co_db = 0\<rparr> = []"
proof -
  let ?s = "NewSecretService sample_pool None"
  have "pool_ok (sv_pool ?s)" "pl_dbs (sv_pool ?s) (uuid_text 1) = Some (co_db \<lparr>co_path = collection_path ''d'', co_db = 0\<rparr>)"
    using sample_pool_facts by (simp_all add: NewSecretService_def)
  from locked_reveals_nothing[OF this] show ?thesis by (auto simp: NewSecretService_def)
qed

end
