(* ===== verification/Secret_Items.thy ===== *)
theory Secret_Items
  imports Secret_Service
begin

text \<open>
  Reading and writing items of the Secret Service: \<open>GetSecrets\<close> (\<open>service.go\<close>), the methods
  of items and the item-creating method of collections (\<open>item.go\<close>, \<open>collection.go\<close>), and the
  property handlers (\<open>introspect.go\<close>).

  An item caches a copy of its entry. The copy is a value here; in Go its values share
  memory with the tree, so that locking the database empties them too. Every method
  refreshes the copy first; what a method shows of an item that is gone is the empty text.
\<close>

section \<open>Environment\<close>

text \<open>What reading a secret depends on outside the service; polkit may answer differently
  from call to call, and the random source gives a new IV for each.\<close>

record env =
  en_proc :: process_table
  en_polkit :: "nat \<Rightarrow> polkit_subject \<Rightarrow> string \<Rightarrow> polkit_reply"
  en_iv :: "nat \<Rightarrow> bytes option"
  en_cipher :: cipher_lib
  en_now :: int
  en_cache_order :: "notify_cache \<Rightarrow> string list"

record write_env =
  we_save :: save_lib
  we_io :: io
  we_short :: nat
  we_backup :: uuid_source
  we_fresh :: uuid_source
  we_now :: int

record dbus_secret =
  ds_session :: string
  ds_parameters :: bytes
  ds_value :: bytes
  ds_content_type :: string

definition decryptSecret :: "cipher_lib \<Rightarrow> svc \<Rightarrow> dbus_secret \<Rightarrow> (session_error option + bytes) run" where
  "decryptSecret C s sec =
     (if \<not> validateSession s (ds_session sec) then Returned (Err None)
      else case sv_sessions s (ds_session sec) of
             None \<Rightarrow> Panicked
           | Some sess \<Rightarrow>
               (case Decrypt C sess (ds_parameters sec) (ds_value sec) of
                  Panicked \<Rightarrow> Panicked
                | Returned (Inl e) \<Rightarrow> Returned (Err (Some e))
                | Returned (Inr p) \<Rightarrow> Returned (Ok p)))"

section \<open>Items\<close>

definition empty_entry :: entry where
  "empty_entry = Entry \<lparr>e_uuid = 0, e_foreground_color = [], e_background_color = [], e_override_url = [],
     e_tags = [], e_times = \<lparr>creation_time = None, last_modification_time = None, last_access_time = None\<rparr>,
     e_values = [], e_binaries = [], e_custom_data = []\<rparr> []"

text \<open>\<open>refresh\<close>: the entry found, and the item with its new copy.\<close>

definition refresh :: "svc \<Rightarrow> item \<Rightarrow> entry option \<times> item" where
  "refresh s it =
     (case odb_at s (co_db (it_coll it)) of
        None \<Rightarrow> (None, it)
      | Some od \<Rightarrow>
          (case Option.bind (od_db od) root_groups of
             None \<Rightarrow> (None, it)
           | Some _ \<Rightarrow>
               (case List.find (\<lambda>e. entryUUIDString e = it_uuid it) (collectEntriesForDB s od) of
                  Some e \<Rightarrow> (Some e, it\<lparr>it_entry := e\<rparr>)
                | None \<Rightarrow> (None, it\<lparr>it_entry := empty_entry\<rparr>))))"

text \<open>The properties answer from the cached copy that \<open>refresh\<close> leaves: the entry found, nothing
  when the database is open and has no such entry, and the copy of before when the database is
  locked. That copy shares its values with the database it came from, so \<open>Lock\<close> blanks them
  too (\<open>wipe_entry\<close>), unless the database has meanwhile been replaced by another copy.\<close>

definition cached_entry :: "svc \<Rightarrow> item \<Rightarrow> entry" where
  "cached_entry s it = it_entry (snd (refresh s it))"

definition Item_Label :: "svc \<Rightarrow> item \<Rightarrow> string" where
  "Item_Label s it = get_title (cached_entry s it)"

definition Item_Attributes :: "svc \<Rightarrow> item \<Rightarrow> attrs" where
  "Item_Attributes s it =
     (case odb_at s (co_db (it_coll it)) of
        None \<Rightarrow> Map.empty
      | Some od \<Rightarrow> EntryAttributes od (cached_entry s it))"

definition entry_time :: "(time_data \<Rightarrow> int option) \<Rightarrow> svc \<Rightarrow> item \<Rightarrow> int" where
  "entry_time f s it = (case f (e_times (edata (cached_entry s it))) of None \<Rightarrow> 0 | Some t \<Rightarrow> t)"

definition Item_Created :: "svc \<Rightarrow> item \<Rightarrow> int" where
  "Item_Created = entry_time creation_time"

definition Item_Modified :: "svc \<Rightarrow> item \<Rightarrow> int" where
  "Item_Modified = entry_time last_modification_time"

text \<open>An item left on the bus when its database is locked answers from its copy, which is blank
  when it is the one that \<open>Lock\<close> wiped.\<close>

lemma get_title_wiped [simp]: "get_title (wipe_entry e) = []"
  by (cases e) (auto simp: get_title_def get_content_def get_value_def entry_values_def wipe_entry_data_def
      split: option.split dest!: find_Some_in)

lemma locked_item_label:
  assumes "odb_at s (co_db (it_coll it)) = Some od" "od_db od = None"
  shows "Item_Label s it = get_title (it_entry it)" "Item_Attributes s it = EntryAttributes od (it_entry it)"
    "Item_Label s (it\<lparr>it_entry := wipe_entry (it_entry it)\<rparr>) = []"
  using assms by (simp_all add: Item_Label_def Item_Attributes_def cached_entry_def refresh_def)

section \<open>Reading secrets\<close>

definition item_collection_name :: "svc \<Rightarrow> item \<Rightarrow> string" where
  "item_collection_name s it = Collection_Label s (it_coll it)"

definition authorize_item :: "env \<Rightarrow> nat \<Rightarrow> svc \<Rightarrow> caller_info \<Rightarrow> access_error option" where
  "authorize_item E i s caller = authorizeSecretAccess (en_proc E) (en_polkit E i) (sv_config s) caller"

definition logSecretAccess :: "string \<Rightarrow> caller_info \<Rightarrow> item \<Rightarrow> svc \<Rightarrow> svc" where
  "logSecretAccess via caller it s =
     s\<lparr>sv_log := sv_log s @ [\<lparr>ar_via = via, ar_caller = caller, ar_collection = item_collection_name s it,
                            ar_item = Item_Label s it\<rparr>]\<rparr>"

definition notify_access :: "env \<Rightarrow> caller_info \<Rightarrow> item \<Rightarrow> svc \<Rightarrow> svc" where
  "notify_access E caller it s =
     (let (note, cache) = notifySecretAccess (sv_config s) True (en_cache_order E (pruneLocked (en_now E) (sv_cache s)))
                            (en_now E) caller (Item_Label s it) (item_collection_name s it) (sv_cache s)
      in s\<lparr>sv_cache := cache, sv_notes := sv_notes s @ (case note of None \<Rightarrow> [] | Some n \<Rightarrow> [n])\<rparr>)"

definition note_access :: "env \<Rightarrow> string \<Rightarrow> caller_info \<Rightarrow> item \<Rightarrow> svc \<Rightarrow> svc" where
  "note_access E via caller it s = notify_access E caller it (logSecretAccess via caller it s)"

definition Item_GetSecret ::
  "env \<Rightarrow> string \<Rightarrow> string \<Rightarrow> item \<Rightarrow> svc \<Rightarrow> (dbus_error + dbus_secret) \<times> svc" where
  "Item_GetSecret E sender sessionPath it s =
     (case fst (refresh s it) of
        None \<Rightarrow> (Err NoSuchObject, s)
      | Some e \<Rightarrow>
          (let caller = callerInfo (en_proc E) True sender
           in case authorize_item E 0 s caller of
                Some _ \<Rightarrow> (Err AccessDenied, s)
              | None \<Rightarrow>
                  (case sv_sessions s sessionPath of
                     None \<Rightarrow> (Err NoSession, s)
                   | Some sess \<Rightarrow>
                       if s_closed sess then (Err NoSession, s)
                       else (case Encrypt (en_cipher E) (en_iv E 0) sess (bytes_of (get_password e)) of
                               Inl _ \<Rightarrow> (Err IsLocked, s)
                             | Inr (iv, c) \<Rightarrow>
                                 (Ok \<lparr>ds_session = sessionPath, ds_parameters = iv, ds_value = c,
                                      ds_content_type = ''text/plain''\<rparr>,
                                  note_access E ''Item.GetSecret'' caller it s)))))"

text \<open>The loop of \<open>GetSecrets\<close>: unknown items and failed encryptions are skipped, a denied
  item ends it with an error. The D-Bus reply then carries the error alone.\<close>

fun get_secrets_loop ::
  "env \<Rightarrow> string list \<Rightarrow> session \<Rightarrow> string \<Rightarrow> caller_info \<Rightarrow> nat \<Rightarrow> string list \<Rightarrow> (string \<rightharpoonup> dbus_secret) \<Rightarrow> svc
     \<Rightarrow> ((string \<rightharpoonup> dbus_secret) \<times> dbus_error option) \<times> svc" where
  "get_secrets_loop E order sess sessionPath caller i [] secrets s = ((secrets, None), s)"
| "get_secrets_loop E order sess sessionPath caller i (path # paths) secrets s =
     (case getItemByPath order s path of
        None \<Rightarrow> get_secrets_loop E order sess sessionPath caller (Suc i) paths secrets s
      | Some it \<Rightarrow>
          (case authorize_item E i s caller of
             Some _ \<Rightarrow> ((secrets, Some AccessDenied), s)
           | None \<Rightarrow>
               (case Encrypt (en_cipher E) (en_iv E i) sess (bytes_of (get_password (it_entry it))) of
                  Inl _ \<Rightarrow> get_secrets_loop E order sess sessionPath caller (Suc i) paths secrets s
                | Inr (iv, c) \<Rightarrow>
                    get_secrets_loop E order sess sessionPath caller (Suc i) paths
                      (secrets(path \<mapsto> \<lparr>ds_session = sessionPath, ds_parameters = iv, ds_value = c,
                                         ds_content_type = ''text/plain''\<rparr>))
                      (note_access E ''Service.GetSecrets'' caller it s))))"

definition GetSecrets ::
  "env \<Rightarrow> string list \<Rightarrow> string \<Rightarrow> string list \<Rightarrow> string \<Rightarrow> svc \<Rightarrow> ((string \<rightharpoonup> dbus_secret) \<times> dbus_error option) \<times> svc" where
  "GetSecrets E order sender items sessionPath s =
     (let caller = callerInfo (en_proc E) True sender
      in case sv_sessions s sessionPath of
           None \<Rightarrow> ((Map.empty, Some NoSession), s)
         | Some sess \<Rightarrow>
             if s_closed sess then ((Map.empty, Some NoSession), s)
             else get_secrets_loop E order sess sessionPath caller 0 items Map.empty s)"

section \<open>Writing\<close>

datatype write_error = ItemNotFound string | ExposedGroupNotFound string | NilRoot

text \<open>\<open>UpdateAndSave\<close> on the database behind a reference.\<close>

definition update_db ::
  "write_env \<Rightarrow> (database \<Rightarrow> write_error option \<times> database) \<Rightarrow> ref \<Rightarrow> svc \<Rightarrow> sys
     \<Rightarrow> write_error update_error option \<times> svc \<times> sys" where
  "update_db W mutate r s d =
     (case odb_at s r of
        None \<Rightarrow> (Some (SaveError DatabaseLocked), s, d)
      | Some od \<Rightarrow>
          (let (err, od', d') = UpdateAndSave (we_save W) (we_io W) (we_short W) (we_backup W) mutate od d
           in (err, s\<lparr>sv_pool := (sv_pool s)\<lparr>pl_heap := (pl_heap (sv_pool s))(r \<mapsto> od')\<rparr>\<rparr>, d')))"

text \<open>An edit of the first entry with a UUID; \<open>NilRoot\<close> stands for the panic on a database
  without a root.\<close>

definition edit_by_uuid :: "(database \<Rightarrow> entry \<Rightarrow> entry) \<Rightarrow> string \<Rightarrow> database \<Rightarrow> write_error option \<times> database" where
  "edit_by_uuid f uuid db =
     (case root_groups db of
        None \<Rightarrow> (Some NilRoot, db)
      | Some gs \<Rightarrow>
          (case findEntryPtrByUUID gs uuid of
             None \<Rightarrow> (Some (ItemNotFound uuid), db)
           | Some ptr \<Rightarrow>
               (case entry_ref gs ptr of
                  None \<Rightarrow> (Some (ItemNotFound uuid), db)
                | Some e \<Rightarrow> (None, with_groups (entry_store gs ptr (f db e)) db))))"

definition set_secret_entry :: "write_env \<Rightarrow> bytes \<Rightarrow> database \<Rightarrow> entry \<Rightarrow> entry" where
  "set_secret_entry W plaintext db e =
     updateModificationTime (we_now W)
       (setEntryValue ''Password'' (string_of plaintext) True (appendHistory (we_fresh W) 0 db e))"

definition remove_by_uuid :: "string \<Rightarrow> database \<Rightarrow> write_error option \<times> database" where
  "remove_by_uuid uuid db =
     (case root_groups db of
        None \<Rightarrow> (Some NilRoot, db)
      | Some gs \<Rightarrow>
          (let (removed, gs') = removeEntryByUUID gs uuid
           in if removed then (None, with_groups gs' db) else (Some (ItemNotFound uuid), db)))"

definition Item_SetSecret ::
  "cipher_lib \<Rightarrow> write_env \<Rightarrow> dbus_secret \<Rightarrow> item \<Rightarrow> svc \<Rightarrow> sys \<Rightarrow> (dbus_error option \<times> svc \<times> sys) run" where
  "Item_SetSecret C W sec it s d =
     (if \<not> validateSession s (ds_session sec) then Returned (Some NoSession, s, d)
      else case decryptSecret C s sec of
             Panicked \<Rightarrow> Panicked
           | Returned (Inl _) \<Rightarrow> Returned (Some NoSession, s, d)
           | Returned (Inr plaintext) \<Rightarrow>
               if fst (refresh s it) = None then Returned (Some NoSuchObject, s, d)
               else (case update_db W (edit_by_uuid (set_secret_entry W plaintext) (it_uuid it)) (co_db (it_coll it)) s d of
                       (Some (MutateError NilRoot), _) \<Rightarrow> Panicked
                     | (Some _, s1, d1) \<Rightarrow> Returned (Some IsLocked, s1, d1)
                     | (None, s1, d1) \<Rightarrow> Returned (None, s1, d1)))"

definition Item_Delete :: "write_env \<Rightarrow> item \<Rightarrow> svc \<Rightarrow> sys \<Rightarrow> ((dbus_error + string) \<times> svc \<times> sys) run" where
  "Item_Delete W it s d =
     (if fst (refresh s it) = None then Returned (Err NoSuchObject, s, d)
      else (case update_db W (remove_by_uuid (it_uuid it)) (co_db (it_coll it)) s d of
              (Some (MutateError NilRoot), _) \<Rightarrow> Panicked
            | (Some _, s1, d1) \<Rightarrow> Returned (Err IsLocked, s1, d1)
            | (None, s1, d1) \<Rightarrow>
                Returned (Ok ''/'',
                  emit_signal (ItemDeleted (co_path (it_coll it)) (it_path it))
                    (s1\<lparr>sv_exports := (sv_exports s1)(it_path it := None)\<rparr>), d1)))"

text \<open>What \<open>CreateItem\<close> does to the database: the entry written, whether it replaced an
  existing one, and the new database.\<close>

definition create_item_in ::
  "write_env \<Rightarrow> string list \<Rightarrow> bool \<Rightarrow> string \<Rightarrow> attrs \<Rightarrow> bytes \<Rightarrow> string \<Rightarrow> open_database \<Rightarrow> database
     \<Rightarrow> write_error + entry \<times> bool \<times> database" where
  "create_item_in W attr_order replace label as plaintext exposeGroup od db =
     (let rb = recycle_bin_uuid_for_db db;
          wants = replace \<and> attr_order \<noteq> [];
          fresh = newSecretServiceEntry (we_fresh W 0) (we_now W) attr_order label as plaintext;
          add_entry = (\<lambda>_ :: unit.
            if exposeGroup \<noteq> [] then
              (case root_groups db of
                 None \<Rightarrow> Err NilRoot
               | Some gs \<Rightarrow>
                   (case findGroupPtrByExposure gs rb exposeGroup of
                      None \<Rightarrow> Err (ExposedGroupNotFound exposeGroup)
                    | Some p \<Rightarrow> Ok (fresh, False, with_groups (append_entry gs p fresh) db)))
            else
              (let (db', p, _) = findOrCreateSecretServiceGroup (we_fresh W) 1 (we_now W) db
               in case root_groups db' of
                    None \<Rightarrow> Err NilRoot
                  | Some gs \<Rightarrow> Ok (fresh, False, with_groups (append_entry gs p fresh) db')))
      in if wants then
           (case root_groups db of
              None \<Rightarrow> Err NilRoot
            | Some gs \<Rightarrow>
                (case findMatchingVisibleEntryPtr attr_order gs (od_name od) (od_uuid od) as rb exposeGroup False of
                   None \<Rightarrow> add_entry ()
                 | Some ptr \<Rightarrow>
                     (case entry_ref gs ptr of
                        None \<Rightarrow> add_entry ()
                      | Some e \<Rightarrow>
                          (let e' = updateModificationTime (we_now W)
                                      (applyEntryFields (we_now W) attr_order label as (string_of plaintext)
                                        (appendHistory (we_fresh W) 0 db e))
                           in Ok (e', True, with_groups (entry_store gs ptr e') db)))))
         else add_entry ())"

definition create_item_mutation ::
  "write_env \<Rightarrow> string list \<Rightarrow> bool \<Rightarrow> string \<Rightarrow> attrs \<Rightarrow> bytes \<Rightarrow> string \<Rightarrow> open_database \<Rightarrow> database
     \<Rightarrow> write_error option \<times> database" where
  "create_item_mutation W attr_order replace label as plaintext exposeGroup od db =
     (case create_item_in W attr_order replace label as plaintext exposeGroup od db of
        Inl e \<Rightarrow> (Some e, db)
      | Inr (_, _, db') \<Rightarrow> (None, db'))"

definition CreateItem ::
  "cipher_lib \<Rightarrow> write_env \<Rightarrow> string list \<Rightarrow> properties \<Rightarrow> dbus_secret \<Rightarrow> bool \<Rightarrow> collection \<Rightarrow> svc \<Rightarrow> sys
     \<Rightarrow> ((dbus_error + string \<times> string) \<times> svc \<times> sys) run" where
  "CreateItem C W attr_order ps sec replace coll s d =
     (if \<not> validateSession s (ds_session sec) then Returned (Err NoSession, s, d)
      else case decryptSecret C s sec of
             Panicked \<Rightarrow> Panicked
           | Returned (Inl _) \<Rightarrow> Returned (Err NoSession, s, d)
           | Returned (Inr plaintext) \<Rightarrow>
               (case odb_at s (co_db coll) of
                  None \<Rightarrow> Panicked
                | Some od \<Rightarrow>
                    (let label = propertyString ps ''Label'';
                         as = propertyAttributes ps;
                         expose = exposeGroupForDB s od
                     in case update_db W (create_item_mutation W attr_order replace label as plaintext expose od)
                               (co_db coll) s d of
                          (Some (MutateError NilRoot), _) \<Rightarrow> Panicked
                        | (Some _, s1, d1) \<Rightarrow> Returned (Err IsLocked, s1, d1)
                        | (None, s1, d1) \<Rightarrow>
                            (case Option.bind (od_db od) (\<lambda>db. case create_item_in W attr_order replace label as plaintext expose od db of
                                    Inl _ \<Rightarrow> None | Inr (e, r, _) \<Rightarrow> Some (e, r)) of
                               None \<Rightarrow> Panicked
                             | Some (created, replaced) \<Rightarrow>
                                 (let it = newItem od coll created;
                                      path = itemPathForEntry (od_name od) created
                                  in Returned (Ok (path, ''/''),
                                       emit_signal (if replaced then ItemChanged (co_path coll) path else ItemCreated (co_path coll) path)
                                         (export_object (it_path it) (ItemObject it) s1), d1))))))"

section \<open>Property handlers\<close>

text \<open>Property values, as far as the handlers build them.\<close>

datatype prop_value = PText string | PBool bool | PTime int | PPaths "string list" | PAttrs attrs

definition InterfaceService :: string where
  "InterfaceService = ''org.freedesktop.Secret.Service''"

definition InterfaceCollection :: string where
  "InterfaceCollection = ''org.freedesktop.Secret.Collection''"

definition getServiceProp :: "string list \<Rightarrow> svc \<Rightarrow> string \<Rightarrow> prop_value" where
  "getServiceProp order s p =
     (if p = ''Collections'' then PPaths (filter (\<lambda>path. sv_collections s path \<noteq> None) order) else PText [])"

definition Properties_Get :: "string list \<Rightarrow> svc \<Rightarrow> string \<Rightarrow> string \<Rightarrow> prop_value" where
  "Properties_Get order s iface p = (if iface = InterfaceService then getServiceProp order s p else PText [])"

definition getAllServiceProps :: "string list \<Rightarrow> svc \<Rightarrow> (string \<rightharpoonup> prop_value)" where
  "getAllServiceProps order s = [''Collections'' \<mapsto> getServiceProp order s ''Collections'']"

definition Properties_GetAll :: "string list \<Rightarrow> svc \<Rightarrow> string \<Rightarrow> (string \<rightharpoonup> prop_value)" where
  "Properties_GetAll order s iface = (if iface = InterfaceService then getAllServiceProps order s else Map.empty)"

text \<open>Writing a property of the service or of a collection succeeds and does nothing.\<close>

definition Properties_Set :: "string \<Rightarrow> string \<Rightarrow> dbus_variant \<Rightarrow> svc \<Rightarrow> dbus_error option \<times> svc" where
  "Properties_Set iface p v s = (None, s)"

definition CollectionProperties_Set :: "string \<Rightarrow> string \<Rightarrow> dbus_variant \<Rightarrow> svc \<Rightarrow> dbus_error option \<times> svc" where
  "CollectionProperties_Set iface p v s = (None, s)"

definition collectionProps :: "svc \<Rightarrow> collection \<Rightarrow> (string \<rightharpoonup> prop_value)" where
  "collectionProps s coll =
     [''Items'' \<mapsto> PPaths (map it_path (itemsForCollection s (co_path coll))),
      ''Label'' \<mapsto> PText (Collection_Label s coll),
      ''Locked'' \<mapsto> PBool (Collection_Locked s coll),
      ''Created'' \<mapsto> PTime (Collection_Created s coll),
      ''Modified'' \<mapsto> PTime (Collection_Modified s coll)]"

definition itemProps :: "svc \<Rightarrow> item \<Rightarrow> (string \<rightharpoonup> prop_value)" where
  "itemProps s it =
     [''Locked'' \<mapsto> PBool False,
      ''Label'' \<mapsto> PText (Item_Label s it),
      ''Attributes'' \<mapsto> PAttrs (Item_Attributes s it),
      ''Created'' \<mapsto> PTime (Item_Created s it),
      ''Modified'' \<mapsto> PTime (Item_Modified s it)]"

definition props_get :: "(string \<rightharpoonup> prop_value) \<Rightarrow> string \<Rightarrow> string \<Rightarrow> string \<Rightarrow> prop_value" where
  "props_get props own iface p =
     (if iface \<noteq> own then PText [] else (case props p of None \<Rightarrow> PText [] | Some v \<Rightarrow> v))"

definition CollectionProperties_Get :: "svc \<Rightarrow> collection \<Rightarrow> string \<Rightarrow> string \<Rightarrow> prop_value" where
  "CollectionProperties_Get s coll iface p = props_get (collectionProps s coll) InterfaceCollection iface p"

definition CollectionProperties_GetAll :: "svc \<Rightarrow> collection \<Rightarrow> string \<Rightarrow> (string \<rightharpoonup> prop_value)" where
  "CollectionProperties_GetAll s coll iface = (if iface \<noteq> InterfaceCollection then Map.empty else collectionProps s coll)"

definition ItemProperties_Get :: "svc \<Rightarrow> item \<Rightarrow> string \<Rightarrow> string \<Rightarrow> prop_value" where
  "ItemProperties_Get s it iface p = props_get (itemProps s it) InterfaceItem iface p"

definition ItemProperties_GetAll :: "svc \<Rightarrow> item \<Rightarrow> string \<Rightarrow> (string \<rightharpoonup> prop_value)" where
  "ItemProperties_GetAll s it iface = (if iface \<noteq> InterfaceItem then Map.empty else itemProps s it)"

text \<open>The handler accepts writes although its introspection declares the properties
  read-only. It takes the UUID of the cached copy, archives no history and asks neither for a
  session nor for confirmation.\<close>

definition ItemProperties_Set ::
  "write_env \<Rightarrow> string list \<Rightarrow> string \<Rightarrow> string \<Rightarrow> dbus_variant \<Rightarrow> item \<Rightarrow> svc \<Rightarrow> sys
     \<Rightarrow> (dbus_error option \<times> svc \<times> sys) run" where
  "ItemProperties_Set W attr_order iface p v it s d =
     (let uuid = entryUUIDString (it_entry it);
          run = (\<lambda>f. case update_db W (edit_by_uuid f uuid) (co_db (it_coll it)) s d of
                   (Some (MutateError NilRoot), _) \<Rightarrow> Panicked
                 | (Some _, s1, d1) \<Rightarrow> Returned (Some IsLocked, s1, d1)
                 | (None, s1, d1) \<Rightarrow> Returned (None, s1, d1))
      in if iface \<noteq> InterfaceItem then Returned (None, s, d)
         else if p = ''Label'' then
           (case v of VString label \<Rightarrow> run (\<lambda>db. setEntryValue ''Title'' label False)
            | _ \<Rightarrow> Returned (Some InvalidArgs, s, d))
         else if p = ''Attributes'' then
           (case v of VStrings as \<Rightarrow> run (\<lambda>db. applyEntryAttributes (we_now W) attr_order as)
            | _ \<Rightarrow> Returned (Some InvalidArgs, s, d))
         else Returned (None, s, d))"

section \<open>The store of secrets a client sees\<close>

text \<open>The abstract store: what is shown under each key, and how writing and erasing change it.\<close>

locale secret_store =
  fixes shown :: "'s \<Rightarrow> 'k \<rightharpoonup> 'v" and writes :: "'k \<Rightarrow> 'v \<Rightarrow> 's \<Rightarrow> 's" and erases :: "'k \<Rightarrow> 's \<Rightarrow> 's"
    and good :: "'s \<Rightarrow> bool"
  assumes shown_write: "good s \<Longrightarrow> shown s k \<noteq> None \<Longrightarrow> shown (writes k v s) = (shown s)(k \<mapsto> v)"
    and good_write: "good s \<Longrightarrow> shown s k \<noteq> None \<Longrightarrow> good (writes k v s)"
    and shown_erase: "good s \<Longrightarrow> shown (erases k s) = (shown s)(k := None)"
    and good_erase: "good s \<Longrightarrow> good (erases k s)"
begin

lemma write_read: "good s \<Longrightarrow> shown s k \<noteq> None \<Longrightarrow> shown (writes k v s) k = Some v"
  by (simp add: shown_write)

lemma write_elsewhere: "good s \<Longrightarrow> shown s k \<noteq> None \<Longrightarrow> k' \<noteq> k \<Longrightarrow> shown (writes k v s) k' = shown s k'"
  by (simp add: shown_write)

lemma last_write_wins:
  assumes "good s" "shown s k \<noteq> None"
  shows "shown (writes k v (writes k w s)) = (shown s)(k \<mapsto> v)"
  using shown_write[OF good_write[OF assms, of w], of k v] shown_write[OF assms, of w] by simp

lemma erase_read: "good s \<Longrightarrow> shown (erases k s) k = None"
  by (simp add: shown_erase)

lemma write_erase:
  assumes "good s" "shown s k \<noteq> None"
  shows "shown (erases k (writes k v s)) = (shown s)(k := None)"
  using shown_erase[OF good_write[OF assms, of v], of k] shown_write[OF assms, of v] by simp

end

text \<open>The secrets of a tree under an expose group, by the UUID of the entry; the first visible
  entry with a UUID counts, as in \<open>refresh\<close>.\<close>

definition shown_secrets :: "uuid \<Rightarrow> string \<Rightarrow> grp list \<Rightarrow> string \<rightharpoonup> string" where
  "shown_secrets rb x gs u =
     map_option get_password (List.find (\<lambda>e. entryUUIDString e = u) (collectEntriesVisible gs rb x))"

definition edit_tree :: "(entry \<Rightarrow> entry) \<Rightarrow> string \<Rightarrow> grp list \<Rightarrow> grp list" where
  "edit_tree f u gs =
     (case Option.bind (findEntryPtrByUUID gs u) (\<lambda>ptr. map_option (Pair ptr) (entry_ref gs ptr)) of
        None \<Rightarrow> gs
      | Some (ptr, e) \<Rightarrow> entry_store gs ptr (f e))"

definition uuids_distinct :: "grp list \<Rightarrow> bool" where
  "uuids_distinct gs \<longleftrightarrow> distinct (map entry_uuid (all_entries gs))"

lemma map_entries_cong:
  "(\<And>e. e \<in> set (all_entries gs) \<Longrightarrow> f e = g e) \<Longrightarrow> map_entries f gs = map_entries g gs"
  by (induction f gs rule: map_entries.induct) auto

lemma edit_tree_map:
  assumes "uuids_distinct gs" "\<And>e. entry_uuid (f e) = entry_uuid e"
  shows "edit_tree f u gs = map_entries (\<lambda>e. if entryUUIDString e = u then f e else e) gs"
proof (cases "findEntryPtrByUUID gs u")
  case None
  then have "u \<notin> entryUUIDString ` set (all_entries gs)" by (simp add: find_uuid_None)
  then have "map_entries (\<lambda>e. if entryUUIDString e = u then f e else e) gs = gs"
    by (intro map_entries_idle) auto
  with None show ?thesis by (simp add: edit_tree_def)
next
  case (Some ptr)
  from find_uuid_Some[OF Some] obtain xs e ys where e: "entry_ref gs ptr = Some e" "entryUUIDString e = u"
    "all_entries gs = xs @ e # ys" by blast
  have "entry_store gs ptr (f e) = map_entries (replace_uuid u (f e)) gs"
    using entry_store_map[OF Some] assms(1) by (simp add: uuids_distinct_def)
  moreover have "replace_uuid u (f e) y = (if entryUUIDString y = u then f y else y)" if "y \<in> set (all_entries gs)" for y
  proof (cases "entryUUIDString y = u")
    case True
    then have "entry_uuid y = entry_uuid e" using e(2) entryUUIDString_inj by metis
    moreover have "e \<in> set (all_entries gs)" using e(3) by simp
    ultimately have "y = e"
      using that assms(1) unfolding uuids_distinct_def by (metis distinct_map inj_onD)
    then show ?thesis by (simp add: replace_uuid_def)
  qed (simp add: replace_uuid_def)
  then have "map_entries (replace_uuid u (f e)) gs = map_entries (\<lambda>e. if entryUUIDString e = u then f e else e) gs"
    by (intro map_entries_cong) auto
  ultimately show ?thesis using Some e(1) by (simp add: edit_tree_def)
qed

lemma find_map_key:
  assumes "\<And>e. key (f e) = key e"
  shows "List.find (\<lambda>e. key e = u) (map f xs) = map_option f (List.find (\<lambda>e. key e = u) xs)"
  using assms by (induction xs) auto

lemma find_filter_key:
  "List.find (\<lambda>e. key e = u') (filter (\<lambda>e. key e \<noteq> u) xs) = (if u' = u then None else List.find (\<lambda>e. key e = u') xs)"
  by (induction xs) auto

lemma set_secret_entry_simps [simp]:
  "entry_uuid (set_secret_entry W p db e) = entry_uuid e"
  "get_password (set_secret_entry W p db e) = string_of p"
  by (simp_all add: set_secret_entry_def get_password_def get_content_def)

lemma shown_edit:
  assumes "uuids_distinct gs" "\<And>e. entry_uuid (f e) = entry_uuid e"
  shows "shown_secrets rb x (edit_tree f u gs) u' =
           (if u' = u then map_option (get_password \<circ> f) (List.find (\<lambda>e. entryUUIDString e = u) (collectEntriesVisible gs rb x))
            else shown_secrets rb x gs u')"
proof -
  let ?g = "\<lambda>e. if entryUUIDString e = u then f e else e"
  have "entryUUIDString (?g e) = entryUUIDString e" for e using assms(2) by (simp add: entryUUIDString_def)
  note fm = find_map_key[of entryUUIDString ?g, OF this]
  have "shown_secrets rb x (edit_tree f u gs) u'
      = map_option (get_password \<circ> ?g) (List.find (\<lambda>e. entryUUIDString e = u') (collectEntriesVisible gs rb x))"
    unfolding shown_secrets_def edit_tree_map[OF assms] visible_map fm by (simp add: option.map_comp)
  then show ?thesis
    by (cases "List.find (\<lambda>e. entryUUIDString e = u') (collectEntriesVisible gs rb x)")
      (auto simp: shown_secrets_def dest: find_Some_in)
qed

lemma uuids_edit: "uuids_distinct gs \<Longrightarrow> (\<And>e. entry_uuid (f e) = entry_uuid e) \<Longrightarrow> uuids_distinct (edit_tree f u gs)"
  by (simp add: edit_tree_map) (simp add: uuids_distinct_def all_entries_map comp_def if_distrib cong: if_cong)

lemma remove_shown:
  "uuids_distinct gs \<Longrightarrow> shown_secrets rb x (snd (removeEntryByUUID gs u)) = (shown_secrets rb x gs)(u := None)"
  by (simp add: uuids_distinct_def remove_uuid_filter shown_secrets_def visible_filter find_filter_key fun_eq_iff)

lemma uuids_remove: "uuids_distinct gs \<Longrightarrow> uuids_distinct (snd (removeEntryByUUID gs u))"
  by (simp add: uuids_distinct_def remove_uuid_filter all_entries_filter distinct_map_filter)

interpretation tree_store: secret_store "shown_secrets rb x"
    "\<lambda>u p. edit_tree (set_secret_entry W (bytes_of p) db) u" "\<lambda>u gs. snd (removeEntryByUUID gs u)" uuids_distinct
  for rb x W db
proof unfold_locales
  fix gs u p assume gs: "uuids_distinct gs" "shown_secrets rb x gs u \<noteq> None"
  then obtain e where "List.find (\<lambda>e. entryUUIDString e = u) (collectEntriesVisible gs rb x) = Some e"
    by (auto simp: shown_secrets_def)
  then show "shown_secrets rb x (edit_tree (set_secret_entry W (bytes_of p) db) u gs) = (shown_secrets rb x gs)(u \<mapsto> p)"
    by (intro ext) (simp add: shown_edit[OF gs(1)])
qed (auto simp: uuids_edit uuids_remove remove_shown)

section \<open>The service refines the store\<close>

definition shown_by :: "svc \<Rightarrow> ref \<Rightarrow> string \<rightharpoonup> string" where
  "shown_by s r u =
     (case odb_at s r of
        None \<Rightarrow> None
      | Some od \<Rightarrow>
          (case od_db od of
             None \<Rightarrow> None
           | Some db \<Rightarrow>
               (case root_groups db of
                  None \<Rightarrow> None
                | Some gs \<Rightarrow> shown_secrets (recycle_bin_uuid_for_db db) (exposeGroupForDB s od) gs u)))"

text \<open>What the code relies on of the library: unprotecting the values of a database undoes
  protecting them.\<close>

definition save_faithful :: "save_lib \<Rightarrow> bool" where
  "save_faithful L \<longleftrightarrow>
     (\<forall>db db1 db2. sl_lock_entries L db = (True, db1) \<longrightarrow> sl_unlock_entries L db1 = (True, db2) \<longrightarrow> db2 = db)"

lemma shown_by_cong:
  assumes "sv_pool s' = sv_pool s" "sv_dbconfigs s' = sv_dbconfigs s"
  shows "shown_by s' = shown_by s"
proof -
  have "exposeGroupForDB s' = exposeGroupForDB s" "odb_at s' = odb_at s"
    using assms by (simp_all add: exposeGroupForDB_def odb_at_def fun_eq_iff)
  then show ?thesis by (intro ext) (simp only: shown_by_def)
qed

lemma refresh_shown: "map_option get_password (fst (refresh s it)) = shown_by s (co_db (it_coll it)) (it_uuid it)"
  by (simp add: refresh_def shown_by_def collectEntriesForDB_def shown_secrets_def split: option.split)

text \<open>A successful update leaves the mutated database in memory.\<close>

lemma saveLocked_success:
  assumes "saveLocked L io short db od s = (None, od', s')" "save_faithful L"
  shows "od_db od' = Some db \<and> od_name od' = od_name od \<and> od_path od' = od_path od"
  using assms
  by (auto simp: saveLocked_def save_faithful_def split: prod.splits sum.splits bool.splits)

lemma update_success:
  assumes "UpdateAndSave L io short rnd mutate od s = (None, od', s')" "save_faithful L"
  shows "\<exists>db db'. od_db od = Some db \<and> mutate db = (None, db') \<and> od_db od' = Some db'
           \<and> od_name od' = od_name od \<and> od_path od' = od_path od"
proof -
  from assms(1) obtain db where db: "od_db od = Some db" by (auto simp: UpdateAndSave_def split: option.splits)
  from assms(1) db show ?thesis
  proof (cases rule: UpdateAndSave_cases)
    case (saving e od1 s1)
    then have "e = None" "od' = od1" by auto
    then have "saveLocked L io short (snd (mutate db)) od s1 = (None, od', s')" using saving(3) by simp
    from saveLocked_success[OF this assms(2)] db saving(2) show ?thesis by (metis prod.collapse)
  qed simp_all
qed

lemma update_db_success:
  assumes "update_db W mutate r s d = (None, s', d')" "save_faithful (we_save W)"
  obtains od db db' od' where "odb_at s r = Some od" "od_db od = Some db" "mutate db = (None, db')"
    "s' = s\<lparr>sv_pool := (sv_pool s)\<lparr>pl_heap := (pl_heap (sv_pool s))(r \<mapsto> od')\<rparr>\<rparr>"
    "od_db od' = Some db'" "od_name od' = od_name od" "od_path od' = od_path od"
proof -
  from assms(1) obtain od where od: "odb_at s r = Some od" by (auto simp: update_db_def split: option.splits)
  obtain err od' d2 where run: "UpdateAndSave (we_save W) (we_io W) (we_short W) (we_backup W) mutate od d = (err, od', d2)"
    by (metis prod_cases3)
  have s': "err = None" "s' = s\<lparr>sv_pool := (sv_pool s)\<lparr>pl_heap := (pl_heap (sv_pool s))(r \<mapsto> od')\<rparr>\<rparr>"
    using assms(1) od run by (auto simp: update_db_def)
  from update_success[OF run[unfolded s'(1)] assms(2)] that od s'(2) show thesis by blast
qed

lemma expose_same: "od_name od' = od_name od \<Longrightarrow> od_path od' = od_path od \<Longrightarrow> expose_group_in cfgs od' = expose_group_in cfgs od"
  by (induction cfgs) auto

lemma root_groups_with [simp]: "root_groups db = Some gs \<Longrightarrow> root_groups (with_groups gs' db) = Some gs'"
  by (auto simp: root_groups_def with_groups_def split: option.splits)

lemma recycle_with [simp]: "recycle_bin_uuid_for_db (with_groups gs db) = recycle_bin_uuid_for_db db"
  by (simp add: recycle_bin_uuid_for_db_def with_groups_def split: option.split)

text \<open>What is shown after the tree of one database changed to \<open>gs'\<close>.\<close>

lemma shown_after:
  assumes "odb_at s r = Some od" "od_db od = Some db" "root_groups db = Some gs"
    and "s' = s\<lparr>sv_pool := (sv_pool s)\<lparr>pl_heap := (pl_heap (sv_pool s))(r \<mapsto> od')\<rparr>\<rparr>"
    and "od_db od' = Some (with_groups gs' db)" "od_name od' = od_name od" "od_path od' = od_path od"
  shows "shown_by s' r = shown_secrets (recycle_bin_uuid_for_db db) (exposeGroupForDB s od) gs'"
    and "r' \<noteq> r \<Longrightarrow> shown_by s' r' = shown_by s r'"
  using assms expose_same[OF assms(6,7)]
  by (auto simp: shown_by_def odb_at_def exposeGroupForDB_def fun_eq_iff split: option.splits)

lemma edit_by_uuid_tree:
  assumes "edit_by_uuid f u db = (None, db')"
  obtains gs where "root_groups db = Some gs" "db' = with_groups (edit_tree (f db) u gs) db"
proof -
  from assms obtain gs ptr e where "root_groups db = Some gs" "findEntryPtrByUUID gs u = Some ptr" "entry_ref gs ptr = Some e"
    "db' = with_groups (entry_store gs ptr (f db e)) db"
    by (auto simp: edit_by_uuid_def split: option.splits)
  with that show thesis by (simp add: edit_tree_def)
qed

text \<open>Every database the service can write to has unique entry UUIDs.\<close>

definition unique_entries :: "svc \<Rightarrow> ref \<Rightarrow> bool" where
  "unique_entries s r \<longleftrightarrow>
     (case odb_at s r of None \<Rightarrow> True
      | Some od \<Rightarrow> (case Option.bind (od_db od) root_groups of None \<Rightarrow> True | Some gs \<Rightarrow> uuids_distinct gs))"

lemma SetSecret_shown:
  assumes "Item_SetSecret C W sec it s d = Returned (None, s', d')" "save_faithful (we_save W)"
    and "unique_entries s (co_db (it_coll it))"
  obtains p where "decryptSecret C s sec = Returned (Ok p)"
    "shown_by s' (co_db (it_coll it)) = (shown_by s (co_db (it_coll it)))(it_uuid it \<mapsto> string_of p)"
    "\<And>r'. r' \<noteq> co_db (it_coll it) \<Longrightarrow> shown_by s' r' = shown_by s r'"
    "sv_sessions s' = sv_sessions s" "sv_config s' = sv_config s" "unique_entries s' (co_db (it_coll it))"
proof -
  let ?r = "co_db (it_coll it)" and ?u = "it_uuid it"
  from assms(1) obtain p where p: "decryptSecret C s sec = Returned (Ok p)" "fst (refresh s it) \<noteq> None"
    "update_db W (edit_by_uuid (set_secret_entry W p) ?u) ?r s d = (None, s', d')"
    by (auto simp: Item_SetSecret_def split: if_splits run.splits sum.splits option.splits prod.splits
        update_error.splits write_error.splits)
  from update_db_success[OF p(3) assms(2)] obtain od db db' od' where u:
    "odb_at s ?r = Some od" "od_db od = Some db" "edit_by_uuid (set_secret_entry W p) ?u db = (None, db')"
    "s' = s\<lparr>sv_pool := (sv_pool s)\<lparr>pl_heap := (pl_heap (sv_pool s))(?r \<mapsto> od')\<rparr>\<rparr>"
    "od_db od' = Some db'" "od_name od' = od_name od" "od_path od' = od_path od" by blast
  from edit_by_uuid_tree[OF u(3)] obtain gs where gs: "root_groups db = Some gs"
    "db' = with_groups (edit_tree (set_secret_entry W p db) ?u gs) db" by blast
  have dist: "uuids_distinct gs" using assms(3) u gs by (simp add: unique_entries_def)
  let ?shown = "shown_secrets (recycle_bin_uuid_for_db db) (exposeGroupForDB s od)"
  note after = shown_after[OF u(1,2) gs(1) u(4) u(5)[unfolded gs(2)] u(6,7)]
  have before: "shown_by s ?r = ?shown gs" using u gs by (simp add: shown_by_def fun_eq_iff)
  have "shown_by s ?r ?u \<noteq> None" using p(2) refresh_shown[of s it] by (metis option.map_disc_iff)
  then have "?shown gs ?u \<noteq> None" using before by simp
  from tree_store.shown_write[OF dist this, of W "string_of p" db] have
    "?shown (edit_tree (set_secret_entry W p db) ?u gs) = (?shown gs)(?u \<mapsto> string_of p)" by simp
  then have shown: "shown_by s' ?r = (shown_by s ?r)(?u \<mapsto> string_of p)" using after(1) before by simp
  have uniq: "unique_entries s' ?r"
    using u gs uuids_edit[OF dist, of "set_secret_entry W p db" ?u]
    by (simp add: unique_entries_def odb_at_def)
  show thesis by (rule that[OF p(1) shown after(2) _ _ uniq]) (simp_all add: u(4))
qed

lemma Delete_shown:
  assumes "Item_Delete W it s d = Returned (Ok q, s', d')" "save_faithful (we_save W)"
    and "unique_entries s (co_db (it_coll it))"
  shows "shown_by s' (co_db (it_coll it)) = (shown_by s (co_db (it_coll it)))(it_uuid it := None)"
    and "r' \<noteq> co_db (it_coll it) \<Longrightarrow> shown_by s' r' = shown_by s r'"
proof -
  let ?r = "co_db (it_coll it)" and ?u = "it_uuid it"
  from assms(1) obtain s1 where p: "update_db W (remove_by_uuid ?u) ?r s d = (None, s1, d')"
    "s' = emit_signal (ItemDeleted (co_path (it_coll it)) (it_path it)) (s1\<lparr>sv_exports := (sv_exports s1)(it_path it := None)\<rparr>)"
    by (auto simp: Item_Delete_def split: if_splits option.splits prod.splits update_error.splits write_error.splits)
  from update_db_success[OF p(1) assms(2)] obtain od db db' od' where u:
    "odb_at s ?r = Some od" "od_db od = Some db" "remove_by_uuid ?u db = (None, db')"
    "s1 = s\<lparr>sv_pool := (sv_pool s)\<lparr>pl_heap := (pl_heap (sv_pool s))(?r \<mapsto> od')\<rparr>\<rparr>"
    "od_db od' = Some db'" "od_name od' = od_name od" "od_path od' = od_path od" by blast
  from u(3) obtain gs where gs: "root_groups db = Some gs" "db' = with_groups (snd (removeEntryByUUID gs ?u)) db"
    by (auto simp: remove_by_uuid_def split: option.splits prod.splits if_splits)
  have dist: "uuids_distinct gs" using assms(3) u gs by (simp add: unique_entries_def)
  have same: "shown_by s' = shown_by s1"
    by (rule shown_by_cong) (simp_all add: p(2) emit_signal_def)
  note after = shown_after[OF u(1,2) gs(1) u(4) u(5)[unfolded gs(2)] u(6,7)]
  show "shown_by s' ?r = (shown_by s ?r)(?u := None)"
    using after(1) tree_store.shown_erase[OF dist] u gs(1) same by (simp add: shown_by_def fun_eq_iff)
  show "r' \<noteq> ?r \<Longrightarrow> shown_by s' r' = shown_by s r'" using after(2) same by simp
qed

lemma GetSecret_shown:
  assumes "Item_GetSecret E sender path it s = (Ok sec, s')" "sound_cipher (en_cipher E)"
    and "\<And>i iv. en_iv E i = Some iv \<Longrightarrow> length iv = 16"
  shows "authorize_item E 0 s (callerInfo (en_proc E) True sender) = None
         \<and> ds_session sec = path
         \<and> (\<exists>sess pw. sv_sessions s path = Some sess \<and> \<not> s_closed sess
              \<and> shown_by s (co_db (it_coll it)) (it_uuid it) = Some pw
              \<and> Decrypt (en_cipher E) sess (ds_parameters sec) (ds_value sec) = Returned (Ok (bytes_of pw)))"
proof -
  from assms(1) obtain e sess iv c where e: "fst (refresh s it) = Some e"
    "authorize_item E 0 s (callerInfo (en_proc E) True sender) = None" "sv_sessions s path = Some sess" "\<not> s_closed sess"
    "Encrypt (en_cipher E) (en_iv E 0) sess (bytes_of (get_password e)) = Ok (iv, c)"
    "sec = \<lparr>ds_session = path, ds_parameters = iv, ds_value = c, ds_content_type = ''text/plain''\<rparr>"
    by (auto simp: Item_GetSecret_def Let_def split: option.splits if_splits sum.splits)
  have "shown_by s (co_db (it_coll it)) (it_uuid it) = Some (get_password e)"
    using refresh_shown[of s it] e(1) by simp
  moreover have "Decrypt (en_cipher E) sess iv c = Returned (Ok (bytes_of (get_password e)))"
    by (rule Decrypt_Encrypt[OF assms(2) _ e(5)]) (rule assms(3))
  ultimately show ?thesis using e by simp
qed

end
