(* ===== verification/Wire.thy ===== *)
theory Wire
  imports Prelude
begin

text \<open>
  The SSH agent wire format of \<open>internal/sshagent/protocol.go\<close>, and the reader of
  OpenSSH private-key files in \<open>internal/sshagent/key.go\<close>: length-prefixed messages,
  strings and integers, encoders and decoders with every early return. A decoder that
  returns \<open>nil\<close> is \<open>None\<close>. The locale \<open>wire_codec\<close> states the contract that an
  encoder and its decoder keep; it is interpreted on each pair of the code and on the
  (blob, comment) records of an identities answer.
\<close>

section \<open>Message numbers\<close>

definition SSHAgentFailure :: byte where "SSHAgentFailure = 5"
definition SSHAgentSuccess :: byte where "SSHAgentSuccess = 6"
definition SSHAgentCRemoveAllRsaIdentities :: byte where "SSHAgentCRemoveAllRsaIdentities = 9"
definition SSHAgentCRequestIdentities :: byte where "SSHAgentCRequestIdentities = 11"
definition SSHAgentIdentitiesAnswer :: byte where "SSHAgentIdentitiesAnswer = 12"
definition SSHAgentCSignRequest :: byte where "SSHAgentCSignRequest = 13"
definition SSHAgentSignResponse :: byte where "SSHAgentSignResponse = 14"
definition SSHAgentCAddIdentity :: byte where "SSHAgentCAddIdentity = 17"
definition SSHAgentCRemoveIdentity :: byte where "SSHAgentCRemoveIdentity = 18"
definition SSHAgentCRemoveAllIdentities :: byte where "SSHAgentCRemoveAllIdentities = 19"
definition SSHAgentCAddIdConstrained :: byte where "SSHAgentCAddIdConstrained = 25"
definition SSHAgentCExtension :: byte where "SSHAgentCExtension = 27"

lemmas message_numbers =
  SSHAgentFailure_def SSHAgentSuccess_def SSHAgentCRemoveAllRsaIdentities_def
  SSHAgentCRequestIdentities_def SSHAgentIdentitiesAnswer_def SSHAgentCSignRequest_def
  SSHAgentSignResponse_def SSHAgentCAddIdentity_def SSHAgentCRemoveIdentity_def
  SSHAgentCRemoveAllIdentities_def SSHAgentCAddIdConstrained_def SSHAgentCExtension_def

definition max_message_len :: u32 where
  "max_message_len = 8 * 1024 * 1024"

section \<open>Encoders and decoders\<close>

text \<open>\<open>binary.BigEndian.PutUint32\<close> and \<open>binary.BigEndian.Uint32\<close>.\<close>

definition put_uint32 :: "u32 \<Rightarrow> bytes" where
  "put_uint32 v = [ucast (drop_bit 24 v), ucast (drop_bit 16 v), ucast (drop_bit 8 v), ucast v]"

fun get_uint32 :: "bytes \<Rightarrow> u32" where
  "get_uint32 (a # b # c # d # _) =
     ucast d OR push_bit 8 (ucast c) OR push_bit 16 (ucast b) OR push_bit 24 (ucast a)"
| "get_uint32 _ = 0"

definition encode_uint32 :: "bytes \<Rightarrow> u32 \<Rightarrow> bytes" where
  "encode_uint32 buf v = buf @ put_uint32 v"

definition encode_string :: "bytes \<Rightarrow> bytes \<Rightarrow> bytes" where
  "encode_string buf d = encode_uint32 buf (word_of_nat (length d)) @ d"

text \<open>The loop of \<open>encodeIdentitiesAnswer\<close>: a blob without a comment gets the empty one.\<close>

fun encode_identities :: "bytes \<Rightarrow> bytes list \<Rightarrow> string list \<Rightarrow> bytes" where
  "encode_identities buf [] comments = buf"
| "encode_identities buf (blob # blobs) comments =
     (let comment = (case comments of [] \<Rightarrow> [] | c # _ \<Rightarrow> c)
      in encode_identities (encode_string (encode_string buf blob) (bytes_of comment)) blobs
           (drop 1 comments))"

definition encode_identities_answer :: "bytes list \<Rightarrow> string list \<Rightarrow> bytes" where
  "encode_identities_answer blobs comments =
     encode_identities (encode_uint32 [SSHAgentIdentitiesAnswer] (word_of_nat (length blobs)))
       blobs comments"

definition decode_message_type :: "bytes \<Rightarrow> byte \<times> bytes" where
  "decode_message_type msg = (case msg of [] \<Rightarrow> (0, []) | b # rest \<Rightarrow> (b, rest))"

definition decode_string :: "bytes \<Rightarrow> (bytes \<times> bytes) option" where
  "decode_string d =
     (if length d < 4 then None
      else let len = get_uint32 (take 4 d); d' = drop 4 d
           in if (word_of_nat (length d') :: u32) < len then None
              else Some (take (unat len) d', drop (unat len) d'))"

definition decode_uint32 :: "bytes \<Rightarrow> (u32 \<times> bytes) option" where
  "decode_uint32 d = (if length d < 4 then None else Some (get_uint32 (take 4 d), drop 4 d))"

definition decode_uint8 :: "bytes \<Rightarrow> (byte \<times> bytes) option" where
  "decode_uint8 d = (case d of [] \<Rightarrow> None | b # rest \<Rightarrow> Some (b, rest))"

section \<open>Framing\<close>

datatype wire_error = ReadError | TooLarge u32 | ZeroLength

text \<open>
  The reader is the bytes still to come before the peer stops sending;
  \<open>io.ReadFull\<close> fails when too few are left.
\<close>

definition read_full :: "nat \<Rightarrow> bytes \<Rightarrow> wire_error + (bytes \<times> bytes)" where
  "read_full n r = (if length r < n then Err ReadError else Ok (take n r, drop n r))"

definition read_message :: "bytes \<Rightarrow> wire_error + (bytes \<times> bytes)" where
  "read_message r =
     (case read_full 4 r of
        Inl e \<Rightarrow> Err e
      | Inr (hdr, r1) \<Rightarrow>
          (let len = get_uint32 hdr in
           if max_message_len < len then Err (TooLarge len)
           else if len = 0 then Err ZeroLength
           else read_full (unat len) r1))"

definition write_message :: "bytes \<Rightarrow> bytes" where
  "write_message msg = put_uint32 (word_of_nat (length msg)) @ msg"

definition write_success :: bytes where
  "write_success = write_message [SSHAgentSuccess]"

definition write_failure :: bytes where
  "write_failure = write_message [SSHAgentFailure]"

section \<open>Facts about the encoders\<close>

lemma length_put_uint32 [simp]: "length (put_uint32 v) = 4"
  by (simp add: put_uint32_def)

lemma get_put_uint32 [simp]: "get_uint32 (put_uint32 v @ rest) = v"
proof (rule bit_word_eqI)
  fix n assume "n < LENGTH(32)"
  then have "n < 8 \<or> 8 \<le> n \<and> n < 16 \<or> 16 \<le> n \<and> n < 24 \<or> 24 \<le> n \<and> n < 32" by auto
  then show "bit (get_uint32 (put_uint32 v @ rest)) n = bit v n"
    by (elim disjE)
      (auto simp add: put_uint32_def bit_or_iff bit_ucast_iff bit_push_bit_iff bit_drop_bit_eq)
qed

lemma get_put_uint32_alone [simp]: "get_uint32 (put_uint32 v) = v"
  using get_put_uint32[of v "[]"] by simp

lemma encode_uint32_append: "encode_uint32 buf v = buf @ encode_uint32 [] v"
  by (simp add: encode_uint32_def)

lemma encode_string_append: "encode_string buf d = buf @ encode_string [] d"
  by (simp add: encode_string_def encode_uint32_def)

lemma length_encode_string [simp]: "length (encode_string [] d) = 4 + length d"
  by (simp add: encode_string_def encode_uint32_def)

lemma unat_u32_of_nat: "n < 2 ^ 32 \<Longrightarrow> unat (word_of_nat n :: u32) = n"
  by (simp add: unat_of_nat take_bit_nat_eq_self)

lemma decode_encode_string:
  assumes "length d + length rest < 2 ^ 32"
  shows "decode_string (encode_string [] d @ rest) = Some (d, rest)"
proof -
  have n: "unat (word_of_nat (length d) :: u32) = length d"
    using assms by (intro unat_u32_of_nat) simp
  have "unat (word_of_nat (length (d @ rest)) :: u32) = length (d @ rest)"
    using assms by (intro unat_u32_of_nat) simp
  then have "\<not> (word_of_nat (length (d @ rest)) :: u32) < word_of_nat (length d)"
    by (simp only: word_less_nat_alt n length_append)
  then show ?thesis
    using n by (simp add: decode_string_def encode_string_def encode_uint32_def Let_def)
qed

text \<open>What a successful decode says of its input: the length prefix is in range and the
  two parts are the rest of the input.\<close>

lemma decode_string_SomeD:
  assumes "decode_string d = Some (s, rest)"
  shows "d = take 4 d @ s @ rest \<and> length s = unat (get_uint32 (take 4 d)) \<and> 4 \<le> length d"
proof -
  let ?n = "get_uint32 (take 4 d)" and ?d = "drop 4 d"
  from assms have d: "4 \<le> length d" "\<not> (word_of_nat (length ?d) :: u32) < ?n"
    and s: "s = take (unat ?n) ?d" "rest = drop (unat ?n) ?d"
    by (auto simp: decode_string_def Let_def split: if_splits)
  from d(2) have "unat ?n \<le> unat (word_of_nat (length ?d) :: u32)"
    by (simp add: word_less_nat_alt)
  also have "\<dots> \<le> length ?d"
    by (simp only: unat_of_nat mod_less_eq_dividend)
  finally have "length s = unat ?n" using s(1) by simp
  moreover have "s @ rest = ?d" by (simp only: s append_take_drop_id)
  ultimately show ?thesis using d(1) by simp
qed

section \<open>The codec contract\<close>

text \<open>
  An encoder that appends and a decoder that returns the remaining bytes; they agree on
  every value in \<open>ok\<close>, while the input is shorter than \<open>2^32\<close> bytes (a frame is at most
  8 MiB).
\<close>

locale wire_codec =
  fixes enc :: "'a \<Rightarrow> bytes"
    and dec :: "bytes \<Rightarrow> ('a \<times> bytes) option"
    and ok :: "'a \<Rightarrow> bool"
  assumes dec_enc: "ok x \<Longrightarrow> length (enc x @ rest) < 2 ^ 32 \<Longrightarrow> dec (enc x @ rest) = Some (x, rest)"

fun decode_many :: "(bytes \<Rightarrow> ('a \<times> bytes) option) \<Rightarrow> nat \<Rightarrow> bytes \<Rightarrow> ('a list \<times> bytes) option" where
  "decode_many dec 0 bs = Some ([], bs)"
| "decode_many dec (Suc n) bs =
     (case dec bs of None \<Rightarrow> None
      | Some (x, rest) \<Rightarrow>
          (case decode_many dec n rest of None \<Rightarrow> None | Some (xs, rest') \<Rightarrow> Some (x # xs, rest')))"

context wire_codec
begin

lemma decode_many_enc:
  "\<forall>x \<in> set xs. ok x \<Longrightarrow> length (concat (map enc xs) @ rest) < 2 ^ 32 \<Longrightarrow>
     decode_many dec (length xs) (concat (map enc xs) @ rest) = Some (xs, rest)"
proof (induction xs)
  case (Cons x xs)
  from Cons.prems(2) have len: "length (enc x @ concat (map enc xs) @ rest) < 2 ^ 32" by simp
  have "dec (enc x @ concat (map enc xs) @ rest) = Some (x, concat (map enc xs) @ rest)"
    by (rule dec_enc [OF _ len]) (simp add: Cons.prems(1))
  moreover have "decode_many dec (length xs) (concat (map enc xs) @ rest) = Some (xs, rest)"
    using Cons.prems len by (intro Cons.IH) simp_all
  ultimately show ?case by simp
qed simp

lemma enc_inj:
  assumes "ok x" "ok y" "enc x = enc y" "length (enc x) < 2 ^ 32"
  shows "x = y"
  using dec_enc[of x "[]"] dec_enc[of y "[]"] assms by simp

end

text \<open>Two codecs in sequence are a codec of pairs.\<close>

definition pair_enc :: "('a \<Rightarrow> bytes) \<Rightarrow> ('b \<Rightarrow> bytes) \<Rightarrow> 'a \<times> 'b \<Rightarrow> bytes" where
  "pair_enc e1 e2 p = e1 (fst p) @ e2 (snd p)"

definition pair_dec ::
  "(bytes \<Rightarrow> ('a \<times> bytes) option) \<Rightarrow> (bytes \<Rightarrow> ('b \<times> bytes) option) \<Rightarrow> bytes \<Rightarrow> (('a \<times> 'b) \<times> bytes) option" where
  "pair_dec d1 d2 bs =
     (case d1 bs of None \<Rightarrow> None
      | Some (x, r) \<Rightarrow> (case d2 r of None \<Rightarrow> None | Some (y, r') \<Rightarrow> Some ((x, y), r')))"

locale wire_codec_pair =
  one: wire_codec enc1 dec1 ok1 + two: wire_codec enc2 dec2 ok2
  for enc1 :: "'a \<Rightarrow> bytes" and dec1 ok1 and enc2 :: "'b \<Rightarrow> bytes" and dec2 ok2

sublocale wire_codec_pair \<subseteq> both: wire_codec "pair_enc enc1 enc2" "pair_dec dec1 dec2"
  "\<lambda>p. ok1 (fst p) \<and> ok2 (snd p)"
proof
  fix x :: "'a \<times> 'b" and rest
  assume ok: "ok1 (fst x) \<and> ok2 (snd x)" and len: "length (pair_enc enc1 enc2 x @ rest) < 2 ^ 32"
  have "dec1 (enc1 (fst x) @ enc2 (snd x) @ rest) = Some (fst x, enc2 (snd x) @ rest)"
    using ok len by (intro one.dec_enc) (simp_all add: pair_enc_def)
  moreover have "dec2 (enc2 (snd x) @ rest) = Some (snd x, rest)"
    using ok len by (intro two.dec_enc) (simp_all add: pair_enc_def)
  ultimately show "pair_dec dec1 dec2 (pair_enc enc1 enc2 x @ rest) = Some (x, rest)"
    by (simp add: pair_enc_def pair_dec_def)
qed

interpretation str: wire_codec "encode_string []" decode_string "\<lambda>_. True"
  by unfold_locales (simp add: decode_encode_string)

interpretation u32: wire_codec "encode_uint32 []" decode_uint32 "\<lambda>_. True"
  by unfold_locales (simp add: decode_uint32_def encode_uint32_def)

interpretation u8: wire_codec "\<lambda>b. [b]" decode_uint8 "\<lambda>_. True"
  by unfold_locales (simp add: decode_uint8_def)

interpretation identity: wire_codec_pair "encode_string []" decode_string "\<lambda>_. True"
  "encode_string []" decode_string "\<lambda>_. True"
  by unfold_locales

section \<open>The identities answer\<close>

text \<open>How a client reads the answer: message type, count, then that many pairs.\<close>

definition parse_identities_answer :: "bytes \<Rightarrow> (bytes \<times> bytes) list option" where
  "parse_identities_answer msg =
     (case decode_uint8 msg of None \<Rightarrow> None
      | Some (t, r) \<Rightarrow>
          if t \<noteq> SSHAgentIdentitiesAnswer then None
          else (case decode_uint32 r of None \<Rightarrow> None
                | Some (n, r') \<Rightarrow>
                    (case decode_many (pair_dec decode_string decode_string) (unat n) r' of
                       Some (ids, []) \<Rightarrow> Some ids | _ \<Rightarrow> None)))"

lemma encode_identities_eq:
  "length comments = length blobs \<Longrightarrow>
     encode_identities buf blobs comments
     = buf @ concat (map (pair_enc (encode_string []) (encode_string [])) (zip blobs (map bytes_of comments)))"
proof (induction blobs arbitrary: buf comments)
  case (Cons b bs)
  then obtain c cs where c: "comments = c # cs" "length cs = length bs"
    by (cases comments) auto
  have "encode_string (encode_string buf b) (bytes_of c)
      = buf @ pair_enc (encode_string []) (encode_string []) (b, bytes_of c)"
    by (simp add: pair_enc_def encode_string_append[of buf] encode_string_append[of "buf @ _"])
  then show ?case using Cons.IH[OF c(2)] by (simp add: c Let_def)
qed simp

section \<open>The OpenSSH private-key container\<close>

definition read_ssh_string_from :: "bytes \<Rightarrow> (bytes \<times> bytes) option" where
  "read_ssh_string_from d =
     (if length d < 4 then None
      else let len = unat (d ! 0) * 2 ^ 24 + unat (d ! 1) * 2 ^ 16 + unat (d ! 2) * 2 ^ 8 + unat (d ! 3);
               d' = drop 4 d
           in if length d' < len then None else Some (take len d', drop len d'))"

definition openssh_magic :: bytes where
  "openssh_magic = bytes_of ''openssh-key-v1'' @ [0]"

text \<open>The loop that skips cipher name, KDF name and KDF options, by position.\<close>

fun skip_strings :: "nat \<Rightarrow> bytes \<Rightarrow> nat \<Rightarrow> nat option" where
  "skip_strings 0 raw pos = Some pos"
| "skip_strings (Suc n) raw pos =
     (case read_ssh_string_from (drop pos raw) of None \<Rightarrow> None
      | Some (_, rest) \<Rightarrow> skip_strings n raw (length raw - length rest))"

definition extract_public_blob_from_openssh :: "bytes \<Rightarrow> bytes option" where
  "extract_public_blob_from_openssh raw =
     (if length raw < length openssh_magic \<or> take (length openssh_magic) raw \<noteq> openssh_magic then None
      else (case skip_strings 3 raw (length openssh_magic) of None \<Rightarrow> None
            | Some pos \<Rightarrow>
                if length raw - pos < 4 then None
                else map_option fst (read_ssh_string_from (drop (pos + 4) raw))))"

text \<open>
  The two readers of a length-prefixed string, the one with \<open>binary.BigEndian\<close> and the
  one with shifts on \<open>int\<close>, agree.
\<close>

lemma unat_byte_less: "unat (a :: byte) < 256"
  using unsigned_less[of a] by simp

lemma unat_ucast_u32 [simp]: "unat (ucast (a :: byte) :: u32) = unat a"
proof -
  have "unat a < 2 ^ 32" using unat_byte_less[of a] by simp
  then show ?thesis by (simp add: unsigned_ucast_eq take_bit_nat_eq_self)
qed

lemma unat_push_ucast:
  assumes "k \<le> 24"
  shows "unat (push_bit k (ucast (a :: byte)) :: u32) = unat a * 2 ^ k"
proof -
  have a: "unat a < 2 ^ 8" using unat_byte_less[of a] by simp
  have "unat a * 2 ^ k < 2 ^ 8 * 2 ^ k" using a by simp
  also have "\<dots> = 2 ^ (8 + k)" by (simp add: power_add)
  also have "\<dots> \<le> 2 ^ 32" using assms by (intro power_increasing) auto
  finally have b: "unat a * 2 ^ k < 2 ^ 32" .
  show ?thesis
    using b by (simp add: unsigned_push_bit_eq push_bit_nat_def take_bit_nat_eq_self)
qed

lemma unat_get_uint32:
  "unat (get_uint32 [a, b, c, d]) = unat a * 2 ^ 24 + unat b * 2 ^ 16 + unat c * 2 ^ 8 + unat d"
proof -
  let ?a = "push_bit 24 (ucast a) :: u32" and ?b = "push_bit 16 (ucast b) :: u32"
  let ?c = "push_bit 8 (ucast c) :: u32" and ?d = "ucast d :: u32"
  note lt = unat_byte_less[of a] unat_byte_less[of b] unat_byte_less[of c] unat_byte_less[of d]
  have s1: "?d + ?c = ?d OR ?c"
    by (rule disjunctive_add) (auto simp: bit_ucast_iff bit_push_bit_iff dest: bit_imp_le_length)
  have s3: "(?d OR ?c) + ?b = (?d OR ?c) OR ?b"
    by (rule disjunctive_add)
      (auto simp: bit_ucast_iff bit_push_bit_iff bit_or_iff dest: bit_imp_le_length)
  have s4: "((?d OR ?c) OR ?b) + ?a = ((?d OR ?c) OR ?b) OR ?a"
    by (rule disjunctive_add)
      (auto simp: bit_ucast_iff bit_push_bit_iff bit_or_iff dest: bit_imp_le_length)
  have eq: "get_uint32 [a, b, c, d] = ?d + ?c + ?b + ?a"
    unfolding s1 s3 s4 by (simp only: get_uint32.simps or.assoc)
  have "unat (?d + ?c + ?b + ?a) = unat ?d + unat ?c + unat ?b + unat ?a"
    using lt by (simp add: unat_word_ariths unat_push_ucast)
  then show ?thesis unfolding eq by (simp add: unat_push_ucast)
qed

lemma read_ssh_string_from_eq:
  assumes "length d < 2 ^ 32"
  shows "read_ssh_string_from d = decode_string d"
proof (cases "length d < 4")
  case False
  then obtain a b c e r where d: "d = a # b # c # e # r"
    by (auto simp: not_less numeral_eq_Suc Suc_le_length_iff)
  have "unat (word_of_nat (length r) :: u32) = length r"
    using assms d by (intro unat_u32_of_nat) simp
  then show ?thesis
    by (simp add: d read_ssh_string_from_def decode_string_def word_less_nat_alt unat_get_uint32 Let_def
        del: get_uint32.simps)
qed (simp add: read_ssh_string_from_def decode_string_def)

lemma bit_byte_out: "8 \<le> n \<Longrightarrow> \<not> bit (x :: byte) n"
  using bit_imp_le_length[of x n] by auto

lemma put_get_uint32: "put_uint32 (get_uint32 [a, b, c, d]) = [a, b, c, d]"
  by (auto intro!: bit_word_eqI
      simp: put_uint32_def bit_or_iff bit_ucast_iff bit_push_bit_iff bit_drop_bit_eq bit_byte_out)

lemma length_pairs_le:
  "length ids \<le> length (concat (map (pair_enc (encode_string []) (encode_string [])) ids))"
  by (induction ids) (auto simp: pair_enc_def)

lemma skip_strings_encoded:
  assumes "length (pre @ concat (map (encode_string []) xs) @ rest) < 2 ^ 32"
  shows "skip_strings (length xs) (pre @ concat (map (encode_string []) xs) @ rest) (length pre)
         = Some (length pre + length (concat (map (encode_string []) xs)))"
  using assms
proof (induction xs arbitrary: pre)
  case (Cons x xs)
  let ?r = "concat (map (encode_string []) xs) @ rest"
  have "read_ssh_string_from (encode_string [] x @ ?r) = decode_string (encode_string [] x @ ?r)"
    using Cons.prems by (intro read_ssh_string_from_eq) simp
  also have "\<dots> = Some (x, ?r)"
    using Cons.prems by (intro decode_encode_string) simp
  finally have r: "read_ssh_string_from (encode_string [] x @ ?r) = Some (x, ?r)" .
  have "skip_strings (length xs) ((pre @ encode_string [] x) @ ?r) (length (pre @ encode_string [] x))
      = Some (length (pre @ encode_string [] x) + length (concat (map (encode_string []) xs)))"
    using Cons.prems by (intro Cons.IH) simp
  then show ?case using r by (simp add: add.assoc)
qed simp

lemma decode_string_exactD: "decode_string d = Some (s, rest) \<Longrightarrow> d = encode_string [] s @ rest"
proof -
  assume "decode_string d = Some (s, rest)"
  from decode_string_SomeD[OF this]
  have d: "d = take 4 d @ s @ rest" "length s = unat (get_uint32 (take 4 d))" "4 \<le> length d"
    by simp_all
  from d(3) obtain a b c e where h: "take 4 d = [a, b, c, e]"
    by (auto simp: numeral_eq_Suc Suc_le_length_iff)
  have "put_uint32 (word_of_nat (length s)) = take 4 d"
    by (simp add: d(2) h put_get_uint32 del: get_uint32.simps)
  then show "d = encode_string [] s @ rest"
    using d(1) by (simp add: encode_string_def encode_uint32_def)
qed

lemma read_message_written:
  "msg \<noteq> [] \<Longrightarrow> length msg \<le> 8388608 \<Longrightarrow> read_message (write_message msg @ rest) = Ok (msg, rest)"
proof -
  assume len: "msg \<noteq> []" "length msg \<le> 8388608"
  then have n: "unat (word_of_nat (length msg) :: u32) = length msg"
    by (intro unat_u32_of_nat) simp
  then have "(word_of_nat (length msg) :: u32) \<noteq> 0"
    using len(1) by (metis length_0_conv unsigned_0)
  moreover have "\<not> max_message_len < word_of_nat (length msg)"
    using len(2) by (simp add: word_less_nat_alt n max_message_len_def)
  ultimately show ?thesis
    by (simp add: read_message_def write_message_def read_full_def Let_def n)
qed

section \<open>Properties of the wire format\<close>

text \<open>Framing: reading back a written message returns it and leaves the following bytes
  untouched; the empty message and a message above 8 MiB are refused, each with its own
  error and before any body is read.\<close>

theorem read_write_message:
  assumes "length msg < 2 ^ 32"
  shows "read_message (write_message msg @ rest)
         = (if msg = [] then Err ZeroLength
            else if 8388608 < length msg then Err (TooLarge (word_of_nat (length msg)))
            else Ok (msg, rest))"
proof -
  have n: "unat (word_of_nat (length msg) :: u32) = length msg"
    using assms by (rule unat_u32_of_nat)
  then have z: "(word_of_nat (length msg) :: u32) = 0 \<longleftrightarrow> msg = []"
    by (metis length_0_conv unsigned_0 unsigned_eq_0_iff)
  have "max_message_len < word_of_nat (length msg) \<longleftrightarrow> 8388608 < length msg"
    by (simp add: word_less_nat_alt n max_message_len_def)
  then show ?thesis
    by (auto simp: read_message_def write_message_def read_full_def Let_def n z)
qed

lemma read_write_message_witness:
  "read_message (write_message [11] @ [1, 2]) = Ok ([11], [1, 2])"
  using read_write_message[of "[11]" "[1, 2]"] by simp

text \<open>The string decoder is exact: it succeeds on an input precisely when the input is
  the encoding of the string it returns followed by the remainder it returns.\<close>

theorem decode_string_exact:
  assumes "length d < 2 ^ 32"
  shows "decode_string d = Some (s, rest) \<longleftrightarrow> d = encode_string [] s @ rest"
proof
  assume "decode_string d = Some (s, rest)"
  then show "d = encode_string [] s @ rest" by (rule decode_string_exactD)
next
  assume "d = encode_string [] s @ rest"
  then show "decode_string d = Some (s, rest)"
    using assms by (simp add: decode_encode_string)
qed

lemma decode_string_exact_witness:
  "decode_string [0, 0, 0, 1, 7, 9] = Some ([7], [9])"
  using decode_string_exact[of "[0, 0, 0, 1, 7, 9]" "[7]" "[9]"]
  by (simp add: encode_string_def encode_uint32_def put_uint32_def)

text \<open>The identities answer round trip: a client that parses the answer built from a
  list of keys gets back every blob with its comment, in order.\<close>

theorem identities_answer_roundtrip:
  assumes "length comments = length blobs"
    and "length (encode_identities_answer blobs comments) < 2 ^ 32"
  shows "parse_identities_answer (encode_identities_answer blobs comments)
         = Some (zip blobs (map bytes_of comments))"
proof -
  let ?ids = "zip blobs (map bytes_of comments)"
  let ?body = "concat (map (pair_enc (encode_string []) (encode_string [])) ?ids)"
  have len: "length blobs < 2 ^ 32" "length (?body @ []) < 2 ^ 32"
    using assms length_pairs_le[of ?ids]
    by (simp_all add: encode_identities_answer_def encode_identities_eq encode_uint32_def)
  have "decode_many (pair_dec decode_string decode_string) (length ?ids) (?body @ []) = Some (?ids, [])"
    using len(2) by (intro identity.both.decode_many_enc) simp_all
  then show ?thesis
    using assms(1) len(1)
    by (simp add: parse_identities_answer_def encode_identities_answer_def encode_identities_eq
        encode_uint32_def decode_uint8_def decode_uint32_def unat_u32_of_nat)
qed

lemma identities_answer_roundtrip_witness:
  "parse_identities_answer (encode_identities_answer [[7, 8], []] [''k'', ''''])
   = Some [([7, 8], bytes_of ''k''), ([], [])]"
  using identities_answer_roundtrip[of "[''k'', '''']" "[[7, 8], []]"]
  by (simp add: encode_identities_answer_def encode_string_def encode_uint32_def put_uint32_def
      bytes_of_def)

text \<open>From an encrypted OpenSSH key file the public blob comes out: for a container with
  any cipher name, KDF name, KDF options and key count, the reader returns the first public
  key, whatever follows it.\<close>

theorem extract_public_blob_encoded:
  fixes cipher kdf opts pub rest :: bytes and n :: u32
  defines "raw \<equiv> openssh_magic @ encode_string [] cipher @ encode_string [] kdf
                  @ encode_string [] opts @ put_uint32 n @ encode_string [] pub @ rest"
  assumes "length raw < 2 ^ 32"
  shows "extract_public_blob_from_openssh raw = Some pub"
proof -
  let ?tail = "put_uint32 n @ encode_string [] pub @ rest"
  let ?pos = "length openssh_magic + length (concat (map (encode_string []) [cipher, kdf, opts]))"
  have raw: "raw = openssh_magic @ concat (map (encode_string []) [cipher, kdf, opts]) @ ?tail"
    by (simp add: raw_def)
  have three: "length [cipher, kdf, opts] = 3" by simp
  have "skip_strings (length [cipher, kdf, opts]) raw (length openssh_magic) = Some ?pos"
    using assms(2) unfolding raw by (rule skip_strings_encoded)
  then have skip: "skip_strings 3 raw (length openssh_magic) = Some ?pos"
    by (simp only: three)
  have drop: "drop ?pos raw = ?tail"
    unfolding raw by simp
  have "drop (?pos + 4) raw = drop 4 (drop ?pos raw)"
    by (simp add: drop_drop add.commute)
  also have "\<dots> = encode_string [] pub @ rest"
    unfolding drop by simp
  finally have "drop (?pos + 4) raw = encode_string [] pub @ rest" .
  moreover have "read_ssh_string_from (encode_string [] pub @ rest) = Some (pub, rest)"
    using assms(2) by (simp add: read_ssh_string_from_eq decode_encode_string raw_def)
  moreover have "take (length openssh_magic) raw = openssh_magic"
    by (simp add: raw)
  ultimately show ?thesis
    using skip by (simp add: extract_public_blob_from_openssh_def raw)
qed

lemma extract_public_blob_encoded_witness:
  "extract_public_blob_from_openssh
     (openssh_magic @ encode_string [] (bytes_of ''aes256-ctr'') @ encode_string [] (bytes_of ''bcrypt'')
      @ encode_string [] [] @ put_uint32 1 @ encode_string [] [1, 2, 3] @ [9]) = Some [1, 2, 3]"
  by (rule extract_public_blob_encoded) (simp add: openssh_magic_def)

end
