(* ===== verification/Agent_Keys.thy ===== *)
theory Agent_Keys
  imports Wire Keepass Config
begin

text \<open>
  SSH keys (\<open>internal/sshagent/key.go\<close>) and the identity manager
  (\<open>internal/sshagent/manager.go\<close>). The cryptography (\<open>golang.org/x/crypto/ssh\<close>,
  \<open>crypto/...\<close>) is a record of functions that the definitions take as a parameter;
  signers and private keys are values of its types. The locale \<open>key_registry\<close> states
  what a store of keys by fingerprint promises; the manager and the tracking map of
  the agent client both implement it.
\<close>

section \<open>Keys\<close>

record ('sg, 'pk) ssh_key =
  k_format :: string
  k_blob :: bytes
  k_comment :: string
  k_signer :: "'sg option"
  k_private :: "'pk option"
  k_is_security_key :: bool
  k_sk_application :: string
  k_sk_flags :: byte
  k_sk_key_handle :: bytes
  k_entry_uuid :: string
  k_db_uuid :: string

datatype key_algorithm = RSA int | Ed25519 | ECDSA_P256 | ECDSA_P384 | ECDSA_P521

datatype parse_failure = PassphraseMissing | BadKey

record ('sg, 'pk) ssh_lib =
  lib_sha256 :: "bytes \<Rightarrow> bytes"
  lib_parse_raw :: "bytes \<Rightarrow> string option \<Rightarrow> parse_failure + 'pk"
  lib_crypto_signer :: "'pk \<Rightarrow> bool"
  lib_new_signer :: "'pk \<Rightarrow> 'sg option"
  lib_public :: "'sg \<Rightarrow> string \<times> bytes"
  lib_pem_decode :: "bytes \<Rightarrow> (string \<times> bytes) option"
  lib_parse_public :: "bytes \<Rightarrow> (string \<times> bytes) option"
  lib_sign :: "'sg \<Rightarrow> bytes \<Rightarrow> bytes option"
  lib_sign_algorithm :: "'sg \<Rightarrow> (bytes \<Rightarrow> string \<Rightarrow> bytes option) option"
  lib_generate :: "key_algorithm \<Rightarrow> 'pk option"
  lib_marshal_private :: "'pk \<Rightarrow> bytes option"

datatype key_error =
    ParseFailed
  | NotASigner
  | SignerFailed
  | NoOpenSSHBlock
  | NoPublicBlob
  | BadPublicKey
  | UnsupportedKeyType string
  | GenerationFailed
  | WrapperFailed
  | MarshalFailed
  | NoSigner
  | SignFailed

definition blank_key :: "string \<Rightarrow> bytes \<Rightarrow> ('sg, 'pk) ssh_key" where
  "blank_key fmt blob =
     \<lparr>k_format = fmt, k_blob = blob, k_comment = [], k_signer = None, k_private = None,
      k_is_security_key = False, k_sk_application = [], k_sk_flags = 0, k_sk_key_handle = [],
      k_entry_uuid = [], k_db_uuid = []\<rparr>"

definition NewKey :: "('sg, 'pk) ssh_lib \<Rightarrow> 'pk \<Rightarrow> string \<Rightarrow> key_error + ('sg, 'pk) ssh_key" where
  "NewKey L signer comment =
     (case lib_new_signer L signer of
        None \<Rightarrow> Err SignerFailed
      | Some sg \<Rightarrow> (let (t, b) = lib_public L sg
                   in Ok ((blank_key t b)\<lparr>k_comment := comment, k_signer := Some sg, k_private := Some signer\<rparr>)))"

definition fingerprint_of_blob :: "('sg, 'pk) ssh_lib \<Rightarrow> bytes \<Rightarrow> string" where
  "fingerprint_of_blob L blob =
     (if blob = [] then ''SHA256:(empty)'' else ''SHA256:'' @ base64_raw_std (lib_sha256 L blob))"

definition Fingerprint :: "('sg, 'pk) ssh_lib \<Rightarrow> ('sg, 'pk) ssh_key \<Rightarrow> string" where
  "Fingerprint L k = fingerprint_of_blob L (k_blob k)"

text \<open>\<open>Equal\<close> on possibly nil keys; \<open>k == other\<close> of two nils is true.\<close>

definition Key_Equal ::
  "('sg, 'pk) ssh_lib \<Rightarrow> ('sg, 'pk) ssh_key option \<Rightarrow> ('sg, 'pk) ssh_key option \<Rightarrow> bool" where
  "Key_Equal L a b =
     (case (a, b) of
        (Some k, Some k') \<Rightarrow> Fingerprint L k = Fingerprint L k'
      | (None, None) \<Rightarrow> True
      | _ \<Rightarrow> False)"

definition PublicKey :: "('sg, 'pk) ssh_lib \<Rightarrow> ('sg, 'pk) ssh_key \<Rightarrow> (string \<times> bytes) option" where
  "PublicKey L k = lib_parse_public L (k_blob k)"

definition Sign :: "('sg, 'pk) ssh_lib \<Rightarrow> ('sg, 'pk) ssh_key \<Rightarrow> bytes \<Rightarrow> key_error + bytes" where
  "Sign L k dat =
     (case k_signer k of
        None \<Rightarrow> Err NoSigner
      | Some sg \<Rightarrow> (case lib_sign L sg dat of None \<Rightarrow> Err SignFailed | Some sig \<Rightarrow> Ok sig))"

definition parse_encrypted_key_public_only ::
  "('sg, 'pk) ssh_lib \<Rightarrow> bytes \<Rightarrow> key_error + ('sg, 'pk) ssh_key" where
  "parse_encrypted_key_public_only L dat =
     (case lib_pem_decode L dat of
        None \<Rightarrow> Err NoOpenSSHBlock
      | Some (t, body) \<Rightarrow>
          if t \<noteq> ''OPENSSH PRIVATE KEY'' then Err NoOpenSSHBlock
          else (case extract_public_blob_from_openssh body of
                  None \<Rightarrow> Err NoPublicBlob
                | Some blob \<Rightarrow>
                    (case lib_parse_public L blob of
                       None \<Rightarrow> Err BadPublicKey
                     | Some (fmt, b) \<Rightarrow> Ok (blank_key fmt b))))"

definition ParsePrivateKey ::
  "('sg, 'pk) ssh_lib \<Rightarrow> bytes \<Rightarrow> string \<Rightarrow> key_error + ('sg, 'pk) ssh_key" where
  "ParsePrivateKey L dat pass =
     (case lib_parse_raw L dat (if pass \<noteq> [] then Some pass else None) of
        Inl PassphraseMissing \<Rightarrow> parse_encrypted_key_public_only L dat
      | Inl BadKey \<Rightarrow> Err ParseFailed
      | Inr raw \<Rightarrow>
          if \<not> lib_crypto_signer L raw then Err NotASigner
          else (case lib_new_signer L raw of
                  None \<Rightarrow> Err SignerFailed
                | Some sg \<Rightarrow>
                    (let (t, b) = lib_public L sg
                     in Ok ((blank_key t b)\<lparr>k_signer := Some sg, k_private := Some raw\<rparr>))))"

definition key_algorithm_of :: "string \<Rightarrow> int \<Rightarrow> key_algorithm option" where
  "key_algorithm_of t bits =
     (if t = ''rsa'' then Some (RSA (if bits \<le> 0 then 3072 else bits))
      else if t = ''ed25519'' then Some Ed25519
      else if t = ''ecdsa'' \<or> t = ''ecdsa-p256'' then Some ECDSA_P256
      else if t = ''ecdsa-p384'' then Some ECDSA_P384
      else if t = ''ecdsa-p521'' then Some ECDSA_P521
      else None)"

definition GenerateSSHKeyPair ::
  "('sg, 'pk) ssh_lib \<Rightarrow> string \<Rightarrow> int \<Rightarrow> key_error + (('sg, 'pk) ssh_key \<times> bytes)" where
  "GenerateSSHKeyPair L t bits =
     (case key_algorithm_of t bits of
        None \<Rightarrow> Err (UnsupportedKeyType t)
      | Some alg \<Rightarrow>
          (case lib_generate L alg of
             None \<Rightarrow> Err GenerationFailed
           | Some priv \<Rightarrow>
               (case NewKey L priv [] of
                  Inl _ \<Rightarrow> Err WrapperFailed
                | Inr key \<Rightarrow>
                    (case lib_marshal_private L priv of
                       None \<Rightarrow> Err MarshalFailed
                     | Some pem \<Rightarrow> Ok (key, pem)))))"

section \<open>The identity manager\<close>

record ('sg, 'pk) loaded_key =
  lk_key :: "('sg, 'pk) ssh_key"
  lk_lifetime :: u32
  lk_confirm :: bool
  lk_auto_remove :: bool
  lk_db_uuid :: string
  lk_entry_uuid :: string

type_synonym ('sg, 'pk) identities = "string \<rightharpoonup> ('sg, 'pk) loaded_key"

definition NewIdentityManager :: "('sg, 'pk) identities" where
  "NewIdentityManager = Map.empty"

definition AddIdentity ::
  "('sg, 'pk) ssh_lib \<Rightarrow> ('sg, 'pk) ssh_key \<Rightarrow> u32 \<Rightarrow> bool \<Rightarrow> bool \<Rightarrow> string \<Rightarrow> string
     \<Rightarrow> ('sg, 'pk) identities \<Rightarrow> ('sg, 'pk) identities" where
  "AddIdentity L key lifetime confirm auto_remove db entry m =
     m(Fingerprint L key \<mapsto>
         \<lparr>lk_key = key, lk_lifetime = lifetime, lk_confirm = confirm, lk_auto_remove = auto_remove,
          lk_db_uuid = db, lk_entry_uuid = entry\<rparr>)"

text \<open>\<open>None\<close>: the key was not found.\<close>

definition RemoveIdentity :: "string \<Rightarrow> ('sg, 'pk) identities \<Rightarrow> ('sg, 'pk) identities option" where
  "RemoveIdentity fp m = (if m fp = None then None else Some (m(fp := None)))"

definition RemoveAllIdentities :: "('sg, 'pk) identities \<Rightarrow> ('sg, 'pk) identities" where
  "RemoveAllIdentities m = Map.empty"

definition ListIdentities :: "string list \<Rightarrow> ('sg, 'pk) identities \<Rightarrow> ('sg, 'pk) loaded_key list" where
  "ListIdentities order m = map_values order m"

definition FindIdentityByFingerprint :: "string \<Rightarrow> ('sg, 'pk) identities \<Rightarrow> ('sg, 'pk) loaded_key option" where
  "FindIdentityByFingerprint fp m = m fp"

fun equal_bytes_from :: "bytes \<Rightarrow> bytes \<Rightarrow> bool" where
  "equal_bytes_from (a # as) (b # bs) \<longleftrightarrow> (if a \<noteq> b then False else equal_bytes_from as bs)"
| "equal_bytes_from _ _ \<longleftrightarrow> True"

definition equal_bytes :: "bytes \<Rightarrow> bytes \<Rightarrow> bool" where
  "equal_bytes a b \<longleftrightarrow> (if length a \<noteq> length b then False else equal_bytes_from a b)"

definition FindIdentityByBlob ::
  "string list \<Rightarrow> bytes \<Rightarrow> ('sg, 'pk) identities \<Rightarrow> ('sg, 'pk) loaded_key option" where
  "FindIdentityByBlob order blob m =
     List.find (\<lambda>lk. equal_bytes (k_blob (lk_key lk)) blob) (map_values order m)"

text \<open>The loop deletes while it ranges over the map.\<close>

fun remove_for_database :: "string list \<Rightarrow> string \<Rightarrow> ('sg, 'pk) identities \<Rightarrow> ('sg, 'pk) identities" where
  "remove_for_database [] db m = m"
| "remove_for_database (fp # fps) db m =
     remove_for_database fps db
       (case m fp of
          None \<Rightarrow> m
        | Some lk \<Rightarrow> if lk_db_uuid lk = db \<and> lk_auto_remove lk then m(fp := None) else m)"

definition RemoveIdentitiesForDatabase ::
  "string list \<Rightarrow> string \<Rightarrow> ('sg, 'pk) identities \<Rightarrow> ('sg, 'pk) identities" where
  "RemoveIdentitiesForDatabase order db m = remove_for_database order db m"

definition Count :: "('sg, 'pk) identities \<Rightarrow> nat" where
  "Count m = card (dom m)"

section \<open>A store of keys by fingerprint\<close>

locale key_registry =
  fixes look :: "'m \<Rightarrow> string \<Rightarrow> 'k option"
    and add :: "'k \<Rightarrow> 'm \<Rightarrow> 'm"
    and drop_db :: "string \<Rightarrow> 'm \<Rightarrow> 'm"
    and fp :: "'k \<Rightarrow> string"
    and bound :: "'k \<Rightarrow> string \<Rightarrow> bool"
  assumes look_add: "look (add k m) f = (if f = fp k then Some k else look m f)"
    and look_drop: "look (drop_db d m) f
          = (case look m f of None \<Rightarrow> None | Some k \<Rightarrow> if bound k d then None else Some k)"
begin

definition filed :: "'m \<Rightarrow> bool" where
  "filed m \<longleftrightarrow> (\<forall>f k. look m f = Some k \<longrightarrow> fp k = f)"

lemma filed_add: "filed m \<Longrightarrow> filed (add k m)"
  by (auto simp: filed_def look_add)

lemma filed_drop: "filed m \<Longrightarrow> filed (drop_db d m)"
  by (auto simp: filed_def look_drop split: option.splits if_splits)

lemma dropped_gone: "look (drop_db d m) f = Some k \<Longrightarrow> \<not> bound k d"
  by (auto simp: look_drop split: option.splits if_splits)

lemma unbound_kept: "look m f = Some k \<Longrightarrow> \<not> bound k d \<Longrightarrow> look (drop_db d m) f = Some k"
  by (simp add: look_drop)

lemma drop_no_new: "look (drop_db d m) f = Some k \<Longrightarrow> look m f = Some k"
  by (auto simp: look_drop split: option.splits if_splits)

lemma filed_add_all: "filed m \<Longrightarrow> filed (fold add ks m)"
  by (induction ks arbitrary: m) (simp_all add: filed_add)

text \<open>Of several keys with one fingerprint the last one added stays.\<close>

lemma look_add_all:
  "look (fold add ks m) f = (case List.find (\<lambda>k. fp k = f) (rev ks) of None \<Rightarrow> look m f | Some k \<Rightarrow> Some k)"
  by (induction ks arbitrary: m) (auto simp: look_add find_append split: option.splits)

text \<open>Adding keys that are all bound to a database and dropping that database leaves, of
  the fingerprints not added, exactly the keys not bound to it.\<close>

lemma drop_after_add:
  assumes "\<forall>k \<in> set ks. bound k d"
  shows "look (drop_db d (fold add ks m)) f
         = (if f \<in> fp ` set ks then None
            else (case look m f of None \<Rightarrow> None | Some k \<Rightarrow> if bound k d then None else Some k))"
proof (cases "List.find (\<lambda>k. fp k = f) (rev ks)")
  case None
  then have "f \<notin> fp ` set ks" by (auto simp: find_None_iff_not)
  with None show ?thesis by (simp add: look_drop look_add_all)
next
  case (Some k)
  then have "k \<in> set ks" "fp k = f" using find_Some_in by fastforce+
  with Some assms show ?thesis by (auto simp: look_drop look_add_all)
qed

end

section \<open>The manager implements it\<close>

definition put_loaded :: "('sg, 'pk) ssh_lib \<Rightarrow> ('sg, 'pk) loaded_key \<Rightarrow> ('sg, 'pk) identities \<Rightarrow> ('sg, 'pk) identities" where
  "put_loaded L lk m = m(Fingerprint L (lk_key lk) \<mapsto> lk)"

lemma AddIdentity_put:
  "AddIdentity L key lifetime confirm auto_remove db entry =
     put_loaded L \<lparr>lk_key = key, lk_lifetime = lifetime, lk_confirm = confirm,
       lk_auto_remove = auto_remove, lk_db_uuid = db, lk_entry_uuid = entry\<rparr>"
  by (rule ext) (simp add: AddIdentity_def put_loaded_def)

definition bound_to :: "('sg, 'pk) loaded_key \<Rightarrow> string \<Rightarrow> bool" where
  "bound_to lk db \<longleftrightarrow> lk_db_uuid lk = db \<and> lk_auto_remove lk"

lemma remove_for_database_apply:
  "remove_for_database order db m f =
     (case m f of None \<Rightarrow> None | Some lk \<Rightarrow> if f \<in> set order \<and> bound_to lk db then None else Some lk)"
  by (induction order db m rule: remove_for_database.induct)
    (auto simp: bound_to_def split: option.splits if_splits)

text \<open>Whatever the iteration order, the loop removes the auto-removed keys of the database
  and no others.\<close>

lemma RemoveIdentitiesForDatabase_eq:
  assumes "enumerates order m"
  shows "RemoveIdentitiesForDatabase order db m = delete_where (\<lambda>_ lk. bound_to lk db) m"
proof
  fix f
  have "f \<in> set order" if "m f = Some lk" for lk
    using assms that by (auto simp: enumerates_def)
  then show "RemoveIdentitiesForDatabase order db m f = delete_where (\<lambda>_ lk. bound_to lk db) m f"
    by (auto simp: RemoveIdentitiesForDatabase_def remove_for_database_apply delete_where_apply
        split: option.splits)
qed

interpretation manager: key_registry "\<lambda>m. m" "put_loaded L"
  "\<lambda>db m. delete_where (\<lambda>_ lk. bound_to lk db) m" "\<lambda>lk. Fingerprint L (lk_key lk)" bound_to
  for L :: "('sg, 'pk) ssh_lib"
  by unfold_locales (auto simp: put_loaded_def delete_where_apply split: option.splits)

lemma equal_bytes_from_iff: "length a = length b \<Longrightarrow> equal_bytes_from a b \<longleftrightarrow> a = b"
  by (induction a b rule: equal_bytes_from.induct) auto

lemma equal_bytes_iff [simp]: "equal_bytes a b \<longleftrightarrow> a = b"
  by (auto simp: equal_bytes_def equal_bytes_from_iff)

abbreviation manager_ok :: "('sg, 'pk) ssh_lib \<Rightarrow> ('sg, 'pk) identities \<Rightarrow> bool" where
  "manager_ok L m \<equiv> manager.filed L m"

lemma manager_okD: "manager_ok L m \<Longrightarrow> m fp = Some lk \<Longrightarrow> fp = fingerprint_of_blob L (k_blob (lk_key lk))"
  unfolding manager.filed_def by (auto simp: Fingerprint_def)

lemma manager_ok_new [simp]: "manager_ok L NewIdentityManager"
  by (simp add: manager.filed_def NewIdentityManager_def)

lemma manager_ok_add: "manager_ok L m \<Longrightarrow> manager_ok L (AddIdentity L key t c a db e m)"
  by (simp add: AddIdentity_put manager.filed_add)

lemma manager_ok_remove: "manager_ok L m \<Longrightarrow> RemoveIdentity fp m = Some m' \<Longrightarrow> manager_ok L m'"
  by (auto simp: manager.filed_def RemoveIdentity_def split: if_splits)

lemma manager_ok_remove_all [simp]: "manager_ok L (RemoveAllIdentities m)"
  by (simp add: manager.filed_def RemoveAllIdentities_def)

lemma manager_ok_remove_db: "manager_ok L m \<Longrightarrow> manager_ok L (RemoveIdentitiesForDatabase order db m)"
  by (auto simp: manager.filed_def RemoveIdentitiesForDatabase_def remove_for_database_apply
      split: option.splits if_splits)

text \<open>Under the invariant the search by blob is the lookup by fingerprint, in every
  iteration order, for blobs whose fingerprint determines them.\<close>

definition fingerprint_injective :: "('sg, 'pk) ssh_lib \<Rightarrow> bytes set \<Rightarrow> bool" where
  "fingerprint_injective L B \<longleftrightarrow> inj_on (fingerprint_of_blob L) B"

lemma FindIdentityByBlob_SomeD:
  "FindIdentityByBlob order blob m = Some lk \<Longrightarrow> (\<exists>fp. m fp = Some lk) \<and> k_blob (lk_key lk) = blob"
  unfolding FindIdentityByBlob_def by (drule find_Some_in) (auto simp: in_map_values)

lemma FindIdentityByBlob_NoneD:
  "enumerates order m \<Longrightarrow> FindIdentityByBlob order blob m = None \<Longrightarrow> m fp = Some lk \<Longrightarrow> k_blob (lk_key lk) \<noteq> blob"
  unfolding FindIdentityByBlob_def find_None_iff_not
  by (metis equal_bytes_iff enumerates_set domI in_map_values)

lemma FindIdentityByBlob_filed:
  assumes "manager_ok L m" "enumerates order m"
  shows "FindIdentityByBlob order blob m
         = (case m (fingerprint_of_blob L blob) of None \<Rightarrow> None
            | Some lk \<Rightarrow> if k_blob (lk_key lk) = blob then Some lk else None)"
proof (cases "FindIdentityByBlob order blob m")
  case None
  then show ?thesis
    using FindIdentityByBlob_NoneD[OF assms(2) None] by (auto split: option.splits)
next
  case (Some lk)
  then obtain fp where fp: "m fp = Some lk" "k_blob (lk_key lk) = blob"
    using FindIdentityByBlob_SomeD by blast
  then have "fp = fingerprint_of_blob L blob"
    using manager_okD[OF assms(1) fp(1)] by simp
  then show ?thesis using Some fp by simp
qed

end
