(* ===== verification/Agent_Extract.thy ===== *)
theory Agent_Extract
  imports Agent_Keys
begin

text \<open>
  How SSH keys are found in a database: \<open>internal/sshagent/keeagent.go\<close>. An entry names
  its key by KeeAgent settings, in an attachment or in custom data, and otherwise the
  first attachment that looks like a private key and parses is taken. The XML decoder and
  the attachment decoder are parameters.
\<close>

section \<open>Settings\<close>

record location =
  selected_type :: string
  loc_attachment :: string
  loc_file_name :: string

record keeagent_settings =
  allow_use_of_ssh_key :: bool
  add_at_database_open :: bool
  remove_at_database_close :: bool
  key_location :: location

record attachment_lib =
  xml_settings :: "bytes \<Rightarrow> keeagent_settings option"
  content_bytes :: "binary \<Rightarrow> bytes option"

datatype extract_error = BinaryMissing | DecodeFailed | XmlFailed | AttachmentMissing | KeyParse key_error

definition settings_name :: string where
  "settings_name = ''KeeAgent.settings''"

definition ParseKeeAgentSettings :: "attachment_lib \<Rightarrow> entry \<Rightarrow> extract_error + keeagent_settings option" where
  "ParseKeeAgentSettings A e =
     (case List.find (\<lambda>cd. equal_fold (cd_key cd) settings_name) (e_custom_data (edata e)) of
        None \<Rightarrow> Ok None
      | Some cd \<Rightarrow> (case xml_settings A (bytes_of (cd_value cd)) of None \<Rightarrow> Err XmlFailed | Some s \<Rightarrow> Ok (Some s)))"

text \<open>\<open>Database.FindBinary\<close> of the library: the pool is in the inner header of a KDBX 4
  file and in the metadata of a KDBX 3 file.\<close>

definition binaries_of :: "database \<Rightarrow> binary list" where
  "binaries_of db =
     (case db_content db of None \<Rightarrow> []
      | Some c \<Rightarrow> if db_kdbx4 db then (case c_inner c of None \<Rightarrow> [] | Some bs \<Rightarrow> bs)
                 else (case c_meta c of None \<Rightarrow> [] | Some m \<Rightarrow> m_binaries m))"

definition find_binary :: "database \<Rightarrow> int \<Rightarrow> binary option" where
  "find_binary db n = List.find (\<lambda>b. b_id b = n) (binaries_of db)"

definition resolve_settings :: "attachment_lib \<Rightarrow> entry \<Rightarrow> database \<Rightarrow> extract_error + keeagent_settings option" where
  "resolve_settings A e db =
     (case List.find (\<lambda>r. equal_fold (ref_name r) settings_name) (e_binaries (edata e)) of
        None \<Rightarrow> Ok None
      | Some r \<Rightarrow>
          (case find_binary db (ref_id r) of
             None \<Rightarrow> Err BinaryMissing
           | Some b \<Rightarrow>
               (case content_bytes A b of
                  None \<Rightarrow> Err DecodeFailed
                | Some c \<Rightarrow> (case xml_settings A c of None \<Rightarrow> Err XmlFailed | Some s \<Rightarrow> Ok (Some s)))))"

section \<open>Attachments\<close>

definition attachment_name_matches :: "string \<Rightarrow> string \<Rightarrow> bool" where
  "attachment_name_matches got want \<longleftrightarrow>
     (if got = want \<or> equal_fold got want then True else equal_fold (path_base got) (path_base want))"

definition attachment_content :: "attachment_lib \<Rightarrow> database \<Rightarrow> int \<Rightarrow> extract_error + bytes" where
  "attachment_content A db n =
     (case find_binary db n of
        None \<Rightarrow> Err BinaryMissing
      | Some b \<Rightarrow> (case content_bytes A b of None \<Rightarrow> Err DecodeFailed | Some c \<Rightarrow> Ok c))"

definition private_key_markers :: "string list" where
  "private_key_markers =
     [''BEGIN OPENSSH PRIVATE KEY'', ''BEGIN RSA PRIVATE KEY'', ''BEGIN EC PRIVATE KEY'',
      ''BEGIN DSA PRIVATE KEY'', ''BEGIN PRIVATE KEY'']"

definition looks_like_private_key :: "bytes \<Rightarrow> bool" where
  "looks_like_private_key content \<longleftrightarrow>
     (let trimmed = bytes_of (trim_space (string_of content))
      in (\<exists>m \<in> set private_key_markers. contains_sub trimmed (bytes_of m)) \<or> prefix openssh_magic trimmed)"

text \<open>With the entry's password first, and without a passphrase when that fails.\<close>

definition parse_key_bytes :: "('sg, 'pk) ssh_lib \<Rightarrow> entry \<Rightarrow> bytes \<Rightarrow> key_error + ('sg, 'pk) ssh_key" where
  "parse_key_bytes L e content =
     (let pass = get_password e;
          first = ParsePrivateKey L content pass;
          res = (case first of Inl er \<Rightarrow> if pass \<noteq> [] then ParsePrivateKey L content [] else Err er | Inr k \<Rightarrow> Ok k)
      in case res of
           Inl er \<Rightarrow> Err er
         | Inr k \<Rightarrow> Ok (k\<lparr>k_comment := get_title e, k_entry_uuid := uuid_text (entry_uuid e)\<rparr>))"

definition parse_key_attachment ::
  "('sg, 'pk) ssh_lib \<Rightarrow> attachment_lib \<Rightarrow> entry \<Rightarrow> database \<Rightarrow> string \<Rightarrow> extract_error + ('sg, 'pk) ssh_key" where
  "parse_key_attachment L A e db name =
     (case List.find (\<lambda>r. attachment_name_matches (ref_name r) name) (e_binaries (edata e)) of
        None \<Rightarrow> Err AttachmentMissing
      | Some r \<Rightarrow>
          (case attachment_content A db (ref_id r) of
             Inl er \<Rightarrow> Err er
           | Inr c \<Rightarrow> (case parse_key_bytes L e c of Inl er \<Rightarrow> Err (KeyParse er) | Inr k \<Rightarrow> Ok k)))"

fun scan_attachments ::
  "('sg, 'pk) ssh_lib \<Rightarrow> attachment_lib \<Rightarrow> entry \<Rightarrow> database \<Rightarrow> binary_ref list \<Rightarrow> ('sg, 'pk) ssh_key option" where
  "scan_attachments L A e db [] = None"
| "scan_attachments L A e db (r # rs) =
     (if equal_fold (ref_name r) settings_name then scan_attachments L A e db rs
      else (case attachment_content A db (ref_id r) of
              Inl _ \<Rightarrow> scan_attachments L A e db rs
            | Inr c \<Rightarrow>
                if \<not> looks_like_private_key c then scan_attachments L A e db rs
                else (case parse_key_bytes L e c of
                        Inl _ \<Rightarrow> scan_attachments L A e db rs
                      | Inr k \<Rightarrow> Some k)))"

definition extract_key_from_any_attachment ::
  "('sg, 'pk) ssh_lib \<Rightarrow> attachment_lib \<Rightarrow> entry \<Rightarrow> database \<Rightarrow> ('sg, 'pk) ssh_key option" where
  "extract_key_from_any_attachment L A e db = scan_attachments L A e db (e_binaries (edata e))"

text \<open>Every path returns a nil error; a failed settings attachment falls through to the
  custom data. First the part of \<open>extractKeyFromEntryWithDB\<close> after the settings are
  known.\<close>

definition extract_with_settings ::
  "('sg, 'pk) ssh_lib \<Rightarrow> attachment_lib \<Rightarrow> entry \<Rightarrow> database \<Rightarrow> keeagent_settings \<Rightarrow> ('sg, 'pk) ssh_key option" where
  "extract_with_settings L A e db s =
     (if \<not> allow_use_of_ssh_key s then None
      else if selected_type (key_location s) = ''file'' then None
      else let name = loc_attachment (key_location s)
           in if name = [] then extract_key_from_any_attachment L A e db
              else (case List.find (\<lambda>r. attachment_name_matches (ref_name r) name) (e_binaries (edata e)) of
                      None \<Rightarrow> extract_key_from_any_attachment L A e db
                    | Some r \<Rightarrow>
                        (case parse_key_attachment L A e db (ref_name r) of
                           Inl _ \<Rightarrow> None
                         | Inr k \<Rightarrow> Some k)))"

text \<open>The settings in force: the attachment's, else the custom data's; an unreadable
  custom datum (\<open>Err\<close>) ends the search.\<close>

definition settings_in_force :: "attachment_lib \<Rightarrow> entry \<Rightarrow> database \<Rightarrow> extract_error + keeagent_settings option" where
  "settings_in_force A e db =
     (case resolve_settings A e db of
        Inr (Some s) \<Rightarrow> Ok (Some s)
      | _ \<Rightarrow> ParseKeeAgentSettings A e)"

definition ExtractKeyFromEntry ::
  "('sg, 'pk) ssh_lib \<Rightarrow> attachment_lib \<Rightarrow> entry \<Rightarrow> database \<Rightarrow> ('sg, 'pk) ssh_key option" where
  "ExtractKeyFromEntry L A e db =
     (case settings_in_force A e db of
        Inl _ \<Rightarrow> None
      | Inr (Some s) \<Rightarrow> extract_with_settings L A e db s
      | Inr None \<Rightarrow> extract_key_from_any_attachment L A e db)"

fun extract_keys_from_groups ::
  "('sg, 'pk) ssh_lib \<Rightarrow> attachment_lib \<Rightarrow> database \<Rightarrow> grp list \<Rightarrow> ('sg, 'pk) ssh_key list" where
  "extract_keys_from_groups L A db [] = []"
| "extract_keys_from_groups L A db (Group d es gs # rest) =
     List.map_filter (\<lambda>e. ExtractKeyFromEntry L A e db) es
     @ extract_keys_from_groups L A db gs @ extract_keys_from_groups L A db rest"

definition ExtractKeysFromDatabase ::
  "('sg, 'pk) ssh_lib \<Rightarrow> attachment_lib \<Rightarrow> database option \<Rightarrow> ('sg, 'pk) ssh_key list" where
  "ExtractKeysFromDatabase L A odb =
     (case odb of None \<Rightarrow> []
      | Some db \<Rightarrow> (case root_groups db of None \<Rightarrow> [] | Some gs \<Rightarrow> extract_keys_from_groups L A db gs))"

section \<open>Facts\<close>

lemma map_filter_append: "List.map_filter f (xs @ ys) = List.map_filter f xs @ List.map_filter f ys"
  by (simp add: map_filter_def)

lemma extract_keys_eq: "extract_keys_from_groups L A db gs = List.map_filter (\<lambda>e. ExtractKeyFromEntry L A e db) (all_entries gs)"
  by (induction L A db gs rule: extract_keys_from_groups.induct) (simp_all add: map_filter_append List.map_filter_simps)

text \<open>A key that comes out belongs to its entry: comment and entry UUID are the entry's.\<close>

definition key_of_entry :: "entry \<Rightarrow> ('sg, 'pk) ssh_key \<Rightarrow> bool" where
  "key_of_entry e k \<longleftrightarrow> k_comment k = get_title e \<and> k_entry_uuid k = uuid_text (entry_uuid e)"

lemma parse_key_bytes_of_entry: "parse_key_bytes L e c = Ok k \<Longrightarrow> key_of_entry e k"
  by (auto simp: parse_key_bytes_def key_of_entry_def Let_def split: sum.splits if_splits)

lemma scan_attachments_of_entry: "scan_attachments L A e db rs = Some k \<Longrightarrow> key_of_entry e k"
  by (induction rs) (auto split: if_splits sum.splits dest: parse_key_bytes_of_entry)

lemma parse_key_attachment_of_entry: "parse_key_attachment L A e db n = Ok k \<Longrightarrow> key_of_entry e k"
  by (auto simp: parse_key_attachment_def split: option.splits sum.splits dest: parse_key_bytes_of_entry)

lemmas key_of_entry_dests =
  parse_key_bytes_of_entry scan_attachments_of_entry parse_key_attachment_of_entry

lemma extract_any_of_entry: "extract_key_from_any_attachment L A e db = Some k \<Longrightarrow> key_of_entry e k"
  unfolding extract_key_from_any_attachment_def by (rule scan_attachments_of_entry)

lemma extract_with_settings_of_entry: "extract_with_settings L A e db s = Some k \<Longrightarrow> key_of_entry e k"
  unfolding extract_with_settings_def Let_def
  by (simp split: sum.splits option.splits if_splits add: extract_any_of_entry parse_key_attachment_of_entry)

lemma ExtractKeyFromEntry_of_entry: "ExtractKeyFromEntry L A e db = Some k \<Longrightarrow> key_of_entry e k"
  unfolding ExtractKeyFromEntry_def
  by (simp split: sum.splits option.splits add: extract_any_of_entry extract_with_settings_of_entry)

text \<open>Settings that disable the entry are final: no heuristic brings its key back.\<close>

lemma disabled_entry_no_key:
  assumes "settings_in_force A e db = Ok (Some s)" and "\<not> allow_use_of_ssh_key s"
  shows "ExtractKeyFromEntry L A e db = None"
  using assms by (simp add: ExtractKeyFromEntry_def extract_with_settings_def)

end
