(* ===== verification/Agent_Server.thy ===== *)
theory Agent_Server
  imports Agent_Extract
begin

text \<open>
  The agent server of \<open>internal/sshagent/server.go\<close>: the dispatch of a message, its
  handlers, the loop of a connection and the callbacks of the database pool. The state is
  the identity manager's map; the iteration order of the map is an argument of the
  handlers that range over it.
\<close>

section \<open>Signature flags\<close>

definition SSHAgentSignFlagReserved :: u32 where "SSHAgentSignFlagReserved = 1"
definition SSHAgentSignFlagRSASHA256 :: u32 where "SSHAgentSignFlagRSASHA256 = 2"
definition SSHAgentSignFlagRSASHA512 :: u32 where "SSHAgentSignFlagRSASHA512 = 4"

definition KeyAlgoRSASHA256 :: string where "KeyAlgoRSASHA256 = ''rsa-sha2-256''"
definition KeyAlgoRSASHA512 :: string where "KeyAlgoRSASHA512 = ''rsa-sha2-512''"

datatype server_error =
    UnknownMessage byte
  | BadKeyBlob
  | BadData
  | TruncatedFlags
  | TrailingBytes
  | KeyNotFound
  | ReservedFlag
  | ConflictingFlags
  | UnsupportedFlags u32
  | NoAlgorithmSigner
  | SigningFailed

definition signature_algorithm_for_flags :: "u32 \<Rightarrow> server_error + string" where
  "signature_algorithm_for_flags flags =
     (if flags AND SSHAgentSignFlagReserved \<noteq> 0 then Err ReservedFlag
      else let rsa256 = (flags AND SSHAgentSignFlagRSASHA256 \<noteq> 0);
               rsa512 = (flags AND SSHAgentSignFlagRSASHA512 \<noteq> 0);
               known = SSHAgentSignFlagReserved OR SSHAgentSignFlagRSASHA256 OR SSHAgentSignFlagRSASHA512
           in if rsa256 \<and> rsa512 then Err ConflictingFlags
              else if flags AND NOT known \<noteq> 0 then Err (UnsupportedFlags flags)
              else if rsa256 then Ok KeyAlgoRSASHA256
              else if rsa512 then Ok KeyAlgoRSASHA512
              else Ok [])"

section \<open>Handlers\<close>

definition handle_list_identities :: "string list \<Rightarrow> ('sg, 'pk) identities \<Rightarrow> bytes" where
  "handle_list_identities order m =
     (let keys = ListIdentities order m
      in encode_identities_answer (map (k_blob \<circ> lk_key) keys) (map (k_comment \<circ> lk_key) keys))"

text \<open>The flags of a sign request are optional; when present they are exactly four bytes.\<close>

definition parse_sign_flags :: "bytes \<Rightarrow> server_error + u32" where
  "parse_sign_flags rest =
     (if length rest = 0 then Ok 0
      else if length rest < 4 then Err TruncatedFlags
      else (case decode_uint32 rest of
              None \<Rightarrow> Err TruncatedFlags
            | Some (flags, rest') \<Rightarrow> if length rest' \<noteq> 0 then Err TrailingBytes else Ok flags))"

definition sign_with_flags ::
  "('sg, 'pk) ssh_lib \<Rightarrow> ('sg, 'pk) loaded_key \<Rightarrow> bytes \<Rightarrow> u32 \<Rightarrow> server_error + bytes" where
  "sign_with_flags L lk dat flags =
     (case signature_algorithm_for_flags flags of
        Inl e \<Rightarrow> Err e
      | Inr alg \<Rightarrow>
          if alg \<noteq> [] then
            (case Option.bind (k_signer (lk_key lk)) (lib_sign_algorithm L) of
               None \<Rightarrow> Err NoAlgorithmSigner
             | Some sign \<Rightarrow> (case sign dat alg of None \<Rightarrow> Err SigningFailed | Some sig \<Rightarrow> Ok sig))
          else (case Sign L (lk_key lk) dat of Inl _ \<Rightarrow> Err SigningFailed | Inr sig \<Rightarrow> Ok sig))"

definition sign_response :: "bytes \<Rightarrow> bytes" where
  "sign_response sig = encode_string [SSHAgentSignResponse] sig"

definition handle_sign_request ::
  "('sg, 'pk) ssh_lib \<Rightarrow> string list \<Rightarrow> bytes \<Rightarrow> ('sg, 'pk) identities \<Rightarrow> server_error + bytes" where
  "handle_sign_request L order payload m =
     (case decode_string payload of
        None \<Rightarrow> Err BadKeyBlob
      | Some (blob, rest) \<Rightarrow>
          (case decode_string rest of
             None \<Rightarrow> Err BadData
           | Some (dat, rest') \<Rightarrow>
               (case parse_sign_flags rest' of
                  Inl e \<Rightarrow> Err e
                | Inr flags \<Rightarrow>
                    (case FindIdentityByBlob order blob m of
                       None \<Rightarrow> Err KeyNotFound
                     | Some lk \<Rightarrow>
                         (case sign_with_flags L lk dat flags of
                            Inl e \<Rightarrow> Err e
                          | Inr sig \<Rightarrow> Ok (sign_response sig))))))"

definition handle_add_identity :: "bytes \<Rightarrow> bool \<Rightarrow> bytes" where
  "handle_add_identity payload constrained = [SSHAgentFailure]"

definition handle_remove_identity ::
  "('sg, 'pk) ssh_lib \<Rightarrow> string list \<Rightarrow> bytes \<Rightarrow> ('sg, 'pk) identities \<Rightarrow> bytes \<times> ('sg, 'pk) identities" where
  "handle_remove_identity L order payload m =
     (case decode_string payload of
        None \<Rightarrow> ([SSHAgentFailure], m)
      | Some (blob, rest) \<Rightarrow>
          if length rest \<noteq> 0 then ([SSHAgentFailure], m)
          else (case FindIdentityByBlob order blob m of
                  None \<Rightarrow> ([SSHAgentFailure], m)
                | Some lk \<Rightarrow>
                    ([SSHAgentSuccess],
                     (case RemoveIdentity (Fingerprint L (lk_key lk)) m of None \<Rightarrow> m | Some m' \<Rightarrow> m'))))"

definition handle_remove_all_identities :: "('sg, 'pk) identities \<Rightarrow> bytes \<times> ('sg, 'pk) identities" where
  "handle_remove_all_identities m = ([SSHAgentSuccess], RemoveAllIdentities m)"

definition process_message ::
  "('sg, 'pk) ssh_lib \<Rightarrow> string list \<Rightarrow> bytes \<Rightarrow> ('sg, 'pk) identities
     \<Rightarrow> (server_error + bytes) \<times> ('sg, 'pk) identities" where
  "process_message L order msg m =
     (let (t, payload) = decode_message_type msg
      in if t = SSHAgentCRequestIdentities then (Ok (handle_list_identities order m), m)
         else if t = SSHAgentCSignRequest then (handle_sign_request L order payload m, m)
         else if t = SSHAgentCExtension then (Ok [SSHAgentFailure], m)
         else if t = SSHAgentCAddIdentity then (Ok (handle_add_identity payload False), m)
         else if t = SSHAgentCAddIdConstrained then (Ok (handle_add_identity payload True), m)
         else if t = SSHAgentCRemoveIdentity then
           (let (r, m') = handle_remove_identity L order payload m in (Ok r, m'))
         else if t = SSHAgentCRemoveAllIdentities then
           (let (r, m') = handle_remove_all_identities m in (Ok r, m'))
         else if t = SSHAgentCRemoveAllRsaIdentities then (Ok [SSHAgentSuccess], m)
         else (Err (UnknownMessage t), m))"

section \<open>A connection\<close>

text \<open>
  \<open>handleConn\<close> on the bytes a client sends. Before the k-th message the other goroutines
  may change the manager (\<open>world\<close>), the context may be done (\<open>stop\<close>), and the reply may
  fail to be written (\<open>writable\<close>). The result is what the client receives.
\<close>

record ('sg, 'pk) conn_env =
  ce_order :: "nat \<Rightarrow> ('sg, 'pk) identities \<Rightarrow> string list"
  ce_world :: "nat \<Rightarrow> ('sg, 'pk) identities \<Rightarrow> ('sg, 'pk) identities"
  ce_stop :: "nat \<Rightarrow> bool"
  ce_writable :: "nat \<Rightarrow> bool"

lemma read_message_shorter: "read_message r = Ok (msg, rest) \<Longrightarrow> length rest < length r"
  by (auto simp: read_message_def read_full_def Let_def split: if_splits sum.splits)

function handle_conn ::
  "('sg, 'pk) ssh_lib \<Rightarrow> ('sg, 'pk) conn_env \<Rightarrow> nat \<Rightarrow> bytes \<Rightarrow> ('sg, 'pk) identities
     \<Rightarrow> bytes \<times> ('sg, 'pk) identities" where
  "handle_conn L E k inp m =
     (if ce_stop E k then ([], m)
      else (case read_message inp of
              Inl _ \<Rightarrow> ([], m)
            | Inr (msg, rest) \<Rightarrow>
                (let m1 = ce_world E k m
                 in case process_message L (ce_order E k m1) msg m1 of
                      (Inl _, m2) \<Rightarrow> (write_failure, m2)
                    | (Inr resp, m2) \<Rightarrow>
                        if ce_writable E k then
                          (let (out, m3) = handle_conn L E (Suc k) rest m2 in (write_message resp @ out, m3))
                        else ([], m2))))"
  by pat_completeness auto
termination
  by (relation "measure (\<lambda>(L, E, k, inp, m). length inp)") (auto dest: read_message_shorter)

declare handle_conn.simps [simp del]

section \<open>Callbacks of the database pool\<close>

text \<open>\<open>uint32(s.config.Lifetime)\<close> wraps around.\<close>

definition loaded_from_config :: "ssh_agent_config \<Rightarrow> string \<Rightarrow> ('sg, 'pk) ssh_key \<Rightarrow> ('sg, 'pk) loaded_key" where
  "loaded_from_config cfg db key =
     (let key = key\<lparr>k_db_uuid := db\<rparr>
      in \<lparr>lk_key = key, lk_lifetime = word_of_int (ssh_lifetime cfg), lk_confirm = ssh_confirm_on_use cfg,
          lk_auto_remove = ssh_remove_on_lock cfg, lk_db_uuid = db, lk_entry_uuid = k_entry_uuid key\<rparr>)"

fun add_keys :: "('sg, 'pk) ssh_lib \<Rightarrow> ssh_agent_config \<Rightarrow> string \<Rightarrow> ('sg, 'pk) ssh_key list
    \<Rightarrow> ('sg, 'pk) identities \<Rightarrow> ('sg, 'pk) identities" where
  "add_keys L cfg db [] m = m"
| "add_keys L cfg db (key # keys) m =
     (let key' = key\<lparr>k_db_uuid := db\<rparr>
      in add_keys L cfg db keys
           (AddIdentity L key' (word_of_int (ssh_lifetime cfg)) (ssh_confirm_on_use cfg)
              (ssh_remove_on_lock cfg) db (k_entry_uuid key') m))"

definition OnDatabaseUnlocked ::
  "('sg, 'pk) ssh_lib \<Rightarrow> attachment_lib \<Rightarrow> ssh_agent_config \<Rightarrow> string \<Rightarrow> database option
     \<Rightarrow> ('sg, 'pk) identities \<Rightarrow> ('sg, 'pk) identities" where
  "OnDatabaseUnlocked L A cfg db_uuid odb m =
     (if \<not> ssh_enabled cfg then m
      else add_keys L cfg db_uuid (ExtractKeysFromDatabase L A odb) m)"

definition OnDatabaseLocked ::
  "string list \<Rightarrow> ssh_agent_config \<Rightarrow> string \<Rightarrow> ('sg, 'pk) identities \<Rightarrow> ('sg, 'pk) identities" where
  "OnDatabaseLocked order cfg db_uuid m =
     (if \<not> ssh_enabled cfg then m else RemoveIdentitiesForDatabase order db_uuid m)"

section \<open>Facts about the handlers\<close>

lemma process_message_ok:
  "manager_ok L m \<Longrightarrow> manager_ok L (snd (process_message L order msg m))"
  by (auto simp: process_message_def handle_remove_identity_def handle_remove_all_identities_def Let_def
      split: prod.splits option.splits dest: manager_ok_remove)

text \<open>The message numbers are distinct.\<close>

lemma message_numbers_simps [simp]:
  "SSHAgentCSignRequest \<noteq> SSHAgentCRequestIdentities"
  "SSHAgentCRemoveIdentity \<noteq> SSHAgentCRequestIdentities" "SSHAgentCRemoveIdentity \<noteq> SSHAgentCSignRequest"
  "SSHAgentCRemoveIdentity \<noteq> SSHAgentCExtension" "SSHAgentCRemoveIdentity \<noteq> SSHAgentCAddIdentity"
  "SSHAgentCRemoveIdentity \<noteq> SSHAgentCAddIdConstrained"
  by (simp_all add: message_numbers)

lemma Option_bind_Some: "Option.bind x f = Some y \<longleftrightarrow> (\<exists>z. x = Some z \<and> f z = Some y)"
  by (cases x) auto

text \<open>What a successful signature says of the key that made it.\<close>

lemma sign_with_flags_OkD:
  assumes "sign_with_flags L lk dat flags = Ok sig"
  shows "\<exists>alg sg. signature_algorithm_for_flags flags = Ok alg \<and> k_signer (lk_key lk) = Some sg
           \<and> (if alg = [] then lib_sign L sg dat = Some sig
              else (\<exists>f. lib_sign_algorithm L sg = Some f \<and> f dat alg = Some sig))"
  using assms
  by (auto simp: sign_with_flags_def Sign_def Option_bind_Some split: sum.splits if_splits option.splits)

lemma add_keys_fold:
  "add_keys L cfg db keys m = fold (put_loaded L) (map (loaded_from_config cfg db) keys) m"
  by (induction keys arbitrary: m) (simp_all add: AddIdentity_put loaded_from_config_def Let_def)

lemma bound_loaded_from_config: "bound_to (loaded_from_config cfg db k) db' \<longleftrightarrow> db = db' \<and> ssh_remove_on_lock cfg"
  by (auto simp: bound_to_def loaded_from_config_def Let_def)

lemma Fingerprint_loaded_from_config [simp]:
  "Fingerprint L (lk_key (loaded_from_config cfg db k)) = Fingerprint L k"
  by (simp add: loaded_from_config_def Fingerprint_def Let_def)

lemma encode_identities_prefix: "\<exists>tail. encode_identities buf blobs comments = buf @ tail"
  by (induction buf blobs comments rule: encode_identities.induct)
    (auto simp: Let_def encode_string_def encode_uint32_def)

lemma encode_identities_answer_first: "take 1 (encode_identities_answer blobs comments) = [SSHAgentIdentitiesAnswer]"
  using encode_identities_prefix[of "encode_uint32 [SSHAgentIdentitiesAnswer] (word_of_nat (length blobs))" blobs comments]
  by (auto simp: encode_identities_answer_def encode_uint32_def)

lemma small_word: "(f :: u32) AND NOT 7 = 0 \<Longrightarrow> f \<in> {0, 1, 2, 3, 4, 5, 6, 7}"
proof -
  assume h: "f AND NOT 7 = 0"
  have seven: "(7 :: u32) = mask 3" by (simp add: mask_eq_exp_minus_1)
  have "f = (f AND 7) OR (f AND NOT 7)"
    by (simp flip: bit.conj_disj_distrib)
  then have "f = take_bit 3 f" using h by (simp add: seven take_bit_eq_mask)
  then have "unat f = take_bit 3 (unat f)" by (metis unsigned_take_bit_eq)
  then have "unat f < 2 ^ 3" by (metis take_bit_nat_less_exp)
  then have "unat f \<in> {0, 1, 2, 3, 4, 5, 6, 7}" by auto
  moreover have "n \<in> {0, 1, 2, 3, 4, 5, 6, 7} \<Longrightarrow> (word_of_nat n :: u32) \<in> {0, 1, 2, 3, 4, 5, 6, 7}" for n
    by auto
  ultimately have "(word_of_nat (unat f) :: u32) \<in> {0, 1, 2, 3, 4, 5, 6, 7}" by blast
  then show ?thesis by simp
qed

section \<open>Properties of the agent server\<close>

text \<open>A small instance of the parameters, for the concrete runs below: the digest pads to
  32 bytes and a signature is the data itself.\<close>

definition sample_lib :: "(unit, unit) ssh_lib" where
  "sample_lib =
     \<lparr>lib_sha256 = \<lambda>b. take 32 (b @ replicate 32 0), lib_parse_raw = \<lambda>_ _. Ok (),
      lib_crypto_signer = \<lambda>_. True, lib_new_signer = \<lambda>_. Some (), lib_public = \<lambda>_. (''ssh-ed25519'', [1]),
      lib_pem_decode = \<lambda>_. None, lib_parse_public = \<lambda>b. Some (''ssh-ed25519'', b),
      lib_sign = \<lambda>_ dat. Some dat, lib_sign_algorithm = \<lambda>_. None,
      lib_generate = \<lambda>_. Some (), lib_marshal_private = \<lambda>_. Some []\<rparr>"

definition sample_loaded :: "(unit, unit) loaded_key" where
  "sample_loaded =
     \<lparr>lk_key = (blank_key ''ssh-ed25519'' [1])\<lparr>k_signer := Some (), k_private := Some ()\<rparr>, lk_lifetime = 0,
      lk_confirm = False, lk_auto_remove = True, lk_db_uuid = ''db'', lk_entry_uuid = ''e''\<rparr>"

definition sample_fp :: string where
  "sample_fp = fingerprint_of_blob sample_lib [1]"

definition sample_identities :: "(unit, unit) identities" where
  "sample_identities = [sample_fp \<mapsto> sample_loaded]"

lemma sample_facts [simp]:
  "manager_ok sample_lib sample_identities" "enumerates [sample_fp] sample_identities"
  "k_blob (lk_key sample_loaded) = [1]" "k_signer (lk_key sample_loaded) = Some ()"
  "sample_identities sample_fp = Some sample_loaded" "fingerprint_of_blob sample_lib [1] = sample_fp"
  "lib_sign sample_lib () dat = Some dat"
  unfolding manager.filed_def
  by (auto simp: sample_identities_def sample_loaded_def sample_fp_def sample_lib_def Fingerprint_def
      blank_key_def enumerates_def)

lemma sample_flags [simp]: "signature_algorithm_for_flags 0 = Ok []"
  by (simp add: signature_algorithm_for_flags_def)

lemma sample_sign [simp]: "sign_with_flags sample_lib sample_loaded dat 0 = Ok dat"
  by (simp add: sign_with_flags_def Sign_def)

text \<open>The signature flags are decided exactly: of all 32-bit flag words only 0, 2 and 4
  are accepted, and they select the key's own algorithm, RSA-SHA256 and RSA-SHA512.\<close>

theorem signature_algorithm_exact:
  "signature_algorithm_for_flags flags = Ok alg \<longleftrightarrow>
     (flags = 0 \<and> alg = []) \<or> (flags = 2 \<and> alg = ''rsa-sha2-256'') \<or> (flags = 4 \<and> alg = ''rsa-sha2-512'')"
proof -
  note defs = signature_algorithm_for_flags_def SSHAgentSignFlagReserved_def
    SSHAgentSignFlagRSASHA256_def SSHAgentSignFlagRSASHA512_def KeyAlgoRSASHA256_def KeyAlgoRSASHA512_def
  show ?thesis
  proof (cases "flags AND NOT 7 = 0")
    case True
    from small_word[OF this] show ?thesis by (auto simp: defs)
  next
    case False
    then have "flags \<noteq> 0" "flags \<noteq> 2" "flags \<noteq> 4" by auto
    with False show ?thesis by (auto simp: defs Let_def)
  qed
qed

text \<open>C7. A well-formed sign request is answered from the key whose fingerprint the blob has,
  whatever order the map is searched in: with the signature of exactly the data sent, under
  the algorithm the flags select, or with the error of the step that failed.\<close>

theorem sign_request_spec:
  assumes "manager_ok L m" and "enumerates order m"
    and "length blob + length dat + 12 < 2 ^ 32"
  shows "handle_sign_request L order (encode_string [] blob @ encode_string [] dat @ put_uint32 flags) m
         = (case m (fingerprint_of_blob L blob) of
              Some lk \<Rightarrow>
                if k_blob (lk_key lk) = blob
                then (case sign_with_flags L lk dat flags of Inl e \<Rightarrow> Err e | Inr sig \<Rightarrow> Ok (sign_response sig))
                else Err KeyNotFound
            | None \<Rightarrow> Err KeyNotFound)"
proof -
  have "parse_sign_flags (put_uint32 flags) = Ok flags"
    by (simp add: parse_sign_flags_def decode_uint32_def)
  then show ?thesis
    using assms(3)
    by (simp add: handle_sign_request_def decode_encode_string FindIdentityByBlob_filed[OF assms(1,2)]
        split: option.splits)
qed

lemma sign_request_spec_witness:
  "handle_sign_request sample_lib [sample_fp] (encode_string [] [1] @ encode_string [] [5, 6] @ put_uint32 0)
     sample_identities = Ok (sign_response [5, 6])"
  using sign_request_spec[of sample_lib sample_identities "[sample_fp]" "[1]" "[5, 6]" 0] by simp

text \<open>C6. No signature without a loaded key: whenever a message is answered with a sign
  response, the message was a sign request, and the signature was made over the data of that
  request by the signer of an identity that is loaded under the requested blob.\<close>

theorem sign_response_only_from_loaded_key:
  assumes "process_message L order msg m = (Ok resp, m')"
    and "take 1 resp = [SSHAgentSignResponse]"
  shows "\<exists>blob dat tail lk fp flags sg sig alg.
           msg = SSHAgentCSignRequest # encode_string [] blob @ encode_string [] dat @ tail
           \<and> parse_sign_flags tail = Ok flags \<and> signature_algorithm_for_flags flags = Ok alg
           \<and> m fp = Some lk \<and> k_blob (lk_key lk) = blob \<and> k_signer (lk_key lk) = Some sg
           \<and> (if alg = [] then lib_sign L sg dat = Some sig
              else (\<exists>f. lib_sign_algorithm L sg = Some f \<and> f dat alg = Some sig))
           \<and> resp = sign_response sig \<and> m' = m"
proof -
  obtain t payload where msg: "msg = t # payload \<or> msg = [] \<and> t = 0 \<and> payload = []"
      "decode_message_type msg = (t, payload)"
    by (cases msg) (auto simp: decode_message_type_def)
  have t: "t = SSHAgentCSignRequest" and h: "handle_sign_request L order payload m = Ok resp" and m': "m' = m"
    using assms(1,2) msg(2)
    by (auto simp: process_message_def handle_list_identities_def encode_identities_answer_first[simplified]
        handle_add_identity_def handle_remove_identity_def handle_remove_all_identities_def Let_def
        message_numbers split: if_splits option.splits prod.splits)
  then have m: "msg = SSHAgentCSignRequest # payload"
    using msg(1) by (auto simp: message_numbers)
  from h obtain blob rest dat tail flags lk sig where
    d: "decode_string payload = Some (blob, rest)" "decode_string rest = Some (dat, tail)"
    and f: "parse_sign_flags tail = Ok flags" and lk: "FindIdentityByBlob order blob m = Some lk"
    and sig: "sign_with_flags L lk dat flags = Ok sig" "resp = sign_response sig"
    by (auto simp: handle_sign_request_def split: option.splits sum.splits)
  have "payload = encode_string [] blob @ encode_string [] dat @ tail"
    using decode_string_exactD[OF d(1)] decode_string_exactD[OF d(2)] by simp
  then show ?thesis
    using m f lk sig m' sign_with_flags_OkD[OF sig(1)] FindIdentityByBlob_SomeD[OF lk] by fast
qed

lemma process_message_map_le: "snd (process_message L order msg m) \<subseteq>\<^sub>m m"
  by (auto simp: process_message_def handle_remove_identity_def handle_remove_all_identities_def Let_def
      RemoveIdentity_def RemoveAllIdentities_def map_le_def split: prod.splits option.splits if_splits)

lemma handle_conn_step:
  assumes "\<not> ce_stop E k" "read_message inp = Ok (msg, rest)"
  shows "handle_conn L E k inp m
         = (let m1 = ce_world E k m
            in case process_message L (ce_order E k m1) msg m1 of
                 (Inl _, m2) \<Rightarrow> (write_failure, m2)
               | (Inr resp, m2) \<Rightarrow>
                   if ce_writable E k then
                     (let (out, m3) = handle_conn L E (Suc k) rest m2 in (write_message resp @ out, m3))
                   else ([], m2))"
  by (subst handle_conn.simps) (simp add: assms)

lemma handle_conn_empty: "handle_conn L E k [] m = ([], m)"
  by (subst handle_conn.simps) (simp add: read_message_def read_full_def)

lemma sample_request:
  "process_message sample_lib [sample_fp] (SSHAgentCSignRequest # encode_string [] [1] @ encode_string [] [5])
     sample_identities = (Ok (sign_response [5]), sample_identities)"
proof -
  have "decode_string (encode_string [] [5]) = Some ([5], [])"
    using decode_encode_string[of "[5]" "[]"] by simp
  then show ?thesis
    by (simp add: process_message_def decode_message_type_def handle_sign_request_def decode_encode_string
        parse_sign_flags_def FindIdentityByBlob_filed[of sample_lib])
qed

lemma sign_response_only_from_loaded_key_witness:
  "\<exists>lk fp sg. sample_identities fp = Some lk \<and> k_signer (lk_key lk) = Some sg
     \<and> process_message sample_lib [sample_fp] (SSHAgentCSignRequest # encode_string [] [1] @ encode_string [] [5])
         sample_identities = (Ok (sign_response [5]), sample_identities)"
proof -
  have "take 1 (sign_response [5]) = [SSHAgentSignResponse]"
    by (simp add: sign_response_def encode_string_def encode_uint32_def)
  from sign_response_only_from_loaded_key[OF sample_request this] sample_request
  show ?thesis by blast
qed

text \<open>A connection never adds or alters an identity: after any bytes from a client, in
  any iteration order and however the connection ends, the loaded identities are a subset
  of those before, and each is still filed under its fingerprint.\<close>

theorem handle_conn_only_removes:
  assumes "\<And>k m. ce_world E k m = m"
  shows "snd (handle_conn L E k inp m) \<subseteq>\<^sub>m m
         \<and> (manager_ok L m \<longrightarrow> manager_ok L (snd (handle_conn L E k inp m)))"
  using assms
proof (induction L E k inp m rule: handle_conn.induct)
  case (1 L E k inp m)
  note world = 1(2)
  show ?case
  proof (cases "ce_stop E k \<or> (\<exists>e. read_message inp = Err e)")
    case True
    then show ?thesis by (auto simp: handle_conn.simps[of L E k inp m])
  next
    case False
    then obtain msg rest where run: "\<not> ce_stop E k" "read_message inp = Ok (msg, rest)"
      by (cases "read_message inp") auto
    obtain res m2 where p: "process_message L (ce_order E k m) msg m = (res, m2)" by fastforce
    then have m2: "m2 \<subseteq>\<^sub>m m" "manager_ok L m \<longrightarrow> manager_ok L m2"
      using process_message_map_le[of L "ce_order E k m" msg m]
        process_message_ok[of L m "ce_order E k m" msg] by simp_all
    note step = handle_conn_step[OF run, of L m] world[of k m] p
    show ?thesis
    proof (cases "\<exists>resp. res = Ok resp \<and> ce_writable E k")
      case go: True
      then obtain resp where r: "res = Ok resp" "ce_writable E k" by blast
      have "snd (handle_conn L E (Suc k) rest m2) \<subseteq>\<^sub>m m2
          \<and> (manager_ok L m2 \<longrightarrow> manager_ok L (snd (handle_conn L E (Suc k) rest m2)))"
        by (rule 1(1)[OF run(1) run(2) refl refl _ _ r(2) world]) (simp_all add: p r world)
      then show ?thesis
        using m2 r step by (auto split: prod.splits intro: map_le_trans)
    next
      case stop: False
      then show ?thesis
        using m2 step by (cases res) auto
    qed
  qed
qed

lemma handle_conn_only_removes_witness:
  "snd (handle_conn sample_lib \<lparr>ce_order = \<lambda>_ _. [sample_fp], ce_world = \<lambda>_ m. m, ce_stop = \<lambda>_. False,
      ce_writable = \<lambda>_. True\<rparr> 0 (write_message [SSHAgentCRemoveAllIdentities]) sample_identities)
   \<subseteq>\<^sub>m sample_identities"
  using handle_conn_only_removes[of "\<lparr>ce_order = \<lambda>_ _. [sample_fp], ce_world = \<lambda>_ m. m, ce_stop = \<lambda>_. False,
      ce_writable = \<lambda>_. True\<rparr>" sample_lib 0 "write_message [SSHAgentCRemoveAllIdentities]" sample_identities]
  by simp

text \<open>The reference reading of a session: answer the messages in order until one fails.\<close>

fun serve_all ::
  "('sg, 'pk) ssh_lib \<Rightarrow> (('sg, 'pk) identities \<Rightarrow> string list) \<Rightarrow> bytes list \<Rightarrow> ('sg, 'pk) identities
     \<Rightarrow> bytes list \<times> ('sg, 'pk) identities" where
  "serve_all L order [] m = ([], m)"
| "serve_all L order (msg # msgs) m =
     (case process_message L (order m) msg m of
        (Inl _, m') \<Rightarrow> ([[SSHAgentFailure]], m')
      | (Inr resp, m') \<Rightarrow> (let (out, m'') = serve_all L order msgs m' in (resp # out, m'')))"

text \<open>C34. Pipelined requests are answered one by one and in order: on a connection that
  stays writable and undisturbed, the bytes sent back for a sequence of framed messages are
  the framed answers of the reference reading.\<close>

theorem handle_conn_pipelined:
  assumes "\<forall>msg \<in> set msgs. msg \<noteq> [] \<and> length msg \<le> 8388608"
  shows "handle_conn L \<lparr>ce_order = \<lambda>_. order, ce_world = \<lambda>_ m. m, ce_stop = \<lambda>_. False, ce_writable = \<lambda>_. True\<rparr>
           k (concat (map write_message msgs)) m
         = (concat (map write_message (fst (serve_all L order msgs m))), snd (serve_all L order msgs m))"
  using assms
proof (induction msgs arbitrary: k m)
  case Nil
  then show ?case by (simp add: handle_conn_empty)
next
  case (Cons msg msgs)
  let ?rest = "concat (map write_message msgs)"
  have "read_message (write_message msg @ ?rest) = Ok (msg, ?rest)"
    using Cons.prems by (simp add: read_message_written)
  then show ?case
    using Cons.IH Cons.prems
    by (simp add: handle_conn_step write_failure_def split: prod.splits sum.splits)
qed

lemma handle_conn_pipelined_witness:
  "fst (handle_conn sample_lib \<lparr>ce_order = \<lambda>_ _. [sample_fp], ce_world = \<lambda>_ m. m, ce_stop = \<lambda>_. False,
      ce_writable = \<lambda>_. True\<rparr> 0 (write_message [SSHAgentCExtension] @ write_message [SSHAgentCRemoveAllIdentities])
      sample_identities)
   = write_message [SSHAgentFailure] @ write_message [SSHAgentSuccess]"
proof -
  have "serve_all sample_lib (\<lambda>_. [sample_fp]) [[SSHAgentCExtension], [SSHAgentCRemoveAllIdentities]] sample_identities
      = ([[SSHAgentFailure], [SSHAgentSuccess]], Map.empty)"
    by (simp add: process_message_def decode_message_type_def message_numbers handle_remove_all_identities_def
        RemoveAllIdentities_def)
  then show ?thesis
    using handle_conn_pipelined[of "[[SSHAgentCExtension], [SSHAgentCRemoveAllIdentities]]" sample_lib
        "\<lambda>_. [sample_fp]" 0 sample_identities]
    by (simp add: message_numbers)
qed

lemma OnDatabaseLocked_drops:
  "enumerates order m \<Longrightarrow> ssh_enabled cfg \<Longrightarrow> OnDatabaseLocked order cfg db m = delete_where (\<lambda>_ lk. bound_to lk db) m"
  by (simp add: OnDatabaseLocked_def RemoveIdentitiesForDatabase_eq)

text \<open>After an unlock the identities not among the keys of the database are the ones before,
  and those among them are bound to the database exactly when keys are removed on lock.\<close>

lemma OnDatabaseUnlocked_look:
  assumes "ssh_enabled cfg"
  shows "if f \<in> Fingerprint L ` set (ExtractKeysFromDatabase L A odb)
         then \<exists>lk. OnDatabaseUnlocked L A cfg db odb m f = Some lk \<and> (bound_to lk db \<longleftrightarrow> ssh_remove_on_lock cfg)
         else OnDatabaseUnlocked L A cfg db odb m f = m f"
proof -
  let ?ks = "map (loaded_from_config cfg db) (ExtractKeysFromDatabase L A odb)"
  have look: "OnDatabaseUnlocked L A cfg db odb m f
      = (case List.find (\<lambda>lk. Fingerprint L (lk_key lk) = f) (rev ?ks) of None \<Rightarrow> m f | Some lk \<Rightarrow> Some lk)"
    using assms manager.look_add_all[of L ?ks m f] by (simp add: OnDatabaseUnlocked_def add_keys_fold)
  show ?thesis
  proof (cases "List.find (\<lambda>lk. Fingerprint L (lk_key lk) = f) (rev ?ks)")
    case None
    then have "f \<notin> Fingerprint L ` set (ExtractKeysFromDatabase L A odb)" by (auto simp: find_None_iff_not)
    with None look show ?thesis by simp
  next
    case (Some lk)
    then have "lk \<in> set ?ks" "Fingerprint L (lk_key lk) = f" using find_Some_in by fastforce+
    then have "f \<in> Fingerprint L ` set (ExtractKeysFromDatabase L A odb)" "bound_to lk db \<longleftrightarrow> ssh_remove_on_lock cfg"
      by (auto simp: bound_loaded_from_config)
    with Some look show ?thesis by simp
  qed
qed

text \<open>C9. What is left of the identities after a database was unlocked and locked again.
  With the agent disabled, all of them as they were. Otherwise an identity whose fingerprint
  is among the keys of the database is gone when keys are removed on lock, and stays loaded
  when they are not; every other identity is as before, except that one already bound to the
  database is dropped.\<close>

theorem unlock_then_lock:
  assumes "m1 = OnDatabaseUnlocked L A cfg db odb m" and "enumerates order m1"
  shows "OnDatabaseLocked order cfg db m1 f
         = (if \<not> ssh_enabled cfg then m f
            else if f \<in> Fingerprint L ` set (ExtractKeysFromDatabase L A odb)
                 then (if ssh_remove_on_lock cfg then None else m1 f)
            else (case m f of None \<Rightarrow> None | Some lk \<Rightarrow> if bound_to lk db then None else Some lk))
         \<and> (ssh_enabled cfg \<longrightarrow> f \<in> Fingerprint L ` set (ExtractKeysFromDatabase L A odb) \<longrightarrow> m1 f \<noteq> None)"
proof (cases "ssh_enabled cfg")
  case True
  note look = OnDatabaseUnlocked_look[OF True, of f L A odb db m, folded assms(1)]
  show ?thesis
    unfolding OnDatabaseLocked_drops[OF assms(2) True] manager.look_drop
    using look True by (auto split: if_splits)
qed (simp add: assms(1) OnDatabaseUnlocked_def OnDatabaseLocked_def)

text \<open>A database with one entry, whose one attachment is a private key.\<close>

definition sample_key_entry :: entry where
  "sample_key_entry =
     Entry \<lparr>e_uuid = 3, e_foreground_color = [], e_background_color = [], e_override_url = [], e_tags = [],
            e_times = \<lparr>creation_time = None, last_modification_time = None, last_access_time = None\<rparr>, e_values = [],
            e_binaries = [\<lparr>ref_name = ''id'', ref_id = 0\<rparr>], e_custom_data = []\<rparr> []"

definition sample_key_database :: database where
  "sample_key_database =
     \<lparr>db_credentials = None, db_kdbx4 = True,
      db_content = Some \<lparr>c_raw = [], c_inner = Some [\<lparr>b_id = 0, b_content = openssh_magic, b_compressed = False\<rparr>], c_meta = None,
        c_root = Some \<lparr>r_groups = [Group \<lparr>g_uuid = 1, g_name = ''Root'', g_notes = [], g_last_top_visible_entry = [],
            g_times = \<lparr>creation_time = None, last_modification_time = None, last_access_time = None\<rparr>\<rparr> [sample_key_entry] []],
          r_deleted = []\<rparr>\<rparr>\<rparr>"

definition sample_plain :: attachment_lib where
  "sample_plain = \<lparr>xml_settings = \<lambda>_. None, content_bytes = \<lambda>b. Some (b_content b)\<rparr>"

lemma sample_key_extracted:
  "map (Fingerprint sample_lib) (ExtractKeysFromDatabase sample_lib sample_plain (Some sample_key_database)) = [sample_fp]"
  by code_simp

lemma unlock_then_lock_witness:
  "\<exists>m1. m1 = OnDatabaseUnlocked sample_lib sample_plain (cfg_ssh_agent DefaultConfig) ''db'' (Some sample_key_database) Map.empty
     \<and> m1 sample_fp \<noteq> None \<and> OnDatabaseLocked [sample_fp] (cfg_ssh_agent DefaultConfig) ''db'' m1 sample_fp = None"
proof -
  let ?cfg = "cfg_ssh_agent DefaultConfig"
  let ?m = "OnDatabaseUnlocked sample_lib sample_plain ?cfg ''db'' (Some sample_key_database) Map.empty"
  have keys: "Fingerprint sample_lib ` set (ExtractKeysFromDatabase sample_lib sample_plain (Some sample_key_database)) = {sample_fp}"
    using sample_key_extracted by (metis list.set(1,2) set_map)
  have on: "ssh_enabled ?cfg" "ssh_remove_on_lock ?cfg" by (simp_all add: DefaultConfig_def)
  have "?m f \<noteq> None \<longleftrightarrow> f = sample_fp" for f
    using OnDatabaseUnlocked_look[OF on(1), of f sample_lib sample_plain "Some sample_key_database" "''db''" Map.empty]
    unfolding keys by (cases "f = sample_fp") auto
  then have "enumerates [sample_fp] ?m" by (auto simp: enumerates_def dom_def)
  from unlock_then_lock[OF refl this, of sample_fp] show ?thesis unfolding keys using on by auto
qed

end
