(* ===== verification/Pool_Update.thy ===== *)
theory Pool_Update
  imports Pool Database_File
begin

text \<open>
  \<open>UpdateAndSave\<close> on an object of the pool: whatever the mutation and however the save
  ends, the object keeps its identity and its root, so the update is a step of the pool's
  machine.
\<close>

section \<open>Updates keep the pool's invariant\<close>

definition keeps_root :: "save_lib \<Rightarrow> bool" where
  "keeps_root L \<longleftrightarrow>
     (\<forall>db. rooted db \<longrightarrow> rooted (snd (sl_lock_entries L db)) \<and> rooted (snd (sl_unlock_entries L db)))"

definition same_object :: "open_database \<Rightarrow> open_database \<Rightarrow> bool" where
  "same_object od od' \<longleftrightarrow> (\<exists>db fp. od' = od\<lparr>od_db := Some db, od_fingerprint := fp\<rparr> \<and> rooted db)"

lemma rooted_with_root: "rooted db \<Longrightarrow> rooted (with_root r db)"
  by (auto simp: rooted_def root_of_def with_root_def split: option.splits)

lemma same_objectI: "od' = od\<lparr>od_db := Some db\<rparr> \<Longrightarrow> rooted db \<Longrightarrow> same_object od od'"
  unfolding same_object_def by (rule exI[of _ db], rule exI[of _ "od_fingerprint od"]) simp

lemma saveLocked_object:
  assumes "saveLocked L io short db od s = (e, od', s')" "rooted db" "keeps_root L"
  shows "same_object od od'"
proof -
  have "rooted (snd (sl_lock_entries L db))" "rooted (snd (sl_unlock_entries L (snd (sl_lock_entries L db))))"
    using assms(2,3) by (auto simp: keeps_root_def)
  with assms(1,2) show ?thesis
    by (auto simp: saveLocked_def split: prod.splits sum.splits bool.splits intro: same_objectI)
      (auto simp: same_object_def)
qed

lemma restore_object:
  assumes "same_object od od'"
  shows "same_object od (restore_root r od')"
proof -
  from assms obtain db fp where od': "od' = od\<lparr>od_db := Some db, od_fingerprint := fp\<rparr>" "rooted db"
    by (auto simp: same_object_def)
  show ?thesis
  proof (cases r)
    case (Some root)
    then have "restore_root r od' = od\<lparr>od_db := Some (with_root root db), od_fingerprint := fp\<rparr>"
      by (simp add: restore_root_def od')
    with rooted_with_root[OF od'(2)] show ?thesis unfolding same_object_def by blast
  qed (use assms in \<open>simp add: restore_root_def\<close>)
qed

lemma update_object:
  assumes "UpdateAndSave L io short rnd mutate od s = (err, od', s')" "od_db od = Some db" "rooted db"
    and "rooted (snd (mutate db))" "keeps_root L"
  shows "od' = od \<or> same_object od od' \<and> \<not> od_locked od"
  using assms(1,2)
proof (cases rule: UpdateAndSave_cases)
  case (mutation e)
  have "\<not> od_locked od" using assms(1,2) mutation by (auto simp: UpdateAndSave_def)
  then show ?thesis using mutation assms(4) by (auto intro: same_objectI)
next
  case (saving e od1 s1)
  from saveLocked_object[OF saving(3) assms(4,5)] saving(5,6) restore_object show ?thesis by auto
qed simp_all

text \<open>An update of an object of the pool is a step of the pool, or none.\<close>

lemma update_pool:
  assumes "UpdateAndSave L io short rnd mutate od d = (err, od', d')" "pool_ok p" "pl_heap p r = Some od" "keeps_root L"
    and "\<And>db. rooted db \<Longrightarrow> rooted (snd (mutate db))"
  shows "p\<lparr>pl_heap := (pl_heap p)(r \<mapsto> od')\<rparr> = p \<or> pool_step PL p (p\<lparr>pl_heap := (pl_heap p)(r \<mapsto> od')\<rparr>)"
proof (cases "od_db od")
  case None
  then have "od' = od" using assms(1) by (simp add: UpdateAndSave_def)
  with assms(3) show ?thesis by (simp add: fun_upd_idem)
next
  case db: (Some db)
  have "rooted db" using pool_okD(2)[OF assms(2,3)] db by (auto simp: object_ok_def split: if_splits)
  from update_object[OF assms(1) db this assms(5)[OF this] assms(4)] show ?thesis
  proof
    assume "od' = od"
    with assms(3) show ?thesis by (simp add: fun_upd_idem)
  next
    assume u: "same_object od od' \<and> \<not> od_locked od"
    then obtain db2 fp where "od' = od\<lparr>od_db := Some db2, od_fingerprint := fp\<rparr>" "rooted db2"
      by (auto simp: same_object_def)
    with pool_update[OF assms(3), of db2 PL fp] u show ?thesis by simp
  qed
qed

end
