(* ===== verification/Daemon_API.thy ===== *)
theory Daemon_API
  imports Secret_Items Agent_Server Pool_Update
begin

text \<open>
  The interface \<open>org.keepassxc.Daemon\<close> (\<open>internal/dbusapi/dbusapi.go\<close>): who may call it,
  its methods on databases, entries and SSH keys, and what storing an SSH key does to a
  database. The handler holds the pool, the configuration it was made with and the agent's
  identity manager, none when the agent was not running at that time.

  \<open>Get\<close> of the pool yields a reference; every UUID of the pool names an object on its heap,
  so the case of a dangling reference, joined with the unknown UUID, does not arise.
\<close>

section \<open>Access\<close>

record ('sg, 'pk) api =
  ap_conn :: bool
  ap_pool :: pool
  ap_config :: config
  ap_agent :: "('sg, 'pk) identities option"

text \<open>What the bus knows of a sender, and the daemon's own user.\<close>

record bus_env =
  bu_uid_of :: "string \<Rightarrow> u32 option"
  bu_self :: u32

datatype api_error =
    NoConnection
  | UnknownUser
  | OtherUser
  | BadPassword
  | SecureStringFailed
  | BadKeyfile
  | UnsupportedCredential string
  | OpenFailure pool_error
  | LockFailure pool_error
  | NoDatabase
  | DatabaseIsLocked
  | NoEntry string
  | EmptyQuery
  | NotImplemented
  | NoAgent
  | NotAnSshEntry
  | GenerateFailure key_error
  | ParseFailure key_error
  | SaveFailure
  | ExportDisabled
  | NoKeyWith string
  | SignFailure

definition authorize :: "bus_env \<Rightarrow> ('sg, 'pk) api \<Rightarrow> string \<Rightarrow> api_error option" where
  "authorize B a sender =
     (if \<not> ap_conn a \<and> sender = [] then None
      else if \<not> ap_conn a then Some NoConnection
      else case bu_uid_of B sender of
             None \<Rightarrow> Some UnknownUser
           | Some uid \<Rightarrow> if uid \<noteq> bu_self B then Some OtherUser else None)"

definition Ping :: string where
  "Ping = ''pong''"

text \<open>\<open>Introspect\<close>: a node with the standard interface and the daemon's own. \<open>standard\<close> is
  the description of the first that comes with godbus, \<open>describe\<close> its reflection on the methods
  of the handler that answer with a bus error, and \<open>render\<close> the text of a node.\<close>

definition api_method_names :: "string list" where
  "api_method_names =
     [''AssertPasskey'', ''CreatePasskey'', ''GeneratePassphrase'', ''GeneratePassword'', ''GetEntry'', ''GetTotp'',
      ''Introspect'', ''ListDatabases'', ''LockAll'', ''LockDatabase'', ''Ping'', ''SearchEntries'', ''SshAddKey'',
      ''SshExportKey'', ''SshGenerateKey'', ''SshImportKey'', ''SshListKeys'', ''SshRemoveKey'', ''SshScanDatabase'',
      ''SshTestSign'', ''UnlockDatabase'']"

definition API_Introspect :: "'i \<Rightarrow> (string \<Rightarrow> string list \<Rightarrow> 'i) \<Rightarrow> (string \<Rightarrow> 'i list \<Rightarrow> string) \<Rightarrow> string" where
  "API_Introspect standard describe render =
     render ''/org/keepassxc/Daemon'' [standard, describe ''org.keepassxc.Daemon'' api_method_names]"

section \<open>Databases\<close>

record database_info =
  di_uuid :: string
  di_name :: string
  di_path :: string
  di_locked :: bool
  di_auto_unlock :: bool

definition objects_of :: "pool \<Rightarrow> ref list \<Rightarrow> open_database list" where
  "objects_of p rs = List.map_filter (pl_heap p) rs"

definition API_ListDatabases ::
  "bus_env \<Rightarrow> string list \<Rightarrow> string \<Rightarrow> ('sg, 'pk) api \<Rightarrow> api_error + database_info list" where
  "API_ListDatabases B order sender a =
     (case authorize B a sender of
        Some e \<Rightarrow> Err e
      | None \<Rightarrow>
          Ok (map (\<lambda>od. \<lparr>di_uuid = od_uuid od, di_name = od_name od, di_path = od_path od, di_locked = od_locked od,
                         di_auto_unlock = False\<rparr>)
                (objects_of (ap_pool a) (ListDatabases order (ap_pool a)))))"

definition api_credential :: "(nat \<Rightarrow> bool) \<Rightarrow> string \<Rightarrow> dbus_variant \<Rightarrow> api_error + credential" where
  "api_credential mlock t v =
     (if t = ''password'' then
        (case v of
           VString pw \<Rightarrow> (case NewSecureString mlock pw of None \<Rightarrow> Err SecureStringFailed
                          | Some ss \<Rightarrow> Ok (PasswordCredential (Some ss)))
         | _ \<Rightarrow> Err BadPassword)
      else if t = ''keyfile'' then (case v of VString path \<Rightarrow> Ok (KeyfileCredential path) | _ \<Rightarrow> Err BadKeyfile)
      else if t = ''none'' then Ok blank_credential
      else Err (UnsupportedCredential t))"

text \<open>\<open>content\<close> and \<open>fp\<close> are what the file system answers to \<open>Open\<close>.\<close>

definition UnlockDatabase ::
  "bus_env \<Rightarrow> pool_lib \<Rightarrow> (nat \<Rightarrow> bool) \<Rightarrow> bytes option \<Rightarrow> file_fingerprint option \<Rightarrow> string \<Rightarrow> string \<Rightarrow> string
     \<Rightarrow> dbus_variant \<Rightarrow> ('sg, 'pk) api \<Rightarrow> (api_error + bool) \<times> ('sg, 'pk) api" where
  "UnlockDatabase B PL mlock content fp sender path t v a =
     (case authorize B a sender of
        Some e \<Rightarrow> (Err e, a)
      | None \<Rightarrow>
          (case api_credential mlock t v of
             Inl e \<Rightarrow> (Err e, a)
           | Inr cred \<Rightarrow>
               (case Open PL content fp path cred (ap_pool a) of
                  (Inl e, p) \<Rightarrow> (Err (OpenFailure e), a\<lparr>ap_pool := p\<rparr>)
                | (Inr _, p) \<Rightarrow> (Ok True, a\<lparr>ap_pool := p\<rparr>))))"

definition LockDatabase ::
  "bus_env \<Rightarrow> string \<Rightarrow> string \<Rightarrow> ('sg, 'pk) api \<Rightarrow> ((api_error + bool) \<times> ('sg, 'pk) api) run" where
  "LockDatabase B sender uuid a =
     (case authorize B a sender of
        Some e \<Rightarrow> Returned (Err e, a)
      | None \<Rightarrow>
          (case Pool.Lock uuid (ap_pool a) of
             Panicked \<Rightarrow> Panicked
           | Returned (Some e, p) \<Rightarrow> Returned (Err (LockFailure e), a\<lparr>ap_pool := p\<rparr>)
           | Returned (None, p) \<Rightarrow> Returned (Ok True, a\<lparr>ap_pool := p\<rparr>)))"

definition API_LockAll ::
  "bus_env \<Rightarrow> string list \<Rightarrow> string \<Rightarrow> ('sg, 'pk) api \<Rightarrow> ((api_error + bool) \<times> ('sg, 'pk) api) run" where
  "API_LockAll B order sender a =
     (case authorize B a sender of
        Some e \<Rightarrow> Returned (Err e, a)
      | None \<Rightarrow>
          (case LockAll order (ap_pool a) of
             Panicked \<Rightarrow> Panicked
           | Returned (Some e, p) \<Rightarrow> Returned (Err (LockFailure e), a\<lparr>ap_pool := p\<rparr>)
           | Returned (None, p) \<Rightarrow> Returned (Ok True, a\<lparr>ap_pool := p\<rparr>)))"

section \<open>Entries\<close>

text \<open>\<open>findEntryByPath\<close> compares the path with whole titles and user names.\<close>

definition findEntryByPath :: "open_database \<Rightarrow> string \<Rightarrow> entry option" where
  "findEntryByPath od path =
     List.find (\<lambda>e. get_title e = path \<or> get_content e ''UserName'' = path) (RootEntries od)"

definition matchesQuery :: "entry \<Rightarrow> string \<Rightarrow> bool" where
  "matchesQuery e query \<longleftrightarrow>
     (let q = to_lower query
      in contains_sub (to_lower (get_title e)) q \<or> contains_sub (to_lower (get_content e ''UserName'')) q
         \<or> contains_sub (to_lower (get_content e ''URL'')) q)"

text \<open>The start the methods on one database share: the object, unless it is locked.\<close>

definition unlocked_object :: "string \<Rightarrow> pool \<Rightarrow> api_error + ref \<times> open_database" where
  "unlocked_object uuid p =
     (case Get uuid p of
        None \<Rightarrow> Err NoDatabase
      | Some r \<Rightarrow>
          (case pl_heap p r of
             None \<Rightarrow> Err NoDatabase
           | Some od \<Rightarrow> if od_locked od then Err DatabaseIsLocked else Ok (r, od)))"

definition entry_fields :: "entry \<Rightarrow> (string \<rightharpoonup> string)" where
  "entry_fields e =
     [''title'' \<mapsto> get_title e, ''username'' \<mapsto> get_content e ''UserName'', ''url'' \<mapsto> get_content e ''URL'',
      ''uuid'' \<mapsto> string_of (uuid_bytes (entry_uuid e))]"

definition GetEntry :: "bus_env \<Rightarrow> string \<Rightarrow> string \<Rightarrow> string \<Rightarrow> ('sg, 'pk) api \<Rightarrow> api_error + (string \<rightharpoonup> string)" where
  "GetEntry B sender uuid path a =
     (case authorize B a sender of
        Some e \<Rightarrow> Err e
      | None \<Rightarrow>
          (case unlocked_object uuid (ap_pool a) of
             Inl e \<Rightarrow> Err e
           | Inr (_, od) \<Rightarrow>
               (case findEntryByPath od path of None \<Rightarrow> Err (NoEntry path) | Some e \<Rightarrow> Ok (entry_fields e))))"

text \<open>The databases a method with an optional UUID works on; locked ones are skipped.\<close>

definition searched_objects :: "string list \<Rightarrow> string \<Rightarrow> pool \<Rightarrow> api_error + open_database list" where
  "searched_objects order uuid p =
     (if uuid \<noteq> [] then
        (case Option.bind (Get uuid p) (pl_heap p) of
           None \<Rightarrow> Err NoDatabase
         | Some od \<Rightarrow> Ok (filter (\<lambda>od. \<not> od_locked od) [od]))
      else Ok (filter (\<lambda>od. \<not> od_locked od) (objects_of p (ListDatabases order p))))"

definition API_SearchEntries ::
  "bus_env \<Rightarrow> string list \<Rightarrow> string \<Rightarrow> string \<Rightarrow> string \<Rightarrow> ('sg, 'pk) api \<Rightarrow> api_error + (string \<rightharpoonup> string) list" where
  "API_SearchEntries B order sender uuid query a =
     (case authorize B a sender of
        Some e \<Rightarrow> Err e
      | None \<Rightarrow>
          if trim_space query = [] then Err EmptyQuery
          else (case searched_objects order uuid (ap_pool a) of
                  Inl e \<Rightarrow> Err e
                | Inr ods \<Rightarrow>
                    Ok (concat (map (\<lambda>od. map (\<lambda>e. (entry_fields e)(''dbuuid'' \<mapsto> od_uuid od))
                          (filter (\<lambda>e. matchesQuery e query) (RootEntries od))) ods))))"

text \<open>The methods that only refuse: \<open>GetTotp\<close>, \<open>GeneratePassword\<close>, \<open>GeneratePassphrase\<close>,
  \<open>CreatePasskey\<close>, \<open>AssertPasskey\<close>, and \<open>SshExportKey\<close>.\<close>

definition not_implemented :: "bus_env \<Rightarrow> string \<Rightarrow> ('sg, 'pk) api \<Rightarrow> api_error" where
  "not_implemented B sender a = (case authorize B a sender of Some e \<Rightarrow> e | None \<Rightarrow> NotImplemented)"

definition SshExportKey :: "bus_env \<Rightarrow> string \<Rightarrow> ('sg, 'pk) api \<Rightarrow> api_error" where
  "SshExportKey B sender a = (case authorize B a sender of Some e \<Rightarrow> e | None \<Rightarrow> ExportDisabled)"

section \<open>SSH keys\<close>

record ssh_key_info =
  si_fingerprint :: string
  si_comment :: string
  si_type :: string
  si_entry :: string
  si_db_uuid :: string

definition SshListKeys ::
  "bus_env \<Rightarrow> ('sg, 'pk) ssh_lib \<Rightarrow> string list \<Rightarrow> string \<Rightarrow> string \<Rightarrow> ('sg, 'pk) api \<Rightarrow> api_error + ssh_key_info list" where
  "SshListKeys B L order sender uuid a =
     (case authorize B a sender of
        Some e \<Rightarrow> Err e
      | None \<Rightarrow>
          (case ap_agent a of
             None \<Rightarrow> Err NoAgent
           | Some m \<Rightarrow>
               Ok (map (\<lambda>lk. \<lparr>si_fingerprint = Fingerprint L (lk_key lk), si_comment = k_comment (lk_key lk),
                              si_type = k_format (lk_key lk), si_entry = k_entry_uuid (lk_key lk), si_db_uuid = lk_db_uuid lk\<rparr>)
                     (filter (\<lambda>lk. uuid = [] \<or> lk_db_uuid lk = uuid) (ListIdentities order m)))))"

definition SshAddKey ::
  "bus_env \<Rightarrow> ('sg, 'pk) ssh_lib \<Rightarrow> attachment_lib \<Rightarrow> string \<Rightarrow> string \<Rightarrow> string \<Rightarrow> u32 \<Rightarrow> bool \<Rightarrow> ('sg, 'pk) api
     \<Rightarrow> (api_error + bool) \<times> ('sg, 'pk) api" where
  "SshAddKey B L A sender uuid path lifetime confirm a =
     (case authorize B a sender of
        Some e \<Rightarrow> (Err e, a)
      | None \<Rightarrow>
          (case ap_agent a of
             None \<Rightarrow> (Err NoAgent, a)
           | Some m \<Rightarrow>
               (case unlocked_object uuid (ap_pool a) of
                  Inl e \<Rightarrow> (Err e, a)
                | Inr (_, od) \<Rightarrow>
                    (case findEntryByPath od path of
                       None \<Rightarrow> (Err (NoEntry path), a)
                     | Some e \<Rightarrow>
                         (case Option.bind (od_db od) (ExtractKeyFromEntry L A e) of
                            None \<Rightarrow> (Err NotAnSshEntry, a)
                          | Some key \<Rightarrow>
                              (let key' = key\<lparr>k_db_uuid := od_uuid od\<rparr>
                               in (Ok True,
                                   a\<lparr>ap_agent := Some (AddIdentity L key' lifetime confirm
                                        (ssh_remove_on_lock (cfg_ssh_agent (ap_config a))) (od_uuid od) (k_entry_uuid key') m)\<rparr>)))))))"

record scanned_key =
  sk_title :: string
  sk_uuid :: string
  sk_type :: string
  sk_fingerprint :: string
  sk_db_uuid :: string
  sk_db_name :: string

definition scan_object :: "('sg, 'pk) ssh_lib \<Rightarrow> attachment_lib \<Rightarrow> open_database \<Rightarrow> scanned_key list" where
  "scan_object L A od =
     List.map_filter (\<lambda>e. case Option.bind (od_db od) (ExtractKeyFromEntry L A e) of
           None \<Rightarrow> None
         | Some key \<Rightarrow>
             Some \<lparr>sk_title = get_title e, sk_uuid = uuid_hex (entry_uuid e), sk_type = k_format key,
                   sk_fingerprint = Fingerprint L key, sk_db_uuid = od_uuid od, sk_db_name = od_name od\<rparr>)
       (RootEntries od)"

definition SshScanDatabase ::
  "bus_env \<Rightarrow> ('sg, 'pk) ssh_lib \<Rightarrow> attachment_lib \<Rightarrow> string list \<Rightarrow> string \<Rightarrow> string \<Rightarrow> ('sg, 'pk) api
     \<Rightarrow> api_error + scanned_key list" where
  "SshScanDatabase B L A order sender uuid a =
     (case authorize B a sender of
        Some e \<Rightarrow> Err e
      | None \<Rightarrow>
          (case searched_objects order uuid (ap_pool a) of
             Inl e \<Rightarrow> Err e
           | Inr ods \<Rightarrow> Ok (concat (map (scan_object L A) ods))))"

definition SshTestSign ::
  "bus_env \<Rightarrow> ('sg, 'pk) ssh_lib \<Rightarrow> string \<Rightarrow> string \<Rightarrow> bytes \<Rightarrow> ('sg, 'pk) api \<Rightarrow> api_error + bytes" where
  "SshTestSign B L sender fp dat a =
     (case authorize B a sender of
        Some e \<Rightarrow> Err e
      | None \<Rightarrow>
          (case ap_agent a of
             None \<Rightarrow> Err NoAgent
           | Some m \<Rightarrow>
               (case FindIdentityByFingerprint fp m of
                  None \<Rightarrow> Err (NoKeyWith fp)
                | Some lk \<Rightarrow> (case Sign L (lk_key lk) dat of Inl _ \<Rightarrow> Err SignFailure | Inr sig \<Rightarrow> Ok sig))))"

definition SshRemoveKey :: "bus_env \<Rightarrow> string \<Rightarrow> string \<Rightarrow> ('sg, 'pk) api \<Rightarrow> (api_error + bool) \<times> ('sg, 'pk) api" where
  "SshRemoveKey B sender fp a =
     (case authorize B a sender of
        Some e \<Rightarrow> (Err e, a)
      | None \<Rightarrow>
          (case ap_agent a of
             None \<Rightarrow> (Err NoAgent, a)
           | Some m \<Rightarrow>
               (case RemoveIdentity fp m of
                  None \<Rightarrow> (Err (NoKeyWith fp), a)
                | Some m' \<Rightarrow> (Ok True, a\<lparr>ap_agent := Some m'\<rparr>))))"

section \<open>Storing a key in a database\<close>

text \<open>\<open>ks_pack\<close> is the encoding of an attachment in a KDBX 3 file; \<open>ks_marshal\<close> is
  \<open>xml.Marshal\<close> on settings.\<close>

record key_store_lib =
  ks_pack :: "bytes \<Rightarrow> bytes"
  ks_marshal :: "keeagent_settings \<Rightarrow> string option"

text \<open>\<open>NilAttachments\<close> is the panic of the library on a database without the header or
  metadata that holds its attachments.\<close>

datatype store_error = NoRootGroup | SettingsUnwritable | NilAttachments

text \<open>\<open>Binaries.Add\<close> of the library: equal stored content is shared, and a new attachment
  gets the number after the last one.\<close>

definition add_attachment :: "bytes \<Rightarrow> binary \<Rightarrow> binary list \<Rightarrow> binary \<times> binary list" where
  "add_attachment c fresh bs =
     (case List.find (\<lambda>b. b_content b = c) bs of
        Some b \<Rightarrow> (b, bs)
      | None \<Rightarrow>
          (let b = fresh\<lparr>b_id := (if bs = [] then 0 else b_id (last bs) + 1)\<rparr>
           in (b, bs @ [b])))"

definition AddBinary :: "key_store_lib \<Rightarrow> bytes \<Rightarrow> database \<Rightarrow> (binary \<times> database) option" where
  "AddBinary K c db =
     (case db_content db of
        None \<Rightarrow> None
      | Some ct \<Rightarrow>
          if db_kdbx4 db then
            (case c_inner ct of
               None \<Rightarrow> None
             | Some bs \<Rightarrow>
                 (let (b, bs') = add_attachment c \<lparr>b_id = 0, b_content = c, b_compressed = False\<rparr> bs
                  in Some (b, db\<lparr>db_content := Some (ct\<lparr>c_inner := Some bs'\<rparr>)\<rparr>)))
          else
            (case c_meta ct of
               None \<Rightarrow> None
             | Some m \<Rightarrow>
                 (let (b, bs') = add_attachment c \<lparr>b_id = 0, b_content = ks_pack K c, b_compressed = True\<rparr> (m_binaries m)
                  in Some (b, db\<lparr>db_content := Some (ct\<lparr>c_meta := Some (m\<lparr>m_binaries := bs'\<rparr>)\<rparr>)\<rparr>))))"

text \<open>The loops that overwrite the first element with a property, or append one.\<close>

fun put_first :: "('a \<Rightarrow> bool) \<Rightarrow> ('a \<Rightarrow> 'a) \<Rightarrow> 'a \<Rightarrow> 'a list \<Rightarrow> 'a list" where
  "put_first P f new [] = [new]"
| "put_first P f new (x # xs) = (if P x then f x # xs else x # put_first P f new xs)"

definition ssh_key_name :: string where
  "ssh_key_name = ''ssh-key''"

definition put_reference :: "int \<Rightarrow> entry \<Rightarrow> entry" where
  "put_reference i =
     (let r = \<lparr>ref_name = ssh_key_name, ref_id = i\<rparr>
      in set_data (\<lambda>d. d\<lparr>e_binaries := put_first (\<lambda>r. ref_name r = ssh_key_name) (\<lambda>_. r) r (e_binaries d)\<rparr>))"

definition put_settings :: "string \<Rightarrow> entry \<Rightarrow> entry" where
  "put_settings xml =
     set_data (\<lambda>d. d\<lparr>e_custom_data := put_first (\<lambda>c. equal_fold (cd_key c) settings_name) (\<lambda>c. c\<lparr>cd_value := xml\<rparr>)
       \<lparr>cd_key = settings_name, cd_value = xml\<rparr> (e_custom_data d)\<rparr>)"

definition put_comment :: "string \<Rightarrow> entry \<Rightarrow> entry" where
  "put_comment comment e =
     (if comment = [] then e
      else set_data (\<lambda>d. d\<lparr>e_values := put_first (\<lambda>v. v_key v = ''Notes'') (\<lambda>v. v\<lparr>v_content := comment\<rparr>)
             \<lparr>v_key = ''Notes'', v_content = comment, v_protected = False\<rparr> (e_values d)\<rparr>) e)"

text \<open>The settings both methods write.\<close>

definition stored_key_settings :: keeagent_settings where
  "stored_key_settings =
     \<lparr>allow_use_of_ssh_key = True, add_at_database_open = True, remove_at_database_close = True,
      key_location = \<lparr>selected_type = ''attachment'', loc_attachment = ssh_key_name, loc_file_name = []\<rparr>\<rparr>"

text \<open>The first entry with the title in the groups directly under the root, not below.\<close>

fun find_titled :: "grp list \<Rightarrow> string \<Rightarrow> entry_ptr option" where
  "find_titled [] title = None"
| "find_titled (g # gs) title =
     (case index_where (\<lambda>e. get_title e = title) (g_entries g) of
        Some i \<Rightarrow> Some ([0], i)
      | None \<Rightarrow> map_option in_next (find_titled gs title))"

definition titled_entry :: "uuid \<Rightarrow> int \<Rightarrow> string \<Rightarrow> entry" where
  "titled_entry u now title =
     set_data (\<lambda>d. d\<lparr>e_values := e_values d @ [\<lparr>v_key = ''Title'', v_content = title, v_protected = False\<rparr>]\<rparr>) (NewEntry u now)"

text \<open>The entry the key goes to, and where it is: the titled one, or a new one at the end of
  the first group.\<close>

definition store_target :: "uuid \<Rightarrow> int \<Rightarrow> string \<Rightarrow> grp \<Rightarrow> grp list \<Rightarrow> grp list \<times> entry_ptr \<times> entry" where
  "store_target u now title g gs =
     (case Option.bind (find_titled (g # gs) title) (\<lambda>ptr. map_option (Pair ptr) (entry_ref (g # gs) ptr)) of
        Some (ptr, e) \<Rightarrow> (g # gs, ptr, e)
      | None \<Rightarrow>
          (let e = titled_entry u now title
           in (append_entry (g # gs) [0] e, ([0], length (g_entries g)), e)))"

text \<open>The mutation of \<open>SshGenerateKey\<close>, and of \<open>SshImportKey\<close> with no comment.\<close>
definition store_ssh_key ::
  "key_store_lib \<Rightarrow> uuid \<Rightarrow> int \<Rightarrow> string \<Rightarrow> bytes \<Rightarrow> string \<Rightarrow> database \<Rightarrow> store_error option \<times> database" where
  "store_ssh_key K u now title content comment db =
     (case root_groups db of
        None \<Rightarrow> (Some NoRootGroup, db)
      | Some [] \<Rightarrow> (Some NoRootGroup, db)
      | Some (g # gs) \<Rightarrow>
          (let (tree, ptr, e) = store_target u now title g gs; db1 = with_groups tree db
           in case AddBinary K content db1 of
                None \<Rightarrow> (Some NilAttachments, db1)
              | Some (b, db2) \<Rightarrow>
                  (let e1 = put_reference (b_id b) e
                   in case ks_marshal K stored_key_settings of
                        None \<Rightarrow> (Some SettingsUnwritable, with_groups (entry_store tree ptr e1) db2)
                      | Some xml \<Rightarrow>
                          (None, with_groups (entry_store tree ptr (put_comment comment (put_settings xml e1))) db2))))"

definition store_in_database ::
  "write_env \<Rightarrow> (database \<Rightarrow> store_error option \<times> database) \<Rightarrow> ref \<Rightarrow> open_database \<Rightarrow> ('sg, 'pk) api \<Rightarrow> sys
     \<Rightarrow> ((api_error + bool) \<times> ('sg, 'pk) api \<times> sys) run" where
  "store_in_database W mutate r od a d =
     (let (err, od', d') = UpdateAndSave (we_save W) (we_io W) (we_short W) (we_backup W) mutate od d;
          a' = a\<lparr>ap_pool := (ap_pool a)\<lparr>pl_heap := (pl_heap (ap_pool a))(r \<mapsto> od')\<rparr>\<rparr>
      in case err of
           None \<Rightarrow> Returned (Ok True, a', d')
         | Some (MutateError NilAttachments) \<Rightarrow> Panicked
         | Some _ \<Rightarrow> Returned (Err SaveFailure, a', d'))"

definition SshGenerateKey ::
  "bus_env \<Rightarrow> ('sg, 'pk) ssh_lib \<Rightarrow> key_store_lib \<Rightarrow> write_env \<Rightarrow> string \<Rightarrow> string \<Rightarrow> string \<Rightarrow> string \<Rightarrow> u32 \<Rightarrow> string
     \<Rightarrow> ('sg, 'pk) api \<Rightarrow> sys \<Rightarrow> ((api_error + bool) \<times> ('sg, 'pk) api \<times> sys) run" where
  "SshGenerateKey B L K W sender uuid path keyType bits comment a d =
     (case authorize B a sender of
        Some e \<Rightarrow> Returned (Err e, a, d)
      | None \<Rightarrow>
          (case unlocked_object uuid (ap_pool a) of
             Inl e \<Rightarrow> Returned (Err e, a, d)
           | Inr (r, od) \<Rightarrow>
               (case GenerateSSHKeyPair L keyType (int (unat bits)) of
                  Inl e \<Rightarrow> Returned (Err (GenerateFailure e), a, d)
                | Inr (_, pem) \<Rightarrow>
                    store_in_database W (store_ssh_key K (we_fresh W 0) (we_now W) path pem comment) r od a d)))"

definition SshImportKey ::
  "bus_env \<Rightarrow> ('sg, 'pk) ssh_lib \<Rightarrow> key_store_lib \<Rightarrow> write_env \<Rightarrow> string \<Rightarrow> string \<Rightarrow> string \<Rightarrow> bytes \<Rightarrow> string
     \<Rightarrow> ('sg, 'pk) api \<Rightarrow> sys \<Rightarrow> ((api_error + bool) \<times> ('sg, 'pk) api \<times> sys) run" where
  "SshImportKey B L K W sender uuid path keyData pass a d =
     (case authorize B a sender of
        Some e \<Rightarrow> Returned (Err e, a, d)
      | None \<Rightarrow>
          (case unlocked_object uuid (ap_pool a) of
             Inl e \<Rightarrow> Returned (Err e, a, d)
           | Inr (r, od) \<Rightarrow>
               (case ParsePrivateKey L keyData pass of
                  Inl e \<Rightarrow> Returned (Err (ParseFailure e), a, d)
                | Inr _ \<Rightarrow>
                    store_in_database W (store_ssh_key K (we_fresh W 0) (we_now W) path keyData []) r od a d)))"

end
