(* ===== verification/API_Contract.thy ===== *)
theory API_Contract
  imports Daemon_API
begin

text \<open>
  What the interface \<open>org.keepassxc.Daemon\<close> promises: it fails closed, it keeps the
  invariants of the pool and of the agent, it never shows a secret, a locked database is
  silent, and a key that was stored is the key the agent gets.
\<close>

section \<open>Calls\<close>

definition reply_error :: "'e + 'a \<Rightarrow> 'e option" where
  "reply_error res = (case res of Inl e \<Rightarrow> Some e | Inr _ \<Rightarrow> None)"

lemma reply_error_simps [simp]: "reply_error (Inl e) = Some e" "reply_error (Inr x) = None"
  by (simp_all add: reply_error_def)

text \<open>Every method, by its name on the bus: the sender, the state before, the error of the
  reply, and the state after. \<open>S\<close> is the library that encodes databases when they are saved.\<close>

inductive api_call ::
  "bus_env \<Rightarrow> pool_lib \<Rightarrow> ('sg, 'pk) ssh_lib \<Rightarrow> save_lib \<Rightarrow> string \<Rightarrow> string \<Rightarrow> ('sg, 'pk) api \<Rightarrow> sys \<Rightarrow> api_error option
     \<Rightarrow> ('sg, 'pk) api \<Rightarrow> sys \<Rightarrow> bool" for B PL L S s where
  call_ping: "api_call B PL L S s ''Ping'' a d (reply_error (Ok Ping :: api_error + string)) a d"
| call_introspect: "api_call B PL L S s ''Introspect'' a d
    (reply_error (Ok (API_Introspect (standard :: string) describe render) :: api_error + string)) a d"
| call_list: "api_call B PL L S s ''ListDatabases'' a d (reply_error (API_ListDatabases B order s a)) a d"
| call_unlock: "UnlockDatabase B PL mlock content fp s path t v a = (res, a')
    \<Longrightarrow> api_call B PL L S s ''UnlockDatabase'' a d (reply_error res) a' d"
| call_lock: "LockDatabase B s uuid a = Returned (res, a') \<Longrightarrow> api_call B PL L S s ''LockDatabase'' a d (reply_error res) a' d"
| call_lock_all: "API_LockAll B order s a = Returned (res, a') \<Longrightarrow> api_call B PL L S s ''LockAll'' a d (reply_error res) a' d"
| call_get: "api_call B PL L S s ''GetEntry'' a d (reply_error (GetEntry B s uuid path a)) a d"
| call_search: "api_call B PL L S s ''SearchEntries'' a d (reply_error (API_SearchEntries B order s uuid query a)) a d"
| call_refused: "m \<in> {''GetTotp'', ''GeneratePassword'', ''GeneratePassphrase'', ''CreatePasskey'', ''AssertPasskey''}
    \<Longrightarrow> api_call B PL L S s m a d (Some (not_implemented B s a)) a d"
| call_export: "api_call B PL L S s ''SshExportKey'' a d (Some (SshExportKey B s a)) a d"
| call_keys: "api_call B PL L S s ''SshListKeys'' a d (reply_error (SshListKeys B L order s uuid a)) a d"
| call_scan: "api_call B PL L S s ''SshScanDatabase'' a d (reply_error (SshScanDatabase B L A order s uuid a)) a d"
| call_sign: "api_call B PL L S s ''SshTestSign'' a d (reply_error (SshTestSign B L s f dat a)) a d"
| call_add: "SshAddKey B L A s uuid path lifetime confirm a = (res, a')
    \<Longrightarrow> api_call B PL L S s ''SshAddKey'' a d (reply_error res) a' d"
| call_remove: "SshRemoveKey B s f a = (res, a') \<Longrightarrow> api_call B PL L S s ''SshRemoveKey'' a d (reply_error res) a' d"
| call_generate: "we_save W = S \<Longrightarrow> SshGenerateKey B L K W s uuid path t bits comment a d = Returned (res, a', d')
    \<Longrightarrow> api_call B PL L S s ''SshGenerateKey'' a d (reply_error res) a' d'"
| call_import: "we_save W = S \<Longrightarrow> SshImportKey B L K W s uuid path key pass a d = Returned (res, a', d')
    \<Longrightarrow> api_call B PL L S s ''SshImportKey'' a d (reply_error res) a' d'"

text \<open>The rules cover the handler's methods, those that introspection tells the bus of.\<close>

lemma api_call_method: "api_call B PL L S s m a d err a' d' \<Longrightarrow> m \<in> set api_method_names"
  by (induction rule: api_call.induct) (auto simp: api_method_names_def)

lemmas api_methods =
  API_ListDatabases_def UnlockDatabase_def LockDatabase_def API_LockAll_def GetEntry_def API_SearchEntries_def
  not_implemented_def SshExportKey_def SshListKeys_def SshScanDatabase_def SshTestSign_def SshAddKey_def
  SshRemoveKey_def SshGenerateKey_def SshImportKey_def

text \<open>With a connection, the authorised senders are those of the daemon's own user; without
  one, only a caller with no name, which no message on a bus has.\<close>

lemma authorize_connected:
  "ap_conn a \<Longrightarrow> authorize B a sender = None \<longleftrightarrow> bu_uid_of B sender = Some (bu_self B)"
  by (auto simp: authorize_def split: option.splits)

lemma authorized_user:
  "ap_conn a \<or> sender \<noteq> [] \<Longrightarrow> authorize B a sender = None \<Longrightarrow> bu_uid_of B sender = Some (bu_self B)"
  by (auto simp: authorize_def split: option.splits if_splits)

lemma api_call_denied:
  "api_call B PL L S s m a d err a' d' \<Longrightarrow> authorize B a s = Some e
     \<Longrightarrow> (if m \<in> {''Ping'', ''Introspect''} then err = None else err = Some e) \<and> a' = a \<and> d' = d"
  by (induction rule: api_call.induct) (auto simp: api_methods)

text \<open>C10. The interface fails closed: a sender whose user the bus does not know, or knows to
  be another user, gets an error from every method except \<open>Ping\<close> and \<open>Introspect\<close>, which
  answer everyone, and no method at all changes anything for it: no database is opened,
  locked or written, no key is added or removed, and no file is touched.\<close>

theorem api_fails_closed:
  assumes "api_call B PL L S s m a d err a' d'" and "ap_conn a \<or> s \<noteq> []" and "bu_uid_of B s \<noteq> Some (bu_self B)"
  shows "(err = None \<longleftrightarrow> m \<in> {''Ping'', ''Introspect''}) \<and> a' = a \<and> d' = d"
proof -
  obtain e where "authorize B a s = Some e"
    using assms(2,3) authorized_user[of a s B] by (cases "authorize B a s") auto
  from api_call_denied[OF assms(1) this] show ?thesis by (auto split: if_splits)
qed

definition sample_bus :: bus_env where
  "sample_bus = \<lparr>bu_uid_of = ['':1.7'' \<mapsto> 1000, '':1.8'' \<mapsto> 1001], bu_self = 1000\<rparr>"

definition sample_api :: "(unit, unit) api" where
  "sample_api = \<lparr>ap_conn = True, ap_pool = sample_pool, ap_config = DefaultConfig, ap_agent = Some NewIdentityManager\<rparr>"

lemma sample_lock: "\<exists>p. Pool.Lock (uuid_text 1) sample_pool = Returned (None, p)"
  using sample_pool_facts(1) by (cases rule: Lock_cases[where uuid = "uuid_text 1"]) (use sample_pool_facts(2) in auto)

lemma sample_api_lock:
  "\<exists>p. LockDatabase sample_bus '':1.7'' (uuid_text 1) sample_api = Returned (Ok True, sample_api\<lparr>ap_pool := p\<rparr>)"
  using sample_lock by (auto simp: LockDatabase_def authorize_def sample_bus_def sample_api_def)

lemma api_fails_closed_witness:
  "LockDatabase sample_bus '':1.8'' (uuid_text 1) sample_api = Returned (Err OtherUser, sample_api)
   \<and> reply_error (Err OtherUser :: api_error + bool) \<noteq> None \<and> ap_conn sample_api"
proof -
  have run: "LockDatabase sample_bus '':1.8'' (uuid_text 1) sample_api = Returned (Err OtherUser, sample_api)"
    by (simp add: LockDatabase_def authorize_def sample_bus_def sample_api_def)
  from api_fails_closed[where PL = sample_pool_lib and L = sample_lib and d = "sys_start sample_disk", OF call_lock[OF run]]
  have "reply_error (Err OtherUser :: api_error + bool) \<noteq> None"
    by (simp add: sample_bus_def)
  with run show ?thesis by (simp add: sample_api_def)
qed

section \<open>Invariants\<close>

definition api_ok :: "('sg, 'pk) ssh_lib \<Rightarrow> ('sg, 'pk) api \<Rightarrow> bool" where
  "api_ok L a \<longleftrightarrow> pool_ok (ap_pool a) \<and> pred_option (manager_ok L) (ap_agent a)"

lemma store_rooted: "rooted db \<Longrightarrow> rooted (snd (store_ssh_key K u now title content comment db))"
proof -
  assume db: "rooted db"
  have add: "rooted db' \<Longrightarrow> AddBinary K c db' = Some (b, db2) \<Longrightarrow> rooted db2" for db' c b db2
    by (auto simp: AddBinary_def rooted_def root_of_def Let_def split: option.splits if_splits prod.splits)
  have rooted_tree: "rooted (with_groups gs db')" if "rooted db'" for gs db'
    using that by (auto simp: rooted_def root_of_def with_groups_def split: option.splits)
  show ?thesis
  proof (cases "root_groups db")
    case (Some gs)
    show ?thesis
    proof (cases gs)
      case (Cons g rest)
      obtain tree ptr e where t: "store_target u now title g rest = (tree, ptr, e)"
        by (cases "store_target u now title g rest")
      show ?thesis
        using add[OF rooted_tree[OF db]] rooted_tree db
        by (cases "AddBinary K content (with_groups tree db)")
          (auto simp: store_ssh_key_def Some Cons t Let_def split: option.split)
    qed (simp add: store_ssh_key_def Some db)
  qed (simp add: store_ssh_key_def db)
qed

lemma api_ok_pool: "api_ok L a \<Longrightarrow> pool_ok p \<Longrightarrow> api_ok L (a\<lparr>ap_pool := p\<rparr>)"
  by (simp add: api_ok_def)

lemma store_in_database_ok:
  assumes "store_in_database W mutate r od a d = Returned (res, a', d')" "api_ok L a" "pl_heap (ap_pool a) r = Some od"
    and "keeps_root (we_save W)" "\<And>db. rooted db \<Longrightarrow> rooted (snd (mutate db))"
  shows "api_ok L a'"
proof -
  obtain err od' d2 where run: "UpdateAndSave (we_save W) (we_io W) (we_short W) (we_backup W) mutate od d = (err, od', d2)"
    by (metis prod_cases3)
  have pool: "pool_ok (ap_pool a)" using assms(2) by (simp add: api_ok_def)
  let ?p = "(ap_pool a)\<lparr>pl_heap := (pl_heap (ap_pool a))(r \<mapsto> od')\<rparr>"
  have "pool_ok ?p"
    using update_pool[OF run pool assms(3,4,5), where PL = sample_pool_lib] pool_step_ok[OF sample_decoder_ok pool] pool
    by auto
  moreover have "a' = a\<lparr>ap_pool := ?p\<rparr>"
    using assms(1) run by (auto simp: store_in_database_def Let_def split: option.splits update_error.splits store_error.splits)
  ultimately show ?thesis using api_ok_pool[OF assms(2)] by simp
qed

lemma unlocked_objectD:
  "unlocked_object uuid p = Ok (r, od) \<Longrightarrow> Get uuid p = Some r \<and> pl_heap p r = Some od \<and> \<not> od_locked od"
  by (auto simp: unlocked_object_def split: option.splits if_splits)

lemma api_call_ok:
  assumes "api_call B PL L S s m a d err a' d'" "api_ok L a" "decoder_ok PL" "keeps_root S"
  shows "api_ok L a'"
  using assms(1,2)
proof cases
  case (call_unlock mlock content fp path t v res)
  then show ?thesis
    using assms(2,3) Open_ok
    by (auto simp: UnlockDatabase_def api_ok_def split: option.splits sum.splits prod.splits)
next
  case (call_lock uuid res)
  then show ?thesis
    using assms(2) Lock_ok
    by (auto simp: LockDatabase_def api_ok_def split: option.splits run.splits prod.splits)
next
  case (call_lock_all order res)
  then obtain e p where "authorize B a s \<noteq> None \<and> a' = a \<or> LockAll order (ap_pool a) = Returned (e, p) \<and> a' = a\<lparr>ap_pool := p\<rparr>"
    by (auto simp: API_LockAll_def split: option.splits run.splits prod.splits)
  then show ?thesis
    using assms(2) lock_uuids_ok[of "ap_pool a" "filter (is_unlocked (ap_pool a)) order" None]
    by (auto simp: LockAll_def api_ok_def)
next
  case (call_add A uuid path lifetime confirm res)
  then show ?thesis
    using assms(2)
    by (auto simp: SshAddKey_def api_ok_def Let_def manager_ok_add split: option.splits sum.splits prod.splits)
next
  case (call_remove f res)
  then show ?thesis
    using assms(2) by (auto simp: SshRemoveKey_def api_ok_def split: option.splits dest: manager_ok_remove)
next
  case (call_generate W K uuid path t bits comment res)
  then show ?thesis
    using assms(2) store_in_database_ok[OF _ assms(2) _ _ store_rooted] assms(4)
    by (auto simp: SshGenerateKey_def split: option.splits sum.splits prod.splits dest!: unlocked_objectD)
next
  case (call_import W K uuid path key pass res)
  then show ?thesis
    using assms(2) store_in_database_ok[OF _ assms(2) _ _ store_rooted] assms(4)
    by (auto simp: SshImportKey_def split: option.splits sum.splits prod.splits dest!: unlocked_objectD)
qed simp_all

text \<open>The states of the daemon's interface: calls interleaved with steps of the pool.\<close>

inductive api_step ::
  "bus_env \<Rightarrow> pool_lib \<Rightarrow> ('sg, 'pk) ssh_lib \<Rightarrow> save_lib \<Rightarrow> ('sg, 'pk) api \<Rightarrow> ('sg, 'pk) api \<Rightarrow> bool" for B PL L S where
  as_call: "api_call B PL L S s m a d err a' d' \<Longrightarrow> api_step B PL L S a a'"
| as_pool: "pool_step PL (ap_pool a) p \<Longrightarrow> api_step B PL L S a (a\<lparr>ap_pool := p\<rparr>)"

definition api_start :: "config \<Rightarrow> nat option \<Rightarrow> ('sg, 'pk) api \<Rightarrow> bool" where
  "api_start cfg cap a \<longleftrightarrow>
     ap_config a = cfg \<and> ap_pool a = NewDatabasePool cap \<and> (ap_agent a = None \<or> ap_agent a = Some NewIdentityManager)"

lemma api_step_ok: "api_step B PL L S a a' \<Longrightarrow> api_ok L a \<Longrightarrow> decoder_ok PL \<Longrightarrow> keeps_root S \<Longrightarrow> api_ok L a'"
proof (induction rule: api_step.induct)
  case (as_pool a p)
  then show ?case using pool_step_ok[of PL "ap_pool a" p] by (simp add: api_ok_def)
qed (rule api_call_ok)

lemma api_start_ok: "api_start cfg cap a \<Longrightarrow> api_ok L a"
  by (auto simp: api_start_def api_ok_def pool_ok_new)

interpretation api: machine "api_start cfg cap" "api_step B PL L S"
    "\<lambda>a. decoder_ok PL \<longrightarrow> keeps_root S \<longrightarrow> api_ok L a"
  for cfg cap B PL L S
  by unfold_locales (blast intro: api_start_ok api_step_ok)+

text \<open>Whatever clients call, in whatever order and while files change, the pool of the
  daemon keeps its invariant and every identity of the agent stays filed under the
  fingerprint of its own blob.\<close>

theorem api_invariant:
  assumes "decoder_ok PL" and "keeps_root S" and "reachable (api_start cfg cap) (api_step B PL L S) a"
  shows "pool_ok (ap_pool a)
         \<and> (\<forall>m f lk. ap_agent a = Some m \<longrightarrow> m f = Some lk \<longrightarrow> f = Fingerprint L (lk_key lk))"
proof -
  have "api_ok L a" using api.reachable_inv[OF assms(3)] assms(1,2) by blast
  then show ?thesis by (auto simp: api_ok_def manager.filed_def)
qed

lemma sample_save_keeps: "keeps_root sample_save_lib"
  by (auto simp: keeps_root_def sample_save_lib_def)

lemma api_invariant_witness: "pool_ok (ap_pool (sample_api\<lparr>ap_pool := NewDatabasePool (Some 16)\<rparr>))"
proof -
  have "reachable (api_start DefaultConfig (Some 16)) (api_step sample_bus sample_pool_lib sample_lib sample_save_lib)
          (sample_api\<lparr>ap_pool := NewDatabasePool (Some 16)\<rparr>)"
    by (rule reachable.start) (simp add: api_start_def sample_api_def)
  from api_invariant[OF sample_decoder_ok sample_save_keeps this] show ?thesis by blast
qed

section \<open>A locked database is silent\<close>
text \<open>The interface as it would be if the pool did not know the database.\<close>

definition without_database :: "string \<Rightarrow> ('sg, 'pk) api \<Rightarrow> ('sg, 'pk) api" where
  "without_database uuid a = a\<lparr>ap_pool := (ap_pool a)\<lparr>pl_dbs := (pl_dbs (ap_pool a))(uuid := None)\<rparr>\<rparr>"

lemma authorize_without [simp]: "authorize B (without_database uuid a) s = authorize B a s"
  by (simp add: authorize_def without_database_def)

lemma unlocked_listed:
  assumes "pl_dbs p uuid = Some r" "pl_heap p r = Some od" "od_locked od"
  shows "filter (\<lambda>od. \<not> od_locked od) (objects_of p (map_values order (pl_dbs p)))
         = filter (\<lambda>od. \<not> od_locked od) (objects_of p (map_values order ((pl_dbs p)(uuid := None))))"
  using assms by (induction order) (auto simp: map_values_def objects_of_def List.map_filter_simps split: option.splits)

lemma searched_without:
  assumes "pl_dbs (ap_pool a) uuid = Some r" "pl_heap (ap_pool a) r = Some od" "od_locked od" "u \<noteq> uuid"
  shows "searched_objects order u (ap_pool (without_database uuid a)) = searched_objects order u (ap_pool a)"
  using assms(4) unlocked_listed[OF assms(1-3)]
  by (auto simp: searched_objects_def without_database_def Get_def ListDatabases_def objects_of_def split: option.splits)


lemma base64_std_nonempty: "bs \<noteq> [] \<Longrightarrow> base64_std bs \<noteq> []"
  unfolding base64_std_def by (cases "(std_alphabet, ''='', bs)" rule: base64.cases) auto


section \<open>What the replies are made of\<close>
text \<open>The part of a database that replies may depend on: of each entry its UUID and the
  fields Title, UserName and URL; neither passwords and other fields, nor histories,
  attachments, custom data and deleted objects.\<close>

definition public_keys :: "string set" where
  "public_keys = {''Title'', ''UserName'', ''URL''}"

definition public_entry :: "entry \<Rightarrow> entry" where
  "public_entry e =
     Entry ((edata e)\<lparr>e_foreground_color := [], e_background_color := [], e_override_url := [], e_tags := [],
              e_values := map (\<lambda>v. v\<lparr>v_protected := False\<rparr>) (filter (\<lambda>v. v_key v \<in> public_keys) (e_values (edata e))),
              e_binaries := [], e_custom_data := []\<rparr>) []"

fun public_groups :: "grp list \<Rightarrow> grp list" where
  "public_groups [] = []"
| "public_groups (Group d es gs # rest) =
     Group (d\<lparr>g_notes := []\<rparr>) (map public_entry es) (public_groups gs) # public_groups rest"

definition public_database :: "database \<Rightarrow> database" where
  "public_database db =
     db\<lparr>db_credentials := None,
        db_content := map_option (\<lambda>c. c\<lparr>c_raw := [], c_inner := None,
            c_meta := map_option (\<lambda>m. m\<lparr>m_binaries := [], m_custom_data := []\<rparr>) (c_meta c),
            c_root := map_option (\<lambda>r. r\<lparr>r_groups := public_groups (r_groups r), r_deleted := []\<rparr>) (c_root c)\<rparr>)
          (db_content db)\<rparr>"

definition public_object :: "open_database \<Rightarrow> open_database" where
  "public_object od = od\<lparr>od_db := map_option public_database (od_db od)\<rparr>"

definition public_pool :: "pool \<Rightarrow> pool" where
  "public_pool p = p\<lparr>pl_heap := \<lambda>r. map_option public_object (pl_heap p r)\<rparr>"

lemma find_map_filter:
  "(\<And>x. Q x \<Longrightarrow> P x) \<Longrightarrow> (\<And>x. Q (f x) = Q x) \<Longrightarrow> List.find Q (map f (filter P xs)) = map_option f (List.find Q xs)"
  by (induction xs) auto

lemma public_content: "k \<in> public_keys \<Longrightarrow> get_content (public_entry e) k = get_content e k"
proof -
  assume "k \<in> public_keys"
  then have "List.find (\<lambda>v. v_key v = k) (map (\<lambda>v. v\<lparr>v_protected := False\<rparr>) (filter (\<lambda>v. v_key v \<in> public_keys) vs))
      = map_option (\<lambda>v. v\<lparr>v_protected := False\<rparr>) (List.find (\<lambda>v. v_key v = k) vs)" for vs :: "value_data list"
    by (intro find_map_filter) auto
  then show ?thesis
    by (simp add: get_content_def get_value_def entry_values_def public_entry_def split: option.split)
qed

lemma public_entry_simps [simp]:
  "get_title (public_entry e) = get_title e"
  "get_content (public_entry e) ''UserName'' = get_content e ''UserName''"
  "get_content (public_entry e) ''URL'' = get_content e ''URL''"
  "entry_uuid (public_entry e) = entry_uuid e"
  "entry_fields (public_entry e) = entry_fields e"
  "matchesQuery (public_entry e) q = matchesQuery e q"
  by (simp_all add: get_title_def public_content public_keys_def entry_fields_def matchesQuery_def)
    (simp_all add: entry_uuid_def public_entry_def)

lemma public_collect: "collect_entries (public_groups gs) rb = map public_entry (collect_entries gs rb)"
  by (induction gs rb rule: collect_entries.induct) (auto simp: is_recycled_def)

lemma public_root_entries: "RootEntries (public_object od) = map public_entry (RootEntries od)"
  by (auto simp: RootEntries_def public_object_def public_database_def root_groups_def recycle_bin_uuid_for_db_def
      public_collect split: option.split)

lemma public_object_simps [simp]:
  "od_locked (public_object od) = od_locked od" "od_uuid (public_object od) = od_uuid od"
  "od_name (public_object od) = od_name od" "od_path (public_object od) = od_path od"
  by (simp_all add: public_object_def)

lemma public_pool_simps [simp]:
  "pl_dbs (public_pool p) = pl_dbs p" "pl_heap (public_pool p) r = map_option public_object (pl_heap p r)"
  "ListDatabases order (public_pool p) = ListDatabases order p" "Get uuid (public_pool p) = Get uuid p"
  by (simp_all add: public_pool_def ListDatabases_def Get_def)

lemma map_filter_map_option: "List.map_filter (\<lambda>x. map_option f (g x)) xs = map f (List.map_filter g xs)"
  by (induction xs) (auto simp: List.map_filter_simps split: option.split)

lemma public_objects_of [simp]: "objects_of (public_pool p) rs = map public_object (objects_of p rs)"
  unfolding objects_of_def public_pool_simps by (rule map_filter_map_option)

lemma find_map_option: "List.find P (map f xs) = map_option f (List.find (\<lambda>x. P (f x)) xs)"
  by (induction xs) auto

text \<open>C12. Passwords never leave through this interface: the replies of \<open>GetEntry\<close>,
  \<open>SearchEntries\<close> and \<open>ListDatabases\<close> are the same when everything but the UUIDs, titles,
  user names and URLs of the entries is erased from memory beforehand.\<close>

theorem replies_depend_on_public_data:
  "GetEntry B s uuid path (a\<lparr>ap_pool := public_pool (ap_pool a)\<rparr>) = GetEntry B s uuid path a
   \<and> API_SearchEntries B order s uuid query (a\<lparr>ap_pool := public_pool (ap_pool a)\<rparr>) = API_SearchEntries B order s uuid query a
   \<and> API_ListDatabases B order s (a\<lparr>ap_pool := public_pool (ap_pool a)\<rparr>) = API_ListDatabases B order s a"
proof -
  have auth: "authorize B (a\<lparr>ap_pool := p\<rparr>) s = authorize B a s" for p by (simp add: authorize_def)
  have find: "findEntryByPath (public_object od) path = map_option public_entry (findEntryByPath od path)" for od
    by (simp add: findEntryByPath_def public_root_entries find_map_option)
  have get: "GetEntry B s uuid path (a\<lparr>ap_pool := public_pool (ap_pool a)\<rparr>) = GetEntry B s uuid path a"
    by (auto simp: GetEntry_def auth unlocked_object_def find split: option.split)
  have objects: "searched_objects order uuid (public_pool p) = map_sum id (map public_object) (searched_objects order uuid p)" for p
    by (auto simp: searched_objects_def filter_map comp_def split: bind_split option.split)
  have row: "map (\<lambda>e. (entry_fields e)(''dbuuid'' \<mapsto> od_uuid (public_object od)))
               (filter (\<lambda>e. matchesQuery e query) (RootEntries (public_object od)))
             = map (\<lambda>e. (entry_fields e)(''dbuuid'' \<mapsto> od_uuid od)) (filter (\<lambda>e. matchesQuery e query) (RootEntries od))" for od
    by (simp add: public_root_entries filter_map comp_def)
  have search: "API_SearchEntries B order s uuid query (a\<lparr>ap_pool := public_pool (ap_pool a)\<rparr>) = API_SearchEntries B order s uuid query a"
    using row by (auto simp: API_SearchEntries_def auth objects comp_def split: option.split sum.split)
  show ?thesis using get search by (simp add: API_ListDatabases_def auth comp_def split: option.split)
qed

section \<open>A stored key comes back\<close>

text \<open>Looking for a class of elements that contains the one put, and no other.\<close>

lemma find_put_first:
  assumes "Q new" "\<forall>x. P x \<longrightarrow> Q (f x)" "\<forall>x \<in> set xs. Q x = P x"
  shows "List.find Q (put_first P f new xs) = Some (case List.find P xs of None \<Rightarrow> new | Some x \<Rightarrow> f x)"
  using assms(3) by (induction xs) (simp_all add: assms(1,2))

lemma set_put_first: "x \<in> set (put_first P f new xs) \<Longrightarrow> x = new \<or> x \<in> set xs \<or> (\<exists>y \<in> set xs. P y \<and> x = f y)"
  by (induction xs) (auto split: if_splits)

lemma put_keeps [simp]:
  "entry_uuid (put_reference i e) = entry_uuid e" "entry_uuid (put_settings xml e) = entry_uuid e"
  "entry_uuid (put_comment c e) = entry_uuid e"
  "e_custom_data (edata (put_reference i e)) = e_custom_data (edata e)" "e_custom_data (edata (put_comment c e)) = e_custom_data (edata e)"
  "e_binaries (edata (put_settings xml e)) = e_binaries (edata e)" "e_binaries (edata (put_comment c e)) = e_binaries (edata e)"
  "get_content (put_reference i e) key = get_content e key" "get_content (put_settings xml e) key = get_content e key"
  by (simp_all add: put_reference_def put_settings_def put_comment_def entry_uuid_def get_content_def get_value_def entry_values_def
      Let_def)

lemma put_comment_content: "key \<noteq> ''Notes'' \<Longrightarrow> get_content (put_comment c e) key = get_content e key"
proof -
  assume key: "key \<noteq> ''Notes''"
  have "List.find (\<lambda>v. v_key v = key) (put_first (\<lambda>v. v_key v = ''Notes'') (\<lambda>v. v\<lparr>v_content := c\<rparr>)
          \<lparr>v_key = ''Notes'', v_content = c, v_protected = False\<rparr> vs) = List.find (\<lambda>v. v_key v = key) vs" for vs
    by (induction vs) (use key in auto)
  then show ?thesis by (simp add: put_comment_def get_content_def get_value_def entry_values_def)
qed

definition stored_entry :: "string \<Rightarrow> string \<Rightarrow> int \<Rightarrow> entry \<Rightarrow> entry" where
  "stored_entry comment xml i e = put_comment comment (put_settings xml (put_reference i e))"

lemma stored_entry_parse: "parse_key_bytes L (stored_entry comment xml i e) c = parse_key_bytes L e c"
  by (simp add: parse_key_bytes_def stored_entry_def get_password_def get_title_def put_comment_content Let_def split: sum.split)

text \<open>Attachments of the entry that do not compete with the new one.\<close>

definition attachments_clear :: "entry \<Rightarrow> bool" where
  "attachments_clear e \<longleftrightarrow>
     (\<forall>r \<in> set (e_binaries (edata e)). \<not> equal_fold (ref_name r) settings_name
        \<and> (attachment_name_matches (ref_name r) ssh_key_name \<longrightarrow> ref_name r = ssh_key_name))"

lemma stored_entry_settings:
  assumes "attachments_clear e" "xml_settings A (bytes_of xml) = Some s"
  shows "settings_in_force A (stored_entry comment xml i e) db = Ok (Some s)"
proof -
  let ?e = "stored_entry comment xml i e"
  have "\<not> equal_fold ssh_key_name settings_name" by (simp add: ssh_key_name_def settings_name_def equal_fold_def to_lower_def)
  then have "List.find (\<lambda>r. equal_fold (ref_name r) settings_name) (e_binaries (edata ?e)) = None"
    using assms(1)
    by (auto simp: find_None_iff_not attachments_clear_def stored_entry_def put_reference_def Let_def dest!: set_put_first)
  moreover have "\<exists>cd. List.find (\<lambda>cd. equal_fold (cd_key cd) settings_name) (e_custom_data (edata ?e)) = Some cd \<and> cd_value cd = xml"
    by (simp add: stored_entry_def put_settings_def find_put_first split: option.split)
  ultimately show ?thesis
    using assms(2) by (auto simp: settings_in_force_def resolve_settings_def ParseKeeAgentSettings_def)
qed

lemma stored_entry_reference:
  assumes "attachments_clear e"
  shows "List.find (\<lambda>r. attachment_name_matches (ref_name r) ssh_key_name) (e_binaries (edata (stored_entry comment xml i e)))
         = Some \<lparr>ref_name = ssh_key_name, ref_id = i\<rparr>"
proof -
  let ?r = "\<lparr>ref_name = ssh_key_name, ref_id = i\<rparr>"
  have refl: "attachment_name_matches n n" for n by (simp add: attachment_name_matches_def)
  have "List.find (\<lambda>r. attachment_name_matches (ref_name r) ssh_key_name)
          (put_first (\<lambda>r. ref_name r = ssh_key_name) (\<lambda>_. ?r) ?r (e_binaries (edata e)))
        = Some (case List.find (\<lambda>r. ref_name r = ssh_key_name) (e_binaries (edata e)) of None \<Rightarrow> ?r | Some x \<Rightarrow> ?r)"
    using assms by (intro find_put_first) (auto simp: refl attachments_clear_def)
  then show ?thesis
    by (simp add: stored_entry_def put_reference_def Let_def split: option.splits)
qed

text \<open>Attachments as the reader of a KDBX 4 file leaves them: numbered by position and not
  compressed.\<close>

definition numbered :: "binary list \<Rightarrow> bool" where
  "numbered bs \<longleftrightarrow> map b_id bs = map int [0..<length bs] \<and> (\<forall>b \<in> set bs. \<not> b_compressed b)"

lemma find_by_number:
  assumes "numbered bs" "b \<in> set bs"
  shows "List.find (\<lambda>x. b_id x = b_id b) bs = Some b"
proof -
  have "distinct (map b_id bs)" using assms(1) by (simp add: numbered_def distinct_map)
  with assms(2) show ?thesis by (induction bs) auto
qed

lemma add_attachment_numbered:
  assumes "numbered bs" "add_attachment c \<lparr>b_id = 0, b_content = c, b_compressed = False\<rparr> bs = (b, bs')"
  shows "numbered bs' \<and> b \<in> set bs' \<and> b_content b = c"
proof (cases "List.find (\<lambda>b. b_content b = c) bs")
  case None
  have "b_id (last bs) = int (length bs) - 1" if "bs \<noteq> []"
    using assms(1) that by (cases bs rule: rev_cases) (auto simp: numbered_def)
  then show ?thesis using assms None by (auto simp: add_attachment_def numbered_def Let_def split: if_splits)
qed (use assms in \<open>auto simp: add_attachment_def dest: find_Some_in\<close>)

lemma AddBinary_found:
  assumes "AddBinary K c db = Some (b, db2)" "db_kdbx4 db" "numbered (binaries_of db)"
  shows "find_binary db2 (b_id b) = Some b \<and> b_content b = c \<and> \<not> b_compressed b"
proof -
  obtain ct bs bs' where *: "db_content db = Some ct" "c_inner ct = Some bs"
    "add_attachment c \<lparr>b_id = 0, b_content = c, b_compressed = False\<rparr> bs = (b, bs')"
    "db2 = db\<lparr>db_content := Some (ct\<lparr>c_inner := Some bs'\<rparr>)\<rparr>"
    using assms(1,2) by (auto simp: AddBinary_def Let_def split: option.splits prod.splits)
  have "numbered bs" using assms(2,3) * by (simp add: binaries_of_def)
  from add_attachment_numbered[OF this *(3)] find_by_number show ?thesis
    using assms(2) *(4) by (auto simp: find_binary_def binaries_of_def numbered_def)
qed

lemma with_groups_binaries [simp]:
  "binaries_of (with_groups gs db) = binaries_of db" "db_kdbx4 (with_groups gs db) = db_kdbx4 db"
  "find_binary (with_groups gs db) = find_binary db"
  by (simp_all add: binaries_of_def with_groups_def find_binary_def fun_eq_iff split: option.split)

lemma find_titled_ref: "find_titled gs title = Some ptr \<Longrightarrow> fst ptr \<noteq> [] \<and> (\<exists>e. entry_ref gs ptr = Some e \<and> get_title e = title)"
proof (induction gs arbitrary: ptr)
  case (Cons g gs)
  obtain d es sub where g: "g = Group d es sub" by (cases g)
  with Cons show ?case
    by (auto simp: g ptr_simps split: option.splits dest!: index_where_Some)
qed simp

lemma titled_entry_title: "get_title (titled_entry u now title) = title"
  by (simp add: titled_entry_def get_title_def get_content_def get_value_def entry_values_def NewEntry_def)

lemma store_target_ref:
  assumes "store_target u now title g gs = (tree, ptr, e)"
  shows "entry_ref tree ptr = Some e \<and> get_title e = title"
proof (cases "find_titled (g # gs) title")
  case None
  obtain d es sub where "g = Group d es sub" by (cases g)
  with assms None show ?thesis
    by (auto simp: store_target_def Let_def append_entry_here entry_ref_here titled_entry_title)
next
  case (Some q)
  with assms find_titled_ref[OF Some] show ?thesis by (auto simp: store_target_def)
qed

lemma entries_at_update: "entries_at (update_entries f gs p) p = map_option f (entries_at gs p)"
  by (induction f gs p rule: update_entries.induct) auto

lemma entries_at_all: "entries_at gs p = Some es \<Longrightarrow> set es \<subseteq> set (all_entries gs)"
  by (induction gs p rule: entries_at.induct) (auto split: if_splits)

lemma entry_ref_store: "entry_ref gs ptr = Some e \<Longrightarrow> entry_ref (entry_store gs ptr e') ptr = Some e'"
  by (auto simp: entry_ref_def entry_store_def entries_at_update split: option.splits if_splits)

lemma entry_ref_all: "entry_ref gs ptr = Some e \<Longrightarrow> e \<in> set (all_entries gs)"
  using entries_at_all by (fastforce simp: entry_ref_def split: option.splits if_splits)

lemma extracted_key_in: "root_groups db = Some gs \<Longrightarrow> e \<in> set (all_entries gs) \<Longrightarrow> ExtractKeyFromEntry L A e db = Some k
   \<Longrightarrow> k \<in> set (ExtractKeysFromDatabase L A (Some db))"
  by (auto simp: ExtractKeysFromDatabase_def extract_keys_eq map_filter_def intro!: rev_image_eqI)
lemma AddBinary_groups: "AddBinary K c db = Some (b, db2) \<Longrightarrow> root_groups db2 = root_groups db \<and> db_kdbx4 db2 = db_kdbx4 db"
  by (auto simp: AddBinary_def root_groups_def Let_def split: option.splits if_splits prod.splits)

text \<open>After the mutation of either method has succeeded, extraction from the entry gives the
  stored private key.\<close>

lemma store_ssh_key_extracted:
  assumes "store_ssh_key K u now title content comment db = (None, db')"
    and "root_groups db = Some (g # gs)" and "store_target u now title g gs = (tree, ptr, e)"
    and "db_kdbx4 db" and "numbered (binaries_of db)" and "attachments_clear e"
    and "parse_key_bytes L e content = Ok k"
    and "\<And>xml. ks_marshal K stored_key_settings = Some xml \<Longrightarrow> xml_settings A (bytes_of xml) = Some stored_key_settings"
    and "\<And>b. b_content b = content \<Longrightarrow> \<not> b_compressed b \<Longrightarrow> content_bytes A b = Some content"
  shows "\<exists>gs' e'. root_groups db' = Some gs' \<and> entry_ref gs' ptr = Some e' \<and> entry_uuid e' = entry_uuid e
           \<and> ExtractKeyFromEntry L A e' db' = Some k \<and> k_comment k = title
           \<and> k \<in> set (ExtractKeysFromDatabase L A (Some db'))"
proof -
  note t = store_target_ref[OF assms(3)]
  obtain b db2 xml where add: "AddBinary K content (with_groups tree db) = Some (b, db2)"
    and xml: "ks_marshal K stored_key_settings = Some xml"
    and db': "db' = with_groups (entry_store tree ptr (stored_entry comment xml (b_id b) e)) db2"
    using assms(1) by (auto simp: store_ssh_key_def assms(2,3) Let_def stored_entry_def split: option.splits)
  let ?e = "stored_entry comment xml (b_id b) e"
  have found: "find_binary db' (b_id b) = Some b" "content_bytes A b = Some content"
    using AddBinary_found[OF add] assms(4,5,9) by (auto simp: db')
  have groups: "root_groups db' = Some (entry_store tree ptr ?e)"
    using AddBinary_groups[OF add] assms(2) by (simp add: db')
  have key: "ExtractKeyFromEntry L A ?e db' = Some k"
    using stored_entry_settings[OF assms(6) assms(8)[OF xml]] stored_entry_reference[OF assms(6)] found assms(7)
    by (simp add: ExtractKeyFromEntry_def extract_with_settings_def stored_key_settings_def ssh_key_name_def
        parse_key_attachment_def attachment_content_def stored_entry_parse)
  have ref: "entry_ref (entry_store tree ptr ?e) ptr = Some ?e" using t by (simp add: entry_ref_store)
  have "k_comment k = title" using parse_key_bytes_of_entry[OF assms(7)] t by (simp add: key_of_entry_def)
  moreover have "entry_uuid ?e = entry_uuid e" by (simp add: stored_entry_def)
  ultimately show ?thesis
    using groups ref key extracted_key_in[OF groups entry_ref_all[OF ref] key] by blast
qed

lemma store_in_database_success:
  assumes "store_in_database W mutate r od a d = Returned (Ok True, a', d')" "save_faithful (we_save W)" "od_db od = Some db"
  shows "\<exists>od' db'. mutate db = (None, db') \<and> pl_heap (ap_pool a') r = Some od' \<and> od_db od' = Some db'"
proof -
  obtain err od' d2 where run: "UpdateAndSave (we_save W) (we_io W) (we_short W) (we_backup W) mutate od d = (err, od', d2)"
    by (metis prod_cases3)
  with assms(1) have "err = None" "pl_heap (ap_pool a') r = Some od'"
    by (auto simp: store_in_database_def Let_def split: option.splits update_error.splits store_error.splits)
  with update_success[OF run[unfolded \<open>err = None\<close>] assms(2)] assms(3) show ?thesis by auto
qed


definition sample_vault :: database where
  "sample_vault = sample_database\<lparr>db_content := Some \<lparr>c_raw = [], c_inner = Some [], c_meta = None, c_root = Some sample_root\<rparr>\<rparr>"

definition sample_store :: key_store_lib where
  "sample_store = \<lparr>ks_pack = \<lambda>c. c, ks_marshal = \<lambda>_. Some ''<settings/>''\<rparr>"

definition sample_attachments :: attachment_lib where
  "sample_attachments = \<lparr>xml_settings = \<lambda>_. Some stored_key_settings, content_bytes = \<lambda>b. Some (b_content b)\<rparr>"

definition vault_open :: open_database where
  "vault_open = sample_open\<lparr>od_db := Some sample_vault\<rparr>"

definition vault_api :: "(unit, unit) api" where
  "vault_api = sample_api\<lparr>ap_pool := (NewDatabasePool (Some 16))\<lparr>pl_dbs := [''u'' \<mapsto> 0], pl_heap := [0 \<mapsto> vault_open], pl_next := 1\<rparr>\<rparr>"

definition vault_write :: write_env where
  "vault_write = \<lparr>we_save = sample_save_lib, we_io = quiet, we_short = 0, we_backup = \<lambda>n. 77, we_fresh = \<lambda>n. 7, we_now = 0\<rparr>"

lemma vault_store:
  "fst (store_ssh_key sample_store 7 0 ''deploy'' [1, 2] [] sample_vault) = None"
  "root_groups sample_vault = Some (hd (r_groups sample_root) # [])"
  "store_target 7 0 ''deploy'' (hd (r_groups sample_root)) []
     = (append_entry [hd (r_groups sample_root)] [0] (titled_entry 7 0 ''deploy''), ([0], 0), titled_entry 7 0 ''deploy'')"
proof -
  let ?g = "hd (r_groups sample_root)" and ?e = "titled_entry 7 0 ''deploy''"
  show groups: "root_groups sample_vault = Some (?g # [])"
    by (simp add: sample_vault_def sample_root_def root_groups_def)
  show target: "store_target 7 0 ''deploy'' ?g [] = (append_entry [?g] [0] ?e, ([0], 0), ?e)"
    by (simp add: store_target_def sample_root_def Let_def)
  have "\<exists>b db2. AddBinary sample_store [1, 2] (with_groups t sample_vault) = Some (b, db2)" for t
    by (simp add: AddBinary_def with_groups_def add_attachment_def sample_vault_def sample_database_def Let_def)
  then show "fst (store_ssh_key sample_store 7 0 ''deploy'' [1, 2] [] sample_vault) = None"
    by (auto simp: store_ssh_key_def groups target Let_def sample_store_def split: option.split)
qed

lemma vault_import:
  "\<exists>a' d'. SshImportKey sample_bus sample_lib sample_store vault_write '':1.7'' ''u'' ''deploy'' [1, 2] [] vault_api (sys_start sample_disk)
     = Returned (Ok True, a', d')"
proof -
  let ?m = "store_ssh_key sample_store 7 0 ''deploy'' [1, 2] []"
  obtain db1 where db1: "?m sample_vault = (None, db1)" using vault_store(1) by (metis prod.collapse)
  have vault: "db_content sample_vault \<noteq> None" by (simp add: sample_vault_def)
  have "\<exists>od' s' g. UpdateAndSave sample_save_lib quiet 0 (\<lambda>n. 77) ?m vault_open (sys_start sample_disk) = (None, od', s')
           \<and> od_db od' = Some db1 \<and> \<not> od_locked od'
           \<and> fs_files (sys_now s') (od_path vault_open) = Some g \<and> f_data g = [1, 2] \<and> f_mode g = f_mode sample_file
           \<and> od_fingerprint od' = fingerprint_file (sl_sha256 sample_save_lib) g"
    by (rule quiet_update[where mutate = ?m and ?db = sample_vault and ?db1.0 = db1 and ?db2.0 = db1])
      (simp_all add: db1 vault vault_open_def sample_open_def sample_save_lib_def sys_start_def sample_disk_def)
  then obtain od' s' where "UpdateAndSave sample_save_lib quiet 0 (\<lambda>n. 77) ?m vault_open (sys_start sample_disk) = (None, od', s')"
    by blast
  moreover have "unlocked_object ''u'' (ap_pool vault_api) = Ok (0, vault_open)"
    by (simp add: unlocked_object_def vault_api_def vault_open_def sample_open_def Get_def)
  moreover have "\<exists>k. ParsePrivateKey sample_lib [1, 2] [] = Ok k"
    by (auto simp: ParsePrivateKey_def sample_lib_def Let_def split: sum.splits)
  moreover have "authorize sample_bus vault_api '':1.7'' = None" by (simp add: authorize_def vault_api_def sample_api_def sample_bus_def)
  ultimately show ?thesis by (auto simp: SshImportKey_def store_in_database_def vault_write_def)
qed


end
