(* ===== verification/Secret_Contract.thy ===== *)
theory Secret_Contract
  imports Secret_Items
begin

text \<open>
  What the Secret Service promises its clients: writing and deleting secrets refine the
  store of \<open>Secret_Items\<close>, a secret written is the secret read, bulk reads are sound,
  created items can be read, and the state of the service keeps its invariant.
\<close>

section \<open>A sample service\<close>

text \<open>One unlocked database with the tree \<open>sample_tree\<close>, its collection and a plain session.\<close>

definition store_db :: database where
  "store_db = with_groups sample_tree sample_database"

definition store_od :: open_database where
  "store_od = sample_open\<lparr>od_db := Some store_db\<rparr>"

definition store_coll :: collection where
  "store_coll = \<lparr>co_path = collection_path ''d'', co_db = 0\<rparr>"

definition store_svc :: svc where
  "store_svc =
     (NewSecretService ((NewDatabasePool (Some 4))\<lparr>pl_dbs := [''u'' \<mapsto> 0], pl_heap := [0 \<mapsto> store_od], pl_next := 1\<rparr>) None)
       \<lparr>sv_sessions := [''/s'' \<mapsto> NewPlainSession ''/s''], sv_collections := [collection_path ''d'' \<mapsto> store_coll]\<rparr>"

definition store_entry :: entry where
  "store_entry = sample_entry 11 [sample_value ''Title'' ''in'', sample_value ''Password'' ''pw'']"

definition store_item :: item where
  "store_item = newItem store_od store_coll store_entry"

definition store_env :: env where
  "store_env = \<lparr>en_proc = \<lparr>pr_pid = \<lambda>_. None, pr_uid = \<lambda>_. None, pr_exe = \<lambda>_. None, pr_cmdline = \<lambda>_. None, pr_stat = \<lambda>_. None\<rparr>,
     en_polkit = \<lambda>_ _ _. Reply True, en_iv = \<lambda>_. Some (replicate 16 7), en_cipher = sample_cipher, en_now = 0,
     en_cache_order = \<lambda>_. []\<rparr>"

definition store_write :: write_env where
  "store_write = \<lparr>we_save = sample_save_lib, we_io = quiet, we_short = 0, we_backup = \<lambda>n. 77, we_fresh = \<lambda>n. 88 + of_nat n, we_now = 3\<rparr>"

definition store_secret :: dbus_secret where
  "store_secret = \<lparr>ds_session = ''/s'', ds_parameters = [], ds_value = [120], ds_content_type = ''text/plain''\<rparr>"

lemma store_facts [simp]:
  "odb_at store_svc 0 = Some store_od" "od_db store_od = Some store_db" "\<not> od_locked store_od"
  "od_path store_od = ''/d''" "od_name store_od = ''d''" "od_fingerprint store_od = fingerprint_file (sl_sha256 sample_save_lib) sample_file"
  "co_db (it_coll store_item) = 0" "root_groups store_db = Some sample_tree" "db_content store_db \<noteq> None"
  "it_uuid store_item = entryUUIDString store_entry" "exposeGroupForDB store_svc od = []"
  "sv_sessions store_svc ''/s'' = Some (NewPlainSession ''/s'')" "recycle_bin_uuid_for_db store_db = 0"
  "save_faithful sample_save_lib" "is_open store_od" "sv_config store_svc = cfg_secret_service DefaultConfig"
  by (simp_all add: store_svc_def store_od_def store_db_def sample_open_def odb_at_def store_item_def newItem_def store_coll_def
      root_groups_def with_groups_def sample_database_def NewSecretService_def exposeGroupForDB_def recycle_bin_uuid_for_db_def
      save_faithful_def sample_save_lib_def is_open_def NewDatabasePool_def sample_root_def)

lemma store_visible: "collectEntriesVisible sample_tree 0 [] = [sample_entry 10 [sample_value ''Title'' ''outside''], store_entry]"
  by (simp add: collectEntriesVisible_def sample_tree_def store_entry_def is_recycled_def sample_group_def exposes_def
      trim_space_def is_space_def Let_def)

lemma store_refresh: "fst (refresh store_svc store_item) = Some store_entry"
  by (simp add: refresh_def collectEntriesForDB_def store_visible)
    (simp add: store_entry_def sample_entry_def entry_uuid_def)

lemma store_decrypt: "decryptSecret C store_svc store_secret = Returned (Ok [120])"
  by (simp add: decryptSecret_def validateSession_def store_secret_def Decrypt_def NewPlainSession_def)

lemma store_session: "validateSession store_svc (ds_session store_secret)"
  by (simp add: validateSession_def store_secret_def NewPlainSession_def)

lemma string_of_120: "string_of [120] = ''x''"
  by code_simp

lemma store_unique: "unique_entries store_svc 0"
  by (simp add: unique_entries_def uuids_distinct_def)
    (simp add: sample_tree_def sample_entry_def entry_uuid_def)

text \<open>On the quiet machine an update of the sample succeeds whenever its mutation does.\<close>

lemma store_update:
  assumes "fst (mutate store_db) = None"
  shows "\<exists>s' d'. update_db store_write mutate 0 store_svc (sys_start sample_disk) = (None, s', d')"
proof -
  obtain db1 where db1: "mutate store_db = (None, db1)" using assms by (metis prod.collapse)
  have "\<exists>od' s' g. UpdateAndSave sample_save_lib quiet 0 (\<lambda>n. 77) mutate store_od (sys_start sample_disk) = (None, od', s')
           \<and> od_db od' = Some db1 \<and> \<not> od_locked od'
           \<and> fs_files (sys_now s') (od_path store_od) = Some g \<and> f_data g = [1, 2] \<and> f_mode g = f_mode sample_file
           \<and> od_fingerprint od' = fingerprint_file (sl_sha256 sample_save_lib) g"
    by (rule quiet_update[where mutate = mutate and ?db = store_db and ?db1.0 = db1 and ?db2.0 = db1])
      (simp_all add: db1 sample_save_lib_def sys_start_def sample_disk_def)
  then show ?thesis by (auto simp: update_db_def store_write_def)
qed

lemma store_find: "findEntryPtrByUUID sample_tree (entryUUIDString store_entry) = Some ([0, 0], 0)"
  by (simp add: sample_tree_def store_entry_def sample_entry_def entry_uuid_def in_subgroups_def)

lemma store_SetSecret:
  "\<exists>s' d'. Item_SetSecret sample_cipher store_write store_secret store_item store_svc (sys_start sample_disk)
     = Returned (None, s', d')"
proof -
  have "fst (edit_by_uuid (set_secret_entry store_write [120]) (entryUUIDString store_entry) store_db) = None"
    by (simp add: edit_by_uuid_def store_find) (simp add: sample_tree_def entry_ref_def)
  from store_update[where mutate = "edit_by_uuid (set_secret_entry store_write [120]) (entryUUIDString store_entry)", OF this]
  show ?thesis
    by (auto simp: Item_SetSecret_def store_decrypt store_refresh store_session)
qed

lemma store_Delete:
  "\<exists>s' d'. Item_Delete store_write store_item store_svc (sys_start sample_disk) = Returned (Ok ''/'', s', d')"
proof -
  have "fst (remove_by_uuid (entryUUIDString store_entry) store_db) = None"
    by (simp add: remove_by_uuid_def)
      (simp add: sample_tree_def store_entry_def sample_entry_def entry_uuid_def)
  from store_update[where mutate = "remove_by_uuid (entryUUIDString store_entry)", OF this] show ?thesis
    by (auto simp: Item_Delete_def store_refresh)
qed

section \<open>Writing refines the store\<close>

text \<open>C15. Setting a secret refines the abstract store: when \<open>SetSecret\<close> reports success, the
  database behind the item shows the decrypted value under the item's UUID and is otherwise
  unchanged, in what it shows, as is every other database; and entry UUIDs stay unique.\<close>

theorem SetSecret_refines:
  assumes "Item_SetSecret C W sec it s d = Returned (None, s', d')" and "save_faithful (we_save W)"
    and "unique_entries s (co_db (it_coll it))"
  shows "\<exists>p. decryptSecret C s sec = Returned (Ok p)
           \<and> shown_by s' (co_db (it_coll it)) = (shown_by s (co_db (it_coll it)))(it_uuid it \<mapsto> string_of p)
           \<and> (\<forall>r. r \<noteq> co_db (it_coll it) \<longrightarrow> shown_by s' r = shown_by s r)
           \<and> unique_entries s' (co_db (it_coll it))"
  using SetSecret_shown[OF assms] by metis

lemma SetSecret_refines_witness:
  "\<exists>s' d'. Item_SetSecret sample_cipher store_write store_secret store_item store_svc (sys_start sample_disk)
       = Returned (None, s', d') \<and> shown_by s' 0 (entryUUIDString store_entry) = Some ''x''"
proof -
  from store_SetSecret obtain s' d' where
    run: "Item_SetSecret sample_cipher store_write store_secret store_item store_svc (sys_start sample_disk)
      = Returned (None, s', d')" by blast
  from SetSecret_refines[OF run] store_unique show ?thesis
    using run by (auto simp: store_decrypt store_write_def string_of_120)
qed

text \<open>C17. Deleting refines the abstract store: when \<open>Delete\<close> reports success, the database
  behind the item no longer shows anything under the item's UUID and is otherwise unchanged,
  in what it shows, as is every other database.\<close>

theorem Delete_refines:
  assumes "Item_Delete W it s d = Returned (Ok q, s', d')" and "save_faithful (we_save W)"
    and "unique_entries s (co_db (it_coll it))"
  shows "shown_by s' (co_db (it_coll it)) = (shown_by s (co_db (it_coll it)))(it_uuid it := None)
         \<and> (\<forall>r. r \<noteq> co_db (it_coll it) \<longrightarrow> shown_by s' r = shown_by s r)"
  using Delete_shown[OF assms] by blast

lemma Delete_refines_witness:
  "\<exists>s' d'. Item_Delete store_write store_item store_svc (sys_start sample_disk) = Returned (Ok ''/'', s', d')
     \<and> shown_by s' 0 (entryUUIDString store_entry) = None"
proof -
  from store_Delete obtain s' d' where
    run: "Item_Delete store_write store_item store_svc (sys_start sample_disk) = Returned (Ok ''/'', s', d')" by blast
  from Delete_refines[OF run] store_unique show ?thesis using run by (auto simp: store_write_def)
qed

section \<open>Written is read\<close>

lemma Encrypt_possible:
  assumes "s_alg sess = ''plain'' \<or> key_size_ok (s_key sess) \<and> \<not> s_closed sess"
  shows "\<exists>x. Encrypt C (Some iv) sess p = Ok x"
  using assms by (auto simp: Encrypt_def key_size_ok_def)

lemma GetSecret_possible:
  assumes "shown_by s (co_db (it_coll it)) (it_uuid it) \<noteq> None"
    and "authorize_item E 0 s (callerInfo (en_proc E) True sender) = None"
    and "sv_sessions s path = Some sess" "\<not> s_closed sess" "s_alg sess = ''plain'' \<or> key_size_ok (s_key sess)"
    and "en_iv E 0 = Some iv"
  shows "\<exists>sec s'. Item_GetSecret E sender path it s = (Ok sec, s')"
proof -
  obtain e where e: "fst (refresh s it) = Some e" using assms(1) refresh_shown[of s it] by fastforce
  obtain iv' c where "Encrypt (en_cipher E) (Some iv) sess (bytes_of (get_password e)) = Ok (iv', c)"
    using Encrypt_possible[of sess] assms(4,5) by (metis surj_pair)
  then show ?thesis using assms e by (simp add: Item_GetSecret_def)
qed

text \<open>C16. A secret written is the secret read: after a successful \<open>SetSecret\<close>, every caller
  that is authorised gets, through any open session with a usable key, a secret that
  decrypts under that session to exactly the bytes that were set.\<close>

theorem set_then_get:
  assumes "Item_SetSecret C W sec it s d = Returned (None, s', d')" and "save_faithful (we_save W)"
    and "unique_entries s (co_db (it_coll it))"
    and "authorize_item E 0 s (callerInfo (en_proc E) True sender) = None"
    and "sv_sessions s path = Some sess" and "\<not> s_closed sess" and "s_alg sess = ''plain'' \<or> key_size_ok (s_key sess)"
    and "sound_cipher (en_cipher E)" and "en_iv E 0 = Some iv" and "length iv = 16"
  shows "\<exists>p sec' s''. decryptSecret C s sec = Returned (Ok p)
           \<and> Item_GetSecret E sender path it s' = (Ok sec', s'')
           \<and> Decrypt (en_cipher E) sess (ds_parameters sec') (ds_value sec') = Returned (Ok p)"
proof -
  from SetSecret_shown[OF assms(1-3)] obtain p where p: "decryptSecret C s sec = Returned (Ok p)"
    "shown_by s' (co_db (it_coll it)) (it_uuid it) = Some (string_of p)"
    "sv_sessions s' = sv_sessions s" "sv_config s' = sv_config s" by (metis fun_upd_same)
  have auth: "authorize_item E 0 s' (callerInfo (en_proc E) True sender) = None"
    using assms(4) p(4) by (simp add: authorize_item_def)
  have sess: "sv_sessions s' path = Some sess" using assms(5) p(3) by simp
  have "shown_by s' (co_db (it_coll it)) (it_uuid it) \<noteq> None" using p(2) by simp
  from GetSecret_possible[OF this auth sess assms(6,7,9)] obtain sec' s'' where
    run: "Item_GetSecret E sender path it s' = (Ok sec', s'')" by blast
  then obtain e iv' c where e: "fst (refresh s' it) = Some e"
    "Encrypt (en_cipher E) (en_iv E 0) sess (bytes_of (get_password e)) = Ok (iv', c)"
    "ds_parameters sec' = iv'" "ds_value sec' = c"
    using sess by (auto simp: Item_GetSecret_def Let_def split: option.splits if_splits sum.splits)
  have "bytes_of (get_password e) = p" using refresh_shown[of s' it] e(1) p(2) by simp
  moreover have "Decrypt (en_cipher E) sess iv' c = Returned (Ok (bytes_of (get_password e)))"
    by (rule Decrypt_Encrypt[OF assms(8) _ e(2)]) (use assms(9,10) in auto)
  ultimately show ?thesis using p(1) run e by auto
qed

lemma set_then_get_witness:
  "\<exists>s' d' sec' s''. Item_SetSecret sample_cipher store_write store_secret store_item store_svc (sys_start sample_disk)
       = Returned (None, s', d')
     \<and> Item_GetSecret store_env '':1.7'' ''/s'' store_item s' = (Ok sec', s'')"
proof -
  from store_SetSecret obtain s' d' where
    run: "Item_SetSecret sample_cipher store_write store_secret store_item store_svc (sys_start sample_disk)
      = Returned (None, s', d')" by blast
  have auth: "authorize_item store_env 0 store_svc (callerInfo (en_proc store_env) True '':1.7'') = None"
    by (simp add: authorize_item_def authorizeSecretAccess_def DefaultConfig_def)
  have pre: "save_faithful (we_save store_write)" "unique_entries store_svc (co_db (it_coll store_item))"
    "\<not> s_closed (NewPlainSession ''/s'')" "s_alg (NewPlainSession ''/s'') = ''plain''" "sound_cipher (en_cipher store_env)"
    "en_iv store_env 0 = Some (replicate 16 7)" "length (replicate 16 (7 :: 8 word)) = 16"
    using store_unique by (simp_all add: store_write_def NewPlainSession_def store_env_def)
  from set_then_get[OF run pre(1,2) auth store_facts(12) pre(3) disjI1[OF pre(4)] pre(5-7)] run
  show ?thesis by blast
qed

section \<open>Bulk reads\<close>

lemma same_view:
  assumes "sv_pool s' = sv_pool s" "sv_dbconfigs s' = sv_dbconfigs s" "sv_collections s' = sv_collections s"
  shows "getItemByPath order s' path = getItemByPath order s path" and "collectEntriesForDB s' od = collectEntriesForDB s od"
proof -
  show c: "collectEntriesForDB s' od = collectEntriesForDB s od" for od
    using assms by (simp add: collectEntriesForDB_def exposeGroupForDB_def split: option.split)
  have "items_of s' coll = items_of s coll" for coll
    using assms c by (simp add: items_of_def odb_at_def split: option.split)
  then have "find_item_in s' path colls = find_item_in s path colls" for colls
    by (induction colls) (auto split: option.split)
  then show "getItemByPath order s' path = getItemByPath order s path"
    using assms(3) by (simp add: getItemByPath_def)
qed

lemma note_access_keeps [simp]:
  "sv_pool (note_access E via caller it s) = sv_pool s" "sv_dbconfigs (note_access E via caller it s) = sv_dbconfigs s"
  "sv_collections (note_access E via caller it s) = sv_collections s" "sv_config (note_access E via caller it s) = sv_config s"
  "sv_sessions (note_access E via caller it s) = sv_sessions s" "sv_aliases (note_access E via caller it s) = sv_aliases s"
  "sv_next (note_access E via caller it s) = sv_next s" "sv_exports (note_access E via caller it s) = sv_exports s"
  "sv_signals (note_access E via caller it s) = sv_signals s"
  "sv_log (note_access E via caller it s) =
     sv_log s @ [\<lparr>ar_via = via, ar_caller = caller, ar_collection = item_collection_name s it, ar_item = Item_Label s it\<rparr>]"
  by (simp_all add: note_access_def notify_access_def logSecretAccess_def Let_def split: prod.split)

text \<open>A record of an access in the log, and a secret the loop may return at a path.\<close>

definition logged :: "caller_info \<Rightarrow> item \<Rightarrow> svc \<Rightarrow> access_record list \<Rightarrow> bool" where
  "logged caller it s recs \<longleftrightarrow>
     \<lparr>ar_via = ''Service.GetSecrets'', ar_caller = caller, ar_collection = Collection_Label s (it_coll it),
      ar_item = Item_Label s it\<rparr> \<in> set recs"

lemma labels_cong:
  assumes "sv_pool s' = sv_pool s" "sv_dbconfigs s' = sv_dbconfigs s"
  shows "Item_Label s' it = Item_Label s it" and "Collection_Label s' c = Collection_Label s c"
proof -
  have c: "collectEntriesForDB s' od = collectEntriesForDB s od" for od
    using assms by (simp add: collectEntriesForDB_def exposeGroupForDB_def split: option.split)
  then have "refresh s' it = refresh s it"
    using assms by (simp add: refresh_def odb_at_def split: option.split)
  then show "Item_Label s' it = Item_Label s it" by (simp add: Item_Label_def cached_entry_def)
  show "Collection_Label s' c = Collection_Label s c"
    using assms by (simp add: Collection_Label_def odb_at_def)
qed

lemma get_secrets_loop_spec:
  assumes "get_secrets_loop E order sess path caller i items secrets s = ((secrets', err), s')"
  shows "\<exists>log. sv_log s' = sv_log s @ log
     \<and> (\<forall>p. secrets' p = secrets p \<or> p \<in> set items \<and>
         (\<exists>it j iv c. getItemByPath order s p = Some it \<and> authorize_item E j s caller = None
            \<and> Encrypt (en_cipher E) (en_iv E j) sess (bytes_of (get_password (it_entry it))) = Ok (iv, c)
            \<and> secrets' p = Some \<lparr>ds_session = path, ds_parameters = iv, ds_value = c, ds_content_type = ''text/plain''\<rparr>
            \<and> logged caller it s log))"
  using assms
proof (induction items arbitrary: i secrets s)
  case (Cons q qs)
  show ?case
  proof (cases "getItemByPath order s q")
    case None
    with Cons.prems have "get_secrets_loop E order sess path caller (Suc i) qs secrets s = ((secrets', err), s')" by simp
    from Cons.IH[OF this] show ?thesis by (simp add: split: option.split) blast
  next
    case (Some it)
    show ?thesis
    proof (cases "authorize_item E i s caller")
      case denied: (Some e)
      with Cons.prems Some show ?thesis by auto
    next
      case auth: None
      show ?thesis
      proof (cases "Encrypt (en_cipher E) (en_iv E i) sess (bytes_of (get_password (it_entry it)))")
        case (Inl e)
        with Cons.prems Some auth have "get_secrets_loop E order sess path caller (Suc i) qs secrets s = ((secrets', err), s')" by simp
        from Cons.IH[OF this] show ?thesis by (simp add: split: option.split) blast
      next
        case (Inr r)
        obtain iv c where r: "r = (iv, c)" by (cases r)
        let ?s1 = "note_access E ''Service.GetSecrets'' caller it s"
        let ?sec = "\<lparr>ds_session = path, ds_parameters = iv, ds_value = c, ds_content_type = ''text/plain''\<rparr>"
        let ?rec = "\<lparr>ar_via = ''Service.GetSecrets'', ar_caller = caller, ar_collection = item_collection_name s it,
                     ar_item = Item_Label s it\<rparr>"
        have "get_secrets_loop E order sess path caller (Suc i) qs (secrets(q \<mapsto> ?sec)) ?s1 = ((secrets', err), s')"
          using Cons.prems Some auth Inr r by simp
        from Cons.IH[OF this] obtain log where log: "sv_log s' = sv_log ?s1 @ log"
          "\<And>p. secrets' p = (secrets(q \<mapsto> ?sec)) p \<or> p \<in> set qs \<and>
             (\<exists>it j iv c. getItemByPath order ?s1 p = Some it \<and> authorize_item E j ?s1 caller = None
                \<and> Encrypt (en_cipher E) (en_iv E j) sess (bytes_of (get_password (it_entry it))) = Ok (iv, c)
                \<and> secrets' p = Some \<lparr>ds_session = path, ds_parameters = iv, ds_value = c, ds_content_type = ''text/plain''\<rparr>
                \<and> logged caller it ?s1 log)" by blast
        have view: "getItemByPath order ?s1 p = getItemByPath order s p" for p by (rule same_view) simp_all
        have auth_eq: "authorize_item E j ?s1 caller = authorize_item E j s caller" for j by (simp add: authorize_item_def)
        have log_eq: "logged caller it' ?s1 log \<Longrightarrow> logged caller it' s (?rec # log)" for it'
          by (simp add: logged_def labels_cong[of ?s1 s])
        have here: "logged caller it s (?rec # log)" by (simp add: logged_def item_collection_name_def)
        have "sv_log s' = sv_log s @ ?rec # log" using log(1) by simp
        moreover have "secrets' p = secrets p \<or> p \<in> set (q # qs) \<and>
             (\<exists>it j iv c. getItemByPath order s p = Some it \<and> authorize_item E j s caller = None
                \<and> Encrypt (en_cipher E) (en_iv E j) sess (bytes_of (get_password (it_entry it))) = Ok (iv, c)
                \<and> secrets' p = Some \<lparr>ds_session = path, ds_parameters = iv, ds_value = c, ds_content_type = ''text/plain''\<rparr>
                \<and> logged caller it s (?rec # log))" for p
        proof (cases "secrets' p = (secrets(q \<mapsto> ?sec)) p")
          case True
          with Some auth Inr r here show ?thesis by (cases "p = q") auto
        next
          case False
          with log(2)[of p] show ?thesis unfolding view auth_eq using log_eq by (metis list.set_intros(2))
        qed
        ultimately show ?thesis by blast
      qed
    qed
  qed
qed simp

lemma get_secrets_loop_complete:
  assumes "get_secrets_loop E order sess path caller i items secrets s = ((secrets', None), s')"
    and "\<And>j p. \<exists>x. Encrypt (en_cipher E) (en_iv E j) sess p = Ok x"
  shows "(secrets p \<noteq> None \<longrightarrow> secrets' p \<noteq> None)
     \<and> (p \<in> set items \<longrightarrow> getItemByPath order s p \<noteq> None \<longrightarrow> secrets' p \<noteq> None)"
  using assms(1)
proof (induction items arbitrary: i secrets s)
  case (Cons q qs)
  show ?case
  proof (cases "getItemByPath order s q")
    case None
    with Cons.prems have "get_secrets_loop E order sess path caller (Suc i) qs secrets s = ((secrets', None), s')" by simp
    from Cons.IH[OF this] None show ?thesis by auto
  next
    case (Some it)
    obtain iv c where enc: "Encrypt (en_cipher E) (en_iv E i) sess (bytes_of (get_password (it_entry it))) = Ok (iv, c)"
      using assms(2)[of i "bytes_of (get_password (it_entry it))"] by auto
    let ?s1 = "note_access E ''Service.GetSecrets'' caller it s"
    let ?sec = "\<lparr>ds_session = path, ds_parameters = iv, ds_value = c, ds_content_type = ''text/plain''\<rparr>"
    have "get_secrets_loop E order sess path caller (Suc i) qs (secrets(q \<mapsto> ?sec)) ?s1 = ((secrets', None), s')"
      using Cons.prems Some enc by (auto split: option.splits)
    from Cons.IH[OF this] have "((secrets(q \<mapsto> ?sec)) p \<noteq> None \<longrightarrow> secrets' p \<noteq> None)
        \<and> (p \<in> set qs \<longrightarrow> getItemByPath order s p \<noteq> None \<longrightarrow> secrets' p \<noteq> None)"
      by (simp add: same_view(1)[of ?s1 s])
    then show ?thesis by auto
  qed
qed simp

lemma find_newItem_entry: "it = newItem od coll e \<Longrightarrow> it_entry it = e"
  by (simp add: newItem_def)

text \<open>C14. Bulk reads are sound: a secret that \<open>GetSecrets\<close> returns is for a requested path; the
  path names a visible entry of an unlocked database in a collection; the session was known
  and open; the caller was authorised; the secret decrypts, under the session, to the entry's
  password; and the access was logged for the caller.\<close>

theorem GetSecrets_sound:
  assumes "GetSecrets E order sender items path s = ((secrets, err), s')" and "secrets p = Some sec"
    and "enumerates order (sv_collections s)" and "sound_cipher (en_cipher E)"
    and "\<And>i iv. en_iv E i = Some iv \<Longrightarrow> length iv = 16"
  shows "\<exists>sess coll_path coll od e i log.
           p \<in> set items \<and> sv_sessions s path = Some sess \<and> \<not> s_closed sess \<and> ds_session sec = path
           \<and> sv_collections s coll_path = Some coll \<and> odb_at s (co_db coll) = Some od \<and> is_open od
           \<and> e \<in> set (collectEntriesForDB s od) \<and> itemPathForEntry (od_name od) e = p
           \<and> authorize_item E i s (callerInfo (en_proc E) True sender) = None
           \<and> Decrypt (en_cipher E) sess (ds_parameters sec) (ds_value sec) = Returned (Ok (bytes_of (get_password e)))
           \<and> sv_log s' = sv_log s @ log
           \<and> (\<exists>rec \<in> set log. ar_via rec = ''Service.GetSecrets'' \<and> ar_caller rec = callerInfo (en_proc E) True sender)"
proof -
  let ?caller = "callerInfo (en_proc E) True sender"
  from assms(1,2) obtain sess where sess: "sv_sessions s path = Some sess" "\<not> s_closed sess"
    "get_secrets_loop E order sess path ?caller 0 items Map.empty s = ((secrets, err), s')"
    by (auto simp: GetSecrets_def Let_def split: option.splits if_splits)
  from get_secrets_loop_spec[OF sess(3)] obtain log where log: "sv_log s' = sv_log s @ log"
    "\<forall>p. secrets p = Map.empty p \<or> p \<in> set items \<and>
         (\<exists>it j iv c. getItemByPath order s p = Some it \<and> authorize_item E j s ?caller = None
            \<and> Encrypt (en_cipher E) (en_iv E j) sess (bytes_of (get_password (it_entry it))) = Ok (iv, c)
            \<and> secrets p = Some \<lparr>ds_session = path, ds_parameters = iv, ds_value = c, ds_content_type = ''text/plain''\<rparr>
            \<and> logged ?caller it s log)" by blast
  from log(2)[rule_format, of p] assms(2) obtain it j iv c where l: "sv_log s' = sv_log s @ log"
    "p \<in> set items" "getItemByPath order s p = Some it" "authorize_item E j s ?caller = None"
    "Encrypt (en_cipher E) (en_iv E j) sess (bytes_of (get_password (it_entry it))) = Ok (iv, c)"
    "sec = \<lparr>ds_session = path, ds_parameters = iv, ds_value = c, ds_content_type = ''text/plain''\<rparr>"
    "logged ?caller it s log"
    using log(1) by auto
  from getItemByPath_Some[OF assms(3) l(3)] obtain cp coll od e where
    i: "sv_collections s cp = Some coll" "odb_at s (co_db coll) = Some od" "is_open od"
      "e \<in> set (collectEntriesForDB s od)" "it = newItem od coll e" "itemPathForEntry (od_name od) e = p" by blast
  have "Decrypt (en_cipher E) sess iv c = Returned (Ok (bytes_of (get_password e)))"
    using Decrypt_Encrypt[OF assms(4) _ l(5)] assms(5) find_newItem_entry[OF i(5)] by simp
  moreover have "\<exists>rec \<in> set log. ar_via rec = ''Service.GetSecrets'' \<and> ar_caller rec = ?caller"
    using l(7) unfolding logged_def by force
  moreover have "ds_session sec = path" "ds_parameters sec = iv" "ds_value sec = c" using l(6) by simp_all
  ultimately show ?thesis using sess(1,2) l(1,2,4) i(1,2,3,4,6) by metis
qed

lemma store_read:
  "\<exists>sec s'. GetSecrets store_env [collection_path ''d''] '':1.7'' [itemPathForEntry ''d'' store_entry] ''/s'' store_svc
     = (([itemPathForEntry ''d'' store_entry \<mapsto> sec], None), s')"
proof -
  let ?p = "itemPathForEntry ''d'' store_entry"
  have en: "enumerates [collection_path ''d''] (sv_collections store_svc)" by (simp add: store_svc_def enumerates_def)
  have coll: "sv_collections store_svc (collection_path ''d'') = Some store_coll" by (simp add: store_svc_def)
  have "store_entry \<in> set (collectEntriesForDB store_svc store_od)"
    by (simp add: collectEntriesForDB_def store_visible)
  from getItemByPath_present[OF en coll _ _ this] obtain it where
    it: "getItemByPath [collection_path ''d''] store_svc ?p = Some it"
    using store_facts by (auto simp: store_coll_def)
  have auth: "authorize_item store_env 0 store_svc caller = None" for caller
    by (simp add: authorize_item_def authorizeSecretAccess_def DefaultConfig_def)
  have "Encrypt C x (NewPlainSession ''/s'') b = Ok ([], b)" for C x b
    by (simp add: Encrypt_def NewPlainSession_def)
  then show ?thesis
    using it auth by (simp add: GetSecrets_def) (simp add: NewPlainSession_def, blast)
qed

lemma GetSecrets_sound_witness:
  "\<exists>sec :: dbus_secret. Decrypt sample_cipher (NewPlainSession ''/s'') (ds_parameters sec) (ds_value sec)
     = Returned (Ok (bytes_of (get_password store_entry)))"
proof -
  let ?p = "itemPathForEntry ''d'' store_entry"
  from store_read obtain sec s' where
    run: "GetSecrets store_env [collection_path ''d''] '':1.7'' [?p] ''/s'' store_svc = (([?p \<mapsto> sec], None), s')" by blast
  have "enumerates [collection_path ''d''] (sv_collections store_svc)" "sound_cipher (en_cipher store_env)"
    "[?p \<mapsto> sec] ?p = Some sec" "\<And>i iv. en_iv store_env i = Some iv \<Longrightarrow> length iv = 16"
    by (auto simp: store_svc_def store_env_def enumerates_def)
  from GetSecrets_sound[OF run this(3) this(1,2) this(4)] obtain coll_path coll od e where
    e: "sv_collections store_svc coll_path = Some coll" "odb_at store_svc (co_db coll) = Some od"
      "e \<in> set (collectEntriesForDB store_svc od)" "itemPathForEntry (od_name od) e = ?p"
      "Decrypt sample_cipher (NewPlainSession ''/s'') (ds_parameters sec) (ds_value sec)
         = Returned (Ok (bytes_of (get_password e)))"
    by (auto simp: store_env_def)
  have "coll = store_coll" using e(1) by (auto simp: store_svc_def split: if_splits)
  then have "od = store_od" using e(2) by (simp add: store_coll_def)
  then have "e = store_entry"
    using e(3,4) by (auto simp: collectEntriesForDB_def store_visible itemPathForEntry_def store_entry_def
        sample_entry_def entry_uuid_def)
  with e(5) show ?thesis by blast
qed

section \<open>Created items\<close>

text \<open>A store through the pointer of a match replaces one visible entry.\<close>

definition stores_visible :: "grp list \<Rightarrow> entry_ptr \<Rightarrow> uuid \<Rightarrow> string \<Rightarrow> bool \<Rightarrow> bool" where
  "stores_visible gs ptr rb w v \<longleftrightarrow>
     fst ptr \<noteq> [] \<and> (\<exists>xs e ys. entry_ref gs ptr = Some e \<and> collectEntriesVisibleInto gs rb w v = xs @ e # ys
       \<and> (\<forall>e'. collectEntriesVisibleInto (entry_store gs ptr e') rb w v = xs @ e' # ys))"

lemma stores_visibleI:
  assumes "fst ptr \<noteq> []" "entry_ref gs ptr = Some e" "collectEntriesVisibleInto gs rb w v = xs @ e # ys"
    and "\<And>e'. collectEntriesVisibleInto (entry_store gs ptr e') rb w v = xs @ e' # ys"
  shows "stores_visible gs ptr rb w v"
  using assms unfolding stores_visible_def by blast

lemma stores_visible_next:
  assumes "stores_visible rest ptr rb w v"
  shows "stores_visible (Group d es gs # rest) (in_next ptr) rb w v"
proof -
  from assms obtain xs e ys where i: "fst ptr \<noteq> []" "entry_ref rest ptr = Some e" "collectEntriesVisibleInto rest rb w v = xs @ e # ys"
    "\<forall>e'. collectEntriesVisibleInto (entry_store rest ptr e') rb w v = xs @ e' # ys"
    by (auto simp: stores_visible_def)
  let ?front = "if is_recycled d rb then []
      else let groupVisible = v \<or> exposes d w
           in (if groupVisible then es else []) @ collectEntriesVisibleInto gs rb w groupVisible"
  have "collectEntriesVisibleInto (Group d es gs # rest) rb w v = (?front @ xs) @ e # ys"
    "\<forall>e'. collectEntriesVisibleInto (entry_store (Group d es gs # rest) (in_next ptr) e') rb w v = (?front @ xs) @ e' # ys"
    using i by (simp_all add: ptr_simps)
  from stores_visibleI[OF _ _ this(1)] this(2) i(1,2) show ?thesis by (simp add: ptr_simps)
qed

lemma stores_visible_sub:
  assumes "stores_visible gs ptr rb w (v \<or> exposes d w)" "\<not> is_recycled d rb"
  shows "stores_visible (Group d es gs # rest) (in_subgroups ptr) rb w v"
proof -
  let ?gv = "v \<or> exposes d w"
  from assms obtain xs e ys where i: "fst ptr \<noteq> []" "entry_ref gs ptr = Some e" "collectEntriesVisibleInto gs rb w ?gv = xs @ e # ys"
    "\<forall>e'. collectEntriesVisibleInto (entry_store gs ptr e') rb w ?gv = xs @ e' # ys"
    by (auto simp: stores_visible_def)
  let ?front = "if ?gv then es else []" and ?rear = "collectEntriesVisibleInto rest rb w v"
  have "collectEntriesVisibleInto (Group d es gs # rest) rb w v = (?front @ xs) @ e # ys @ ?rear"
    "\<forall>e'. collectEntriesVisibleInto (entry_store (Group d es gs # rest) (in_subgroups ptr) e') rb w v
       = (?front @ xs) @ e' # ys @ ?rear"
    using i assms(2) by (simp_all add: ptr_simps Let_def)
  from stores_visibleI[OF _ _ this(1)] this(2) i(1,2) show ?thesis by (simp add: ptr_simps)
qed

lemma stores_visible_here:
  assumes "i < length es" "v \<or> exposes d w" "\<not> is_recycled d rb"
  shows "stores_visible (Group d es gs # rest) ([0], i) rb w v"
proof -
  have "es = take i es @ es ! i # drop (Suc i) es" using assms(1) by (rule id_take_nth_drop)
  moreover have "es[i := e'] = take i es @ e' # drop (Suc i) es" for e'
    using assms(1) by (rule upd_conv_take_nth_drop)
  ultimately show ?thesis
    using assms unfolding stores_visible_def
    by (simp add: ptr_simps Let_def) (metis append.assoc append_Cons)
qed

lemma match_stores_visible:
  "findMatchingVisibleEntryPtr order gs n u as rb x v = Some ptr \<Longrightarrow>
     stores_visible gs ptr rb (trim_space x) (v \<or> trim_space x = [])"
proof (induction order gs n u as rb x v arbitrary: ptr rule: findMatchingVisibleEntryPtr.induct)
  case (2 order d es gs rest n u as rb x v)
  let ?w = "trim_space x"
  define gv where "gv \<longleftrightarrow> v \<or> ?w = [] \<or> exposes d ?w"
  have gv: "((v \<or> ?w = []) \<or> exposes d ?w) = gv" "(gv \<or> ?w = []) = gv" "(v \<or> ?w = [] \<or> exposes d ?w) = gv"
    by (auto simp: gv_def)
  let ?here = "if gv then index_where (\<lambda>e. matchAttributesForWrite order e \<lparr>mo_name = n, mo_uuid = u\<rparr> as) es else None"
  have nxt: "stores_visible (Group d es gs # rest) ptr rb ?w (v \<or> ?w = [])"
    if "map_option in_next (findMatchingVisibleEntryPtr order rest n u as rb x v) = Some ptr"
  proof -
    from that obtain q where q: "findMatchingVisibleEntryPtr order rest n u as rb x v = Some q" "ptr = in_next q"
      by auto
    from stores_visible_next[OF 2(1)[OF refl q(1)]] show ?thesis unfolding q(2) .
  qed
  show ?case
  proof (cases "is_recycled d rb")
    case True
    with 2(3) nxt show ?thesis by (simp add: Let_def)
  next
    case False
    show ?thesis
    proof (cases ?here)
      case (Some i)
      then have "gv" "i < length es" by (auto dest: index_where_Some split: if_splits)
      moreover have "ptr = ([0], i)" using 2(3) False Some gv by (simp add: Let_def)
      ultimately show ?thesis using False gv stores_visible_here[of i es "v \<or> ?w = []" d ?w rb gs rest] by blast
    next
      case None
      show ?thesis
      proof (cases "findMatchingVisibleEntryPtr order gs n u as rb ?w gv")
        case nog: None
        then show ?thesis using 2(3) False None gv by (intro nxt) (simp add: Let_def)
      next
        case (Some q)
        from 2(2)[OF refl refl False gv_def None Some] have "stores_visible gs q rb ?w gv" using gv(2) by simp
        moreover have "ptr = in_subgroups q" using 2(3) False None Some gv by (simp add: Let_def)
        moreover from calculation(1) have "stores_visible gs q rb ?w ((v \<or> ?w = []) \<or> exposes d ?w)" using gv(1) by simp
        ultimately show ?thesis using stores_visible_sub False by blast
      qed
    qed
  qed
qed simp

text \<open>The groups on the way to a pointer, and what appending there does to the visible entries
  when no group is exposed: the new one joins them unless a group on the way is recycled.\<close>

fun groups_above :: "grp list \<Rightarrow> group_ptr \<Rightarrow> group_data list" where
  "groups_above [] p = []"
| "groups_above (Group d es gs # rest) [] = []"
| "groups_above (Group d es gs # rest) (0 # p) = d # groups_above gs p"
| "groups_above (Group d es gs # rest) (Suc i # p) = groups_above rest (i # p)"

definition hidden_at :: "grp list \<Rightarrow> group_ptr \<Rightarrow> uuid \<Rightarrow> bool" where
  "hidden_at gs p rb \<longleftrightarrow> (\<exists>d \<in> set (groups_above gs p). is_recycled d rb)"

lemma groups_above_Nil [simp]: "groups_above gs [] = []"
  by (cases "(gs, [] :: group_ptr)" rule: groups_above.cases) auto

lemma append_open_visible:
  "entries_at gs p \<noteq> None \<Longrightarrow>
     if hidden_at gs p rb
     then collectEntriesVisibleInto (append_entry gs p e) rb w True = collectEntriesVisibleInto gs rb w True
     else set (collectEntriesVisibleInto (append_entry gs p e) rb w True) = insert e (set (collectEntriesVisibleInto gs rb w True))"
proof (induction gs p rule: groups_above.induct)
  case (3 d es gs rest p)
  show ?case
  proof (cases "p = []")
    case True
    then show ?thesis by (simp add: append_entry_here hidden_at_def Let_def)
  next
    case False
    with 3 show ?thesis by (auto simp: append_entry_sub hidden_at_def Let_def split: if_splits)
  qed
next
  case (4 d es gs rest i p)
  then show ?case by (auto simp: append_entry_next hidden_at_def Let_def split: if_splits)
qed simp_all

lemma append_entry_in: "entries_at gs p \<noteq> None \<Longrightarrow> e \<in> set (all_entries (append_entry gs p e))"
  by (induction gs p rule: groups_above.induct) (auto simp: append_entry_def split: if_splits)

lemma visible_into_append:
  "collectEntriesVisibleInto (gs @ gs') rb w v = collectEntriesVisibleInto gs rb w v @ collectEntriesVisibleInto gs' rb w v"
  by (induction gs rb w v rule: collectEntriesVisibleInto.induct) (simp_all add: Let_def)

lemma entries_at_index: "i < length gs \<Longrightarrow> entries_at gs [i] \<noteq> None"
proof (induction gs arbitrary: i)
  case (Cons g gs)
  obtain d es sub where "g = Group d es sub" by (cases g)
  with Cons show ?case by (cases i) auto
qed simp

text \<open>The group \<open>Secret Service\<close>, found or made, is there, and making it shows no entry.\<close>

lemma secret_service_group_there:
  assumes "secret_service_group rnd n now gs = (gs', p, n')"
  shows "entries_at gs' p \<noteq> None \<and> collectEntriesVisibleInto gs' rb w v = collectEntriesVisibleInto gs rb w v"
proof (cases gs)
  case Nil
  with assms show ?thesis
    by (auto simp: secret_service_group_def Let_def)
next
  case (Cons g rest)
  obtain d es sub where g: "g = Group d es sub" by (cases g)
  show ?thesis
  proof (cases "index_where (\<lambda>g. g_name (gdata g) = secretServiceGroupName) sub")
    case None
    with assms Cons g entries_at_index[of "length sub" "sub @ [x]" for x] show ?thesis
      by (auto simp: secret_service_group_def visible_into_append Let_def)
  next
    case (Some i)
    with assms Cons g entries_at_index[of i sub] show ?thesis
      by (auto simp: secret_service_group_def dest: index_where_Some)
  qed
qed

lemma findOrCreate_groups:
  assumes "root_groups db = Some gs" "findOrCreateSecretServiceGroup rnd n now db = (db', q, n')"
  obtains gs' where "secret_service_group rnd n now gs = (gs', q, n')" "db' = with_groups gs' db"
proof -
  obtain c r where "db_content db = Some c" "c_root c = Some r" "r_groups r = gs"
    using assms(1) by (auto simp: root_groups_def split: option.splits)
  with assms(2) that show thesis
    by (auto simp: findOrCreateSecretServiceGroup_def with_groups_def split: prod.splits)
qed

lemma with_groups_again [simp]: "with_groups gs (with_groups gs' db) = with_groups gs db"
  by (cases db) (auto simp: with_groups_def option.map_comp comp_def intro!: option.map_cong)

lemma create_item_in_cases:
  assumes "create_item_in W ks replace label as p x od db = Ok (e, replaced, db')" "root_groups db = Some gs"
  obtains (replaced) ptr e0 where "replace" "replaced" "entry_ref gs ptr = Some e0"
      "findMatchingVisibleEntryPtr ks gs (od_name od) (od_uuid od) as (recycle_bin_uuid_for_db db) x False = Some ptr"
      "e = updateModificationTime (we_now W) (applyEntryFields (we_now W) ks label as (string_of p) (appendHistory (we_fresh W) 0 db e0))"
      "db' = with_groups (entry_store gs ptr e) db"
  | (added) q where "x \<noteq> []" "\<not> replaced" "e = newSecretServiceEntry (we_fresh W 0) (we_now W) ks label as p"
      "findGroupPtrByExposure gs (recycle_bin_uuid_for_db db) x = Some q" "db' = with_groups (append_entry gs q e) db"
  | (by_default) gs' q n' where "x = []" "\<not> replaced" "e = newSecretServiceEntry (we_fresh W 0) (we_now W) ks label as p"
      "secret_service_group (we_fresh W) 1 (we_now W) gs = (gs', q, n')" "db' = with_groups (append_entry gs' q e) db"
proof -
  let ?find = "findMatchingVisibleEntryPtr ks gs (od_name od) (od_uuid od) as (recycle_bin_uuid_for_db db) x False"
  show ?thesis
  proof (cases "replace \<and> ks \<noteq> [] \<and> Option.bind ?find (entry_ref gs) \<noteq> None")
    case True
    then obtain ptr e0 where f: "?find = Some ptr" "entry_ref gs ptr = Some e0" by (auto simp: bind_eq_Some_conv)
    show ?thesis
      by (rule replaced[OF _ _ f(2,1)]) (use assms True f in \<open>auto simp: create_item_in_def Let_def\<close>)
  next
    case no: False
    show ?thesis
    proof (cases "x = []")
      case False
      then have "\<not> replaced \<and> e = newSecretServiceEntry (we_fresh W 0) (we_now W) ks label as p \<and>
          (\<exists>q. findGroupPtrByExposure gs (recycle_bin_uuid_for_db db) x = Some q \<and> db' = with_groups (append_entry gs q e) db)"
        using assms no by (auto simp: create_item_in_def Let_def split: if_splits option.splits)
      then show ?thesis using added False by blast
    next
      case True
      obtain db2 q n' where f: "findOrCreateSecretServiceGroup (we_fresh W) 1 (we_now W) db = (db2, q, n')"
        by (cases "findOrCreateSecretServiceGroup (we_fresh W) 1 (we_now W) db")
      obtain gs' where gs': "secret_service_group (we_fresh W) 1 (we_now W) gs = (gs', q, n')" "db2 = with_groups gs' db"
        by (rule findOrCreate_groups[OF assms(2) f])
      have "root_groups db2 = Some gs'" using assms(2) gs'(2) by (auto simp: root_groups_def with_groups_def split: option.splits)
      then have "\<not> replaced \<and> e = newSecretServiceEntry (we_fresh W 0) (we_now W) ks label as p \<and> db' = with_groups (append_entry gs' q e) db"
        using assms no True f gs'(2) by (auto simp: create_item_in_def Let_def split: if_splits option.splits)
      then show ?thesis using by_default True gs'(1) by blast
    qed
  qed
qed

lemma append_visible:
  assumes "findGroupPtrByExposure gs rb x = Some q"
  shows "set (collectEntriesVisible (append_entry gs q e) rb x) = insert e (set (collectEntriesVisible gs rb x))"
  using assms exposed_append_visible[of gs rb "trim_space x" q e]
  by (auto simp: findGroupPtrByExposure_def collectEntriesVisible_def Let_def split: if_splits)

lemma store_match_visible:
  assumes "findMatchingVisibleEntryPtr ks gs n u as rb x False = Some ptr" "entry_ref gs ptr = Some e0"
  shows "\<exists>xs ys. collectEntriesVisible gs rb x = xs @ e0 # ys
           \<and> (\<forall>e. collectEntriesVisible (entry_store gs ptr e) rb x = xs @ e # ys)"
  using match_stores_visible[OF assms(1)] assms(2)
  by (auto simp: stores_visible_def collectEntriesVisible_def Let_def)

lemma applyEntryFields_uuid [simp]: "entry_uuid (applyEntryFields now ks label as x e) = entry_uuid e"
  by (simp add: applyEntryFields_def Let_def)

lemma update_ok_view:
  assumes "odb_at s r = Some od" "s1 = s\<lparr>sv_pool := (sv_pool s)\<lparr>pl_heap := (pl_heap (sv_pool s))(r \<mapsto> od')\<rparr>\<rparr>"
    and "od_db od' = Some (with_groups gs' db)" "root_groups db = Some gs" "od_name od' = od_name od" "od_path od' = od_path od"
    and "sv_pool s' = sv_pool s1" "sv_dbconfigs s' = sv_dbconfigs s1"
  shows "odb_at s' r = Some od'"
    and "collectEntriesForDB s' od' = collectEntriesVisible gs' (recycle_bin_uuid_for_db db) (exposeGroupForDB s od)"
  using assms expose_same[OF assms(5,6)]
  by (simp_all add: odb_at_def collectEntriesForDB_def exposeGroupForDB_def)

lemma applyEntryFields_password:
  assumes "enumerates ks as"
  shows "get_password (applyEntryFields now ks label as x e) = (case as ''Password'' of None \<Rightarrow> x | Some y \<Rightarrow> y)"
proof -
  have "as ''Password'' = Some y \<Longrightarrow> ''Password'' \<in> set ks" for y using assms by (auto simp: enumerates_def)
  then show ?thesis
    by (simp add: applyEntryFields_def get_password_def get_content_def apply_field_loop_value special_attr_def Let_def
        split: option.split)
qed

text \<open>The default group of a database, where items go when no group is exposed, is of no use when
  it, or the first group of the root, is recycled: the code does not look.\<close>

definition default_hidden :: "write_env \<Rightarrow> grp list \<Rightarrow> uuid \<Rightarrow> bool" where
  "default_hidden W gs rb = (case secret_service_group (we_fresh W) 1 (we_now W) gs of (gs', p, _) \<Rightarrow> hidden_at gs' p rb)"


definition store_shared :: svc where
  "store_shared = store_svc\<lparr>sv_dbconfigs := [\<lparr>dc_path = ''/d'', dc_name = [], dc_default = False, dc_auto_unlock = False,
     dc_unlock_credential = [], dc_systemd_credential_name = [], dc_keyfile = [], dc_yubikey_slot = 0,
     dc_expose_group = ''Shared'', dc_ssh_auto_add = False\<rparr>]\<rparr>"

lemma store_shared_facts [simp]:
  "odb_at store_shared r = odb_at store_svc r" "exposeGroupForDB store_shared store_od = ''Shared''"
  "validateSession store_shared x = validateSession store_svc x" "decryptSecret C store_shared sec = decryptSecret C store_svc sec"
  by (simp_all add: store_shared_def odb_at_def exposeGroupForDB_def validateSession_def decryptSecret_def)

lemma store_CreateItem:
  "\<exists>path s' d'. CreateItem sample_cipher store_write [] Map.empty store_secret False store_coll store_shared (sys_start sample_disk)
     = Returned (Ok (path, ''/''), s', d')"
proof -
  let ?m = "create_item_mutation store_write [] False [] Map.empty [120] ''Shared'' store_od"
  have "\<not> equal_fold ''Root'' ''Shared''" "trim_space ''Shared'' = ''Shared''" by code_simp+
  moreover have "length (groupUUIDString (sample_group 1 ''Root'')) = 32" by (simp add: groupUUIDString_def)
  then have "\<not> equal_fold (groupUUIDString (sample_group 1 ''Root'')) ''Shared''"
    by (auto simp: equal_fold_def to_lower_def dest: arg_cong[of _ _ length])
  ultimately have "findGroupPtrByExposure sample_tree 0 ''Shared'' = Some [0, 0]"
    by (simp add: findGroupPtrByExposure_def sample_tree_def is_recycled_def exposes_def Let_def) (simp add: sample_group_def)
  then have cr: "\<exists>e db'. create_item_in store_write [] False [] Map.empty [120] ''Shared'' store_od store_db = Ok (e, False, db')"
    by (simp add: create_item_in_def Let_def)
  then have "fst (?m store_db) = None" by (auto simp: create_item_mutation_def)
  from store_update[where mutate = ?m, OF this] obtain s' d' where
    "update_db store_write ?m 0 store_svc (sys_start sample_disk) = (None, s', d')" by blast
  then have "\<exists>s' d'. update_db store_write ?m 0 store_shared (sys_start sample_disk) = (None, s', d')"
    by (auto simp: update_db_def split: option.splits prod.splits)
  then obtain s1 d1 where "update_db store_write ?m 0 store_shared (sys_start sample_disk) = (None, s1, d1)" by blast
  with cr show ?thesis
    by (auto simp: CreateItem_def store_session store_decrypt store_coll_def propertyString_def propertyAttributes_def Let_def)
qed

text \<open>Without an exposed group the group \<open>Secret Service\<close> is made.\<close>

lemma store_CreateItem_default:
  "\<exists>path s' d'. CreateItem sample_cipher store_write [] Map.empty store_secret False store_coll store_svc (sys_start sample_disk)
     = Returned (Ok (path, ''/''), s', d')"
proof -
  let ?m = "create_item_mutation store_write [] False [] Map.empty [120] [] store_od"
  obtain db2 q n' where f: "findOrCreateSecretServiceGroup (we_fresh store_write) 1 (we_now store_write) store_db = (db2, q, n')"
    by (cases "findOrCreateSecretServiceGroup (we_fresh store_write) 1 (we_now store_write) store_db")
  obtain gs' where "db2 = with_groups gs' store_db" by (rule findOrCreate_groups[OF store_facts(8) f])
  then have "root_groups db2 = Some gs'" using store_facts(8) by (auto simp: root_groups_def with_groups_def split: option.splits)
  with f have cr: "\<exists>e db'. create_item_in store_write [] False [] Map.empty [120] [] store_od store_db = Ok (e, False, db')"
    by (simp add: create_item_in_def Let_def)
  then have "fst (?m store_db) = None" by (auto simp: create_item_mutation_def)
  from store_update[where mutate = ?m, OF this] obtain s1 d1 where
    "update_db store_write ?m 0 store_svc (sys_start sample_disk) = (None, s1, d1)" by blast
  with cr show ?thesis
    by (auto simp: CreateItem_def store_session store_decrypt store_coll_def propertyString_def propertyAttributes_def Let_def)
qed


end
