(* ===== verification/Secret_Machine.thy ===== *)
theory Secret_Machine
  imports Secret_Contract Pool_Update
begin

text \<open>
  The Secret Service as a state machine: every method, every pool event and every change of
  the pool behind its back is a step, and the invariant ties collections to live databases,
  sessions to usable keys and the notification cache to its bound.
\<close>

section \<open>Objects of the pool are kept\<close>

definition grows :: "pool \<Rightarrow> pool \<Rightarrow> bool" where
  "grows p p' \<longleftrightarrow>
     (\<forall>r od. pl_heap p r = Some od \<longrightarrow>
        (\<exists>od'. pl_heap p' r = Some od' \<and> od_name od' = od_name od \<and> od_uuid od' = od_uuid od))"

lemma grows_refl [simp]: "grows p p"
  by (simp add: grows_def)

lemma grows_trans: "grows p q \<Longrightarrow> grows q r \<Longrightarrow> grows p r"
  unfolding grows_def by metis

lemma grows_heap: "pl_heap p' = pl_heap p \<Longrightarrow> grows p p'"
  by (simp add: grows_def)

lemma grows_update:
  "pl_heap p r = Some od \<Longrightarrow> od_name od' = od_name od \<Longrightarrow> od_uuid od' = od_uuid od
     \<Longrightarrow> pl_heap p' = (pl_heap p)(r \<mapsto> od') \<Longrightarrow> grows p p'"
  by (simp add: grows_def)

lemma Lock_grows:
  assumes "pool_ok p" "Pool.Lock uuid p = Returned (e, p')"
  shows "grows p p'"
  using assms(1)
proof (cases rule: Lock_cases[where uuid = uuid])
  case (found r od p1)
  with assms(2) grows_update[of p r od "locked_object od" p'] show ?thesis by (simp add: locked_object_def)
qed (use assms in simp)

lemma lock_uuids_grows: "pool_ok p \<Longrightarrow> lock_uuids us p err = Returned (e, p') \<Longrightarrow> grows p p'"
proof (induction us arbitrary: p err)
  case (Cons u us)
  then obtain e1 p1 where l: "Pool.Lock u p = Returned (e1, p1)"
    "lock_uuids us p1 (if e1 \<noteq> None \<and> err = None then e1 else err) = Returned (e, p')"
    by (auto split: run.splits)
  from Cons.IH[OF Lock_ok[OF Cons.prems(1) l(1)] l(2)] Lock_grows[OF Cons.prems(1) l(1)] show ?case
    by (rule grows_trans[rotated])
qed simp

lemma pool_step_grows:
  assumes "pool_ok p" "pool_step L p p'"
  shows "grows p p'"
  using assms(2)
proof (cases rule: pool_step.cases)
  case (pool_open content fp path cred res)
  have "pl_heap p (pl_next p) = None"
    using pool_okD(2)[OF assms(1), of "pl_next p"] by (cases "pl_heap p (pl_next p)") (auto simp: object_ok_def)
  then have "grows p (install od p)" for od
    by (auto simp: grows_def install_def Let_def)
  then have "grows p (send_event ev (install od p))" for ev od
    by (simp add: grows_def)
  with pool_open show ?thesis by (auto simp: Open_def split: sum.splits)
next
  case (pool_lock uuid e)
  show ?thesis by (rule Lock_grows[OF assms(1) pool_lock])
next
  case (pool_close order e)
  then obtain p1 where "lock_uuids (filter (is_unlocked p) order) p None = Returned (e, p1)" "p' = p1\<lparr>pl_dbs := Map.empty\<rparr>"
    by (auto simp: Close_def LockAll_def split: run.splits)
  with lock_uuids_grows[OF assms(1) this(1)] show ?thesis by (simp add: grows_def)
next
  case (pool_update r od db fp)
  then show ?thesis by (simp add: grows_def)
qed (simp_all add: grows_heap)

section \<open>The mutations of the service\<close>

lemma rooted_with_groups [simp]: "rooted db \<Longrightarrow> rooted (with_groups gs db)"
  by (auto simp: rooted_def root_of_def with_groups_def split: option.splits)

lemma rooted_secret_group: "rooted (fst (findOrCreateSecretServiceGroup rnd n now db))"
  by (simp add: findOrCreateSecretServiceGroup_def rooted_def root_of_def split: prod.split option.split)

lemma rooted_root_groups: "rooted db \<longleftrightarrow> root_groups db \<noteq> None"
  by (auto simp: rooted_def root_of_def root_groups_def split: option.splits)

text \<open>The mutations of the service keep a root.\<close>

named_theorems rooted_mutation

lemma edit_rooted [rooted_mutation]: "rooted db \<Longrightarrow> rooted (snd (edit_by_uuid f u db))"
  by (simp add: edit_by_uuid_def split: option.split)

lemma remove_rooted [rooted_mutation]: "rooted db \<Longrightarrow> rooted (snd (remove_by_uuid u db))"
  by (simp add: remove_by_uuid_def split: option.split prod.split)

lemma create_rooted [rooted_mutation]:
  "rooted db \<Longrightarrow> rooted (snd (create_item_mutation W ks replace label as p x od db))"
proof -
  assume db: "rooted db"
  show ?thesis
  proof (cases "create_item_in W ks replace label as p x od db")
    case (Inl e)
    then show ?thesis using db by (simp add: create_item_mutation_def)
  next
    case (Inr r)
    obtain e b db' where r: "r = (e, b, db')" by (cases r)
    obtain db2 q n where f: "findOrCreateSecretServiceGroup (we_fresh W) 1 (we_now W) db = (db2, q, n)"
      by (cases "findOrCreateSecretServiceGroup (we_fresh W) 1 (we_now W) db")
    have "rooted db2" using rooted_secret_group[of "we_fresh W" 1 "we_now W" db] f by simp
    then have "rooted db'"
      using Inr db r f by (auto simp: create_item_in_def Let_def split: option.splits if_splits)
    then show ?thesis using Inr r by (simp add: create_item_mutation_def)
  qed
qed

text \<open>An update of an object of the pool is a step of the pool, or none.\<close>

lemma update_db_pool:
  assumes "update_db W mutate r s d = (err, s', d')" "pool_ok (sv_pool s)" "keeps_root (we_save W)"
    and "\<And>db. rooted db \<Longrightarrow> rooted (snd (mutate db))"
  shows "\<exists>p'. s' = s\<lparr>sv_pool := p'\<rparr> \<and> (p' = sv_pool s \<or> pool_step L (sv_pool s) p')"
proof (cases "odb_at s r")
  case None
  then show ?thesis using assms(1) by (intro exI[of _ "sv_pool s"]) (simp add: update_db_def)
next
  case (Some od)
  obtain err' od' d2 where run: "UpdateAndSave (we_save W) (we_io W) (we_short W) (we_backup W) mutate od d = (err', od', d2)"
    by (metis prod_cases3)
  have heap: "pl_heap (sv_pool s) r = Some od" using Some by (simp add: odb_at_def)
  from update_pool[OF run assms(2) heap assms(3,4), where PL = L] show ?thesis
    using assms(1) Some run by (auto simp: update_db_def)
qed

section \<open>The machine\<close>

definition cache_orders :: "env \<Rightarrow> bool" where
  "cache_orders E \<longleftrightarrow> (\<forall>c. finite (dom c) \<longrightarrow> enumerates (en_cache_order E c) c)"

inductive svc_step :: "pool_lib \<Rightarrow> svc \<Rightarrow> svc \<Rightarrow> bool" for L where
  ss_pool: "pool_step L (sv_pool s) p \<Longrightarrow> svc_step L s (s\<lparr>sv_pool := p\<rparr>)"
| ss_event: "svc_step L s (HandlePoolEvent order ev s)"
| ss_seed: "svc_step L s (seedCollections order s)"
| ss_config: "svc_step L s (UpdateConfig cfg s)"
| ss_databases: "svc_step L s (UpdateDatabaseConfigs dbs s)"
| ss_session: "(\<And>x. length (sha x) = 32) \<Longrightarrow> svc_step L s (snd (OpenSession sha priv algorithm input s))"
| ss_collection: "svc_step L s (snd (CreateCollection s))"
| ss_unlock: "svc_step L s (snd (Unlock order alias_order objects s))"
| ss_lock: "Service_Lock alias_order objects s = Returned (r, s') \<Longrightarrow> svc_step L s s'"
| ss_alias: "svc_step L s (snd (SetAlias a path s))"
| ss_read: "cache_orders E \<Longrightarrow> svc_step L s (snd (Item_GetSecret E sender path it s))"
| ss_reads: "cache_orders E \<Longrightarrow> svc_step L s (snd (GetSecrets E order sender items path s))"
| ss_write: "keeps_root (we_save W) \<Longrightarrow> Item_SetSecret C W sec it s d = Returned (r, s', d') \<Longrightarrow> svc_step L s s'"
| ss_delete: "keeps_root (we_save W) \<Longrightarrow> Item_Delete W it s d = Returned (r, s', d') \<Longrightarrow> svc_step L s s'"
| ss_create: "keeps_root (we_save W) \<Longrightarrow> CreateItem C W ks ps sec replace coll s d = Returned (r, s', d') \<Longrightarrow> svc_step L s s'"
| ss_property: "keeps_root (we_save W) \<Longrightarrow> ItemProperties_Set W ks iface p v it s d = Returned (r, s', d') \<Longrightarrow> svc_step L s s'"

definition coll_ok :: "svc \<Rightarrow> string \<Rightarrow> collection \<Rightarrow> bool" where
  "coll_ok s p coll \<longleftrightarrow>
     co_path coll = p \<and> (\<exists>od. odb_at s (co_db coll) = Some od \<and> p = collection_path (od_name od))"

definition session_ok :: "string \<Rightarrow> session \<Rightarrow> bool" where
  "session_ok p sess \<longleftrightarrow>
     s_path sess = p \<and> \<not> s_closed sess \<and> (s_alg sess = ''plain'' \<or> length (s_key sess) = 16) \<and> (\<exists>n. p = session_path n)"

definition svc_ok :: "svc \<Rightarrow> bool" where
  "svc_ok s \<longleftrightarrow>
     pool_ok (sv_pool s) \<and> (\<forall>p coll. sv_collections s p = Some coll \<longrightarrow> coll_ok s p coll)
     \<and> (\<forall>p sess. sv_sessions s p = Some sess \<longrightarrow> session_ok p sess) \<and> cache_ok (sv_cache s)
     \<and> (sv_collections s \<noteq> Map.empty \<longrightarrow> sv_aliases s ''default'' \<noteq> None)"

lemma svc_okD:
  assumes "svc_ok s"
  shows "pool_ok (sv_pool s)" "sv_collections s p = Some coll \<Longrightarrow> coll_ok s p coll"
    "sv_sessions s p = Some sess \<Longrightarrow> session_ok p sess" "cache_ok (sv_cache s)"
    "sv_collections s p = Some coll \<Longrightarrow> sv_aliases s ''default'' \<noteq> None"
  using assms unfolding svc_ok_def by auto

text \<open>A step that only lets the pool grow and drops collections keeps the invariant.\<close>

lemma svc_ok_frame:
  assumes "svc_ok s" "pool_ok (sv_pool s')" "grows (sv_pool s) (sv_pool s')" "sv_collections s' \<subseteq>\<^sub>m sv_collections s"
    and "\<And>p sess. sv_sessions s' p = Some sess \<Longrightarrow> session_ok p sess" "cache_ok (sv_cache s')"
    and "\<And>a. sv_aliases s a \<noteq> None \<Longrightarrow> sv_aliases s' a \<noteq> None"
  shows "svc_ok s'"
proof -
  have coll: "coll_ok s' p coll" "sv_collections s p = Some coll" if "sv_collections s' p = Some coll" for p coll
  proof -
    from assms(4) that show c: "sv_collections s p = Some coll" unfolding map_le_def by (metis domI)
    from svc_okD(2)[OF assms(1) c] assms(3) show "coll_ok s' p coll"
      unfolding coll_ok_def grows_def odb_at_def by metis
  qed
  have "sv_aliases s' ''default'' \<noteq> None" if "sv_collections s' \<noteq> Map.empty"
  proof -
    from that obtain p c where "sv_collections s' p = Some c" by (auto simp: fun_eq_iff)
    then show ?thesis using svc_okD(5)[OF assms(1)] coll(2) assms(7) by blast
  qed
  then show ?thesis
    unfolding svc_ok_def using assms(2,5,6) coll(1) by blast
qed

lemma svc_ok_same:
  "svc_ok s \<Longrightarrow> sv_pool s' = sv_pool s \<Longrightarrow> sv_collections s' = sv_collections s \<Longrightarrow> sv_sessions s' = sv_sessions s
     \<Longrightarrow> sv_cache s' = sv_cache s \<Longrightarrow> sv_aliases s' = sv_aliases s \<Longrightarrow> svc_ok s'"
  by (rule svc_ok_frame[of s s']) (auto dest: svc_okD)

lemma svc_ok_pool:
  assumes "svc_ok s" "pool_ok p" "grows (sv_pool s) p"
  shows "svc_ok (s\<lparr>sv_pool := p\<rparr>)"
  by (rule svc_ok_frame[OF assms(1)]) (use assms in \<open>auto dest: svc_okD\<close>)

lemma svc_ok_bus [simp]:
  "svc_ok s \<Longrightarrow> svc_ok (export_object path ob s)" "svc_ok s \<Longrightarrow> svc_ok (emit_signal sg s)"
  "svc_ok s \<Longrightarrow> svc_ok (s\<lparr>sv_exports := x\<rparr>)" "svc_ok s \<Longrightarrow> svc_ok (s\<lparr>sv_next := n\<rparr>)"
  by (rule svc_ok_same; simp add: export_object_def emit_signal_def)+

section \<open>Steps keep the invariant\<close>

lemma export_items_ok: "svc_ok s \<Longrightarrow> svc_ok (exportItemsForCollection coll s)"
proof -
  have "svc_ok s \<Longrightarrow> svc_ok (fold (\<lambda>e. let it = newItem od coll e in export_object (it_path it) (ItemObject it)) es s)" for od es
    by (induction es arbitrary: s) (simp_all add: Let_def)
  then show "svc_ok s \<Longrightarrow> svc_ok (exportItemsForCollection coll s)"
    by (simp add: exportItemsForCollection_def split: option.split)
qed

definition bus_frame :: "svc \<Rightarrow> svc \<Rightarrow> bool" where
  "bus_frame s s' \<longleftrightarrow>
     sv_pool s' = sv_pool s \<and> sv_sessions s' = sv_sessions s \<and> sv_cache s' = sv_cache s \<and> sv_collections s' = sv_collections s
     \<and> sv_aliases s' = sv_aliases s"

lemma export_items_frame: "bus_frame s (exportItemsForCollection coll s)"
proof -
  have "bus_frame s (fold (\<lambda>e. let it = newItem od coll e in export_object (it_path it) (ItemObject it)) es s)" for od es
    by (induction es arbitrary: s) (simp_all add: bus_frame_def export_object_def Let_def)
  then show ?thesis by (simp add: exportItemsForCollection_def bus_frame_def split: option.split)
qed

lemma createCollection_fields:
  "sv_pool (createCollection od r s) = sv_pool s" "sv_sessions (createCollection od r s) = sv_sessions s"
  "sv_cache (createCollection od r s) = sv_cache s"
  "sv_collections (createCollection od r s) = (sv_collections s)(collection_path (od_name od) \<mapsto> newCollection od r)"
  "sv_aliases s a \<noteq> None \<Longrightarrow> sv_aliases (createCollection od r s) a = sv_aliases s a"
  "sv_aliases (createCollection od r s) ''default'' \<noteq> None"
  using export_items_frame unfolding createCollection_def Let_def bus_frame_def
  by (auto simp: export_object_def emit_signal_def exportAlias_def newCollection_def)

lemma createCollection_ok:
  assumes "svc_ok s" "odb_at s r = Some od"
  shows "svc_ok (createCollection od r s)"
proof -
  note f = createCollection_fields[where od = od and r = r and s = s]
  have odb: "odb_at (createCollection od r s) = odb_at s" using f(1) by (simp add: odb_at_def fun_eq_iff)
  have "coll_ok (createCollection od r s) p coll" if "sv_collections (createCollection od r s) p = Some coll" for p coll
    using that assms(2) svc_okD(2)[OF assms(1), of p coll] unfolding f(4) coll_ok_def odb
    by (auto simp: newCollection_def split: if_splits)
  then show ?thesis
    using f svc_okD(1,3,4)[OF assms(1)] unfolding svc_ok_def by auto
qed

lemma seed_refs_ok: "svc_ok s \<Longrightarrow> svc_ok (seed_refs rs s)"
  by (induction rs s rule: seed_refs.induct) (auto simp: createCollection_ok split: option.split)

lemma remove_collections_ok: "svc_ok s \<Longrightarrow> c \<subseteq>\<^sub>m sv_collections s \<Longrightarrow> svc_ok (s\<lparr>sv_collections := c\<rparr>)"
  by (rule svc_ok_frame[of s]) (auto dest: svc_okD)

lemma event_ok: "svc_ok s \<Longrightarrow> svc_ok (HandlePoolEvent order ev s)"
proof -
  assume s: "svc_ok s"
  have del: "svc_ok (s\<lparr>sv_collections := delete_where P (sv_collections s)\<rparr>)" for P
    by (rule remove_collections_ok[OF s]) (auto simp: map_le_def delete_where_apply split: option.splits if_splits)
  have rem: "svc_ok (removeCollectionLocked path s)" for path
    unfolding removeCollectionLocked_def
    by (rule remove_collections_ok[OF s]) (auto simp: map_le_def)
  have rem_odb: "odb_at (removeCollectionLocked path s) r = odb_at s r" for path r
    by (simp add: removeCollectionLocked_def odb_at_def)
  show ?thesis
    using s del rem rem_odb
    by (auto simp: HandlePoolEvent_def onDatabaseUnlocked_def onDatabaseLocked_def onDatabaseReloaded_def Let_def
        split: event_type.split option.split intro: createCollection_ok)
qed

lemma prompt_ok: "svc_ok s \<Longrightarrow> svc_ok (snd (nextPrompt s))"
  by (simp add: nextPrompt_def Let_def)
lemma lock_objects_ok:
  "svc_ok s \<Longrightarrow> lock_objects alias_order objects locked s = Returned (l', s') \<Longrightarrow> svc_ok s'"
proof (induction alias_order objects locked s rule: lock_objects.induct)
  case (2 alias_order path paths locked s)
  show ?case
  proof (cases "getCollectionByPath alias_order s path")
    case (Some coll)
    with "2.prems" obtain od err p where l: "odb_at s (co_db coll) = Some od" "Pool.Lock (od_uuid od) (sv_pool s) = Returned (err, p)"
      "lock_objects alias_order paths (if err = None then locked @ [path] else locked) (s\<lparr>sv_pool := p\<rparr>) = Returned (l', s')"
      by (auto split: option.splits run.splits)
    have "svc_ok (s\<lparr>sv_pool := p\<rparr>)"
      using svc_okD(1)[OF "2.prems"(1)] Lock_ok[OF _ l(2)] Lock_grows[OF _ l(2)] "2.prems"(1) by (intro svc_ok_pool)
    from "2.IH"(2)[OF Some l(1,2) refl this] l(3) show ?thesis by simp
  qed (use 2 in simp)
qed simp

lemma session_created_ok:
  assumes "svc_ok s" "\<And>x. length (sha x) = 32"
  shows "svc_ok (snd (OpenSession sha priv algorithm input s))"
proof -
  let ?path = "session_path (sv_next s)"
  let ?s1 = "s\<lparr>sv_next := next_id (sv_next s)\<rparr>"
  have s1: "svc_ok ?s1" using assms(1) by simp
  have reg: "svc_ok (?s1\<lparr>sv_sessions := (sv_sessions ?s1)(?path \<mapsto> sess)\<rparr>)" if "session_ok ?path sess" for sess
    using that s1 svc_okD[OF s1] by (intro svc_ok_frame[OF s1]) (auto split: if_splits)
  have plain: "session_ok ?path (NewPlainSession ?path)" by (auto simp: session_ok_def NewPlainSession_def)
  have dh: "session_ok ?path sess" if "handleDHKeyExchange sha priv input ?path = Some (out, sess)" for out sess
    using that by (auto simp: handleDHKeyExchange_def NewEncryptedSession_def DeriveSessionKey_def hmac_def Let_def
        session_ok_def assms(2) split: dbus_variant.splits prod.splits)
  show ?thesis
    using s1 reg[OF plain] reg[OF dh]
    by (auto simp: OpenSession_def Let_def split: option.split)
qed

lemma notify_ok:
  assumes "svc_ok s" "cache_orders E"
  shows "svc_ok (note_access E via caller it s)"
proof -
  let ?s = "logSecretAccess via caller it s"
  have cache: "sv_cache ?s = sv_cache s" "sv_config ?s = sv_config s" by (simp_all add: logSecretAccess_def)
  have "finite (dom (pruneLocked (en_now E) (sv_cache s)))"
    using svc_okD(4)[OF assms(1)] finite_subset[OF dom_pruneLocked] by (auto simp: cache_ok_def)
  then have order: "enumerates (en_cache_order E (pruneLocked (en_now E) (sv_cache s))) (pruneLocked (en_now E) (sv_cache s))"
    using assms(2) by (simp add: cache_orders_def)
  have "cache_ok (sv_cache (note_access E via caller it s))"
    using notify_step_ok[OF svc_okD(4)[OF assms(1)] notified[OF order, of "sv_config s" True caller "Item_Label ?s it" "item_collection_name ?s it"]]
    by (auto simp: note_access_def notify_access_def cache Let_def split: prod.split)
  then show ?thesis
    using assms(1) by (intro svc_ok_frame[OF assms(1)]) (auto dest: svc_okD)
qed

lemma read_ok: "svc_ok s \<Longrightarrow> cache_orders E \<Longrightarrow> svc_ok (snd (Item_GetSecret E sender path it s))"
  by (auto simp: Item_GetSecret_def Let_def notify_ok split: option.split sum.split prod.split)

lemma reads_ok:
  assumes "svc_ok s" "cache_orders E"
  shows "svc_ok (snd (GetSecrets E order sender items path s))"
proof -
  have "svc_ok s \<Longrightarrow> svc_ok (snd (get_secrets_loop E order sess path caller i items secrets s))" for sess caller i secrets
    by (induction items arbitrary: i secrets s)
      (auto simp: notify_ok[OF _ assms(2)] split: option.split sum.split prod.split)
  then show ?thesis using assms(1) by (auto simp: GetSecrets_def Let_def split: option.split)
qed

lemma update_ok:
  assumes "svc_ok s" "update_db W mutate r s d = (err, s', d')" "keeps_root (we_save W)"
    and "\<And>db. rooted db \<Longrightarrow> rooted (snd (mutate db))"
  shows "svc_ok s'"
proof -
  note pool = svc_okD(1)[OF assms(1)]
  let ?L = "sample_pool_lib"
  from update_db_pool[OF assms(2) pool assms(3,4), of ?L] obtain p' where
    p': "s' = s\<lparr>sv_pool := p'\<rparr>" "p' = sv_pool s \<or> pool_step ?L (sv_pool s) p'" by blast
  have "pool_ok p' \<and> grows (sv_pool s) p'"
    using p'(2) pool pool_step_ok[OF sample_decoder_ok pool] pool_step_grows[OF pool] by auto
  then show ?thesis unfolding p'(1) by (intro svc_ok_pool[OF assms(1)]) auto
qed

text \<open>The case split the writers share: a step that panics returns nothing.\<close>

lemmas writer_splits = if_splits run.splits sum.splits option.splits prod.splits update_error.splits write_error.splits

lemma write_ok:
  assumes "svc_ok s" "keeps_root (we_save W)"
  shows "Item_SetSecret C W sec it s d = Returned (r, s', d') \<Longrightarrow> svc_ok s'"
    and "Item_Delete W it s d = Returned (r', s', d') \<Longrightarrow> svc_ok s'"
    and "CreateItem C W ks ps sec replace coll s d = Returned (r'', s', d') \<Longrightarrow> svc_ok s'"
    and "ItemProperties_Set W ks iface p v it s d = Returned (r''', s', d') \<Longrightarrow> svc_ok s'"
proof -
  note upd = update_ok[OF assms(1) _ assms(2)]
  show "Item_SetSecret C W sec it s d = Returned (r, s', d') \<Longrightarrow> svc_ok s'"
    using assms(1) by (auto simp: Item_SetSecret_def split: writer_splits dest!: upd intro: rooted_mutation)
  show "Item_Delete W it s d = Returned (r', s', d') \<Longrightarrow> svc_ok s'"
    using assms(1) by (auto simp: Item_Delete_def split: writer_splits dest!: upd intro: rooted_mutation)
  show "CreateItem C W ks ps sec replace coll s d = Returned (r'', s', d') \<Longrightarrow> svc_ok s'"
    using assms(1) by (auto simp: CreateItem_def Let_def split: writer_splits dest!: upd intro: rooted_mutation)
  show "ItemProperties_Set W ks iface p v it s d = Returned (r''', s', d') \<Longrightarrow> svc_ok s'"
    using assms(1)
    by (auto simp: ItemProperties_Set_def Let_def split: writer_splits dbus_variant.splits dest!: upd intro: rooted_mutation)
qed

lemma svc_step_ok:
  assumes "decoder_ok L" "svc_ok s" "svc_step L s s'"
  shows "svc_ok s'"
  using assms(3)
proof (cases rule: svc_step.cases)
  case (ss_pool p)
  note pool = svc_okD(1)[OF assms(2)]
  show ?thesis
    unfolding ss_pool(1)
    by (rule svc_ok_pool[OF assms(2) pool_step_ok[OF assms(1) pool ss_pool(2)] pool_step_grows[OF pool ss_pool(2)]])
next
  case (ss_config cfg)
  then show ?thesis using svc_ok_same[OF assms(2)] by (simp add: UpdateConfig_def)
next
  case (ss_databases dbs)
  then show ?thesis using svc_ok_same[OF assms(2)] by (simp add: UpdateDatabaseConfigs_def)
next
  case (ss_session sha priv algorithm input)
  then show ?thesis using session_created_ok[OF assms(2)] by blast
next
  case ss_collection
  then show ?thesis using prompt_ok[OF assms(2)] by (auto simp: CreateCollection_def split: prod.split)
next
  case (ss_unlock order alias_order objects)
  then show ?thesis using prompt_ok[OF assms(2)] assms(2) by (auto simp: Unlock_def Let_def split: prod.split)
next
  case (ss_lock alias_order objects r)
  then obtain l s1 where l: "lock_objects alias_order objects [] s = Returned (l, s1)" "s' = s1 \<or> s' = snd (nextPrompt s1)"
    by (auto simp: Service_Lock_def Let_def split: run.splits if_splits prod.splits)
  from lock_objects_ok[OF assms(2) l(1)] prompt_ok l(2) show ?thesis by blast
next
  case (ss_alias a path)
  have "svc_ok (s\<lparr>sv_aliases := (sv_aliases s)(a \<mapsto> path)\<rparr>)"
    by (rule svc_ok_frame[OF assms(2)]) (use assms(2) in \<open>auto dest: svc_okD\<close>)
  then show ?thesis using ss_alias assms(2) by (simp add: SetAlias_def exportAlias_def split: option.split)
next
  case (ss_event order ev)
  show ?thesis unfolding ss_event by (rule event_ok[OF assms(2)])
next
  case (ss_seed order)
  show ?thesis unfolding ss_seed seedCollections_def by (rule seed_refs_ok[OF assms(2)])
next
  case (ss_read E sender path it)
  show ?thesis unfolding ss_read(1) by (rule read_ok[OF assms(2) ss_read(2)])
next
  case (ss_reads E order sender items path)
  show ?thesis unfolding ss_reads(1) by (rule reads_ok[OF assms(2) ss_reads(2)])
next
  case ss_write
  show ?thesis by (rule write_ok(1)[OF assms(2) ss_write])
next
  case ss_delete
  show ?thesis by (rule write_ok(2)[OF assms(2) ss_delete])
next
  case ss_create
  show ?thesis by (rule write_ok(3)[OF assms(2) ss_create])
next
  case ss_property
  show ?thesis by (rule write_ok(4)[OF assms(2) ss_property])
qed

lemma svc_ok_new: "pool_ok p \<Longrightarrow> svc_ok (NewSecretService p cfg)"
  by (simp add: svc_ok_def NewSecretService_def cache_ok_empty)

definition svc_start :: "svc \<Rightarrow> bool" where
  "svc_start s \<longleftrightarrow> (\<exists>cap cfg. s = NewSecretService (NewDatabasePool cap) cfg)"

interpretation service: machine svc_start "svc_step L" "\<lambda>s. decoder_ok L \<longrightarrow> svc_ok s" for L
  by unfold_locales (auto simp: svc_start_def svc_ok_new pool_ok_new svc_step_ok)

text \<open>C19. The service's invariant: in every state reached by the service's methods, by pool
  events in any order and by changes of the pool, each collection is filed under the path
  made of its database's name and refers to an object of the pool, which shows no entries when
  it is locked, as it may be until the event of its lock is handled; each session is filed under its own
  numbered path, is open, and is plain or holds a 16-byte key; the notification cache stays within its
  bound; and while there is a collection the alias \<open>default\<close> is set.\<close>

theorem service_invariant:
  assumes "decoder_ok L" and "reachable svc_start (svc_step L) s"
  shows "(\<forall>p coll. sv_collections s p = Some coll \<longrightarrow>
            co_path coll = p
            \<and> (\<exists>od. odb_at s (co_db coll) = Some od \<and> p = collection_path (od_name od)
                   \<and> (od_locked od \<longrightarrow> collectEntriesForDB s od = [])))
         \<and> (\<forall>p sess. sv_sessions s p = Some sess \<longrightarrow>
              s_path sess = p \<and> (\<exists>n. p = session_path n) \<and> \<not> s_closed sess
              \<and> (s_alg sess = ''plain'' \<or> length (s_key sess) = 16))
         \<and> cache_size (sv_cache s) \<le> notifyCacheMaxEntries
         \<and> (sv_collections s \<noteq> Map.empty \<longrightarrow> sv_aliases s ''default'' \<noteq> None)"
proof -
  have ok: "svc_ok s" using service.reachable_inv[OF assms(2)] assms(1) by blast
  have hidden: "odb_at s r = Some od \<Longrightarrow> od_locked od \<Longrightarrow> collectEntriesForDB s od = []" for r od
    using pool_okD(2)[OF svc_okD(1)[OF ok], of r od] by (simp add: odb_at_def object_ok_def collectEntriesForDB_def)
  show ?thesis
    using svc_okD(2,3,4)[OF ok] ok hidden unfolding svc_ok_def coll_ok_def session_ok_def cache_ok_def cache_size_def by blast
qed

lemma service_invariant_witness:
  "\<exists>s. reachable svc_start (svc_step sample_pool_lib) s \<and> sv_collections s \<noteq> Map.empty \<and> sv_aliases s ''default'' \<noteq> None"
proof -
  let ?s0 = "NewSecretService (NewDatabasePool (Some 16)) None"
  let ?s1 = "?s0\<lparr>sv_pool := sample_pool\<rparr>"
  let ?ev = "\<lparr>ev_type = EventDatabaseUnlocked, ev_uuid = uuid_text 1, ev_name = ''d'', ev_path = ''/d''\<rparr>"
  let ?s2 = "HandlePoolEvent [] ?ev ?s1"
  have "pool_step sample_pool_lib (sv_pool ?s0) sample_pool"
    unfolding sample_pool_def NewSecretService_def by (simp, metis pool_open prod.collapse)
  from ss_pool[where s = ?s0, OF this] have "svc_step sample_pool_lib ?s0 ?s1" .
  moreover have "reachable svc_start (svc_step sample_pool_lib) ?s0"
    by (rule reachable.start) (auto simp: svc_start_def)
  ultimately have r: "reachable svc_start (svc_step sample_pool_lib) ?s2"
    by (meson reachable.move ss_event)
  obtain od where "pl_heap sample_pool 0 = Some od" using sample_pool_facts(3) by blast
  then have "?s2 = createCollection od 0 ?s1"
    using sample_pool_facts(2)
    by (simp add: HandlePoolEvent_def onDatabaseUnlocked_def Get_def odb_at_def)
  then have "sv_collections ?s2 \<noteq> Map.empty" using createCollection_fields(4) by (metis map_upd_nonempty)
  with service_invariant[OF sample_decoder_ok r] r show ?thesis by blast
qed

end
