(* ===== verification/Agent_Client.thy ===== *)
theory Agent_Client
  imports Agent_Server
begin

text \<open>
  The agent client of \<open>internal/sshagent/client.go\<close>, which pushes the keys of the open
  databases into an agent that is already running. That agent is a parameter: its state
  is a value of any type, and \<open>upstream_ok\<close> states what its add and remove requests do.
  The client's own state is the map of the keys it added.
\<close>

section \<open>State and operations\<close>

record ('pk, 'u) upstream =
  up_dial :: "'u \<Rightarrow> bool"
  up_add :: "'pk \<Rightarrow> string \<Rightarrow> u32 \<Rightarrow> bool \<Rightarrow> 'u \<Rightarrow> bool \<times> 'u"
  up_remove :: "bytes \<Rightarrow> 'u \<Rightarrow> bool \<times> 'u"

record ('sg, 'pk, 'u) client =
  cl_keys :: "string \<rightharpoonup> ('sg, 'pk) ssh_key"
  cl_agent :: 'u

datatype client_error = NoAuthSock | NoPrivateKey | ConnectFailed | Refused | NoPublicKey

definition NewAgentClient :: "environment \<Rightarrow> 'u \<Rightarrow> client_error + ('sg, 'pk, 'u) client" where
  "NewAgentClient env u =
     (if env ''SSH_AUTH_SOCK'' = [] then Err NoAuthSock else Ok \<lparr>cl_keys = Map.empty, cl_agent = u\<rparr>)"

definition AddKey ::
  "('sg, 'pk) ssh_lib \<Rightarrow> ('pk, 'u) upstream \<Rightarrow> ssh_agent_config \<Rightarrow> ('sg, 'pk) ssh_key
     \<Rightarrow> ('sg, 'pk, 'u) client \<Rightarrow> client_error option \<times> ('sg, 'pk, 'u) client" where
  "AddKey L U cfg key c =
     (case k_private key of
        None \<Rightarrow> (Some NoPrivateKey, c)
      | Some pk \<Rightarrow>
          if \<not> up_dial U (cl_agent c) then (Some ConnectFailed, c)
          else (case up_add U pk (k_comment key) (word_of_int (ssh_lifetime cfg)) (ssh_confirm_on_use cfg) (cl_agent c) of
                  (False, u) \<Rightarrow> (Some Refused, c\<lparr>cl_agent := u\<rparr>)
                | (True, u) \<Rightarrow>
                    (None, c\<lparr>cl_agent := u, cl_keys := (cl_keys c)(Fingerprint L key \<mapsto> key)\<rparr>)))"

definition removeByFingerprint ::
  "('sg, 'pk) ssh_lib \<Rightarrow> ('pk, 'u) upstream \<Rightarrow> string
     \<Rightarrow> ('sg, 'pk, 'u) client \<Rightarrow> client_error option \<times> ('sg, 'pk, 'u) client" where
  "removeByFingerprint L U fp c =
     (case cl_keys c fp of
        None \<Rightarrow> (None, c)
      | Some key \<Rightarrow>
          (let forget = (\<lambda>c. c\<lparr>cl_keys := (cl_keys c)(fp := None)\<rparr>)
           in case PublicKey L key of
                None \<Rightarrow> (Some NoPublicKey, forget c)
              | Some (_, blob) \<Rightarrow>
                  if \<not> up_dial U (cl_agent c) then (None, forget c)
                  else (case up_remove U blob (cl_agent c) of (_, u) \<Rightarrow> (None, forget (c\<lparr>cl_agent := u\<rparr>)))))"

definition RemoveKey ::
  "('sg, 'pk) ssh_lib \<Rightarrow> ('pk, 'u) upstream \<Rightarrow> ('sg, 'pk) ssh_key
     \<Rightarrow> ('sg, 'pk, 'u) client \<Rightarrow> client_error option \<times> ('sg, 'pk, 'u) client" where
  "RemoveKey L U key c = removeByFingerprint L U (Fingerprint L key) c"

text \<open>The loops log errors and go on.\<close>

fun remove_fps ::
  "('sg, 'pk) ssh_lib \<Rightarrow> ('pk, 'u) upstream \<Rightarrow> string list \<Rightarrow> ('sg, 'pk, 'u) client \<Rightarrow> ('sg, 'pk, 'u) client" where
  "remove_fps L U [] c = c"
| "remove_fps L U (fp # fps) c = remove_fps L U fps (snd (removeByFingerprint L U fp c))"

definition RemoveAllKeys ::
  "('sg, 'pk) ssh_lib \<Rightarrow> ('pk, 'u) upstream \<Rightarrow> string list \<Rightarrow> ('sg, 'pk, 'u) client \<Rightarrow> ('sg, 'pk, 'u) client" where
  "RemoveAllKeys L U order c = remove_fps L U order c"

definition db_fingerprints :: "string list \<Rightarrow> string \<Rightarrow> (string \<rightharpoonup> ('sg, 'pk) ssh_key) \<Rightarrow> string list" where
  "db_fingerprints order db keys =
     filter (\<lambda>fp. case keys fp of None \<Rightarrow> False | Some k \<Rightarrow> k_db_uuid k = db) order"

definition RemoveKeysForDB ::
  "('sg, 'pk) ssh_lib \<Rightarrow> ('pk, 'u) upstream \<Rightarrow> string list \<Rightarrow> string \<Rightarrow> ('sg, 'pk, 'u) client \<Rightarrow> ('sg, 'pk, 'u) client" where
  "RemoveKeysForDB L U order db c = remove_fps L U (db_fingerprints order db (cl_keys c)) c"

definition Client_Close ::
  "('sg, 'pk) ssh_lib \<Rightarrow> ('pk, 'u) upstream \<Rightarrow> string list \<Rightarrow> ('sg, 'pk, 'u) client \<Rightarrow> ('sg, 'pk, 'u) client" where
  "Client_Close L U order c = RemoveAllKeys L U order c"

fun push_keys ::
  "('sg, 'pk) ssh_lib \<Rightarrow> ('pk, 'u) upstream \<Rightarrow> ssh_agent_config \<Rightarrow> string \<Rightarrow> ('sg, 'pk) ssh_key list
     \<Rightarrow> ('sg, 'pk, 'u) client \<Rightarrow> ('sg, 'pk, 'u) client" where
  "push_keys L U cfg db [] c = c"
| "push_keys L U cfg db (key # keys) c =
     push_keys L U cfg db keys (snd (AddKey L U cfg (key\<lparr>k_db_uuid := db\<rparr>) c))"

definition Client_OnDatabaseUnlocked ::
  "('sg, 'pk) ssh_lib \<Rightarrow> attachment_lib \<Rightarrow> ('pk, 'u) upstream \<Rightarrow> ssh_agent_config \<Rightarrow> string \<Rightarrow> database option
     \<Rightarrow> ('sg, 'pk, 'u) client \<Rightarrow> ('sg, 'pk, 'u) client" where
  "Client_OnDatabaseUnlocked L A U cfg db odb c =
     (if \<not> ssh_enabled cfg then c else push_keys L U cfg db (ExtractKeysFromDatabase L A odb) c)"

definition Client_OnDatabaseLocked ::
  "('sg, 'pk) ssh_lib \<Rightarrow> ('pk, 'u) upstream \<Rightarrow> ssh_agent_config \<Rightarrow> string list \<Rightarrow> string
     \<Rightarrow> ('sg, 'pk, 'u) client \<Rightarrow> ('sg, 'pk, 'u) client" where
  "Client_OnDatabaseLocked L U cfg order db c =
     (if \<not> ssh_enabled cfg then c
      else if ssh_remove_on_lock cfg then RemoveKeysForDB L U order db c else c)"

section \<open>The tracking map is a key registry\<close>

definition track :: "('sg, 'pk) ssh_lib \<Rightarrow> ('sg, 'pk) ssh_key \<Rightarrow> (string \<rightharpoonup> ('sg, 'pk) ssh_key) \<Rightarrow> (string \<rightharpoonup> ('sg, 'pk) ssh_key)" where
  "track L key m = m(Fingerprint L key \<mapsto> key)"

definition untrack_db :: "string \<Rightarrow> (string \<rightharpoonup> ('sg, 'pk) ssh_key) \<Rightarrow> (string \<rightharpoonup> ('sg, 'pk) ssh_key)" where
  "untrack_db db m = delete_where (\<lambda>_ k. k_db_uuid k = db) m"

interpretation tracking: key_registry "\<lambda>m. m" "track L" untrack_db "Fingerprint L" "\<lambda>k db. k_db_uuid k = db"
  for L :: "('sg, 'pk) ssh_lib"
  by unfold_locales (auto simp: track_def untrack_db_def delete_where_apply split: option.splits)

text \<open>The keys that were pushed with success, in order.\<close>

lemma AddKey_track:
  "cl_keys (snd (AddKey L U cfg key c))
   = (if fst (AddKey L U cfg key c) = None then track L key (cl_keys c) else cl_keys c)"
  by (auto simp: AddKey_def track_def split: option.splits prod.splits bool.splits)

lemma push_keys_filed:
  "tracking.filed L (cl_keys c) \<Longrightarrow> tracking.filed L (cl_keys (push_keys L U cfg db keys c))"
  by (induction keys arbitrary: c) (simp_all add: AddKey_track tracking.filed_add)

lemma removeByFingerprint_keys [simp]:
  "cl_keys (snd (removeByFingerprint L U fp c)) = (cl_keys c)(fp := None)"
  by (auto simp: removeByFingerprint_def Let_def split: option.splits prod.splits)

lemma remove_fps_keys: "cl_keys (remove_fps L U fps c) f = (if f \<in> set fps then None else cl_keys c f)"
  by (induction fps arbitrary: c) auto

lemma RemoveKeysForDB_keys:
  assumes "enumerates order (cl_keys c)"
  shows "cl_keys (RemoveKeysForDB L U order db c) = untrack_db db (cl_keys c)"
proof
  fix f
  have "f \<in> set order" if "cl_keys c f = Some k" for k
    using assms that by (auto simp: enumerates_def)
  then show "cl_keys (RemoveKeysForDB L U order db c) f = untrack_db db (cl_keys c) f"
    by (auto simp: RemoveKeysForDB_def remove_fps_keys db_fingerprints_def untrack_db_def delete_where_apply
        split: option.splits)
qed

section \<open>The agent behind the socket\<close>

text \<open>
  The documented behaviour of an agent: a remove request takes the key with that public
  blob out of what it holds. Parsing a stored blob and marshalling it again gives the blob.
\<close>

definition upstream_ok :: "('pk, 'u) upstream \<Rightarrow> ('u \<Rightarrow> bytes set) \<Rightarrow> bool" where
  "upstream_ok U holds \<longleftrightarrow>
     (\<forall>u. up_dial U u) \<and> (\<forall>b u. holds (snd (up_remove U b u)) = holds u - {b})"

definition blobs_parse :: "('sg, 'pk) ssh_lib \<Rightarrow> (string \<rightharpoonup> ('sg, 'pk) ssh_key) \<Rightarrow> bool" where
  "blobs_parse L keys \<longleftrightarrow> (\<forall>fp k. keys fp = Some k \<longrightarrow> (\<exists>t. PublicKey L k = Some (t, k_blob k)))"

lemma blobs_parse_remove: "blobs_parse L keys \<Longrightarrow> blobs_parse L (keys(fp := None))"
  by (simp add: blobs_parse_def)

lemma removeByFingerprint_holds:
  assumes "upstream_ok U holds" "blobs_parse L (cl_keys c)"
  shows "holds (cl_agent (snd (removeByFingerprint L U fp c)))
         = holds (cl_agent c) - (case cl_keys c fp of None \<Rightarrow> {} | Some k \<Rightarrow> {k_blob k})"
proof (cases "cl_keys c fp")
  case (Some k)
  obtain t where "PublicKey L k = Some (t, k_blob k)"
    using assms(2) Some unfolding blobs_parse_def by blast
  moreover have "holds (snd (up_remove U (k_blob k) (cl_agent c))) = holds (cl_agent c) - {k_blob k}"
    "up_dial U (cl_agent c)"
    using assms by (simp_all add: upstream_ok_def)
  ultimately show ?thesis
    using Some by (cases "up_remove U (k_blob k) (cl_agent c)") (simp add: removeByFingerprint_def Let_def)
qed (simp add: removeByFingerprint_def)

lemma remove_fps_holds:
  assumes "upstream_ok U holds"
  shows "distinct fps \<Longrightarrow> blobs_parse L (cl_keys c) \<Longrightarrow> holds (cl_agent (remove_fps L U fps c))
         = holds (cl_agent c) - {k_blob k |k fp. fp \<in> set fps \<and> cl_keys c fp = Some k}"
proof (induction fps arbitrary: c)
  case (Cons fp fps)
  let ?c1 = "snd (removeByFingerprint L U fp c)"
  have p: "blobs_parse L (cl_keys ?c1)"
    unfolding removeByFingerprint_keys by (rule blobs_parse_remove [OF Cons.prems(2)])
  have "holds (cl_agent (remove_fps L U fps ?c1))
      = holds (cl_agent ?c1) - {k_blob k |k f. f \<in> set fps \<and> cl_keys ?c1 f = Some k}"
    using Cons.prems(1) by (intro Cons.IH p) simp
  moreover have "{k_blob k |k f. f \<in> set fps \<and> cl_keys ?c1 f = Some k} = {k_blob k |k f. f \<in> set fps \<and> cl_keys c f = Some k}"
    using Cons.prems(1) by auto
  ultimately have "holds (cl_agent (remove_fps L U (fp # fps) c))
      = holds (cl_agent c) - (case cl_keys c fp of None \<Rightarrow> {} | Some k \<Rightarrow> {k_blob k})
        - {k_blob k |k f. f \<in> set fps \<and> cl_keys c f = Some k}"
    by (simp only: remove_fps.simps removeByFingerprint_holds [OF assms Cons.prems(2)])
  then show ?case by (auto split: option.splits)
qed simp

section \<open>Properties\<close>

text \<open>Locking a database in client mode withdraws exactly its keys: the tracking map
  loses the keys of that database and no others, and an agent that behaves as documented
  holds afterwards what it held before without the blobs of those keys.\<close>

theorem client_lock_withdraws:
  assumes "ssh_enabled cfg" and "ssh_remove_on_lock cfg" and "enumerates order (cl_keys c)"
    and "upstream_ok U holds" and "blobs_parse L (cl_keys c)"
  shows "cl_keys (Client_OnDatabaseLocked L U cfg order db c) = untrack_db db (cl_keys c)
         \<and> holds (cl_agent (Client_OnDatabaseLocked L U cfg order db c))
           = holds (cl_agent c) - {k_blob k |k fp. cl_keys c fp = Some k \<and> k_db_uuid k = db}"
proof -
  let ?fps = "db_fingerprints order db (cl_keys c)"
  have "distinct ?fps"
    using assms(3) by (simp add: db_fingerprints_def enumerates_def)
  from remove_fps_holds[OF assms(4) this assms(5)]
  have "holds (cl_agent (remove_fps L U ?fps c))
      = holds (cl_agent c) - {k_blob k |k fp. fp \<in> set ?fps \<and> cl_keys c fp = Some k}" .
  moreover have "{k_blob k |k fp. fp \<in> set ?fps \<and> cl_keys c fp = Some k}
      = {k_blob k |k fp. cl_keys c fp = Some k \<and> k_db_uuid k = db}"
    using assms(3) by (fastforce simp: db_fingerprints_def enumerates_def)
  ultimately show ?thesis
    using assms(1,2) RemoveKeysForDB_keys[OF assms(3)]
    by (simp add: Client_OnDatabaseLocked_def RemoveKeysForDB_def)
qed

definition sample_upstream :: "(unit, bytes list) upstream" where
  "sample_upstream = \<lparr>up_dial = \<lambda>_. True, up_add = \<lambda>_ _ _ _ u. (True, u), up_remove = \<lambda>b u. (True, removeAll b u)\<rparr>"

lemma client_lock_withdraws_witness:
  "set (cl_agent (Client_OnDatabaseLocked sample_lib sample_upstream (cfg_ssh_agent DefaultConfig) [sample_fp] ''db''
     \<lparr>cl_keys = [sample_fp \<mapsto> (blank_key ''ssh-ed25519'' [1])\<lparr>k_db_uuid := ''db''\<rparr>], cl_agent = [[1], [2]]\<rparr>)) = {[2]}"
proof -
  have "upstream_ok sample_upstream set"
    by (simp add: upstream_ok_def sample_upstream_def)
  moreover have "blobs_parse sample_lib [sample_fp \<mapsto> (blank_key ''ssh-ed25519'' [1])\<lparr>k_db_uuid := ''db''\<rparr>]"
    by (simp add: blobs_parse_def PublicKey_def sample_lib_def)
  moreover have "enumerates [sample_fp] [sample_fp \<mapsto> (blank_key ''ssh-ed25519'' [1] :: (unit, unit) ssh_key)\<lparr>k_db_uuid := ''db''\<rparr>]"
    by (simp add: enumerates_def)
  ultimately show ?thesis
    using client_lock_withdraws[of "cfg_ssh_agent DefaultConfig" "[sample_fp]"
        "\<lparr>cl_keys = [sample_fp \<mapsto> (blank_key ''ssh-ed25519'' [1])\<lparr>k_db_uuid := ''db''\<rparr>], cl_agent = [[1], [2]]\<rparr>"
        sample_upstream set sample_lib "''db''"]
    by (auto simp: DefaultConfig_def blank_key_def split: if_splits)
qed

text \<open>In client mode unlocking a database and locking it again leaves no key of it
  tracked, whatever the agent behind the socket answers, refuses or drops; and keys of
  other databases under other fingerprints stay tracked.\<close>

theorem client_unlock_then_lock:
  assumes "c1 = Client_OnDatabaseUnlocked L A U cfg db odb c"
    and "ssh_enabled cfg" and "ssh_remove_on_lock cfg" and "enumerates order (cl_keys c1)"
    and "c2 = Client_OnDatabaseLocked L U cfg order db c1"
  shows "(\<forall>f k. cl_keys c2 f = Some k \<longrightarrow> k_db_uuid k \<noteq> db)
         \<and> (\<forall>f k. f \<notin> Fingerprint L ` set (ExtractKeysFromDatabase L A odb) \<longrightarrow> cl_keys c f = Some k
              \<longrightarrow> k_db_uuid k \<noteq> db \<longrightarrow> cl_keys c2 f = Some k)"
proof -
  have push: "f \<notin> Fingerprint L ` set keys \<Longrightarrow> cl_keys (push_keys L U cfg db keys c) f = cl_keys c f" for f keys c
    by (induction keys arbitrary: c) (auto simp: AddKey_track track_def Fingerprint_def)
  have c2: "cl_keys c2 = untrack_db db (cl_keys c1)"
    using assms(2-5) by (simp add: Client_OnDatabaseLocked_def RemoveKeysForDB_keys)
  show ?thesis
    using assms(1,2) push by (auto simp: c2 untrack_db_def delete_where_apply Client_OnDatabaseUnlocked_def
        split: option.splits if_splits)
qed

lemma client_unlock_then_lock_witness:
  "cl_keys (Client_OnDatabaseLocked sample_lib sample_upstream (cfg_ssh_agent DefaultConfig) [sample_fp] ''other''
     \<lparr>cl_keys = [sample_fp \<mapsto> (blank_key ''ssh-ed25519'' [1])\<lparr>k_db_uuid := ''db''\<rparr>], cl_agent = []\<rparr>) sample_fp
   = Some ((blank_key ''ssh-ed25519'' [1])\<lparr>k_db_uuid := ''db''\<rparr>)"
proof -
  let ?k = "(blank_key ''ssh-ed25519'' [1] :: (unit, unit) ssh_key)\<lparr>k_db_uuid := ''db''\<rparr>"
  let ?c = "\<lparr>cl_keys = [sample_fp \<mapsto> ?k], cl_agent = [] :: bytes list\<rparr>"
  let ?A = "\<lparr>xml_settings = \<lambda>_. None, content_bytes = \<lambda>_. None\<rparr>"
  have "Client_OnDatabaseUnlocked sample_lib ?A sample_upstream (cfg_ssh_agent DefaultConfig) ''other'' None ?c = ?c"
    by (simp add: Client_OnDatabaseUnlocked_def ExtractKeysFromDatabase_def)
  moreover have "enumerates [sample_fp] (cl_keys ?c)"
    by (simp add: enumerates_def)
  ultimately show ?thesis
    using client_unlock_then_lock[of ?c sample_lib ?A sample_upstream "cfg_ssh_agent DefaultConfig" "''other''" None ?c
        "[sample_fp]", OF _ _ _ _ refl]
    by (simp add: DefaultConfig_def ExtractKeysFromDatabase_def)
qed

end
