(* ===== verification/Daemon.thy ===== *)
theory Daemon
  imports API_Contract Secret_Machine Agent_Client Config
begin

text \<open>
  The daemon itself (\<open>internal/daemon/daemon.go\<close>, and the flags of \<open>cmd/kpxcd/main.go\<close>):
  start-up, automatic unlocking, the event loop that passes the pool's events to the Secret
  Service and to the SSH agent, reloading and shutdown.

  The services hold a pointer to the one pool; their models take it as an argument, so that
  \<open>dm_pool\<close> is the pool and the copy inside a service's state is set before each use. The
  agents hold a pointer to the part of the configuration that was current when they were
  made, and keep it.
\<close>

section \<open>Log levels\<close>

datatype log_level = LevelDebug | LevelInfo | LevelWarn | LevelError

text \<open>The numbers of \<open>log/slog\<close>.\<close>

fun level_number :: "log_level \<Rightarrow> int" where
  "level_number LevelDebug = - 4"
| "level_number LevelInfo = 0"
| "level_number LevelWarn = 4"
| "level_number LevelError = 8"

lemma level_number_inj: "level_number a = level_number b \<Longrightarrow> a = b"
  by (cases a; cases b) auto

instantiation log_level :: linorder
begin

definition less_eq_log_level :: "log_level \<Rightarrow> log_level \<Rightarrow> bool" where
  "a \<le> b \<longleftrightarrow> level_number a \<le> level_number b"

definition less_log_level :: "log_level \<Rightarrow> log_level \<Rightarrow> bool" where
  "a < b \<longleftrightarrow> level_number a < level_number b"

instance
  by standard (auto simp: less_eq_log_level_def less_log_level_def level_number_inj)

end

text \<open>The level, and whether the name was known.\<close>

definition parseLogLevel :: "string \<Rightarrow> log_level \<times> bool" where
  "parseLogLevel level =
     (if level = ''debug'' then (LevelDebug, True)
      else if level = ''info'' then (LevelInfo, True)
      else if level = ''warn'' then (LevelWarn, True)
      else if level = ''error'' then (LevelError, True)
      else (LevelInfo, False))"

definition cli_level :: "bool \<Rightarrow> bool \<Rightarrow> log_level" where
  "cli_level verbose quiet_flag = (if verbose then LevelDebug else if quiet_flag then LevelWarn else LevelInfo)"

definition effective_level :: "log_level \<Rightarrow> config \<Rightarrow> log_level option" where
  "effective_level cli cfg =
     (if cli = LevelInfo then
        (case parseLogLevel (log_level (cfg_daemon cfg)) of (l, True) \<Rightarrow> Some l | (_, False) \<Rightarrow> None)
      else Some cli)"

definition logged :: "log_level \<Rightarrow> log_level \<Rightarrow> bool" where
  "logged handler_level l \<longleftrightarrow> handler_level \<le> l"

section \<open>State\<close>

text \<open>\<open>dm_api\<close> is what \<open>NewDaemonDBusWithConn\<close> got: the configuration, and whether the agent
  pointer was set.\<close>

record ('sg, 'pk, 'u) app =
  dm_cfg :: config
  dm_pool :: pool
  dm_bus :: bool
  dm_api :: "(config \<times> bool) option"
  dm_svc :: "svc option"
  dm_agent :: "(ssh_agent_config \<times> ('sg, 'pk) identities) option"
  dm_client :: "(ssh_agent_config \<times> ('sg, 'pk, 'u) client) option"
  dm_listening :: bool
  dm_level :: log_level

text \<open>The machine the daemon runs on: the environment, which services can be started, and
  the files it opens.\<close>

record 'u host =
  ho_env :: environment
  ho_uid_text :: string
  ho_bus :: bool
  ho_api_name :: bool
  ho_secret_name :: bool
  ho_listen :: bool
  ho_upstream :: 'u
  ho_content :: "string \<Rightarrow> bytes option"
  ho_fingerprint :: "string \<Rightarrow> file_fingerprint option"
  ho_mlock :: "nat \<Rightarrow> bool"

definition new_app :: "config \<Rightarrow> log_level \<Rightarrow> ('sg, 'pk, 'u) app" where
  "new_app cfg level =
     \<lparr>dm_cfg = cfg, dm_pool = NewDatabasePool (Some 16), dm_bus = False, dm_api = None, dm_svc = None, dm_agent = None,
      dm_client = None, dm_listening = False, dm_level = level\<rparr>"

text \<open>The object the interface \<open>org.keepassxc.Daemon\<close> works on.\<close>

definition api_of :: "('sg, 'pk, 'u) app \<Rightarrow> ('sg, 'pk) api option" where
  "api_of app =
     map_option (\<lambda>(cfg, with_agent).
         \<lparr>ap_conn = True, ap_pool = dm_pool app, ap_config = cfg,
          ap_agent = (if with_agent then map_option snd (dm_agent app) else None)\<rparr>)
       (dm_api app)"

section \<open>Start-up\<close>

text \<open>The interface object is kept whether or not its export succeeds.\<close>

definition daemon_service :: "('sg, 'pk, 'u) app \<Rightarrow> svc" where
  "daemon_service app =
     UpdateDatabaseConfigs (cfg_databases (dm_cfg app))
       (NewSecretService (dm_pool app) (Some (cfg_secret_service (dm_cfg app))))"

definition startDBus :: "'u host \<Rightarrow> string list \<Rightarrow> ('sg, 'pk, 'u) app \<Rightarrow> ('sg, 'pk, 'u) app" where
  "startDBus H order app =
     (if \<not> ho_bus H then app
      else let app1 = app\<lparr>dm_bus := True, dm_api := Some (dm_cfg app, dm_agent app \<noteq> None)\<rparr>
           in if \<not> ho_api_name H then app1
              else if \<not> ss_enabled (cfg_secret_service (dm_cfg app)) then app1
              else if \<not> ho_secret_name H then app1\<lparr>dm_svc := None\<rparr>
              else app1\<lparr>dm_svc := Some (seedCollections order (daemon_service app))\<rparr>)"

definition socket_path :: "'u host \<Rightarrow> config \<Rightarrow> string" where
  "socket_path H cfg =
     (let path = os_expand (ho_env H) (ssh_socket_path (cfg_daemon cfg))
      in if is_abs path then path
         else let xdg = ho_env H ''XDG_RUNTIME_DIR'';
                  xdg = (if xdg = [] then ''/run/user/'' @ ho_uid_text H else xdg)
              in path_join [xdg, path])"

text \<open>The server stays registered even when it cannot listen.\<close>

definition startSSHAgentServer :: "'u host \<Rightarrow> ('sg, 'pk, 'u) app \<Rightarrow> ('sg, 'pk, 'u) app" where
  "startSSHAgentServer H app =
     app\<lparr>dm_agent := Some (cfg_ssh_agent (dm_cfg app), NewIdentityManager), dm_listening := ho_listen H\<rparr>"

definition startSSHAgentClient :: "'u host \<Rightarrow> ('sg, 'pk, 'u) app \<Rightarrow> ('sg, 'pk, 'u) app" where
  "startSSHAgentClient H app =
     (case NewAgentClient (ho_env H) (ho_upstream H) of
        Inl _ \<Rightarrow> app
      | Inr c \<Rightarrow> app\<lparr>dm_client := Some (cfg_ssh_agent (dm_cfg app), c)\<rparr>)"

definition startSSHAgent :: "'u host \<Rightarrow> ('sg, 'pk, 'u) app \<Rightarrow> ('sg, 'pk, 'u) app" where
  "startSSHAgent H app =
     (if \<not> ssh_enabled (cfg_ssh_agent (dm_cfg app)) then app
      else if ssh_mode (cfg_daemon (dm_cfg app)) = ''client'' \<or> ssh_mode (cfg_daemon (dm_cfg app)) = ''proxy''
           then startSSHAgentClient H app
      else startSSHAgentServer H app)"

section \<open>Automatic unlocking\<close>

datatype credential_reason =
    NoKeyfilePath
  | NoYubikeySlot
  | NoSystemdName
  | NoCredentialsDirectory
  | CannotReadCredential
  | CannotLockMemory
  | HandledByPam
  | ManualUnlock
  | UnknownCredential string

definition resolveCredential :: "'u host \<Rightarrow> database_config \<Rightarrow> credential_reason + credential" where
  "resolveCredential H db =
     (let kind = dc_unlock_credential db
      in if kind = ''none'' then Ok blank_credential
         else if kind = ''keyfile'' then
           (if dc_keyfile db = [] then Err NoKeyfilePath else Ok (KeyfileCredential (dc_keyfile db)))
         else if kind = ''yubikey'' then
           (if dc_yubikey_slot db \<le> 0 then Err NoYubikeySlot else Ok (YubiKeyCredential (dc_yubikey_slot db)))
         else if kind = ''systemd-credential'' then
           (if dc_systemd_credential_name db = [] then Err NoSystemdName
            else let dir = ho_env H ''CREDENTIALS_DIRECTORY''
                 in if dir = [] then Err NoCredentialsDirectory
                    else (case ho_content H (path_join [dir, dc_systemd_credential_name db]) of
                            None \<Rightarrow> Err CannotReadCredential
                          | Some dat \<Rightarrow>
                              (case NewSecureString (ho_mlock H) (string_of dat) of
                                 None \<Rightarrow> Err CannotLockMemory
                               | Some ss \<Rightarrow> Ok (PasswordCredential (Some ss)))))
         else if kind = ''pam'' then Err HandledByPam
         else if kind = ''prompt'' \<or> kind = [] then Err ManualUnlock
         else Err (UnknownCredential kind))"

definition open_on :: "pool_lib \<Rightarrow> 'u host \<Rightarrow> string \<Rightarrow> credential \<Rightarrow> pool \<Rightarrow> (pool_error + string) \<times> pool" where
  "open_on PL H path cred p = Open PL (ho_content H path) (ho_fingerprint H path) path cred p"

fun auto_unlock_all :: "pool_lib \<Rightarrow> 'u host \<Rightarrow> database_config list \<Rightarrow> pool \<Rightarrow> pool" where
  "auto_unlock_all PL H [] p = p"
| "auto_unlock_all PL H (db # dbs) p =
     (if \<not> dc_auto_unlock db then auto_unlock_all PL H dbs p
      else if dc_unlock_credential db = ''pam'' then auto_unlock_all PL H dbs p
      else (case resolveCredential H db of
              Inl _ \<Rightarrow> auto_unlock_all PL H dbs p
            | Inr cred \<Rightarrow> auto_unlock_all PL H dbs (snd (open_on PL H (dc_path db) cred p))))"

definition autoUnlock :: "pool_lib \<Rightarrow> 'u host \<Rightarrow> ('sg, 'pk, 'u) app \<Rightarrow> ('sg, 'pk, 'u) app" where
  "autoUnlock PL H app = app\<lparr>dm_pool := auto_unlock_all PL H (cfg_databases (dm_cfg app)) (dm_pool app)\<rparr>"

text \<open>From a validated configuration to the event loop.\<close>

definition start_up ::
  "pool_lib \<Rightarrow> 'u host \<Rightarrow> string list \<Rightarrow> log_level \<Rightarrow> config \<Rightarrow> ('sg, 'pk, 'u) app option" where
  "start_up PL H order cli cfg =
     map_option (\<lambda>level. autoUnlock PL H (startSSHAgent H (startDBus H order (new_app cfg level)))) (effective_level cli cfg)"

section \<open>Events\<close>

record ('sg, 'pk, 'u) services =
  se_ssh :: "('sg, 'pk) ssh_lib"
  se_attach :: attachment_lib
  se_upstream :: "('pk, 'u) upstream"
  se_paths :: "svc \<Rightarrow> string list"
  se_identities :: "('sg, 'pk) identities \<Rightarrow> string list"
  se_tracked :: "(string \<rightharpoonup> ('sg, 'pk) ssh_key) \<Rightarrow> string list"
  se_pool :: "pool \<Rightarrow> string list"

definition object_named :: "string \<Rightarrow> pool \<Rightarrow> open_database option" where
  "object_named uuid p = Option.bind (Get uuid p) (pl_heap p)"

definition tell_secret_service :: "('sg, 'pk, 'u) services \<Rightarrow> event \<Rightarrow> ('sg, 'pk, 'u) app \<Rightarrow> ('sg, 'pk, 'u) app" where
  "tell_secret_service E ev app =
     app\<lparr>dm_svc := map_option (\<lambda>s. HandlePoolEvent (se_paths E s) ev (s\<lparr>sv_pool := dm_pool app\<rparr>)) (dm_svc app)\<rparr>"

definition tell_agents ::
  "(open_database \<Rightarrow> ssh_agent_config \<Rightarrow> ('sg, 'pk) identities \<Rightarrow> ('sg, 'pk) identities)
     \<Rightarrow> (open_database \<Rightarrow> ssh_agent_config \<Rightarrow> ('sg, 'pk, 'u) client \<Rightarrow> ('sg, 'pk, 'u) client)
     \<Rightarrow> string \<Rightarrow> ('sg, 'pk, 'u) app \<Rightarrow> ('sg, 'pk, 'u) app" where
  "tell_agents f g uuid app =
     (case object_named uuid (dm_pool app) of
        None \<Rightarrow> app
      | Some od \<Rightarrow>
          app\<lparr>dm_agent := map_option (\<lambda>(cfg, m). (cfg, f od cfg m)) (dm_agent app),
              dm_client := map_option (\<lambda>(cfg, c). (cfg, g od cfg c)) (dm_client app)\<rparr>)"

definition handlePoolEvent :: "('sg, 'pk, 'u) services \<Rightarrow> event \<Rightarrow> ('sg, 'pk, 'u) app \<Rightarrow> ('sg, 'pk, 'u) app" where
  "handlePoolEvent E ev app =
     (case ev_type ev of
        EventDatabaseUnlocked \<Rightarrow>
          tell_agents (\<lambda>od cfg m. OnDatabaseUnlocked (se_ssh E) (se_attach E) cfg (od_uuid od) (od_db od) m)
            (\<lambda>od cfg c. Client_OnDatabaseUnlocked (se_ssh E) (se_attach E) (se_upstream E) cfg (od_uuid od) (od_db od) c)
            (ev_uuid ev) (tell_secret_service E ev app)
      | EventDatabaseLocked \<Rightarrow>
          tell_agents (\<lambda>od cfg m. OnDatabaseLocked (se_identities E m) cfg (od_uuid od) m)
            (\<lambda>od cfg c. Client_OnDatabaseLocked (se_ssh E) (se_upstream E) cfg (se_tracked E (cl_keys c)) (od_uuid od) c)
            (ev_uuid ev) (tell_secret_service E ev app)
      | EventDatabaseReloaded \<Rightarrow> tell_secret_service E ev app
      | EventDatabaseError \<Rightarrow> app)"

text \<open>Receiving from the channel and handling what was received.\<close>

definition receive_event :: "('sg, 'pk, 'u) services \<Rightarrow> ('sg, 'pk, 'u) app \<Rightarrow> ('sg, 'pk, 'u) app" where
  "receive_event E app =
     (case pl_events (dm_pool app) of
        [] \<Rightarrow> app
      | ev # evs \<Rightarrow> handlePoolEvent E ev (app\<lparr>dm_pool := (dm_pool app)\<lparr>pl_events := evs\<rparr>\<rparr>))"

section \<open>Reloading and the loop\<close>

text \<open>\<open>loaded\<close> is what \<open>config.Load("")\<close> gave. An unknown level silently becomes
  \<open>LevelInfo\<close>; neither agent nor the interface \<open>org.keepassxc.Daemon\<close> learns of the new
  configuration.\<close>

definition configured :: "config_error + config \<Rightarrow> config_error + config" where
  "configured loaded =
     (case loaded of
        Inl e \<Rightarrow> Err e
      | Inr cfg0 \<Rightarrow> (case Validate cfg0 of (Some e, _) \<Rightarrow> Err e | (None, cfg) \<Rightarrow> Ok cfg))"

definition reloadConfig ::
  "config_error + config \<Rightarrow> ('sg, 'pk, 'u) app \<Rightarrow> config_error option \<times> ('sg, 'pk, 'u) app" where
  "reloadConfig loaded app =
     (case configured loaded of
        Inl e \<Rightarrow> (Some e, app)
      | Inr cfg \<Rightarrow>
          (None, app\<lparr>dm_cfg := cfg,
                     dm_svc := map_option (\<lambda>s. UpdateDatabaseConfigs (cfg_databases cfg) (UpdateConfig (cfg_secret_service cfg) s)) (dm_svc app),
                     dm_level := fst (parseLogLevel (log_level (cfg_daemon cfg)))\<rparr>))"

definition idle_lock :: "('sg, 'pk, 'u) services \<Rightarrow> ('sg, 'pk, 'u) app \<Rightarrow> ('sg, 'pk, 'u) app run" where
  "idle_lock E app =
     (case LockAll (se_pool E (dm_pool app)) (dm_pool app) of
        Panicked \<Rightarrow> Panicked
      | Returned (_, p) \<Rightarrow> Returned (app\<lparr>dm_pool := p\<rparr>))"

text \<open>What the \<open>select\<close> picked in each round. The idle timer fires once, when there is one.\<close>

datatype round = StopSignal | HangUp "config_error + config" | PoolEvent | IdleTimer

fun eventLoop ::
  "('sg, 'pk, 'u) services \<Rightarrow> bool \<Rightarrow> round list \<Rightarrow> ('sg, 'pk, 'u) app \<Rightarrow> (bool \<times> ('sg, 'pk, 'u) app) run" where
  "eventLoop E armed [] app = Returned (False, app)"
| "eventLoop E armed (StopSignal # rounds) app = Returned (True, app)"
| "eventLoop E armed (HangUp loaded # rounds) app = eventLoop E armed rounds (snd (reloadConfig loaded app))"
| "eventLoop E armed (PoolEvent # rounds) app = eventLoop E armed rounds (receive_event E app)"
| "eventLoop E armed (IdleTimer # rounds) app =
     (if armed then (case idle_lock E app of Panicked \<Rightarrow> Panicked | Returned app' \<Rightarrow> eventLoop E False rounds app')
      else eventLoop E armed rounds app)"

definition timer_armed :: "config \<Rightarrow> bool" where
  "timer_armed cfg \<longleftrightarrow> 0 < idle_timeout (cfg_daemon cfg)"

text \<open>\<open>shutdown\<close> and the deferred \<open>pool.Close\<close>.\<close>

definition shutdown :: "('sg, 'pk, 'u) services \<Rightarrow> ('sg, 'pk, 'u) app \<Rightarrow> ('sg, 'pk, 'u) app" where
  "shutdown E app =
     app\<lparr>dm_listening := False,
         dm_client := map_option (\<lambda>(cfg, c). (cfg, Client_Close (se_ssh E) (se_upstream E) (se_tracked E (cl_keys c)) c)) (dm_client app),
         dm_api := None, dm_bus := False\<rparr>"

definition finish :: "('sg, 'pk, 'u) services \<Rightarrow> ('sg, 'pk, 'u) app \<Rightarrow> ('sg, 'pk, 'u) app run" where
  "finish E app =
     (let app1 = shutdown E app
      in case Close (se_pool E (dm_pool app1)) (dm_pool app1) of
           Panicked \<Rightarrow> Panicked
         | Returned (_, p) \<Rightarrow> Returned (app1\<lparr>dm_pool := p\<rparr>))"

end
