(* ===== verification/Daemon_Machine.thy ===== *)
theory Daemon_Machine
  imports Daemon
begin

text \<open>
  The daemon as a machine: the pool's steps, the delivery of its events to the Secret
  Service and the agents, connections of agent clients, and reloads. The keys of a database in
  the agents, when they are removed on lock, and its collection are gone once its lock has been
  delivered.
\<close>

section \<open>Consumers of pool events\<close>

definition news :: "string \<Rightarrow> event list \<Rightarrow> event list" where
  "news u evs = filter (\<lambda>ev. ev_uuid ev = u \<and> ev_type ev \<in> {EventDatabaseUnlocked, EventDatabaseLocked}) evs"

lemma news_append: "news u (evs @ evs') = news u evs @ news u evs'"
  by (simp add: news_def)

locale event_consumer =
  fixes handle :: "event \<Rightarrow> 's \<Rightarrow> 's"
    and holds :: "'s \<Rightarrow> string \<Rightarrow> bool"
    and locked :: "'s \<Rightarrow> string \<Rightarrow> bool"
    and ok :: "'s \<Rightarrow> bool"
  assumes handle_ok: "ok s \<Longrightarrow> ok (handle ev s)"
    and handle_locked: "locked (handle ev s) u = locked s u"
    and lock_clears: "ok s \<Longrightarrow> ev_type ev = EventDatabaseLocked \<Longrightarrow> locked s (ev_uuid ev) \<Longrightarrow> \<not> holds (handle ev s) (ev_uuid ev)"
    and only_unlock_adds: "ok s \<Longrightarrow> locked s u \<Longrightarrow> holds (handle ev s) u
          \<Longrightarrow> holds s u \<or> ev_uuid ev = u \<and> ev_type ev = EventDatabaseUnlocked"
begin

text \<open>Nothing is held of the database, or its lock is the last news still to come.\<close>

definition settled :: "event list \<Rightarrow> 's \<Rightarrow> string \<Rightarrow> bool" where
  "settled evs s u \<longleftrightarrow>
     (if news u evs = [] then \<not> holds s u else ev_type (last (news u evs)) = EventDatabaseLocked)"

lemma settled_lock: "ev_type ev = EventDatabaseLocked \<Longrightarrow> ev_uuid ev = u \<Longrightarrow> settled (evs @ [ev]) s u"
  by (simp add: settled_def news_append) (simp add: news_def)

lemma settled_other: "news u [ev] = [] \<Longrightarrow> settled (evs @ [ev]) s u = settled evs s u"
  by (simp add: settled_def news_append)

lemma settled_receive:
  assumes "settled (ev # evs) s u" "ok s" "locked s u"
  shows "settled evs (handle ev s) u"
proof (cases "news u evs = []")
  case True
  have "\<not> holds (handle ev s) u"
  proof
    assume h: "holds (handle ev s) u"
    from only_unlock_adds[OF assms(2,3) h] show False
    proof
      assume "holds s u"
      then have "news u [ev] \<noteq> []" "ev_type ev = EventDatabaseLocked"
        using assms(1) True by (auto simp: settled_def news_def split: if_splits)
      then have "ev_uuid ev = u" by (auto simp: news_def split: if_splits)
      then show False using lock_clears[OF assms(2), of ev] assms(3) h \<open>ev_type ev = EventDatabaseLocked\<close> by simp
    next
      assume "ev_uuid ev = u \<and> ev_type ev = EventDatabaseUnlocked"
      then show False using assms(1) True by (simp add: settled_def news_def)
    qed
  qed
  then show ?thesis using True by (simp add: settled_def)
next
  case False
  then show ?thesis using assms(1) by (auto simp: settled_def news_def split: if_splits)
qed

lemma settled_quiet: "settled evs s u \<Longrightarrow> (\<And>v. holds s' v \<Longrightarrow> holds s v) \<Longrightarrow> settled evs s' u"
  by (auto simp: settled_def split: if_splits)

lemma settled_done: "settled [] s u \<Longrightarrow> \<not> holds s u"
  by (simp add: settled_def news_def)

end

section \<open>The services of the daemon\<close>

definition db_locked :: "pool \<Rightarrow> string \<Rightarrow> bool" where
  "db_locked p u \<longleftrightarrow> (case object_named u p of None \<Rightarrow> False | Some od \<Rightarrow> od_locked od)"

definition agent_holds :: "('sg, 'pk, 'u) app \<Rightarrow> string \<Rightarrow> bool" where
  "agent_holds app u \<longleftrightarrow> (\<exists>cfg m f lk. dm_agent app = Some (cfg, m) \<and> m f = Some lk \<and> bound_to lk u)"

definition client_holds :: "('sg, 'pk, 'u) app \<Rightarrow> string \<Rightarrow> bool" where
  "client_holds app u \<longleftrightarrow>
     (\<exists>cfg c f k. dm_client app = Some (cfg, c) \<and> ssh_remove_on_lock cfg \<and> cl_keys c f = Some k \<and> k_db_uuid k = u)"

definition svc_of :: "('sg, 'pk, 'u) app \<Rightarrow> svc option" where
  "svc_of app = map_option (\<lambda>s. s\<lparr>sv_pool := dm_pool app\<rparr>) (dm_svc app)"

definition service_holds :: "('sg, 'pk, 'u) app \<Rightarrow> string \<Rightarrow> bool" where
  "service_holds app u \<longleftrightarrow> (\<exists>s path coll. svc_of app = Some s \<and> sv_collections s path = Some coll \<and> has_uuid s u coll)"

text \<open>The order in which Go walks a map lists its keys.\<close>

definition orders_ok :: "('sg, 'pk, 'u) services \<Rightarrow> bool" where
  "orders_ok E \<longleftrightarrow>
     (\<forall>m. finite (dom m) \<longrightarrow> enumerates (se_identities E m) m)
     \<and> (\<forall>keys. finite (dom keys) \<longrightarrow> enumerates (se_tracked E keys) keys)"

definition agent_ok :: "('sg, 'pk) ssh_lib \<Rightarrow> ssh_agent_config \<times> ('sg, 'pk) identities \<Rightarrow> bool" where
  "agent_ok L = (\<lambda>(cfg, m). ssh_enabled cfg \<and> finite (dom m) \<and> manager_ok L m
      \<and> (\<forall>f lk. m f = Some lk \<longrightarrow> lk_auto_remove lk = ssh_remove_on_lock cfg))"

definition client_ok :: "ssh_agent_config \<times> ('sg, 'pk, 'u) client \<Rightarrow> bool" where
  "client_ok = (\<lambda>(cfg, c). ssh_enabled cfg \<and> finite (dom (cl_keys c)))"

definition app_ok :: "('sg, 'pk, 'u) services \<Rightarrow> ('sg, 'pk, 'u) app \<Rightarrow> bool" where
  "app_ok E app \<longleftrightarrow>
     orders_ok E \<and> pool_ok (dm_pool app) \<and> pred_option svc_ok (svc_of app)
     \<and> pred_option (agent_ok (se_ssh E)) (dm_agent app) \<and> pred_option client_ok (dm_client app)"

section \<open>What the callbacks do to what is held\<close>

lemma finite_put: "finite (dom m) \<Longrightarrow> finite (dom (fold (put_loaded L) ks m))"
  by (induction ks arbitrary: m) (simp_all add: put_loaded_def)

lemma unlocked_agent_ok: "agent_ok L (cfg, m) \<Longrightarrow> agent_ok L (cfg, OnDatabaseUnlocked L A cfg u odb m)"
  by (auto simp: agent_ok_def OnDatabaseUnlocked_def add_keys_fold finite_put manager.filed_add_all manager.look_add_all
      loaded_from_config_def Let_def split: option.splits dest!: find_Some_in)

lemma locked_agent_eq:
  assumes "orders_ok E" "agent_ok L (cfg, m)"
  shows "OnDatabaseLocked (se_identities E m) cfg u m = delete_where (\<lambda>_ lk. bound_to lk u) m"
proof -
  have "enumerates (se_identities E m) m" "ssh_enabled cfg" using assms by (auto simp: orders_ok_def agent_ok_def)
  then show ?thesis by (simp add: OnDatabaseLocked_def RemoveIdentitiesForDatabase_eq)
qed

lemma locked_agent_ok: "orders_ok E \<Longrightarrow> agent_ok L (cfg, m) \<Longrightarrow> agent_ok L (cfg, OnDatabaseLocked (se_identities E m) cfg u m)"
  using finite_subset[OF dom_delete_where_subset] manager.filed_drop
  by (auto simp: locked_agent_eq agent_ok_def dest!: delete_where_SomeD)

lemma unlocked_agent_adds:
  "OnDatabaseUnlocked L A cfg u odb m f = Some lk \<Longrightarrow> m f = Some lk \<or> lk_db_uuid lk = u"
  by (auto simp: OnDatabaseUnlocked_def add_keys_fold manager.look_add_all loaded_from_config_def Let_def
      split: if_splits option.splits dest!: find_Some_in)

lemma push_keys_adds: "cl_keys (push_keys L U cfg db keys c) f = Some k \<Longrightarrow> cl_keys c f = Some k \<or> k_db_uuid k = db"
  by (induction keys arbitrary: c) (fastforce simp: AddKey_track track_def split: if_splits)+

lemma push_keys_finite: "finite (dom (cl_keys c)) \<Longrightarrow> finite (dom (cl_keys (push_keys L U cfg db keys c)))"
  by (induction keys arbitrary: c) (simp_all add: AddKey_track track_def)

lemma unlocked_client_ok: "client_ok (cfg, c) \<Longrightarrow> client_ok (cfg, Client_OnDatabaseUnlocked L A U cfg u odb c)"
  by (simp add: client_ok_def Client_OnDatabaseUnlocked_def push_keys_finite)

lemma unlocked_client_adds:
  "cl_keys (Client_OnDatabaseUnlocked L A U cfg u odb c) f = Some k \<Longrightarrow> cl_keys c f = Some k \<or> k_db_uuid k = u"
  by (auto simp: Client_OnDatabaseUnlocked_def dest: push_keys_adds split: if_splits)

lemma locked_client_eq:
  assumes "orders_ok E" "client_ok (cfg, c)" "ssh_remove_on_lock cfg"
  shows "cl_keys (Client_OnDatabaseLocked L U cfg (se_tracked E (cl_keys c)) u c) = untrack_db u (cl_keys c)"
proof -
  have "enumerates (se_tracked E (cl_keys c)) (cl_keys c)" "ssh_enabled cfg" using assms by (auto simp: orders_ok_def client_ok_def)
  with assms(3) show ?thesis by (simp add: Client_OnDatabaseLocked_def RemoveKeysForDB_keys)
qed

lemma remove_fps_dom: "dom (cl_keys (remove_fps L U fps c)) \<subseteq> dom (cl_keys c)"
  by (auto simp: remove_fps_keys split: if_splits)

lemma locked_client_ok: "client_ok (cfg, c) \<Longrightarrow> client_ok (cfg, Client_OnDatabaseLocked L U cfg order u c)"
  using finite_subset[OF remove_fps_dom] by (auto simp: client_ok_def Client_OnDatabaseLocked_def RemoveKeysForDB_def)

lemma locked_client_keys: "cl_keys (Client_OnDatabaseLocked L U cfg order u c) f = Some k \<Longrightarrow> cl_keys c f = Some k"
  by (auto simp: Client_OnDatabaseLocked_def RemoveKeysForDB_def remove_fps_keys split: if_splits)

text \<open>The Secret Service.\<close>

lemma event_pool [simp]: "sv_pool (HandlePoolEvent order ev s) = sv_pool s"
  by (auto simp: HandlePoolEvent_def onDatabaseUnlocked_def onDatabaseLocked_def onDatabaseReloaded_def
      removeCollectionLocked_def Let_def createCollection_fields split: event_type.split option.split)

lemma event_has_uuid [simp]: "has_uuid (HandlePoolEvent order ev s) u coll = has_uuid s u coll"
  by (simp add: has_uuid_def odb_at_def)

lemma event_collections:
  assumes "sv_collections (HandlePoolEvent order ev s) path = Some coll" "has_uuid s u coll" "pool_ok (sv_pool s)"
    and "db_locked (sv_pool s) u"
  shows "(sv_collections s path = Some coll \<and> (ev_type ev = EventDatabaseLocked \<longrightarrow> ev_uuid ev \<noteq> u))
         \<or> ev_uuid ev = u \<and> ev_type ev = EventDatabaseUnlocked"
proof -
  have new: "od_uuid od = u \<and> ev_uuid ev = u" if "Get (ev_uuid ev) (sv_pool s) = Some r" "odb_at s r = Some od"
      "has_uuid s u (newCollection od r)" for r od
    using that pool_okD(1)[OF assms(3), of "ev_uuid ev" r] by (auto simp: has_uuid_def newCollection_def Get_def odb_at_def)
  have lockd: "od_locked od" if "Get u (sv_pool s) = Some r" "odb_at s r = Some od" for r od
    using assms(4) that by (simp add: db_locked_def object_named_def odb_at_def)
  show ?thesis
    using assms(1,2) new lockd
    by (auto simp: HandlePoolEvent_def onDatabaseUnlocked_def onDatabaseLocked_def onDatabaseReloaded_def
        removeCollectionLocked_def createCollection_fields delete_where_apply Let_def
        split: event_type.splits option.splits if_splits)
qed

section \<open>Handling an event\<close>

lemma svc_ok_state [simp]:
  "tell_agents f g u (tell_secret_service E ev app)
   = (tell_agents f g u app)\<lparr>dm_svc := dm_svc (tell_secret_service E ev app)\<rparr>"
  by (simp add: tell_agents_def tell_secret_service_def split: option.split)

lemma tell_fields [simp]:
  "dm_pool (tell_secret_service E ev app) = dm_pool app" "dm_agent (tell_secret_service E ev app) = dm_agent app"
  "dm_client (tell_secret_service E ev app) = dm_client app"
  "dm_pool (tell_agents f g u app) = dm_pool app" "dm_svc (tell_agents f g u app) = dm_svc app"
  by (simp_all add: tell_secret_service_def tell_agents_def split: option.split)

lemma handle_pool [simp]: "dm_pool (handlePoolEvent E ev app) = dm_pool app"
  by (simp add: handlePoolEvent_def split: event_type.split)

lemma handle_svc:
  "svc_of (handlePoolEvent E ev app) = map_option (\<lambda>s. s\<lparr>sv_pool := dm_pool app\<rparr>)
     (if ev_type ev = EventDatabaseError then dm_svc app
      else map_option (\<lambda>s. HandlePoolEvent (se_paths E s) ev (s\<lparr>sv_pool := dm_pool app\<rparr>)) (dm_svc app))"
  by (simp add: handlePoolEvent_def svc_of_def tell_secret_service_def split: event_type.split)

lemma sv_pool_id: "sv_pool s = p \<Longrightarrow> s\<lparr>sv_pool := p\<rparr> = s"
  by simp

lemma handle_svc_event:
  assumes "dm_svc app = Some s"
  shows "svc_of (handlePoolEvent E ev app) = Some (HandlePoolEvent (se_paths E s) ev (s\<lparr>sv_pool := dm_pool app\<rparr>))"
proof -
  have "HandlePoolEvent order ev s = s" if "ev_type ev = EventDatabaseError" for order s
    using that by (simp add: HandlePoolEvent_def)
  then show ?thesis by (simp add: handle_svc assms sv_pool_id)
qed

lemma app_okD:
  assumes "app_ok E app"
  shows "orders_ok E" "pool_ok (dm_pool app)" "svc_of app = Some s \<Longrightarrow> svc_ok s"
    "dm_agent app = Some (cfg, m) \<Longrightarrow> agent_ok (se_ssh E) (cfg, m)"
    "dm_client app = Some (cfg, c) \<Longrightarrow> client_ok (cfg, c)"
  using assms by (auto simp: app_ok_def)

lemma handle_app_ok:
  assumes "app_ok E app"
  shows "app_ok E (handlePoolEvent E ev app)"
proof -
  have "pred_option svc_ok (svc_of (handlePoolEvent E ev app))"
  proof (cases "dm_svc app")
    case (Some s)
    then have "svc_ok (s\<lparr>sv_pool := dm_pool app\<rparr>)" using app_okD(3)[OF assms] by (simp add: svc_of_def)
    then show ?thesis using event_ok by (simp add: handle_svc_event[OF Some])
  qed (simp add: handle_svc)
  moreover have "pred_option (agent_ok (se_ssh E)) (dm_agent (handlePoolEvent E ev app))"
    using app_okD(1,4)[OF assms]
    by (cases "dm_agent app") (auto simp: handlePoolEvent_def tell_agents_def unlocked_agent_ok locked_agent_ok
        split: event_type.split option.split)
  moreover have "pred_option client_ok (dm_client (handlePoolEvent E ev app))"
    using app_okD(5)[OF assms]
    by (cases "dm_client app") (auto simp: handlePoolEvent_def tell_agents_def unlocked_client_ok locked_client_ok
        split: event_type.split option.split)
  ultimately show ?thesis using app_okD(1,2)[OF assms] by (simp add: app_ok_def)
qed

lemma db_lockedD: "db_locked p u \<Longrightarrow> pool_ok p \<Longrightarrow> \<exists>od. object_named u p = Some od \<and> od_locked od \<and> od_uuid od = u"
  using pool_okD(1) by (fastforce simp: db_locked_def object_named_def Get_def split: option.splits bind_splits)

lemma agent_after_lock:
  assumes "app_ok E app" "ev_type ev = EventDatabaseLocked" "db_locked (dm_pool app) (ev_uuid ev)"
    and "dm_agent (handlePoolEvent E ev app) = Some (cfg, m)" "m f = Some lk"
  shows "\<not> bound_to lk (ev_uuid ev)"
proof -
  obtain od where od: "object_named (ev_uuid ev) (dm_pool app) = Some od" "od_uuid od = ev_uuid ev"
    using db_lockedD[OF assms(3) app_okD(2)[OF assms(1)]] by blast
  then obtain m0 where m0: "dm_agent app = Some (cfg, m0)" "m = OnDatabaseLocked (se_identities E m0) cfg (ev_uuid ev) m0"
    using assms(2,4) by (auto simp: handlePoolEvent_def tell_agents_def)
  then have "m = delete_where (\<lambda>_ lk. bound_to lk (ev_uuid ev)) m0"
    using locked_agent_eq[OF app_okD(1)[OF assms(1)] app_okD(4)[OF assms(1) m0(1)]] by simp
  then show ?thesis using assms(5) by (auto dest: delete_where_SomeD)
qed

lemma client_after_lock:
  assumes "app_ok E app" "ev_type ev = EventDatabaseLocked" "db_locked (dm_pool app) (ev_uuid ev)"
    and "dm_client (handlePoolEvent E ev app) = Some (cfg, c)" "ssh_remove_on_lock cfg" "cl_keys c f = Some k"
  shows "k_db_uuid k \<noteq> ev_uuid ev"
proof -
  obtain od where od: "object_named (ev_uuid ev) (dm_pool app) = Some od" "od_uuid od = ev_uuid ev"
    using db_lockedD[OF assms(3) app_okD(2)[OF assms(1)]] by blast
  then obtain c0 where c0: "dm_client app = Some (cfg, c0)"
    "c = Client_OnDatabaseLocked (se_ssh E) (se_upstream E) cfg (se_tracked E (cl_keys c0)) (ev_uuid ev) c0"
    using assms(2,4) by (auto simp: handlePoolEvent_def tell_agents_def)
  then have "cl_keys c = untrack_db (ev_uuid ev) (cl_keys c0)"
    using locked_client_eq[OF app_okD(1)[OF assms(1)] app_okD(5)[OF assms(1) c0(1)] assms(5)] by simp
  then show ?thesis using assms(6) by (auto simp: untrack_db_def dest: delete_where_SomeD)
qed

lemma agent_holds_new:
  assumes "app_ok E app" "agent_holds (handlePoolEvent E ev app) u"
  shows "agent_holds app u \<or> ev_uuid ev = u \<and> ev_type ev = EventDatabaseUnlocked"
proof -
  obtain cfg m f lk where h: "dm_agent (handlePoolEvent E ev app) = Some (cfg, m)" "m f = Some lk" "bound_to lk u"
    using assms(2) by (auto simp: agent_holds_def)
  have uuid: "od_uuid od = ev_uuid ev" if "object_named (ev_uuid ev) (dm_pool app) = Some od" for od
    using that pool_okD(1)[OF app_okD(2)[OF assms(1)]] by (fastforce simp: object_named_def Get_def split: bind_splits)
  have keep: "OnDatabaseLocked (se_identities E m0) c0 v m0 f = Some lk \<Longrightarrow> m0 f = Some lk" for c0 v m0
    by (auto simp: OnDatabaseLocked_def RemoveIdentitiesForDatabase_def remove_for_database_apply split: if_splits option.splits)
  show ?thesis
    using h uuid unfolding handlePoolEvent_def tell_agents_def agent_holds_def
    by (auto split: event_type.splits option.splits dest!: unlocked_agent_adds keep simp: bound_to_def)
qed

lemma client_holds_new:
  assumes "app_ok E app" "client_holds (handlePoolEvent E ev app) u"
  shows "client_holds app u \<or> ev_uuid ev = u \<and> ev_type ev = EventDatabaseUnlocked"
proof -
  obtain cfg c f k where h: "dm_client (handlePoolEvent E ev app) = Some (cfg, c)" "ssh_remove_on_lock cfg"
    "cl_keys c f = Some k" "k_db_uuid k = u"
    using assms(2) by (auto simp: client_holds_def)
  have uuid: "od_uuid od = ev_uuid ev" if "object_named (ev_uuid ev) (dm_pool app) = Some od" for od
    using that pool_okD(1)[OF app_okD(2)[OF assms(1)]] by (fastforce simp: object_named_def Get_def split: bind_splits)
  show ?thesis
    using h uuid unfolding handlePoolEvent_def tell_agents_def client_holds_def
    by (auto split: event_type.splits option.splits dest!: unlocked_client_adds locked_client_keys)
qed

lemma service_holds_new:
  assumes "app_ok E app" "db_locked (dm_pool app) u" "service_holds (handlePoolEvent E ev app) u"
  shows "(service_holds app u \<and> (ev_type ev = EventDatabaseLocked \<longrightarrow> ev_uuid ev \<noteq> u))
         \<or> ev_uuid ev = u \<and> ev_type ev = EventDatabaseUnlocked"
proof -
  obtain s' path coll where h: "svc_of (handlePoolEvent E ev app) = Some s'" "sv_collections s' path = Some coll" "has_uuid s' u coll"
    using assms(3) by (auto simp: service_holds_def)
  then obtain s where s: "dm_svc app = Some s" by (cases "dm_svc app") (auto simp: handle_svc split: if_splits)
  let ?s = "s\<lparr>sv_pool := dm_pool app\<rparr>"
  have "s' = HandlePoolEvent (se_paths E s) ev ?s" using h(1) handle_svc_event[OF s, of E ev] by simp
  with h event_collections[of "se_paths E s" ev ?s path coll u] assms(2) app_okD(2)[OF assms(1)] s show ?thesis
    by (auto simp: service_holds_def svc_of_def)
qed

text \<open>The laws of the interface, for each of the three.\<close>

lemma agent_lock_clears:
  "app_ok E app \<Longrightarrow> ev_type ev = EventDatabaseLocked \<Longrightarrow> db_locked (dm_pool app) (ev_uuid ev)
     \<Longrightarrow> \<not> agent_holds (handlePoolEvent E ev app) (ev_uuid ev)"
  using agent_after_lock unfolding agent_holds_def by blast

lemma client_lock_clears:
  "app_ok E app \<Longrightarrow> ev_type ev = EventDatabaseLocked \<Longrightarrow> db_locked (dm_pool app) (ev_uuid ev)
     \<Longrightarrow> \<not> client_holds (handlePoolEvent E ev app) (ev_uuid ev)"
  using client_after_lock unfolding client_holds_def by blast

lemma service_lock_clears:
  "app_ok E app \<Longrightarrow> ev_type ev = EventDatabaseLocked \<Longrightarrow> db_locked (dm_pool app) (ev_uuid ev)
     \<Longrightarrow> \<not> service_holds (handlePoolEvent E ev app) (ev_uuid ev)"
  using service_holds_new by fastforce

interpretation agent: event_consumer "handlePoolEvent E" agent_holds "\<lambda>app u. db_locked (dm_pool app) u" "app_ok E" for E
  by unfold_locales (auto intro: handle_app_ok dest: agent_lock_clears agent_holds_new)

interpretation client: event_consumer "handlePoolEvent E" client_holds "\<lambda>app u. db_locked (dm_pool app) u" "app_ok E" for E
  by unfold_locales (auto intro: handle_app_ok dest: client_lock_clears client_holds_new)

interpretation shown: event_consumer "handlePoolEvent E" service_holds "\<lambda>app u. db_locked (dm_pool app) u" "app_ok E" for E
  by unfold_locales (auto intro: handle_app_ok dest: service_lock_clears service_holds_new)

section \<open>Steps of the daemon\<close>

text \<open>\<open>room n p\<close>: the channel takes \<open>n\<close> more events.\<close>

definition room :: "nat \<Rightarrow> pool \<Rightarrow> bool" where
  "room n p \<longleftrightarrow> (case pl_cap p of None \<Rightarrow> False | Some c \<Rightarrow> length (pl_events p) + n \<le> c)"

text \<open>Locks that find room in the channel, everything else without restriction.\<close>

inductive app_step :: "pool_lib \<Rightarrow> ('sg, 'pk, 'u) services \<Rightarrow> ('sg, 'pk, 'u) app \<Rightarrow> ('sg, 'pk, 'u) app \<Rightarrow> bool" for PL E where
  st_open: "Open PL content fp path cred (dm_pool app) = (res, p) \<Longrightarrow> app_step PL E app (app\<lparr>dm_pool := p\<rparr>)"
| st_lock: "Pool.Lock u (dm_pool app) = Returned (e, p) \<Longrightarrow> room 1 (dm_pool app) \<Longrightarrow> app_step PL E app (app\<lparr>dm_pool := p\<rparr>)"
| st_save: "pl_heap (dm_pool app) r = Some od \<Longrightarrow> \<not> od_locked od \<Longrightarrow> rooted db
    \<Longrightarrow> app_step PL E app (app\<lparr>dm_pool := (dm_pool app)\<lparr>pl_heap := (pl_heap (dm_pool app))(r \<mapsto> od\<lparr>od_db := Some db, od_fingerprint := fp\<rparr>)\<rparr>\<rparr>)"
| st_watch: "w \<in> pl_watching (dm_pool app) \<Longrightarrow> pl_heap (dm_pool app) w = Some od \<Longrightarrow> room 1 (dm_pool app)
    \<Longrightarrow> app_step PL E app (app\<lparr>dm_pool := (dm_pool app)\<lparr>pl_events := pl_events (dm_pool app) @ [reload_event od]\<rparr>\<rparr>)"
| st_event: "app_step PL E app (receive_event E app)"
| st_reload: "app_step PL E app (snd (reloadConfig loaded app))"
| st_agent: "dm_agent app = Some (cfg, m) \<Longrightarrow> process_message (se_ssh E) order msg m = (res, m')
    \<Longrightarrow> app_step PL E app (app\<lparr>dm_agent := Some (cfg, m')\<rparr>)"
| st_service: "svc_of app = Some s \<Longrightarrow> svc_step PL s s' \<Longrightarrow> sv_pool s' = sv_pool s \<Longrightarrow> sv_collections s' = sv_collections s
    \<Longrightarrow> app_step PL E app (app\<lparr>dm_svc := Some s'\<rparr>)"

definition withdrawn :: "('sg, 'pk, 'u) services \<Rightarrow> ('sg, 'pk, 'u) app \<Rightarrow> bool" where
  "withdrawn E app \<longleftrightarrow>
     (\<forall>u. db_locked (dm_pool app) u \<longrightarrow>
        agent.settled (pl_events (dm_pool app)) app u \<and> client.settled (pl_events (dm_pool app)) app u
        \<and> shown.settled (pl_events (dm_pool app)) app u)"

definition app_inv :: "('sg, 'pk, 'u) services \<Rightarrow> ('sg, 'pk, 'u) app \<Rightarrow> bool" where
  "app_inv E app \<longleftrightarrow> app_ok E app \<and> withdrawn E app"

text \<open>Only the pool changes.\<close>

lemma has_uuid_grows:
  "pool_ok (sv_pool s) \<Longrightarrow> grows (sv_pool s) p \<Longrightarrow> svc_ok s \<Longrightarrow> sv_collections s path = Some coll
     \<Longrightarrow> has_uuid (s\<lparr>sv_pool := p\<rparr>) u coll = has_uuid s u coll"
  using svc_okD(2)[of s path coll] by (fastforce simp: coll_ok_def has_uuid_def odb_at_def grows_def split: option.split)

lemma pool_change_holds:
  assumes "app_ok E app" "grows (dm_pool app) p"
  shows "agent_holds (app\<lparr>dm_pool := p\<rparr>) u = agent_holds app u" "client_holds (app\<lparr>dm_pool := p\<rparr>) u = client_holds app u"
    "service_holds (app\<lparr>dm_pool := p\<rparr>) u = service_holds app u"
proof -
  show "service_holds (app\<lparr>dm_pool := p\<rparr>) u = service_holds app u"
  proof (cases "dm_svc app")
    case (Some s)
    let ?s = "s\<lparr>sv_pool := dm_pool app\<rparr>"
    have s: "svc_of app = Some ?s" using Some by (simp add: svc_of_def)
    have "has_uuid (s\<lparr>sv_pool := p\<rparr>) u coll = has_uuid ?s u coll" if "sv_collections s path = Some coll" for path coll
      using has_uuid_grows[of ?s p path coll u] app_okD(2)[OF assms(1)] app_okD(3)[OF assms(1) s] assms(2) that by simp
    then show ?thesis using Some by (auto simp: service_holds_def svc_of_def)
  qed (simp add: service_holds_def svc_of_def)
qed (simp_all add: agent_holds_def client_holds_def)

lemma pool_change_ok:
  assumes "app_ok E app" "pool_ok p" "grows (dm_pool app) p"
  shows "app_ok E (app\<lparr>dm_pool := p\<rparr>)"
proof -
  have "svc_ok (s\<lparr>sv_pool := p\<rparr>)" if "dm_svc app = Some s" for s
    using svc_ok_pool[of "s\<lparr>sv_pool := dm_pool app\<rparr>" p] assms(2,3) app_okD(3)[OF assms(1)] that by (simp add: svc_of_def)
  then show ?thesis using assms(1,2) by (cases "dm_svc app") (auto simp: app_ok_def svc_of_def)
qed

text \<open>A pool that grew and got events of which every database now locked was locked before and
  is not in the news, or is in the last of them as locked.\<close>

lemma pool_change_inv:
  assumes "app_inv E app" "pool_ok p" "grows (dm_pool app) p" "pl_events p = pl_events (dm_pool app) @ evs" "length evs \<le> 1"
    and "\<And>u. db_locked p u \<Longrightarrow> db_locked (dm_pool app) u \<and> news u evs = []
            \<or> (\<exists>ev. evs = [ev] \<and> ev_type ev = EventDatabaseLocked \<and> ev_uuid ev = u)"
  shows "app_inv E (app\<lparr>dm_pool := p\<rparr>)"
proof -
  let ?app = "app\<lparr>dm_pool := p\<rparr>"
  have ok: "app_ok E app" and w: "withdrawn E app" using assms(1) by (auto simp: app_inv_def)
  note same = pool_change_holds[OF ok assms(3)]
  have "agent.settled (pl_events p) ?app u \<and> client.settled (pl_events p) ?app u \<and> shown.settled (pl_events p) ?app u"
    if l: "db_locked p u" for u
    using assms(6)[OF l]
  proof
    assume old: "db_locked (dm_pool app) u \<and> news u evs = []"
    then have "news u (pl_events p) = news u (pl_events (dm_pool app))" by (simp add: assms(4) news_append)
    then show ?thesis
      using w old by (auto simp: withdrawn_def agent.settled_def client.settled_def shown.settled_def same)
  next
    assume "\<exists>ev. evs = [ev] \<and> ev_type ev = EventDatabaseLocked \<and> ev_uuid ev = u"
    then show ?thesis by (auto simp: assms(4) agent.settled_lock client.settled_lock shown.settled_lock)
  qed
  then show ?thesis using pool_change_ok[OF ok assms(2,3)] by (simp add: app_inv_def withdrawn_def)
qed

section \<open>Each step keeps the invariant\<close>

lemma db_locked_eq: "pl_dbs p = pl_dbs q \<Longrightarrow> pl_heap p = pl_heap q \<Longrightarrow> db_locked p u = db_locked q u"
  by (simp add: db_locked_def object_named_def Get_def)

lemma send_event_events:
  "\<exists>evs. pl_events (send_event ev p) = pl_events p @ evs \<and> (evs = [] \<or> evs = [ev]) \<and> (room 1 p \<longrightarrow> evs = [ev])"
  by (auto simp: send_event_def room_def split: option.split)

lemma open_inv:
  assumes "app_inv E app" "decoder_ok PL" "Open PL content fp path cred (dm_pool app) = (res, p)"
  shows "app_inv E (app\<lparr>dm_pool := p\<rparr>)"
proof -
  have pool: "pool_ok (dm_pool app)" using assms(1) by (auto simp: app_inv_def app_ok_def)
  note ok = Open_ok[OF pool assms(2,3)] pool_step_grows[OF pool pool_open[OF assms(3)]]
  show ?thesis
  proof (cases "load_database PL content fp path cred")
    case (Inl e)
    then show ?thesis using assms(1,3) by (auto simp: Open_def)
  next
    case (Inr od)
    let ?ev = "\<lparr>ev_type = EventDatabaseUnlocked, ev_uuid = od_uuid od, ev_name = od_name od, ev_path = path\<rparr>"
    have p: "p = send_event ?ev (install od (dm_pool app))" using assms(3) Inr by (simp add: Open_def)
    from send_event_events[of ?ev "install od (dm_pool app)"] obtain evs where
      evs: "pl_events p = pl_events (dm_pool app) @ evs" "evs = [] \<or> evs = [?ev]"
      by (auto simp: p install_def Let_def)
    have "od_locked od = False" using load_database_OkD[OF Inr assms(2)] by simp
    moreover have "r < pl_next (dm_pool app)" if "pl_dbs (dm_pool app) u = Some r" for u r
      using pool_okD(1)[OF pool that] pool_okD(2)[OF pool] by (auto simp: object_ok_def)
    ultimately have old: "db_locked (dm_pool app) u \<and> u \<noteq> od_uuid od" if "db_locked p u" for u
      using that
      by (auto simp: p db_locked_def object_named_def Get_def install_def Let_def split: if_splits bind_splits option.splits)
    show ?thesis
      by (rule pool_change_inv[OF assms(1) ok evs(1)]) (use evs(2) in \<open>auto simp: news_def dest!: old\<close>)
  qed
qed

lemma lock_inv:
  assumes "app_inv E app" "Pool.Lock u (dm_pool app) = Returned (e, p)" "room 1 (dm_pool app)"
  shows "app_inv E (app\<lparr>dm_pool := p\<rparr>)"
proof -
  have pool: "pool_ok (dm_pool app)" using assms(1) by (auto simp: app_inv_def app_ok_def)
  show ?thesis
  proof (cases "pl_dbs (dm_pool app) u")
    case None
    then show ?thesis using assms(1,2) by (auto simp: Lock_def)
  next
    case (Some r)
    obtain od where od: "pl_heap (dm_pool app) r = Some od" "od_uuid od = u" using pool_okD(1)[OF pool Some] by blast
    let ?ev = "\<lparr>ev_type = EventDatabaseLocked, ev_uuid = u, ev_name = od_name od, ev_path = od_path od\<rparr>"
    let ?q = "(dm_pool app)\<lparr>pl_heap := (pl_heap (dm_pool app))(r \<mapsto> locked_object od), pl_watching := pl_watching (dm_pool app) - {r}\<rparr>"
    have p: "p = send_event ?ev ?q" using Lock_eq[OF pool Some od(1)] assms(2) by simp
    have "room 1 ?q" using assms(3) by (auto simp: room_def split: option.splits)
    with send_event_events[of ?ev ?q] have evs: "pl_events p = pl_events (dm_pool app) @ [?ev]" by (auto simp: p)
    have only: "v = u" if "pl_dbs (dm_pool app) v = Some r" for v
      using pool_okD(1)[OF pool that] od by auto
    have old: "db_locked (dm_pool app) v" if "db_locked p v" "v \<noteq> u" for v
      using that only by (auto simp: p db_locked_def object_named_def Get_def split: bind_splits option.splits if_splits)
    show ?thesis
      by (rule pool_change_inv[OF assms(1) Lock_ok[OF pool assms(2)] Lock_grows[OF pool assms(2)] evs])
        (use old in \<open>auto simp: news_def\<close>)
  qed
qed

lemma save_inv:
  assumes "app_inv E app" "pl_heap (dm_pool app) r = Some od" "\<not> od_locked od" "rooted db" "decoder_ok PL"
  shows "app_inv E (app\<lparr>dm_pool := (dm_pool app)\<lparr>pl_heap := (pl_heap (dm_pool app))(r \<mapsto> od\<lparr>od_db := Some db, od_fingerprint := fp\<rparr>)\<rparr>\<rparr>)"
proof -
  have pool: "pool_ok (dm_pool app)" using assms(1) by (auto simp: app_inv_def app_ok_def)
  note st = pool_update[OF assms(2-4), of PL fp]
  show ?thesis
    by (rule pool_change_inv[OF assms(1) pool_step_ok[OF assms(5) pool st] pool_step_grows[OF pool st], of "[]"])
      (use assms(2,3) in \<open>auto simp: news_def db_locked_def object_named_def Get_def split: bind_splits option.splits if_splits\<close>)
qed

lemma watch_inv:
  assumes "app_inv E app" "w \<in> pl_watching (dm_pool app)" "pl_heap (dm_pool app) w = Some od" "room 1 (dm_pool app)" "decoder_ok PL"
  shows "app_inv E (app\<lparr>dm_pool := (dm_pool app)\<lparr>pl_events := pl_events (dm_pool app) @ [reload_event od]\<rparr>\<rparr>)"
proof -
  have pool: "pool_ok (dm_pool app)" using assms(1) by (auto simp: app_inv_def app_ok_def)
  obtain n where "pl_cap (dm_pool app) = Some n" "length (pl_events (dm_pool app)) < n"
    using assms(4) by (auto simp: room_def split: option.splits)
  note st = pool_watch[OF assms(2,3) this, of PL]
  show ?thesis
    by (rule pool_change_inv[OF assms(1) pool_step_ok[OF assms(5) pool st] pool_step_grows[OF pool st], of "[reload_event od]"])
      (auto simp: news_def reload_event_def db_locked_def object_named_def Get_def)
qed

lemma receive_ok: "app_ok E app \<Longrightarrow> app_ok E (receive_event E app)"
proof (cases "pl_events (dm_pool app)")
  case (Cons ev evs)
  assume ok: "app_ok E app"
  note st = pool_receive[OF Cons, of sample_pool_lib]
  have "app_ok E (app\<lparr>dm_pool := (dm_pool app)\<lparr>pl_events := evs\<rparr>\<rparr>)"
    by (rule pool_change_ok[OF ok pool_step_ok[OF sample_decoder_ok app_okD(2)[OF ok] st]]) (simp add: grows_heap)
  then show ?thesis by (simp add: receive_event_def Cons handle_app_ok)
qed (simp add: receive_event_def)

lemma receive_inv:
  assumes "app_inv E app" "decoder_ok PL"
  shows "app_inv E (receive_event E app)"
proof (cases "pl_events (dm_pool app)")
  case (Cons ev evs)
  let ?p = "(dm_pool app)\<lparr>pl_events := evs\<rparr>"
  let ?app = "app\<lparr>dm_pool := ?p\<rparr>"
  have ok: "app_ok E app" and w: "withdrawn E app" using assms(1) by (auto simp: app_inv_def)
  note st = pool_receive[OF Cons, of PL]
  have grow: "grows (dm_pool app) ?p" by (simp add: grows_heap)
  have ok': "app_ok E ?app"
    by (rule pool_change_ok[OF ok pool_step_ok[OF assms(2) app_okD(2)[OF ok] st] grow])
  have same: "db_locked ?p u = db_locked (dm_pool app) u" for u by (rule db_locked_eq) simp_all
  have "agent.settled evs (handlePoolEvent E ev ?app) u \<and> client.settled evs (handlePoolEvent E ev ?app) u
      \<and> shown.settled evs (handlePoolEvent E ev ?app) u" if "db_locked ?p u" for u
  proof -
    have "agent.settled (ev # evs) ?app u \<and> client.settled (ev # evs) ?app u \<and> shown.settled (ev # evs) ?app u"
      using w that pool_change_holds[OF ok grow]
      by (auto simp: withdrawn_def same Cons agent.settled_def client.settled_def shown.settled_def)
    then show ?thesis
      using that ok' agent.settled_receive[of ev evs ?app u E] client.settled_receive[of ev evs ?app u E]
        shown.settled_receive[of ev evs ?app u E] by simp
  qed
  then show ?thesis
    using handle_app_ok[OF ok', of ev] by (simp add: receive_event_def Cons app_inv_def withdrawn_def)
qed (use assms in \<open>simp add: receive_event_def\<close>)

text \<open>The pool stays as it is, and the services hold no more than before.\<close>

lemma quiet_inv:
  assumes "app_inv E app" "app_ok E app'" "dm_pool app' = dm_pool app"
    and "\<And>v. agent_holds app' v \<Longrightarrow> agent_holds app v" "\<And>v. client_holds app' v \<Longrightarrow> client_holds app v"
    and "\<And>v. service_holds app' v \<Longrightarrow> service_holds app v"
  shows "app_inv E app'"
  using assms agent.settled_quiet client.settled_quiet shown.settled_quiet unfolding app_inv_def withdrawn_def by metis

lemma reload_inv: "app_inv E app \<Longrightarrow> app_inv E (snd (reloadConfig loaded app))"
proof -
  assume inv: "app_inv E app"
  then have ok: "app_ok E app" by (simp add: app_inv_def)
  let ?app = "snd (reloadConfig loaded app)"
  have same: "dm_pool ?app = dm_pool app" "dm_agent ?app = dm_agent app" "dm_client ?app = dm_client app"
    by (simp_all add: reloadConfig_def split: sum.split)
  obtain f :: "svc \<Rightarrow> svc" where f: "dm_svc ?app = map_option f (dm_svc app)"
    and keep: "\<And>s p. svc_ok (s\<lparr>sv_pool := p\<rparr>) \<Longrightarrow> svc_ok ((f s)\<lparr>sv_pool := p\<rparr>)" "\<And>s. sv_collections (f s) = sv_collections s"
  proof (cases "configured loaded")
    case (Inl e)
    show thesis by (rule that[of id]) (simp_all add: reloadConfig_def Inl option.map_id)
  next
    case (Inr cfg)
    show thesis
      by (rule that[of "\<lambda>s. UpdateDatabaseConfigs (cfg_databases cfg) (UpdateConfig (cfg_secret_service cfg) s)"])
        (auto simp: reloadConfig_def Inr UpdateDatabaseConfigs_def UpdateConfig_def elim!: svc_ok_same)
  qed
  have "app_ok E ?app"
    using ok keep(1) by (cases "dm_svc app") (auto simp: app_ok_def same svc_of_def f)
  moreover have "service_holds ?app v \<Longrightarrow> service_holds app v" for v
    using keep(2) by (cases "dm_svc app") (auto simp: service_holds_def svc_of_def same f has_uuid_def odb_at_def)
  ultimately show ?thesis
    by (intro quiet_inv[OF inv _ same(1)]) (simp_all add: agent_holds_def client_holds_def same)
qed

lemma message_inv:
  assumes "app_inv E app" "dm_agent app = Some (cfg, m)" "process_message (se_ssh E) order msg m = (res, m')"
  shows "app_inv E (app\<lparr>dm_agent := Some (cfg, m')\<rparr>)"
proof (rule quiet_inv[OF assms(1)])
  have ok: "app_ok E app" using assms(1) by (simp add: app_inv_def)
  have le: "m' \<subseteq>\<^sub>m m" using process_message_map_le[of "se_ssh E" order msg m] assms(3) by simp
  then have sub: "dom m' \<subseteq> dom m" by (rule map_le_implies_dom_le)
  have "agent_ok (se_ssh E) (cfg, m')"
    using app_okD(4)[OF ok assms(2)] process_message_ok[of "se_ssh E" m order msg] assms(3) finite_subset[OF sub]
      le by (fastforce simp: agent_ok_def map_le_def dom_def)
  then show "app_ok E (app\<lparr>dm_agent := Some (cfg, m')\<rparr>)" using ok by (simp add: app_ok_def svc_of_def)
  show "agent_holds (app\<lparr>dm_agent := Some (cfg, m')\<rparr>) v \<Longrightarrow> agent_holds app v" for v
    using le assms(2) by (auto simp: agent_holds_def map_le_def dom_def) metis
qed (simp_all add: client_holds_def service_holds_def svc_of_def)

lemma app_step_inv:
  assumes "decoder_ok PL" "app_step PL E app app'" "app_inv E app"
  shows "app_inv E app'"
  using assms(2)
proof cases
  case (st_service s s')
  have ok: "app_ok E app" using assms(3) by (simp add: app_inv_def)
  have pool: "sv_pool s' = dm_pool app" using st_service by (auto simp: svc_of_def)
  have "svc_ok s'" using svc_step_ok[OF assms(1) app_okD(3)[OF ok st_service(2)] st_service(3)] .
  then have "app_ok E app'" using ok st_service(1) by (simp add: app_ok_def svc_of_def sv_pool_id[OF pool])
  then show ?thesis
    using st_service pool
    by (intro quiet_inv[OF assms(3)])
      (auto simp: agent_holds_def client_holds_def service_holds_def svc_of_def has_uuid_def odb_at_def)
qed (use assms open_inv lock_inv save_inv watch_inv receive_inv reload_inv message_inv in simp_all)

section \<open>From the start\<close>

lemma auto_unlock_inv:
  "app_inv E (app\<lparr>dm_pool := p\<rparr>) \<Longrightarrow> decoder_ok PL \<Longrightarrow> app_inv E (app\<lparr>dm_pool := auto_unlock_all PL H dbs p\<rparr>)"
proof (induction dbs arbitrary: p)
  case (Cons db dbs)
  have "app_inv E (app\<lparr>dm_pool := snd (open_on PL H (dc_path db) cred p)\<rparr>)" for cred
    using open_inv[OF Cons.prems, where p = "snd (open_on PL H (dc_path db) cred p)"]
    by (simp add: open_on_def prod_eq_iff)
  then show ?case using Cons by (auto split: sum.split)
qed simp

lemma started_inv:
  assumes "orders_ok E"
  shows "app_inv E (startSSHAgent H (startDBus H order (new_app cfg level)))"
proof -
  let ?a = "startSSHAgent H (startDBus H order (new_app cfg level))"
  let ?s = "seedCollections order (UpdateDatabaseConfigs (cfg_databases cfg)
              (NewSecretService (NewDatabasePool (Some 16)) (Some (cfg_secret_service cfg))))"
  have s: "?s = UpdateDatabaseConfigs (cfg_databases cfg) (NewSecretService (NewDatabasePool (Some 16)) (Some (cfg_secret_service cfg)))"
    by (simp add: seedCollections_def ListDatabases_def map_values_def UpdateDatabaseConfigs_def NewSecretService_def NewDatabasePool_def
        List.map_filter_def)
  have svc: "svc_ok ?s" "sv_pool ?s = NewDatabasePool (Some 16)"
    using svc_ok_new[OF pool_ok_new, of "Some 16" "Some (cfg_secret_service cfg)"]
    unfolding s by (auto simp: UpdateDatabaseConfigs_def NewSecretService_def intro: svc_ok_same)
  have pool: "dm_pool ?a = NewDatabasePool (Some 16)"
    by (simp add: startSSHAgent_def startDBus_def startSSHAgentClient_def startSSHAgentServer_def new_app_def Let_def split: sum.split)
  have "pred_option svc_ok (svc_of ?a)"
    by (auto simp: svc(1) sv_pool_id[OF svc(2)] svc_of_def startSSHAgent_def startDBus_def daemon_service_def startSSHAgentClient_def startSSHAgentServer_def new_app_def Let_def
        split: sum.split)
  moreover have "pred_option (agent_ok (se_ssh E)) (dm_agent ?a)"
    by (auto simp: startSSHAgent_def startDBus_def startSSHAgentClient_def startSSHAgentServer_def new_app_def Let_def agent_ok_def
        NewIdentityManager_def manager.filed_def split: sum.split)
  moreover have "pred_option client_ok (dm_client ?a)"
    by (auto simp: startSSHAgent_def startDBus_def startSSHAgentClient_def startSSHAgentServer_def new_app_def Let_def client_ok_def
        NewAgentClient_def split: sum.split)
  ultimately have "app_ok E ?a" using assms by (simp add: app_ok_def pool pool_ok_new)
  moreover have "\<not> db_locked (NewDatabasePool (Some 16)) u" for u
    by (simp add: db_locked_def object_named_def NewDatabasePool_def Get_def)
  ultimately show ?thesis by (simp add: app_inv_def withdrawn_def pool)
qed

lemma start_up_inv: "orders_ok E \<Longrightarrow> decoder_ok PL \<Longrightarrow> start_up PL H order cli cfg = Some app \<Longrightarrow> app_inv E app"
proof -
  assume E: "orders_ok E" "decoder_ok PL" "start_up PL H order cli cfg = Some app"
  then obtain level where "app = autoUnlock PL H (startSSHAgent H (startDBus H order (new_app cfg level)))"
    by (auto simp: start_up_def)
  with auto_unlock_inv[of E _ _ PL H] started_inv[OF E(1), of H order cfg level] E(2) show ?thesis
    by (simp add: autoUnlock_def)
qed

interpretation daemon: machine "\<lambda>app. start_up PL H order cli cfg = Some app" "app_step PL E"
    "\<lambda>app. orders_ok E \<and> decoder_ok PL \<longrightarrow> app_inv E app"
  for PL H order cli cfg E
  by unfold_locales (auto intro: start_up_inv dest: app_step_inv)

text \<open>C5. Locking is withdrawn from the services: from the start of the daemon, after any
  sequence of opening, locking, saving, file changes, agent requests, reloads and service calls
  (what these do to the pool are its own steps)
  in which the channel had room for the events of the locks, once the channel is drained, of a
  database that is locked: no identity is loaded in the agent, and no key is tracked in client
  mode, when the configuration they were started with removes keys on lock (otherwise they
  stay); the Secret Service has no collection for it; and every item of it that is still on
  the bus, with its cached copy of the entry, refuses its secret.\<close>

theorem drained_daemon_withdraws:
  assumes "orders_ok E" and "decoder_ok PL"
    and "reachable (\<lambda>app. start_up PL H order cli cfg = Some app) (app_step PL E) app"
    and "pl_events (dm_pool app) = []"
    and "pl_dbs (dm_pool app) u = Some r" and "pl_heap (dm_pool app) r = Some od" and "od_locked od"
  shows "(\<forall>acfg m f lk. dm_agent app = Some (acfg, m) \<longrightarrow> ssh_remove_on_lock acfg \<longrightarrow> m f = Some lk \<longrightarrow> lk_db_uuid lk \<noteq> u)
         \<and> (\<forall>ccfg c f k. dm_client app = Some (ccfg, c) \<longrightarrow> ssh_remove_on_lock ccfg \<longrightarrow> cl_keys c f = Some k \<longrightarrow> k_db_uuid k \<noteq> u)
         \<and> (\<forall>s path coll. svc_of app = Some s \<longrightarrow> sv_collections s path = Some coll \<longrightarrow> \<not> has_uuid s u coll)
         \<and> (\<forall>s it V sender sess. svc_of app = Some s \<longrightarrow> co_db (it_coll it) = r
              \<longrightarrow> Item_GetSecret V sender sess it s = (Err NoSuchObject, s))"
proof -
  have inv: "app_inv E app" using daemon.reachable_inv[OF assms(3)] assms(1,2) by blast
  then have w: "withdrawn E app" and ok: "app_ok E app" by (simp_all add: app_inv_def)
  have "db_locked (dm_pool app) u" using assms(5-7) by (simp add: db_locked_def object_named_def Get_def)
  with w have held: "\<not> agent_holds app u" "\<not> client_holds app u" "\<not> service_holds app u"
    by (auto simp: withdrawn_def assms(4) dest: agent.settled_done client.settled_done shown.settled_done)
  have removal: "lk_auto_remove lk = ssh_remove_on_lock acfg" if "dm_agent app = Some (acfg, m)" "m f = Some lk" for acfg m f lk
    using app_okD(4)[OF ok that(1)] that(2) by (auto simp: agent_ok_def)
  have "od_db od = None" using pool_okD(2)[OF app_okD(2)[OF ok] assms(6)] assms(7) by (simp add: object_ok_def)
  then have "Item_GetSecret V sender sess it s = (Err NoSuchObject, s)" if "svc_of app = Some s" "co_db (it_coll it) = r" for s it V sender sess
    using that assms(6) by (auto simp: Item_GetSecret_def refresh_def odb_at_def svc_of_def)
  moreover have "\<forall>acfg m f lk. dm_agent app = Some (acfg, m) \<longrightarrow> ssh_remove_on_lock acfg \<longrightarrow> m f = Some lk \<longrightarrow> lk_db_uuid lk \<noteq> u"
    using held(1) removal unfolding agent_holds_def bound_to_def by blast
  ultimately show ?thesis
    using held(2,3) unfolding client_holds_def service_holds_def by blast
qed

end
