(* ===== verification/Daemon_Contract.thy ===== *)
theory Daemon_Contract
  imports Daemon_Machine "HOL-Library.List_Lexorder" "HOL-Library.Char_ord"
begin

text \<open>
  Further properties of the daemon: what is unlocked at the start, what the interface can do
  with the agent, how many events a lock of everything loses, and that the daemon stops.
\<close>

section \<open>Automatic unlocking\<close>

text \<open>The specification: an entry of the configuration that opens \<open>u\<close> at the start.\<close>

definition unlocks :: "pool_lib \<Rightarrow> 'u host \<Rightarrow> database_config \<Rightarrow> string \<Rightarrow> bool" where
  "unlocks PL H db u \<longleftrightarrow>
     dc_auto_unlock db \<and> dc_unlock_credential db \<in> {''none'', ''keyfile'', ''yubikey'', ''systemd-credential''}
     \<and> (\<exists>cred od. resolveCredential H db = Ok cred
          \<and> load_database PL (ho_content H (dc_path db)) (ho_fingerprint H (dc_path db)) (dc_path db) cred = Ok od \<and> od_uuid od = u)"

lemma resolved_kind: "resolveCredential H db = Ok cred
   \<Longrightarrow> dc_unlock_credential db \<in> {''none'', ''keyfile'', ''yubikey'', ''systemd-credential''}"
  by (auto simp: resolveCredential_def Let_def split: if_splits)

lemma open_on_dbs:
  "pl_dbs (snd (open_on PL H path cred p)) u \<noteq> None
     \<longleftrightarrow> pl_dbs p u \<noteq> None \<or> (\<exists>od. load_database PL (ho_content H path) (ho_fingerprint H path) path cred = Ok od \<and> od_uuid od = u)"
  by (auto simp: open_on_def Open_def install_def Let_def split: sum.split)

text \<open>At the start exactly the databases are opened that the configuration marks for
  automatic unlocking, whose credential needs no user and resolves, and whose file decodes;
  the others, prompted and PAM ones among them, are passed over and do not stop the rest.\<close>

theorem autoUnlock_exact:
  "dom (pl_dbs (dm_pool (autoUnlock PL H app)))
     = dom (pl_dbs (dm_pool app)) \<union> (\<Union>db \<in> set (cfg_databases (dm_cfg app)). {u. unlocks PL H db u})"
proof -
  have "pl_dbs (auto_unlock_all PL H dbs p) u \<noteq> None \<longleftrightarrow> pl_dbs p u \<noteq> None \<or> (\<exists>db \<in> set dbs. unlocks PL H db u)" for dbs p u
  proof (induction dbs arbitrary: p)
    case (Cons db dbs)
    show ?case
    proof (cases "dc_auto_unlock db \<and> dc_unlock_credential db \<noteq> ''pam''")
      case True
      then show ?thesis
        using Cons open_on_dbs[of PL H "dc_path db" _ p u] resolved_kind[of H db]
        by (cases "resolveCredential H db") (auto simp: unlocks_def)
    qed (use Cons in \<open>auto simp: unlocks_def\<close>)
  qed simp
  then show ?thesis by (simp add: autoUnlock_def set_eq_iff domIff)
qed

section \<open>A daemon to run\<close>

definition sample_host :: "bytes list host" where
  "sample_host =
     \<lparr>ho_env = \<lambda>_. [], ho_uid_text = ''1000'', ho_bus = True, ho_api_name = True, ho_secret_name = True, ho_listen = True,
      ho_upstream = [], ho_content = \<lambda>_. Some [], ho_fingerprint = \<lambda>_. Some (od_fingerprint sample_open), ho_mlock = \<lambda>_. True\<rparr>"

definition sample_config :: config where
  "sample_config = DefaultConfig\<lparr>cfg_databases :=
     [\<lparr>dc_path = ''/d'', dc_name = ''d'', dc_default = False, dc_auto_unlock = True, dc_unlock_credential = ''none'',
       dc_systemd_credential_name = [], dc_keyfile = [], dc_yubikey_slot = 0, dc_expose_group = [], dc_ssh_auto_add = True\<rparr>]\<rparr>"

definition sample_services :: "(unit, unit, bytes list) services" where
  "sample_services =
     \<lparr>se_ssh = sample_lib, se_attach = \<lparr>xml_settings = \<lambda>_. None, content_bytes = \<lambda>_. None\<rparr>, se_upstream = sample_upstream,
      se_paths = \<lambda>s. sorted_list_of_set (dom (sv_collections s)), se_identities = \<lambda>m. sorted_list_of_set (dom m),
      se_tracked = \<lambda>keys. sorted_list_of_set (dom keys), se_pool = \<lambda>p. sorted_list_of_set (dom (pl_dbs p))\<rparr>"

lemma sorted_enumerates: "finite (dom m) \<Longrightarrow> enumerates (sorted_list_of_set (dom m)) m"
  by (simp add: enumerates_def)

lemma sample_orders: "orders_ok sample_services"
  by (simp add: orders_ok_def sample_services_def sorted_enumerates)

definition sample_app :: "(unit, unit, bytes list) app" where
  "sample_app = the (start_up sample_pool_lib sample_host [] LevelInfo sample_config)"

lemma sample_start: "start_up sample_pool_lib sample_host [] LevelInfo sample_config = Some sample_app"
  by (simp add: sample_app_def start_up_def effective_level_def parseLogLevel_def sample_config_def DefaultConfig_def)

lemma startSSHAgent_pool [simp]: "dm_pool (startSSHAgent H app) = dm_pool app" "dm_cfg (startSSHAgent H app) = dm_cfg app"
  by (simp_all add: startSSHAgent_def startSSHAgentClient_def startSSHAgentServer_def split: sum.split)

lemma startDBus_pool [simp]: "dm_pool (startDBus H order app) = dm_pool app" "dm_cfg (startDBus H order app) = dm_cfg app"
  by (simp_all add: startDBus_def Let_def)

lemma sample_app_pool: "dm_pool sample_app = sample_pool"
proof -
  obtain level where app: "sample_app = autoUnlock sample_pool_lib sample_host (startSSHAgent sample_host (startDBus sample_host [] (new_app sample_config level)))"
    using sample_start by (auto simp: start_up_def intro: that[OF sym])
  show ?thesis
    by (simp add: app autoUnlock_def new_app_def sample_config_def resolveCredential_def open_on_def sample_host_def sample_pool_def)
qed

lemma sample_app_reachable:
  "reachable (\<lambda>app. start_up sample_pool_lib sample_host [] LevelInfo sample_config = Some app)
     (app_step sample_pool_lib sample_services) sample_app"
  by (rule reachable.start) (rule sample_start)

lemma sample_app_ok: "app_ok sample_services sample_app"
  using start_up_inv[OF sample_orders sample_decoder_ok sample_start] by (simp add: app_inv_def)

text \<open>The services keep the configuration they were started with.\<close>

lemma receive_keeps:
  "map_option fst (dm_agent (receive_event E app)) = map_option fst (dm_agent app)"
  "dm_svc (receive_event E app) = None \<longleftrightarrow> dm_svc app = None"
  by (cases "dm_agent app"; auto simp: receive_event_def handlePoolEvent_def tell_agents_def tell_secret_service_def Let_def
      split: list.split event_type.split option.split)+

lemma sample_app_services:
  "map_option fst (dm_agent sample_app) = Some (cfg_ssh_agent DefaultConfig)" "dm_svc sample_app \<noteq> None"
proof -
  obtain level where app: "sample_app = autoUnlock sample_pool_lib sample_host (startSSHAgent sample_host (startDBus sample_host [] (new_app sample_config level)))"
    using sample_start by (auto simp: start_up_def intro: that[OF sym])
  show "map_option fst (dm_agent sample_app) = Some (cfg_ssh_agent DefaultConfig)" "dm_svc sample_app \<noteq> None"
    by (simp_all add: app autoUnlock_def startSSHAgent_def startDBus_def startSSHAgentServer_def new_app_def sample_config_def
        sample_host_def DefaultConfig_def Let_def)
qed

text \<open>The daemon has delivered the unlock, then locked the database and delivered that.\<close>

lemma sample_drained:
  "\<exists>app od. reachable (\<lambda>app. start_up sample_pool_lib sample_host [] LevelInfo sample_config = Some app)
              (app_step sample_pool_lib sample_services) app
      \<and> pl_events (dm_pool app) = [] \<and> pl_dbs (dm_pool app) (uuid_text 1) = Some 0 \<and> pl_heap (dm_pool app) 0 = Some od \<and> od_locked od
      \<and> map_option fst (dm_agent app) = Some (cfg_ssh_agent DefaultConfig) \<and> dm_svc app \<noteq> None"
proof -
  let ?r = "reachable (\<lambda>app. start_up sample_pool_lib sample_host [] LevelInfo sample_config = Some app)
              (app_step sample_pool_lib sample_services)"
  obtain od where od: "pl_heap sample_pool 0 = Some od" using sample_pool_facts(3) by blast
  obtain ev where ev: "pl_events sample_pool = [ev]" "pl_cap sample_pool = Some 16"
    by (simp add: sample_pool_def Open_def load_database_def build_credentials_def blank_credential_def sample_pool_lib_def
        NewDatabasePool_def install_def send_event_def Let_def)
  let ?a1 = "receive_event sample_services sample_app"
  have p1: "dm_pool ?a1 = sample_pool\<lparr>pl_events := []\<rparr>" by (simp add: receive_event_def sample_app_pool ev)
  have r1: "?r ?a1" by (rule reachable.move[OF sample_app_reachable st_event])
  have ok: "pool_ok (dm_pool ?a1)" using receive_ok[OF sample_app_ok] by (rule app_okD(2))
  have lock: "Pool.Lock (uuid_text 1) (dm_pool ?a1) = Returned (None,
      send_event \<lparr>ev_type = EventDatabaseLocked, ev_uuid = uuid_text 1, ev_name = od_name od, ev_path = od_path od\<rparr>
        ((dm_pool ?a1)\<lparr>pl_heap := (pl_heap (dm_pool ?a1))(0 \<mapsto> locked_object od), pl_watching := pl_watching (dm_pool ?a1) - {0}\<rparr>))"
    by (rule Lock_eq[OF ok]) (simp_all add: p1 sample_pool_facts(2) od)
  obtain p2 where p2: "Pool.Lock (uuid_text 1) (dm_pool ?a1) = Returned (None, p2)" "length (pl_events p2) = 1"
    "pl_dbs p2 (uuid_text 1) = Some 0" "pl_heap p2 0 = Some (locked_object od)"
    using lock by (simp add: p1 send_event_def ev sample_pool_facts(2))
  let ?a2 = "?a1\<lparr>dm_pool := p2\<rparr>"
  have "room 1 (dm_pool ?a1)" by (simp add: p1 room_def ev)
  then have r2: "?r ?a2" by (rule reachable.move[OF r1 st_lock[OF p2(1)]])
  have "?r (receive_event sample_services ?a2)" by (rule reachable.move[OF r2 st_event])
  moreover obtain ev2 where "pl_events p2 = [ev2]" using p2(2) by (cases "pl_events p2") auto
  ultimately show ?thesis
    using p2(3,4) receive_keeps[of sample_services ?a2] receive_keeps[of sample_services sample_app] sample_app_services
    by (intro exI[of _ "receive_event sample_services ?a2"]) (simp add: receive_event_def locked_object_def)
qed

lemma drained_daemon_withdraws_witness:
  "\<exists>app :: (unit, unit, bytes list) app. db_locked (dm_pool app) (uuid_text 1) \<and> dm_agent app \<noteq> None \<and> dm_svc app \<noteq> None
     \<and> \<not> agent_holds app (uuid_text 1) \<and> \<not> client_holds app (uuid_text 1) \<and> \<not> service_holds app (uuid_text 1)"
proof -
  obtain app od where a: "reachable (\<lambda>app. start_up sample_pool_lib sample_host [] LevelInfo sample_config = Some app)
              (app_step sample_pool_lib sample_services) app"
      "pl_events (dm_pool app) = []" "pl_dbs (dm_pool app) (uuid_text 1) = Some 0" "pl_heap (dm_pool app) 0 = Some od" "od_locked od"
    and services: "map_option fst (dm_agent app) = Some (cfg_ssh_agent DefaultConfig)" "dm_svc app \<noteq> None"
    using sample_drained by blast
  have "ssh_remove_on_lock acfg" if "dm_agent app = Some (acfg, m)" for acfg m
    using services(1) that by (auto simp: DefaultConfig_def)
  with drained_daemon_withdraws[OF sample_orders sample_decoder_ok a] a(3-5) services show ?thesis
    by (intro exI[of _ app])
      (auto simp: db_locked_def object_named_def Get_def agent_holds_def client_holds_def service_holds_def bound_to_def)
qed

section \<open>The interface and the agent\<close>
definition no_agent_in_api :: "('sg, 'pk, 'u) app \<Rightarrow> bool" where
  "no_agent_in_api app \<longleftrightarrow> pred_option (\<lambda>(_, with_agent). \<not> with_agent) (dm_api app)"

lemma handle_api [simp]: "dm_api (handlePoolEvent E ev app) = dm_api app"
  by (simp add: handlePoolEvent_def tell_agents_def tell_secret_service_def split: event_type.split option.split)

lemma startSSHAgent_api [simp]: "dm_api (startSSHAgent H app) = dm_api app"
  by (simp add: startSSHAgent_def startSSHAgentClient_def startSSHAgentServer_def split: sum.split)

lemma startDBus_no_agent: "dm_agent app = None \<Longrightarrow> no_agent_in_api app \<Longrightarrow> no_agent_in_api (startDBus H order app)"
  by (simp add: startDBus_def no_agent_in_api_def Let_def)

lemma no_agent_start: "start_up PL H order cli cfg = Some app \<Longrightarrow> no_agent_in_api app"
proof -
  assume "start_up PL H order cli cfg = Some app"
  then obtain level where app: "app = autoUnlock PL H (startSSHAgent H (startDBus H order (new_app cfg level)))"
    by (auto simp: start_up_def)
  have "no_agent_in_api (startDBus H order (new_app cfg level))"
    by (rule startDBus_no_agent) (simp_all add: new_app_def no_agent_in_api_def)
  then show ?thesis by (simp add: app no_agent_in_api_def autoUnlock_def)
qed

lemma no_agent_step: "app_step PL E app app' \<Longrightarrow> no_agent_in_api app \<Longrightarrow> no_agent_in_api app'"
  by (induction rule: app_step.induct)
    (auto simp: no_agent_in_api_def receive_event_def reloadConfig_def split: list.split sum.split)

interpretation bare_api: machine "\<lambda>app. start_up PL H order cli cfg = Some app" "app_step PL E" no_agent_in_api
  for PL H order cli cfg E
  by unfold_locales (auto intro: no_agent_start dest: no_agent_step)

text \<open>C31. The methods of the interface on the running agent never work: the interface is
  made before the agent and keeps the nil pointer it was given, so that in every state of the
  daemon, agent mode or not, an authorised caller is told that no agent is running.\<close>

theorem ssh_methods_unavailable:
  assumes "reachable (\<lambda>app. start_up PL H order cli cfg = Some app) (app_step PL E) app"
    and "api_of app = Some a" and "authorize B a s = None"
  shows "SshListKeys B L ids s u a = Err NoAgent \<and> SshTestSign B L s f dat a = Err NoAgent
         \<and> SshRemoveKey B s f a = (Err NoAgent, a) \<and> SshAddKey B L A s u path lifetime confirm a = (Err NoAgent, a)"
proof -
  have "no_agent_in_api app" by (rule bare_api.reachable_inv[OF assms(1)])
  then have "ap_agent a = None" using assms(2) by (auto simp: api_of_def no_agent_in_api_def)
  then show ?thesis using assms(3) by (simp add: SshListKeys_def SshTestSign_def SshRemoveKey_def SshAddKey_def)
qed

lemma ssh_methods_unavailable_witness:
  "\<exists>a. api_of sample_app = Some a \<and> authorize sample_bus a '':1.7'' = None \<and> dm_agent sample_app \<noteq> None
     \<and> SshListKeys sample_bus sample_lib [] '':1.7'' [] a = Err NoAgent"
proof -
  obtain level where app: "sample_app = autoUnlock sample_pool_lib sample_host (startSSHAgent sample_host (startDBus sample_host [] (new_app sample_config level)))"
    using sample_start by (auto simp: start_up_def intro: that[OF sym])
  have agent: "dm_agent sample_app \<noteq> None"
    by (simp add: app autoUnlock_def startSSHAgent_def startSSHAgentServer_def new_app_def sample_config_def DefaultConfig_def)
  have "dm_api sample_app \<noteq> None" by (simp add: app autoUnlock_def startDBus_def sample_host_def Let_def)
  then obtain a where a: "api_of sample_app = Some a" "ap_conn a" by (auto simp: api_of_def)
  then have auth: "authorize sample_bus a '':1.7'' = None" by (simp add: authorize_def sample_bus_def)
  with ssh_methods_unavailable[OF sample_app_reachable a(1) auth] a(1) agent show ?thesis by blast
qed

section \<open>Locking everything\<close>
lemma pool_object: "pool_ok p \<Longrightarrow> pl_dbs p u \<noteq> None \<Longrightarrow> \<exists>r od. pl_dbs p u = Some r \<and> pl_heap p r = Some od"
  using pool_okD(1) by blast

lemma lock_uuids_events:
  assumes "pool_ok p" "\<forall>u \<in> set us. pl_dbs p u \<noteq> None" "lock_uuids us p err = Returned (e, p')" "pl_cap p = Some n"
  shows "map ev_uuid (pl_events p') = take n (map ev_uuid (pl_events p) @ us)"
  using assms
proof (induction us arbitrary: p err)
  case Nil
  then show ?case using pool_okD(4)[OF Nil.prems(1,4)] by simp
next
  case (Cons u us)
  obtain r od where od: "pl_dbs p u = Some r" "pl_heap p r = Some od"
    using Cons.prems(2) pool_object[OF Cons.prems(1), of u] by auto
  let ?q = "p\<lparr>pl_heap := (pl_heap p)(r \<mapsto> locked_object od), pl_watching := pl_watching p - {r}\<rparr>"
  let ?ev = "\<lparr>ev_type = EventDatabaseLocked, ev_uuid = u, ev_name = od_name od, ev_path = od_path od\<rparr>"
  have lock: "Pool.Lock u p = Returned (None, send_event ?ev ?q)" by (rule Lock_eq[OF Cons.prems(1) od])
  have rest: "lock_uuids us (send_event ?ev ?q) err = Returned (e, p')" using Cons.prems(3) by (simp add: lock)
  have "map ev_uuid (pl_events p') = take n (map ev_uuid (pl_events (send_event ?ev ?q)) @ us)"
    by (rule Cons.IH[OF Lock_ok[OF Cons.prems(1) lock] _ rest]) (use Cons.prems(2,4) in simp_all)
  also have "\<dots> = take n (map ev_uuid (pl_events p) @ u # us)"
    using pool_okD(4)[OF Cons.prems(1,4)] Cons.prems(4) by (auto simp: send_event_def take_Cons')
  finally show ?case .
qed

text \<open>C30. The idle timer locks every database, but the services hear only of as many locks as
  the channel has room for: the loop that would empty the channel is the one that locks, so
  with sixteen places and nothing pending the events of the seventeenth database and of all
  after it are lost.\<close>

theorem idle_lock_events:
  assumes "pool_ok (dm_pool app)" and "enumerates (se_pool E (dm_pool app)) (pl_dbs (dm_pool app))"
    and "pl_cap (dm_pool app) = Some n"
  shows "\<exists>app'. idle_lock E app = Returned app'
           \<and> (\<forall>u. pl_dbs (dm_pool app) u \<noteq> None \<longrightarrow> db_locked (dm_pool app') u)
           \<and> map ev_uuid (pl_events (dm_pool app'))
             = take n (map ev_uuid (pl_events (dm_pool app)) @ filter (is_unlocked (dm_pool app)) (se_pool E (dm_pool app)))
           \<and> dm_agent app' = dm_agent app \<and> dm_client app' = dm_client app \<and> dm_svc app' = dm_svc app"
proof -
  let ?p = "dm_pool app" and ?us = "filter (is_unlocked (dm_pool app)) (se_pool E (dm_pool app))"
  have dom: "set (se_pool E ?p) = dom (pl_dbs ?p)" using assms(2) by (simp add: enumerates_def)
  from LockAll_ok[OF assms(1) dom] obtain p' where
    p': "LockAll (se_pool E ?p) ?p = Returned (None, p')" "pool_ok p'" "pl_dbs p' = pl_dbs ?p"
      "\<forall>r. pl_heap p' r = (case pl_heap ?p r of None \<Rightarrow> None
           | Some od \<Rightarrow> Some (if r \<in> ran (pl_dbs ?p) then locked_object od else od))" by blast
  have known: "\<forall>u \<in> set ?us. pl_dbs ?p u \<noteq> None" using dom by (auto simp: is_unlocked_def split: option.splits)
  have "map ev_uuid (pl_events p') = take n (map ev_uuid (pl_events ?p) @ ?us)"
    by (rule lock_uuids_events[OF assms(1) known p'(1)[unfolded LockAll_def] assms(3)])
  moreover have "db_locked p' u" if u: "pl_dbs ?p u \<noteq> None" for u
  proof -
    obtain r od where r: "pl_dbs ?p u = Some r" "pl_heap ?p r = Some od" using pool_object[OF assms(1) u] by blast
    then have "r \<in> ran (pl_dbs ?p)" by (auto simp: ran_def)
    with r p'(3,4) show ?thesis by (simp add: db_locked_def object_named_def Get_def locked_object_def)
  qed
  ultimately show ?thesis using p'(1) by (simp add: idle_lock_def)
qed

lemma idle_lock_events_witness:
  "\<exists>app'. idle_lock sample_services sample_app = Returned app' \<and> db_locked (dm_pool app') (uuid_text 1)"
proof -
  have fin: "finite (dom (pl_dbs sample_pool))"
    by (simp add: sample_pool_def Open_def load_database_def build_credentials_def blank_credential_def sample_pool_lib_def
        NewDatabasePool_def install_def Let_def)
  have cap: "pl_cap sample_pool = Some 16"
    by (simp add: sample_pool_def Open_def load_database_def build_credentials_def blank_credential_def sample_pool_lib_def
        NewDatabasePool_def install_def Let_def)
  have "enumerates (se_pool sample_services (dm_pool sample_app)) (pl_dbs (dm_pool sample_app))"
    using fin by (simp add: sample_app_pool sample_services_def sorted_enumerates)
  from idle_lock_events[OF app_okD(2)[OF sample_app_ok] this, of 16] show ?thesis
    using sample_pool_facts(2) cap by (auto simp: sample_app_pool)
qed

section \<open>The end of the loop\<close>
definition pool_order_ok :: "('sg, 'pk, 'u) services \<Rightarrow> bool" where
  "pool_order_ok E \<longleftrightarrow> (\<forall>p. finite (dom (pl_dbs p)) \<longrightarrow> enumerates (se_pool E p) (pl_dbs p))"

lemma reload_ok: "app_ok E app \<Longrightarrow> app_ok E (snd (reloadConfig loaded app))"
proof -
  assume ok: "app_ok E app"
  have "svc_ok (s\<lparr>sv_pool := p\<rparr>) \<Longrightarrow> svc_ok ((UpdateDatabaseConfigs dbs (UpdateConfig cfg s))\<lparr>sv_pool := p\<rparr>)" for s p dbs cfg
    by (erule svc_ok_same) (simp_all add: UpdateDatabaseConfigs_def UpdateConfig_def)
  with ok show ?thesis
    by (cases "dm_svc app") (auto simp: reloadConfig_def app_ok_def svc_of_def split: sum.split)
qed

lemma idle_lock_ok:
  assumes "app_ok E app" "pool_order_ok E" "finite (dom (pl_dbs (dm_pool app)))"
  shows "\<exists>app'. idle_lock E app = Returned app' \<and> app_ok E app' \<and> pl_dbs (dm_pool app') = pl_dbs (dm_pool app)"
proof -
  have "set (se_pool E (dm_pool app)) = dom (pl_dbs (dm_pool app))" using assms(2,3) by (simp add: pool_order_ok_def enumerates_def)
  from LockAll_ok[OF app_okD(2)[OF assms(1)] this] obtain p where
    p: "LockAll (se_pool E (dm_pool app)) (dm_pool app) = Returned (None, p)" "pool_ok p" "pl_dbs p = pl_dbs (dm_pool app)" by blast
  have "grows (dm_pool app) p" using lock_uuids_grows[OF app_okD(2)[OF assms(1)]] p(1) by (simp add: LockAll_def)
  then show ?thesis using p pool_change_ok[OF assms(1) p(2)] by (simp add: idle_lock_def)
qed

lemma receive_dbs [simp]: "pl_dbs (dm_pool (receive_event E app)) = pl_dbs (dm_pool app)"
  by (simp add: receive_event_def split: list.split)

lemma reload_pool [simp]: "dm_pool (snd (reloadConfig loaded app)) = dm_pool app"
  by (simp add: reloadConfig_def split: sum.split)

lemma loop_runs:
  assumes "app_ok E app" "pool_order_ok E" "finite (dom (pl_dbs (dm_pool app)))" "StopSignal \<notin> set rounds"
  shows "\<exists>app' armed'. (\<forall>rest. eventLoop E armed (rounds @ rest) app = eventLoop E armed' rest app')
           \<and> app_ok E app' \<and> pl_dbs (dm_pool app') = pl_dbs (dm_pool app)"
  using assms(1,3,4)
proof (induction rounds arbitrary: app armed)
  case (Cons r rounds)
  show ?case
  proof (cases r)
    case (HangUp loaded)
    from Cons.IH[of "snd (reloadConfig loaded app)" armed] reload_ok[OF Cons.prems(1), of loaded] Cons.prems(2,3) show ?thesis
      by (simp add: HangUp)
  next
    case PoolEvent
    from Cons.IH[of "receive_event E app" armed] receive_ok[OF Cons.prems(1)] Cons.prems(2,3) show ?thesis
      by (simp add: PoolEvent)
  next
    case IdleTimer
    from idle_lock_ok[OF Cons.prems(1) assms(2) Cons.prems(2)] obtain app1 where
      l: "idle_lock E app = Returned app1" "app_ok E app1" "pl_dbs (dm_pool app1) = pl_dbs (dm_pool app)" by blast
    show ?thesis
      using Cons.IH[of app1 False] Cons.IH[of app armed] l Cons.prems by (cases armed) (simp_all add: IdleTimer)
  qed (use Cons.prems in simp)
qed auto

lemma finish_ok:
  assumes "app_ok E app" "pool_order_ok E" "finite (dom (pl_dbs (dm_pool app)))"
  shows "\<exists>app'. finish E app = Returned app' \<and> pl_dbs (dm_pool app') = Map.empty
           \<and> (\<forall>r od. r \<in> ran (pl_dbs (dm_pool app)) \<longrightarrow> pl_heap (dm_pool app') r = Some od \<longrightarrow> od_locked od \<and> od_db od = None)
           \<and> (\<forall>cfg c. dm_client app' = Some (cfg, c) \<longrightarrow> cl_keys c = Map.empty)"
proof -
  let ?p = "dm_pool app"
  have dom: "set (se_pool E ?p) = dom (pl_dbs ?p)" using assms(2,3) by (simp add: pool_order_ok_def enumerates_def)
  from LockAll_ok[OF app_okD(2)[OF assms(1)] dom] obtain p where
    p: "LockAll (se_pool E ?p) ?p = Returned (None, p)"
      "\<forall>r. pl_heap p r = (case pl_heap ?p r of None \<Rightarrow> None
           | Some od \<Rightarrow> Some (if r \<in> ran (pl_dbs ?p) then locked_object od else od))" by blast
  have fin: "finish E app = Returned ((shutdown E app)\<lparr>dm_pool := p\<lparr>pl_dbs := Map.empty\<rparr>\<rparr>)"
    using p(1) by (simp add: finish_def shutdown_def Close_def Let_def)
  have client: "cl_keys (Client_Close (se_ssh E) (se_upstream E) (se_tracked E (cl_keys c)) c) = Map.empty"
    if "dm_client app = Some (cfg, c)" for cfg c
  proof -
    have "enumerates (se_tracked E (cl_keys c)) (cl_keys c)"
      using app_okD(1,5)[OF assms(1)] that by (auto simp: orders_ok_def client_ok_def)
    then have "set (se_tracked E (cl_keys c)) = dom (cl_keys c)" by (simp add: enumerates_def)
    then show ?thesis by (auto simp: Client_Close_def RemoveAllKeys_def remove_fps_keys fun_eq_iff)
  qed
  show ?thesis
    using p(2) client by (auto simp: fin shutdown_def locked_object_def split: option.splits)
qed

text \<open>C29. The daemon stops: whatever rounds the loop went through, reloads, events and the
  idle lock among them, the first stop signal ends it without a panic, and what follows
  leaves no database behind: the pool is empty, each of its databases was locked and its
  content dropped, and in client mode no key is tracked any more.\<close>

theorem daemon_stops:
  assumes "app_ok E app" and "pool_order_ok E" and "finite (dom (pl_dbs (dm_pool app)))" and "StopSignal \<notin> set rounds"
  shows "\<exists>app1 app2. eventLoop E armed (rounds @ StopSignal # rest) app = Returned (True, app1) \<and> finish E app1 = Returned app2
           \<and> pl_dbs (dm_pool app2) = Map.empty
           \<and> (\<forall>r od. r \<in> ran (pl_dbs (dm_pool app)) \<longrightarrow> pl_heap (dm_pool app2) r = Some od \<longrightarrow> od_locked od \<and> od_db od = None)
           \<and> (\<forall>cfg c. dm_client app2 = Some (cfg, c) \<longrightarrow> cl_keys c = Map.empty)"
proof -
  obtain app1 armed' where run: "\<forall>rest. eventLoop E armed (rounds @ rest) app = eventLoop E armed' rest app1"
    "app_ok E app1" "pl_dbs (dm_pool app1) = pl_dbs (dm_pool app)"
    using loop_runs[OF assms] by blast
  have fin: "finite (dom (pl_dbs (dm_pool app1)))" using assms(3) run(3) by simp
  from finish_ok[OF run(2) assms(2) fin] obtain app2 where "finish E app1 = Returned app2 \<and> pl_dbs (dm_pool app2) = Map.empty
     \<and> (\<forall>r od. r \<in> ran (pl_dbs (dm_pool app1)) \<longrightarrow> pl_heap (dm_pool app2) r = Some od \<longrightarrow> od_locked od \<and> od_db od = None)
     \<and> (\<forall>cfg c. dm_client app2 = Some (cfg, c) \<longrightarrow> cl_keys c = Map.empty)" by blast
  then show ?thesis using run(1,3) by (intro exI[of _ app1] exI[of _ app2]) simp
qed

lemma daemon_stops_witness:
  "\<exists>app1 app2. eventLoop sample_services True [PoolEvent, IdleTimer, StopSignal] sample_app = Returned (True, app1)
     \<and> finish sample_services app1 = Returned app2 \<and> pl_dbs (dm_pool app2) = Map.empty"
proof -
  have order: "pool_order_ok sample_services" by (simp add: pool_order_ok_def sample_services_def sorted_enumerates)
  have "finite (dom (pl_dbs (dm_pool sample_app)))"
    by (simp add: sample_app_pool sample_pool_def Open_def load_database_def build_credentials_def blank_credential_def
        sample_pool_lib_def NewDatabasePool_def install_def Let_def)
  from daemon_stops[OF sample_app_ok order this, of "[PoolEvent, IdleTimer]" True "[]"] show ?thesis
    unfolding append.simps by auto
qed

end
