(* ===== verification/Go_Json.thy ===== *)
theory Go_Json
  imports Go_Encoding
begin

text \<open>
  UTF-8 as \<open>unicode/utf8\<close> decides it, and the JSON strings of \<open>encoding/json\<close>: the escapes of
  \<open>Marshal\<close> with HTML escaping on, as by default. A reader of such strings gets back what was
  written, provided it was valid UTF-8; other bytes are replaced by the writer.
\<close>

section \<open>UTF-8\<close>

abbreviation code :: "char \<Rightarrow> nat" where
  "code c \<equiv> of_char c"

definition cont_byte :: "char \<Rightarrow> bool" where
  "cont_byte c \<longleftrightarrow> 128 \<le> code c \<and> code c \<le> 191"

text \<open>The second byte is restricted after some first bytes: no overlong forms, surrogates or
  code points above the last.\<close>

definition second_byte :: "char \<Rightarrow> char \<Rightarrow> bool" where
  "second_byte c c1 \<longleftrightarrow>
     (if code c = 224 then 160 else if code c = 240 then 144 else 128) \<le> code c1
     \<and> code c1 \<le> (if code c = 237 then 159 else if code c = 244 then 143 else 191)"

text \<open>The size of the rune at the front, none for an invalid byte.\<close>

definition rune_size :: "string \<Rightarrow> nat option" where
  "rune_size s =
     (case s of
        [] \<Rightarrow> None
      | c # cs \<Rightarrow>
          if code c < 128 then Some 1
          else if 194 \<le> code c \<and> code c \<le> 223 then
            (case cs of c1 # _ \<Rightarrow> if second_byte c c1 then Some 2 else None | _ \<Rightarrow> None)
          else if 224 \<le> code c \<and> code c \<le> 239 then
            (case cs of c1 # c2 # _ \<Rightarrow> if second_byte c c1 \<and> cont_byte c2 then Some 3 else None | _ \<Rightarrow> None)
          else if 240 \<le> code c \<and> code c \<le> 244 then
            (case cs of c1 # c2 # c3 # _ \<Rightarrow> if second_byte c c1 \<and> cont_byte c2 \<and> cont_byte c3 then Some 4 else None | _ \<Rightarrow> None)
          else None)"

lemma second_byte_high: "second_byte c c1 \<Longrightarrow> 128 \<le> code c1"
  by (auto simp: second_byte_def split: if_splits)

lemma rune_size_bounds: "rune_size s = Some n \<Longrightarrow> 0 < n \<and> n \<le> length s"
  by (auto simp: rune_size_def split: list.splits if_splits)

lemma rune_high: "rune_size (c # cs) = Some n \<Longrightarrow> 128 \<le> code c \<Longrightarrow> \<forall>x \<in> set (take n (c # cs)). 128 \<le> code x"
  by (auto simp: rune_size_def cont_byte_def dest: second_byte_high split: list.splits if_splits)

function valid_utf8 :: "string \<Rightarrow> bool" where
  "valid_utf8 s \<longleftrightarrow>
     (case s of [] \<Rightarrow> True
      | _ \<Rightarrow> (case rune_size s of None \<Rightarrow> False | Some n \<Rightarrow> valid_utf8 (drop n s)))"
  by pat_completeness auto
termination
  by (relation "measure length") (auto dest: rune_size_bounds)

declare valid_utf8.simps [simp del]

lemma valid_utf8_Nil [simp]: "valid_utf8 []"
  by (simp add: valid_utf8.simps)

lemma valid_utf8_Cons:
  "valid_utf8 (c # cs) \<longleftrightarrow> (case rune_size (c # cs) of None \<Rightarrow> False | Some n \<Rightarrow> valid_utf8 (drop n (c # cs)))"
  by (subst valid_utf8.simps) simp

lemma valid_utf8_ascii: "code c < 128 \<Longrightarrow> valid_utf8 (c # cs) \<longleftrightarrow> valid_utf8 cs"
  by (simp add: valid_utf8_Cons rune_size_def)

lemma ascii_valid: "\<forall>c \<in> set s. code c < 128 \<Longrightarrow> valid_utf8 s"
  by (induction s) (auto simp: valid_utf8_ascii)

section \<open>JSON strings\<close>

definition quote_char :: char where "quote_char = CHR 0x22"
definition backslash :: char where "backslash = CHR 0x5C"

definition json_ascii :: "char \<Rightarrow> string" where
  "json_ascii c =
     (if c = backslash \<or> c = quote_char then [backslash, c]
      else if code c = 8 then [backslash, CHR ''b'']
      else if code c = 12 then [backslash, CHR ''f'']
      else if code c = 10 then [backslash, CHR ''n'']
      else if code c = 13 then [backslash, CHR ''r'']
      else if code c = 9 then [backslash, CHR ''t'']
      else if code c < 32 \<or> c = CHR ''<'' \<or> c = CHR ''>'' \<or> c = CHR ''&''
        then [backslash, CHR ''u'', CHR ''0'', CHR ''0'', hex_digit (code c div 16), hex_digit (code c mod 16)]
      else [c])"

definition line_separator :: "string \<Rightarrow> char option" where
  "line_separator rune =
     (if rune = [CHR 0xE2, CHR 0x80, CHR 0xA8] then Some (CHR ''8'')
      else if rune = [CHR 0xE2, CHR 0x80, CHR 0xA9] then Some (CHR ''9'') else None)"

function json_body :: "string \<Rightarrow> string" where
  "json_body [] = []"
| "json_body (c # cs) =
     (if code c < 128 then json_ascii c @ json_body cs
      else (case rune_size (c # cs) of
              None \<Rightarrow> backslash # ''ufffd'' @ json_body cs
            | Some n \<Rightarrow>
                (case line_separator (take n (c # cs)) of
                   Some d \<Rightarrow> backslash # ''u202'' @ [d]
                 | None \<Rightarrow> take n (c # cs)) @ json_body (drop n (c # cs))))"
  by pat_completeness auto
termination
  by (relation "measure length") (auto dest: rune_size_bounds)

declare json_body.simps(2) [simp del]

definition json_string :: "string \<Rightarrow> string" where
  "json_string s = quote_char # json_body s @ [quote_char]"

text \<open>An object whose members are strings; \<open>Marshal\<close> writes the members of a map in the
  order of their keys.\<close>

fun json_members :: "(string \<times> string) list \<Rightarrow> string" where
  "json_members [] = []"
| "json_members [(k, v)] = json_string k @ CHR '':'' # json_string v"
| "json_members ((k, v) # kvs) = json_string k @ CHR '':'' # json_string v @ CHR '','' # json_members kvs"

definition json_object :: "(string \<times> string) list \<Rightarrow> string" where
  "json_object kvs = CHR ''{'' # json_members kvs @ ''}''"

section \<open>Reading them\<close>

definition unhex :: "char \<Rightarrow> nat" where
  "unhex c = (if code c < 58 then code c - 48 else code c - 87)"

text \<open>The UTF-8 form of a code point below 65536.\<close>

definition utf8_of :: "nat \<Rightarrow> string" where
  "utf8_of n =
     (if n < 128 then [char_of n]
      else if n < 2048 then [char_of (192 + n div 64), char_of (128 + n mod 64)]
      else [char_of (224 + n div 4096), char_of (128 + n div 64 mod 64), char_of (128 + n mod 64)])"

definition simple_escape :: "char \<Rightarrow> char option" where
  "simple_escape d =
     (if d = quote_char \<or> d = backslash \<or> d = CHR ''/'' then Some d
      else if d = CHR ''b'' then Some (CHR 0x08) else if d = CHR ''f'' then Some (CHR 0x0C)
      else if d = CHR ''n'' then Some (CHR 0x0A) else if d = CHR ''r'' then Some (CHR 0x0D)
      else if d = CHR ''t'' then Some (CHR 0x09) else None)"

text \<open>The string after an opening quote, and what follows its closing quote.\<close>

fun json_read :: "string \<Rightarrow> (string \<times> string) option" where
  "json_read [] = None"
| "json_read (c # cs) =
     (if c = quote_char then Some ([], cs)
      else if c \<noteq> backslash then map_option (apfst (Cons c)) (json_read cs)
      else (case cs of
              [] \<Rightarrow> None
            | d # ds \<Rightarrow>
                if d = CHR ''u'' then
                  (case ds of
                     h1 # h2 # h3 # h4 # rest \<Rightarrow>
                       map_option (apfst (append (utf8_of (unhex h1 * 4096 + unhex h2 * 256 + unhex h3 * 16 + unhex h4)))) (json_read rest)
                   | _ \<Rightarrow> None)
                else (case simple_escape d of None \<Rightarrow> None | Some x \<Rightarrow> map_option (apfst (Cons x)) (json_read ds))))"

declare json_read.simps(2) [simp del]

lemma unhex_digit: "n < 16 \<Longrightarrow> unhex (hex_digit n) = n"
  by (auto simp: unhex_def hex_digit_def)

lemma char_numbers:
  "char_of (8 :: nat) = CHR 0x08" "char_of (9 :: nat) = CHR 0x09" "char_of (10 :: nat) = CHR 0x0A" "char_of (12 :: nat) = CHR 0x0C"
  "char_of (13 :: nat) = CHR 0x0D" "char_of (226 :: nat) = CHR 0xE2" "char_of (128 :: nat) = CHR 0x80"
  "char_of (168 :: nat) = CHR 0xA8" "char_of (169 :: nat) = CHR 0xA9"
  by (simp_all add: char_of_def bit_Suc_0_iff)

lemma append_one: "(@) [c] = (#) c"
  by (rule ext) simp

lemma json_read_ascii:
  assumes "code c < 128"
  shows "json_read (json_ascii c @ rest) = map_option (apfst (Cons c)) (json_read rest)"
proof -
  have c: "c = char_of (code c)" by simp
  have "code c div 16 < 16" "code c mod 16 < 16" using assms by simp_all
  moreover have "unhex (CHR ''0'') = 0" by (simp add: unhex_def)
  moreover have "code c div 16 * 16 + code c mod 16 = code c" by simp
  ultimately have u: "utf8_of (unhex (CHR ''0'') * 4096 + unhex (CHR ''0'') * 256 + unhex (hex_digit (code c div 16)) * 16
      + unhex (hex_digit (code c mod 16))) = [c]"
    using assms by (simp add: unhex_digit utf8_of_def)
  have by_code: "c = char_of n" if "code c = n" for n using that c by metis
  show ?thesis
    using u
    by (auto simp: json_ascii_def json_read.simps(2) simple_escape_def quote_char_def backslash_def append_one char_numbers
        dest!: by_code)
qed

lemma json_read_high:
  "\<forall>x \<in> set run. 128 \<le> code x \<Longrightarrow> json_read (run @ rest) = map_option (apfst (append run)) (json_read rest)"
proof (induction run)
  case (Cons x run)
  then have "x \<noteq> quote_char" "x \<noteq> backslash" by (auto simp: quote_char_def backslash_def)
  with Cons show ?case by (cases "json_read rest") (auto simp: json_read.simps(2))
qed (cases "json_read rest", auto)

lemma json_read_separator:
  "line_separator run = Some d \<Longrightarrow> json_read (backslash # ''u202'' @ d # rest) = map_option (apfst (append run)) (json_read rest)"
  by (auto simp: line_separator_def json_read.simps(2) quote_char_def backslash_def unhex_def utf8_of_def char_numbers split: if_splits)

lemma json_read_body: "valid_utf8 s \<Longrightarrow> json_read (json_body s @ quote_char # rest) = Some (s, rest)"
proof (induction s rule: json_body.induct)
  case 1
  then show ?case by (simp add: json_read.simps(2))
next
  case (2 c cs)
  show ?case
  proof (cases "code c < 128")
    case True
    then show ?thesis
      using 2 by (simp add: json_body.simps(2) json_read_ascii valid_utf8_ascii)
  next
    case False
    with 2(4) obtain n where n: "rune_size (c # cs) = Some n" "valid_utf8 (drop n (c # cs))"
      by (auto simp: valid_utf8_Cons split: option.splits)
    let ?r = "take n (c # cs)"
    have ih: "json_read (json_body (drop n (c # cs)) @ quote_char # rest) = Some (drop n (c # cs), rest)"
      by (rule 2(3)[OF False n])
    have high: "\<forall>x \<in> set ?r. 128 \<le> code x" using rune_high[OF n(1)] False by simp
    have "json_read ((case line_separator ?r of Some d \<Rightarrow> backslash # ''u202'' @ [d] | None \<Rightarrow> ?r)
        @ json_body (drop n (c # cs)) @ quote_char # rest) = Some (?r @ drop n (c # cs), rest)"
      using json_read_high[OF high] ih json_read_separator[of ?r]
      by (cases "line_separator ?r") simp_all
    then show ?thesis using False n(1) by (simp add: json_body.simps(2) del: take_Cons drop_Cons)
  qed
qed

text \<open>Reading a given number of members.\<close>

fun json_read_members :: "nat \<Rightarrow> string \<Rightarrow> (string \<times> string) list option" where
  "json_read_members n (q # s) =
     (case json_read s of
        Some (k, colon # q' # s1) \<Rightarrow>
          (case json_read s1 of
             Some (v, sep # s2) \<Rightarrow>
               (case n of
                  0 \<Rightarrow> None
                | Suc 0 \<Rightarrow> if sep = CHR ''}'' then Some [(k, v)] else None
                | Suc m \<Rightarrow> if sep = CHR '','' then map_option (Cons (k, v)) (json_read_members m s2) else None)
           | _ \<Rightarrow> None)
      | _ \<Rightarrow> None)"
| "json_read_members n [] = None"

lemma json_members_read:
  assumes "kvs \<noteq> []" "\<forall>kv \<in> set kvs. valid_utf8 (fst kv) \<and> valid_utf8 (snd kv)"
  shows "json_read_members (length kvs) (json_members kvs @ CHR ''}'' # rest) = Some kvs"
  using assms
proof (induction kvs rule: json_members.induct)
  case (2 k v)
  then show ?case by (simp add: json_string_def json_read_body)
next
  case (3 k v kv kvs)
  then show ?case by (simp add: json_string_def json_read_body)
qed simp

text \<open>What a reader of an object makes of one that \<open>Marshal\<close> wrote.\<close>

definition json_read_object :: "nat \<Rightarrow> string \<Rightarrow> (string \<times> string) list option" where
  "json_read_object n s = (case s of c # cs \<Rightarrow> if c = CHR ''{'' then json_read_members n cs else None | [] \<Rightarrow> None)"

lemma json_object_read:
  "kvs \<noteq> [] \<Longrightarrow> \<forall>kv \<in> set kvs. valid_utf8 (fst kv) \<and> valid_utf8 (snd kv)
    \<Longrightarrow> json_read_object (length kvs) (json_object kvs) = Some kvs"
  by (simp add: json_read_object_def json_object_def json_members_read)

end
