(* ===== verification/Pam.thy ===== *)
theory Pam
  imports Daemon
begin

text \<open>
  Unlocking with the login password: \<open>internal/pamcred/pamcred.go\<close>, \<open>internal/daemon/pam.go\<close>
  and \<open>pamsocket.go\<close>. A token derived from the password opens a sealed age identity, which
  opens the sealed password of the default database; on a fresh account all three are made.
  The age library and the JSON codec of the credential are parameters; the files go through
  the file-system model, so every call may fail and others may act in between.
\<close>

section \<open>Credentials and tokens\<close>

definition CredentialVersion :: int where "CredentialVersion = 1"
definition ScryptWorkFactor :: nat where "ScryptWorkFactor = 18"
definition MaxWorkFactor :: nat where "MaxWorkFactor = 20"
definition PAMTokenSalt :: string where "PAMTokenSalt = ''kpxcd-pam-v1''"
definition PAMTokenLen :: nat where "PAMTokenLen = 32"

record pam_credential =
  pc_version :: int
  pc_path :: string
  pc_password :: string
  pc_created_at :: string

text \<open>\<open>secret\<close> is what the random source gave for 32 bytes, \<open>now\<close> the formatted time.\<close>

definition NewRandomDBCredential :: "bytes option \<Rightarrow> string \<Rightarrow> string \<Rightarrow> pam_credential option" where
  "NewRandomDBCredential secret now path =
     map_option (\<lambda>s. \<lparr>pc_version = CredentialVersion, pc_path = path, pc_password = base64_raw_url s, pc_created_at = now\<rparr>) secret"

text \<open>HKDF-SHA256 with a salt and no info; 32 bytes are its first block.\<close>

definition hkdf_block :: "(bytes \<Rightarrow> bytes) \<Rightarrow> string \<Rightarrow> bytes \<Rightarrow> bytes" where
  "hkdf_block sha salt password = hmac sha (hmac sha (bytes_of salt) password) [1]"

definition DerivePAMToken :: "(bytes \<Rightarrow> bytes) \<Rightarrow> bytes \<Rightarrow> bytes" where
  "DerivePAMToken sha password = take PAMTokenLen (hkdf_block sha PAMTokenSalt password)"

definition DerivePAMTokenV2 :: "(bytes \<Rightarrow> bytes) \<Rightarrow> string \<Rightarrow> bytes \<Rightarrow> bytes" where
  "DerivePAMTokenV2 sha uid password = take PAMTokenLen (hkdf_block sha (PAMTokenSalt @ '':'' @ uid) password)"

section \<open>Sealing\<close>

record ('id, 'rc) age_lib =
  ag_generate :: "'id option"
  ag_recipient :: "'id \<Rightarrow> 'rc"
  ag_text :: "'id \<Rightarrow> string"
  ag_parse :: "string \<Rightarrow> 'id option"
  ag_lock_pass :: "bytes \<Rightarrow> nat \<Rightarrow> bytes \<Rightarrow> bytes option"
  ag_open_pass :: "bytes \<Rightarrow> nat \<Rightarrow> bytes \<Rightarrow> bytes option"
  ag_lock :: "'rc \<Rightarrow> bytes \<Rightarrow> bytes option"
  ag_open :: "'id \<Rightarrow> bytes \<Rightarrow> bytes option"
  ag_marshal :: "pam_credential \<Rightarrow> bytes option"
  ag_unmarshal :: "bytes \<Rightarrow> pam_credential option"

definition newline :: string where
  "newline = [char_of (10 :: nat)]"

definition SealIdentity :: "('id, 'rc) age_lib \<Rightarrow> 'id \<Rightarrow> bytes \<Rightarrow> bytes option" where
  "SealIdentity G identity token = ag_lock_pass G token ScryptWorkFactor (bytes_of (ag_text G identity @ newline))"

definition OpenIdentity :: "('id, 'rc) age_lib \<Rightarrow> bytes \<Rightarrow> bytes \<Rightarrow> 'id option" where
  "OpenIdentity G sealed token =
     Option.bind (ag_open_pass G token MaxWorkFactor sealed) (\<lambda>plain. ag_parse G (trim_space (string_of plain)))"

definition SealCredential :: "('id, 'rc) age_lib \<Rightarrow> pam_credential \<Rightarrow> 'rc \<Rightarrow> bytes option" where
  "SealCredential G cred recipient = Option.bind (ag_marshal G cred) (ag_lock G recipient)"

definition OpenCredential :: "('id, 'rc) age_lib \<Rightarrow> bytes \<Rightarrow> 'id \<Rightarrow> pam_credential option" where
  "OpenCredential G sealed identity =
     (case Option.bind (ag_open G identity sealed) (ag_unmarshal G) of
        None \<Rightarrow> None
      | Some cred \<Rightarrow>
          if pc_version cred \<noteq> CredentialVersion then None
          else if pc_password cred = [] \<or> pc_path cred = [] then None
          else Some cred)"

text \<open>The files. Their errors are one value to the callers.\<close>

definition WriteSealedIdentity :: "('id, 'rc) age_lib \<Rightarrow> io \<Rightarrow> nat \<Rightarrow> string \<Rightarrow> 'id \<Rightarrow> bytes \<Rightarrow> (io_error, unit) prog" where
  "WriteSealedIdentity G io short path identity token =
     (case SealIdentity G identity token of None \<Rightarrow> fail_io Failed | Some sealed \<Rightarrow> WritePrivateFile io short path sealed)"

definition ReadSealedIdentity :: "('id, 'rc) age_lib \<Rightarrow> io \<Rightarrow> string \<Rightarrow> bytes \<Rightarrow> (io_error, 'id) prog" where
  "ReadSealedIdentity G io path token =
     andthen (call io (sys_read_file path)) (\<lambda>sealed.
       case OpenIdentity G sealed token of None \<Rightarrow> fail_io Failed | Some identity \<Rightarrow> return_io identity)"

definition WriteSealedCredential :: "('id, 'rc) age_lib \<Rightarrow> io \<Rightarrow> nat \<Rightarrow> string \<Rightarrow> pam_credential \<Rightarrow> 'rc \<Rightarrow> (io_error, unit) prog" where
  "WriteSealedCredential G io short path cred recipient =
     (case SealCredential G cred recipient of None \<Rightarrow> fail_io Failed | Some sealed \<Rightarrow> WritePrivateFile io short path sealed)"

definition ReadSealedCredential :: "('id, 'rc) age_lib \<Rightarrow> io \<Rightarrow> string \<Rightarrow> 'id \<Rightarrow> (io_error, pam_credential) prog" where
  "ReadSealedCredential G io path identity =
     andthen (call io (sys_read_file path)) (\<lambda>sealed.
       case OpenCredential G sealed identity of None \<Rightarrow> fail_io Failed | Some cred \<Rightarrow> return_io cred)"

section \<open>Unlocking or bootstrapping\<close>

datatype pam_error =
    UnwrapIdentity
  | DecryptCredential
  | WrapPassword
  | CreateMissing create_error
  | RefusedExisting
  | IncompleteState
  | NoIdentity
  | NoCredential
  | CreateDefault create_error
  | WriteIdentity
  | WriteCredential
  | OpenError pool_error

record ('id, 'rc) pam_env =
  pe_age :: "('id, 'rc) age_lib"
  pe_save :: save_lib
  pe_pool :: pool_lib
  pe_new_db :: "bytes \<Rightarrow> database"
  pe_io :: io
  pe_short :: nat
  pe_mlock :: "nat \<Rightarrow> bool"
  pe_secret :: "bytes option"
  pe_now :: string
  pe_identity :: string
  pe_credential :: string

text \<open>Any failure of \<open>Stat\<close> counts as absence.\<close>

definition fileExists :: "io \<Rightarrow> string \<Rightarrow> ('e, bool) prog" where
  "fileExists io path = andthen (try_io (call io (sys_stat path))) (\<lambda>r. return_io (case r of Inl _ \<Rightarrow> False | Inr _ \<Rightarrow> True))"

definition lift_create :: "(create_error \<Rightarrow> pam_error) \<Rightarrow> (create_error, unit) prog \<Rightarrow> (pam_error, unit) prog" where
  "lift_create f p = andthen (try_io p) (\<lambda>r. case r of Inl e \<Rightarrow> fail_io (f e) | Inr _ \<Rightarrow> return_io ())"

definition wrap_and_create :: "('id, 'rc) pam_env \<Rightarrow> (create_error \<Rightarrow> pam_error) \<Rightarrow> string \<Rightarrow> string \<Rightarrow> (pam_error, unit) prog" where
  "wrap_and_create P f path password =
     (case NewSecureString (pe_mlock P) password of
        None \<Rightarrow> fail_io WrapPassword
      | Some ss \<Rightarrow> lift_create f (CreateDatabase (pe_save P) (pe_io P) (pe_short P) (pe_new_db P) path (Secure_Bytes (Some ss))))"

text \<open>Both sealed files are there.\<close>

definition pam_existing :: "('id, 'rc) pam_env \<Rightarrow> string \<Rightarrow> bytes \<Rightarrow> bool \<Rightarrow> (pam_error, string) prog" where
  "pam_existing P path token dbExists =
     andthen (or_fail (ReadSealedIdentity (pe_age P) (pe_io P) (pe_identity P) token) UnwrapIdentity) (\<lambda>identity.
     andthen (or_fail (ReadSealedCredential (pe_age P) (pe_io P) (pe_credential P) identity) DecryptCredential) (\<lambda>cred.
     andthen (if \<not> dbExists then wrap_and_create P CreateMissing path (pc_password cred) else return_io ()) (\<lambda>_.
     return_io (pc_password cred))))"

text \<open>Neither is there, and no database.\<close>

definition pam_bootstrap :: "('id, 'rc) pam_env \<Rightarrow> string \<Rightarrow> bytes \<Rightarrow> (pam_error, string) prog" where
  "pam_bootstrap P path token =
     (case ag_generate (pe_age P) of
        None \<Rightarrow> fail_io NoIdentity
      | Some identity \<Rightarrow>
          (case NewRandomDBCredential (pe_secret P) (pe_now P) path of
             None \<Rightarrow> fail_io NoCredential
           | Some cred \<Rightarrow>
               andthen (wrap_and_create P CreateDefault path (pc_password cred)) (\<lambda>_.
               andthen (or_fail (WriteSealedIdentity (pe_age P) (pe_io P) (pe_short P) (pe_identity P) identity token) WriteIdentity) (\<lambda>_.
               andthen (or_fail (WriteSealedCredential (pe_age P) (pe_io P) (pe_short P) (pe_credential P) cred
                   (ag_recipient (pe_age P) identity)) WriteCredential) (\<lambda>_.
               return_io (pc_password cred))))))"

text \<open>Everything before the database is opened: the password to open it with.\<close>

definition pam_password :: "('id, 'rc) pam_env \<Rightarrow> string \<Rightarrow> bytes \<Rightarrow> (pam_error, string) prog" where
  "pam_password P path token =
     andthen (fileExists (pe_io P) (pe_identity P)) (\<lambda>identityExists.
     andthen (fileExists (pe_io P) (pe_credential P)) (\<lambda>credentialExists.
     andthen (fileExists (pe_io P) path) (\<lambda>dbExists.
       if identityExists \<and> credentialExists then pam_existing P path token dbExists
       else if dbExists then fail_io RefusedExisting
       else if identityExists \<noteq> credentialExists then fail_io IncompleteState
       else pam_bootstrap P path token)))"

text \<open>The fingerprint, taken by \<open>Open\<close> after decoding, is taken before it here.\<close>

definition openWithPassword ::
  "('id, 'rc) pam_env \<Rightarrow> string \<Rightarrow> string \<Rightarrow> pool \<Rightarrow> sys \<Rightarrow> pam_error option \<times> pool \<times> sys" where
  "openWithPassword P path password p s =
     (case NewSecureString (pe_mlock P) password of
        None \<Rightarrow> (Some WrapPassword, p, s)
      | Some ss \<Rightarrow>
          (case call (pe_io P) (sys_read_file path) s of
             (Inl _, s1) \<Rightarrow> (Some (OpenError OpenFailed), p, s1)
           | (Inr dat, s1) \<Rightarrow>
               (case call (pe_io P) (FingerprintFile (sl_sha256 (pe_save P)) path) s1 of
                  (fp, s2) \<Rightarrow>
                    (case Open (pe_pool P) (Some dat) (case fp of Inl _ \<Rightarrow> None | Inr f \<Rightarrow> Some f) path
                            (PasswordCredential (Some ss)) p of
                       (Inl e, p') \<Rightarrow> (Some (OpenError e), p', s2)
                     | (Inr _, p') \<Rightarrow> (None, p', s2)))))"

definition unlockOrBootstrapWithPAM ::
  "('id, 'rc) pam_env \<Rightarrow> string \<Rightarrow> bytes \<Rightarrow> pool \<Rightarrow> sys \<Rightarrow> pam_error option \<times> pool \<times> sys" where
  "unlockOrBootstrapWithPAM P path token p s =
     (case pam_password P path token s of
        (Inl e, s1) \<Rightarrow> (Some e, p, s1)
      | (Inr password, s1) \<Rightarrow> openWithPassword P path password p s1)"

section \<open>Who asks\<close>

definition hasPAMDatabase :: "config \<Rightarrow> bool" where
  "hasPAMDatabase cfg \<longleftrightarrow> (\<exists>db \<in> set (cfg_databases cfg). dc_auto_unlock db \<and> dc_unlock_credential db = ''pam'')"

definition defaultDatabase :: "config \<Rightarrow> database_config option" where
  "defaultDatabase cfg =
     (case List.find dc_default (cfg_databases cfg) of
        Some db \<Rightarrow> Some db
      | None \<Rightarrow> (case cfg_databases cfg of [] \<Rightarrow> None | db # _ \<Rightarrow> Some db))"

definition isDatabaseOpen :: "string list \<Rightarrow> string \<Rightarrow> pool \<Rightarrow> bool" where
  "isDatabaseOpen order path p \<longleftrightarrow>
     (\<exists>od \<in> set (objects_of p (ListDatabases order p)). od_path od = path \<and> \<not> od_locked od)"

text \<open>A connection to the socket: \<open>received\<close> is what the peer sends before it closes.\<close>

definition Pam_handleConn ::
  "('id, 'rc) pam_env \<Rightarrow> string list \<Rightarrow> bytes \<Rightarrow> config \<Rightarrow> pool \<Rightarrow> sys \<Rightarrow> pool \<times> sys" where
  "Pam_handleConn P order received cfg p s =
     (if length received < PAMTokenLen then (p, s)
      else (case defaultDatabase cfg of
              None \<Rightarrow> (p, s)
            | Some db \<Rightarrow>
                if \<not> dc_auto_unlock db \<or> dc_unlock_credential db \<noteq> ''pam'' then (p, s)
                else if isDatabaseOpen order (dc_path db) p then (p, s)
                else snd (unlockOrBootstrapWithPAM P (dc_path db) (take PAMTokenLen received) p s)))"

end
