(* ===== verification/File_Frames.thy ===== *)
theory File_Frames
  imports Database_File
begin

text \<open>
  Frames for programs on files: what is said of some files survives a program that writes
  only others. An assertion on the history is framed by a set of names when a step that
  leaves those files as they are cannot falsify it; the lemmas of the collection \<open>keeping\<close>
  follow the structure of a program down to its calls.
\<close>

definition framed :: "string set \<Rightarrow> (sys \<Rightarrow> bool) \<Rightarrow> bool" where
  "framed names J \<longleftrightarrow>
     (\<forall>s d n. (\<forall>q \<in> names. fs_files d q = fs_files (sys_now s) q) \<longrightarrow> J s
        \<longrightarrow> J \<lparr>sys_now = d, sys_past = sys_now s # sys_past s, sys_calls = n\<rparr>)"

definition keeps :: "(sys \<Rightarrow> bool) \<Rightarrow> ('e, 'a) prog \<Rightarrow> bool" where
  "keeps J p \<longleftrightarrow> triple J p (\<lambda>_. J) J"

lemma framedD:
  "framed N J \<Longrightarrow> J s \<Longrightarrow> (\<And>q. q \<in> N \<Longrightarrow> fs_files d q = fs_files (sys_now s) q)
    \<Longrightarrow> J \<lparr>sys_now = d, sys_past = sys_now s # sys_past s, sys_calls = n\<rparr>"
  unfolding framed_def by blast

lemma framed_world: "framed N J \<Longrightarrow> leaves io N \<Longrightarrow> J s \<Longrightarrow> J (advance io s)"
  unfolding advance_def by (rule framedD) (auto simp: leavesD)

lemma framed_commit: "framed N J \<Longrightarrow> J s \<Longrightarrow> (\<And>q. q \<in> N \<Longrightarrow> fs_files d q = fs_files (sys_now s) q) \<Longrightarrow> J (commit d s)"
  using framedD[of N J s d "sys_calls s"] by (cases s) (simp add: commit_def)

lemma framed_always:
  "(\<And>d d'. (\<And>q. q \<in> N \<Longrightarrow> fs_files d' q = fs_files d q) \<Longrightarrow> I d \<Longrightarrow> I d') \<Longrightarrow> framed N (always I)"
  unfolding framed_def always_def by simp

lemma framed_now:
  "(\<And>d d'. (\<And>q. q \<in> N \<Longrightarrow> fs_files d' q = fs_files d q) \<Longrightarrow> C d \<Longrightarrow> C d') \<Longrightarrow> framed N (\<lambda>s. C (sys_now s))"
  unfolding framed_def by simp

lemma framed_both: "framed N J \<Longrightarrow> framed N K \<Longrightarrow> framed N (\<lambda>s. J s \<and> K s)"
  unfolding framed_def by blast

lemma framed_file [simp]: "framed {path} (always (\<lambda>d. fs_files d path = x))"
  by (rule framed_always) simp

named_theorems keeping

lemma keepsD: "keeps J p \<Longrightarrow> p s = (r, s') \<Longrightarrow> J s \<Longrightarrow> J s'"
  unfolding keeps_def by (cases r) (auto dest: tripleD)

lemma keeps_snd: "keeps J p \<Longrightarrow> J s \<Longrightarrow> J (snd (p s))"
  by (rule keepsD[OF _ prod.collapse[symmetric]])

lemma keepsI: "(\<And>s r s'. J s \<Longrightarrow> p s = (r, s') \<Longrightarrow> J s') \<Longrightarrow> keeps J p"
  unfolding keeps_def triple_def by (auto split: prod.split sum.split)

lemma keeps_touch:
  assumes "leaves io N" "framed N J" "\<And>d v d' q. c d = Ok (v, d') \<Longrightarrow> q \<in> N \<Longrightarrow> fs_files d' q = fs_files d q"
  shows "keeps J (call io c)"
  unfolding keeps_def
proof (rule triple_call)
  fix s assume "J s"
  then show s: "J (advance io s)" by (rule framed_world[OF assms(2,1)])
  fix v d assume "c (sys_now (advance io s)) = Ok (v, d)"
  from framed_commit[OF assms(2) s assms(3)[OF this]] show "J (commit d (advance io s))" .
qed

lemma keeps_andthen [keeping]: "keeps J p \<Longrightarrow> (\<And>v. keeps J (k v)) \<Longrightarrow> keeps J (andthen p k)"
  unfolding keeps_def by (rule triple_andthen)

lemma keeps_or_fail [keeping]: "keeps J p \<Longrightarrow> keeps J (or_fail p e)"
  unfolding keeps_def by (rule triple_or_fail)

lemma keeps_try [keeping]: "keeps J p \<Longrightarrow> keeps J (try_io p)"
  unfolding keeps_def by (rule triple_try)

lemma keeps_return [keeping]: "keeps J (return_io v)" "keeps J (fail_io e)"
  unfolding keeps_def by (auto intro: triple_return triple_fail)

lemma keeps_if [keeping]: "keeps J p \<Longrightarrow> keeps J q \<Longrightarrow> keeps J (if b then p else q)"
  by simp

lemma keeps_option [keeping]:
  "keeps J p \<Longrightarrow> (\<And>x. keeps J (k x)) \<Longrightarrow> keeps J (case v of None \<Rightarrow> p | Some x \<Rightarrow> k x)"
  by (cases v) simp_all

section \<open>The calls\<close>

lemma keeps_read:
  assumes "leaves io N" "framed N J"
  shows "keeps J (call io (sys_read_file q))" "keeps J (call io (sys_stat q))"
    "keeps J (call io sys_noop)" "keeps J (call io (FingerprintFile sha q))"
  by (rule keeps_touch[OF assms], auto simp: sys_call_defs FingerprintFile_def split: option.splits)+

lemma keeps_dir: "leaves io N \<Longrightarrow> framed N J \<Longrightarrow> keeps J (EnsurePrivateDir io dir)"
  unfolding EnsurePrivateDir_def
  by (intro keeping keeps_touch) (auto simp: sys_call_defs split: if_splits option.splits)

lemma keeps_remove: "leaves io N \<Longrightarrow> framed N J \<Longrightarrow> q \<notin> N \<Longrightarrow> keeps J (call io (sys_remove q))"
  by (rule keeps_touch) (auto simp: sys_call_defs split: option.splits)

text \<open>A failing write still leaves some bytes.\<close>

lemma keeps_write_data: "leaves io N \<Longrightarrow> framed N J \<Longrightarrow> q \<notin> N \<Longrightarrow> keeps J (write_data io n q dat)"
proof -
  assume a: "leaves io N" "framed N J" "q \<notin> N"
  have one: "keeps J (call io' (sys_write q x))" if "leaves io' N" for io' x
    using a(3) by (intro keeps_touch[OF that a(2)]) (auto simp: sys_write_def split: option.splits)
  have "leaves (io\<lparr>io_fails := \<lambda>_. False\<rparr>) N" using a(1) by (simp add: leaves_def)
  note quick = one[OF this, of "take n dat"]
  show ?thesis
  proof (rule keepsI)
    fix s r s' assume s: "J s" and run: "write_data io n q dat s = (r, s')"
    obtain r1 s1 where r1: "call (io\<lparr>io_fails := \<lambda>_. False\<rparr>) (sys_write q (take n dat)) s = (r1, s1)" by fastforce
    obtain r2 s2 where r2: "call io (sys_write q dat) s = (r2, s2)" by fastforce
    show "J s'"
      using run r1 r2 keepsD[OF quick r1 s] keepsD[OF one[OF a(1)] r2 s]
      by (auto simp: write_data_def split: if_splits)
  qed
qed

lemma keeps_write_private: "leaves io N \<Longrightarrow> framed N J \<Longrightarrow> q \<notin> N \<Longrightarrow> keeps J (WritePrivateFile io n q dat)"
  unfolding WritePrivateFile_def
  by (intro keeping keeps_dir keeps_write_data keeps_read(3) keeps_touch)
    (auto simp: sys_open_trunc_def split: option.splits sum.split intro: keeping)

section \<open>Temporary files\<close>

text \<open>A file with a fresh name is made, filled and takes the place of another, while an assertion
  about other names is kept.\<close>

definition with_temp :: "(sys \<Rightarrow> bool) \<Rightarrow> string \<Rightarrow> nat \<Rightarrow> bytes \<Rightarrow> sys \<Rightarrow> bool" where
  "with_temp J tmp mode dat s \<longleftrightarrow> J s \<and> temp_has tmp mode dat s"

lemma with_temp_world:
  "leaves io (insert tmp N) \<Longrightarrow> framed N J \<Longrightarrow> with_temp J tmp mode dat s \<Longrightarrow> with_temp J tmp mode dat (advance io s)"
  unfolding with_temp_def
  using framed_world[OF _ leaves_mono[OF _ subset_insertI]] temp_has_advance[of io "insert tmp N" tmp] by blast

lemma framed_temp: "framed N J \<Longrightarrow> framed (insert tmp N) (with_temp J tmp mode dat)"
  unfolding framed_def with_temp_def temp_has_def by simp

lemma with_temp_commit:
  assumes "with_temp J tmp mode dat s" "framed N J" "\<And>q. q \<in> N \<Longrightarrow> fs_files d q = fs_files (sys_now s) q"
    and "fs_files d tmp = Some h" "f_mode h = mode'" "f_data h = dat'"
  shows "with_temp J tmp mode' dat' (commit d s)"
  using framed_commit[OF assms(2) _ assms(3)] assms by (simp add: with_temp_def temp_has_def)

lemma temp_chmod:
  assumes "leaves io (insert tmp N)" "framed N J" "tmp \<notin> N"
  shows "triple (with_temp J tmp mode0 dat) (call io (sys_chmod tmp mode)) (\<lambda>_. with_temp J tmp mode dat) J"
proof (rule triple_call)
  fix s assume "with_temp J tmp mode0 dat s"
  then have s: "with_temp J tmp mode0 dat (advance io s)" by (rule with_temp_world[OF assms(1,2)])
  then show "J (advance io s)" by (simp add: with_temp_def)
  fix v d assume c: "sys_chmod tmp mode (sys_now (advance io s)) = Ok (v, d)"
  from s obtain h where h: "fs_files (sys_now (advance io s)) tmp = Some h" "f_data h = dat"
    by (auto simp: with_temp_def temp_has_def)
  let ?h = "h\<lparr>f_mode := mode, f_ctime := fs_clock (sys_now (advance io s))\<rparr>"
  have "d = set_file tmp ?h (sys_now (advance io s))" using c h(1) by (simp add: sys_chmod_def)
  then show "with_temp J tmp mode dat (commit d (advance io s))"
    by (intro with_temp_commit[OF s assms(2), where h = ?h]) (use h(2) assms(3) in auto)
qed

lemma temp_noop:
  assumes "leaves io (insert tmp N)" "framed N J"
  shows "triple (with_temp J tmp mode dat) (call io sys_noop) (\<lambda>_. with_temp J tmp mode dat) J"
proof (rule triple_call)
  fix s assume "with_temp J tmp mode dat s"
  then have s: "with_temp J tmp mode dat (advance io s)" by (rule with_temp_world[OF assms])
  then show "J (advance io s)" by (simp add: with_temp_def)
  fix v d assume "sys_noop (sys_now (advance io s)) = Ok (v, d)"
  then have "d = sys_now (advance io s)" by (simp add: sys_noop_def)
  then show "with_temp J tmp mode dat (commit d (advance io s))"
    using s by (auto simp: with_temp_def temp_has_def intro: framed_commit[OF assms(2)])
qed

lemma temp_encode:
  assumes "leaves io (insert tmp N)" "framed N J" "tmp \<notin> N"
  shows "triple (with_temp J tmp mode []) (encode_to L io short tmp db)
    (\<lambda>_ s. \<exists>dat. sl_encode L db = Some dat \<and> with_temp J tmp mode dat s) J"
proof (cases "sl_encode L db")
  case None
  then show ?thesis by (auto simp: encode_to_def with_temp_def intro: triple_fail)
next
  case (Some dat)
  have keep: "keeps J (write_data io short tmp dat)"
    by (rule keeps_write_data[OF leaves_mono[OF assms(1)] assms(2,3)]) auto
  have "triple (with_temp J tmp mode []) (write_data io short tmp dat) (\<lambda>_. with_temp J tmp mode dat) J"
  proof (rule tripleI)
    fix s assume s: "with_temp J tmp mode [] s"
    obtain r s' where run: "write_data io short tmp dat s = (r, s')" by fastforce
    have a: "J s'" using keepsD[OF keep run] s by (simp add: with_temp_def)
    have w: "with_temp J tmp mode [] (advance io s)" by (rule with_temp_world[OF assms(1,2) s])
    then obtain h where h: "fs_files (io_world io (sys_calls s) (sys_now s)) tmp = Some h" "f_mode h = mode" "f_data h = []"
      by (auto simp: with_temp_def temp_has_def)
    show "case write_data io short tmp dat s of (Inl _, s') \<Rightarrow> J s' | (Inr v, s') \<Rightarrow> with_temp J tmp mode dat s'"
      using run a h by (auto simp: write_data_def call_def sys_write_def Let_def with_temp_def temp_has_def split: if_splits prod.splits)
  qed
  with Some show ?thesis by (auto simp: encode_to_def elim: triple_conseq)
qed

lemma temp_create:
  assumes "leaves io N" "framed N J" "\<And>s. J s \<Longrightarrow> fs_files (sys_now s) (sl_temp_name L path (sys_now s)) = None \<Longrightarrow> sl_temp_name L path (sys_now s) \<notin> N"
  shows "triple J (call io (sys_create_temp L path))
    (\<lambda>tmp s. tmp \<notin> N \<and> tmp \<in> save_names L path \<and> with_temp J tmp mode_private_file [] s) J"
proof (rule triple_call)
  fix s assume "J s"
  then show s: "J (advance io s)" by (rule framed_world[OF assms(2,1)])
  fix tmp d assume c: "sys_create_temp L path (sys_now (advance io s)) = Ok (tmp, d)"
  let ?d = "sys_now (advance io s)"
  have new: "tmp = sl_temp_name L path ?d" "fs_files ?d tmp = None" "fs_files d tmp = Some (new_file ?d mode_private_file [])"
      "\<And>q. q \<noteq> tmp \<Longrightarrow> fs_files d q = fs_files ?d q"
    using c by (auto simp: sys_create_temp_def sys_open_excl_def Let_def split: sum.splits option.splits)
  then have out: "tmp \<notin> N" using assms(3)[OF s] by simp
  have "J (commit d (advance io s))" by (rule framed_commit[OF assms(2) s new(4)]) (use out in blast)
  with out new show "tmp \<notin> N \<and> tmp \<in> save_names L path \<and> with_temp J tmp mode_private_file [] (commit d (advance io s))"
    by (simp add: with_temp_def temp_has_def save_names_def new_file_def)
qed

text \<open>The rename leads to what the new file makes true.\<close>

lemma temp_rename:
  assumes "leaves io (insert tmp N)" "framed N J"
    and "\<And>s d h. J s \<Longrightarrow> f_mode h = mode \<Longrightarrow> f_data h = dat \<Longrightarrow> fs_files d dest = Some h
      \<Longrightarrow> (\<And>q. q \<noteq> dest \<Longrightarrow> q \<noteq> tmp \<Longrightarrow> fs_files d q = fs_files (sys_now s) q) \<Longrightarrow> K (commit d s)"
  shows "triple (with_temp J tmp mode dat) (call io (sys_rename tmp dest)) (\<lambda>_. K) J"
proof (rule triple_call)
  fix s assume "with_temp J tmp mode dat s"
  then have s: "with_temp J tmp mode dat (advance io s)" by (rule with_temp_world[OF assms(1,2)])
  then show a: "J (advance io s)" by (simp add: with_temp_def)
  fix v d assume c: "sys_rename tmp dest (sys_now (advance io s)) = Ok (v, d)"
  from s obtain h where h: "fs_files (sys_now (advance io s)) tmp = Some h" "f_mode h = mode" "f_data h = dat"
    by (auto simp: with_temp_def temp_has_def)
  then have d: "fs_files d = (fs_files (sys_now (advance io s)))(tmp := None, dest \<mapsto> h\<lparr>f_ctime := fs_clock (sys_now (advance io s))\<rparr>)"
    using c by (auto simp: sys_rename_def)
  show "K (commit d (advance io s))"
    by (rule assms(3)[OF a, where h = "h\<lparr>f_ctime := fs_clock (sys_now (advance io s))\<rparr>"]) (simp_all add: d h(2,3))
qed

end
