(* ===== verification/Pam_Contract.thy ===== *)
theory Pam_Contract
  imports Pam File_Frames
begin

text \<open>
  What the login path promises: sealing is reversible, an existing database is never touched,
  an account with a database but without its secrets is refused, and what a first login made
  opens at the next one.
\<close>

section \<open>Sealing is reversible\<close>

text \<open>The documented behaviour of age, of the identity's text form and of the JSON codec.\<close>

definition age_ok :: "('id, 'rc) age_lib \<Rightarrow> bool" where
  "age_ok G \<longleftrightarrow>
     (\<forall>token work limit plain c. ag_lock_pass G token work plain = Some c \<longrightarrow> work \<le> limit \<longrightarrow> ag_open_pass G token limit c = Some plain)
     \<and> (\<forall>identity plain c. ag_lock G (ag_recipient G identity) plain = Some c \<longrightarrow> ag_open G identity c = Some plain)
     \<and> (\<forall>identity. ag_parse G (ag_text G identity) = Some identity \<and> (\<forall>c \<in> set (ag_text G identity). \<not> is_space c))
     \<and> (\<forall>cred plain. ag_marshal G cred = Some plain \<longrightarrow> ag_unmarshal G plain = Some cred)"

lemma trim_newline: "\<forall>c \<in> set s. \<not> is_space c \<Longrightarrow> trim_space (s @ newline) = s"
proof -
  assume s: "\<forall>c \<in> set s. \<not> is_space c"
  have id: "dropWhile is_space xs = xs" if "\<forall>c \<in> set xs. \<not> is_space c" for xs
    using that by (cases xs) auto
  have nl: "is_space (char_of (10 :: nat))" by (simp add: is_space_def)
  show ?thesis
  proof (cases s)
    case Nil
    then show ?thesis by (simp add: trim_space_def newline_def nl)
  next
    case (Cons c cs)
    then have "dropWhile is_space (s @ newline) = s @ newline" using s by simp
    then show ?thesis using s id[of "rev s"] by (simp add: trim_space_def newline_def nl)
  qed
qed

lemma sealed_identity: "age_ok G \<Longrightarrow> SealIdentity G identity token = Some sealed \<Longrightarrow> OpenIdentity G sealed token = Some identity"
  unfolding SealIdentity_def OpenIdentity_def age_ok_def ScryptWorkFactor_def MaxWorkFactor_def
  by (simp add: trim_newline)

lemma base64_raw_url_nonempty: "bs \<noteq> [] \<Longrightarrow> base64_raw_url bs \<noteq> []"
  unfolding base64_raw_url_def by (cases "(url_alphabet, '''' :: string, bs)" rule: base64.cases) auto

lemma sealed_credential:
  assumes "age_ok G" "NewRandomDBCredential secret now path = Some cred" "secret \<noteq> Some []" "path \<noteq> []"
    and "SealCredential G cred (ag_recipient G identity) = Some sealed"
  shows "OpenCredential G sealed identity = Some cred"
proof -
  from assms(5) obtain plain where p: "ag_marshal G cred = Some plain" "ag_lock G (ag_recipient G identity) plain = Some sealed"
    by (auto simp: SealCredential_def split: bind_splits)
  then have "Option.bind (ag_open G identity sealed) (ag_unmarshal G) = Some cred"
    using assms(1) by (simp add: age_ok_def)
  then show ?thesis
    using assms(2-4) base64_raw_url_nonempty by (auto simp: OpenCredential_def NewRandomDBCredential_def)
qed

text \<open>Sealing is reversible: an identity sealed under a token is what the same token opens,
  within the work factor the reader accepts, and a credential made for a path and sealed to
  the recipient of an identity passes the reader's checks and comes back unchanged.\<close>

theorem sealed_roundtrip:
  assumes "age_ok G" and "SealIdentity G identity token = Some s1"
    and "NewRandomDBCredential (Some secret) now path = Some cred" and "secret \<noteq> []" and "path \<noteq> []"
    and "SealCredential G cred (ag_recipient G identity) = Some s2"
  shows "OpenIdentity G s1 token = Some identity \<and> OpenCredential G s2 identity = Some cred"
  using sealed_identity[OF assms(1,2)] sealed_credential[OF assms(1,3) _ assms(5,6)] assms(4) by simp

section \<open>An account to run\<close>

text \<open>A stand-in for the age library that checks the token, and a codec for one credential.\<close>

definition sample_credential :: pam_credential where
  "sample_credential = \<lparr>pc_version = 1, pc_path = ''/d'', pc_password = base64_raw_url [1, 2, 3], pc_created_at = ''now''\<rparr>"

definition sample_age :: "(unit, unit) age_lib" where
  "sample_age =
     \<lparr>ag_generate = Some (), ag_recipient = \<lambda>_. (), ag_text = \<lambda>_. ''KEY'', ag_parse = \<lambda>t. if t = ''KEY'' then Some () else None,
      ag_lock_pass = \<lambda>token _ plain. Some (token @ plain),
      ag_open_pass = \<lambda>token _ c. if take (length token) c = token then Some (drop (length token) c) else None,
      ag_lock = \<lambda>_ plain. Some (0 # plain), ag_open = \<lambda>_ c. Some (tl c),
      ag_marshal = \<lambda>cred. if cred = sample_credential then Some [7] else None, ag_unmarshal = \<lambda>_. Some sample_credential\<rparr>"

definition sample_account :: "(unit, unit) pam_env" where
  "sample_account =
     \<lparr>pe_age = sample_age, pe_save = sample_save_lib, pe_pool = sample_pool_lib, pe_new_db = \<lambda>_. sample_database, pe_io = quiet,
      pe_short = 0, pe_mlock = \<lambda>_. True, pe_secret = Some [1, 2, 3], pe_now = ''now'', pe_identity = ''/i'', pe_credential = ''/c''\<rparr>"

lemma sample_age_ok: "age_ok sample_age"
  by (simp add: age_ok_def sample_age_def is_space_def)

lemma sample_seals:
  "SealIdentity sample_age () token = Some (token @ bytes_of (''KEY'' @ newline))"
  "NewRandomDBCredential (Some [1, 2, 3]) ''now'' ''/d'' = Some sample_credential"
  "SealCredential sample_age sample_credential () = Some [0, 7]"
  by (simp_all add: SealIdentity_def SealCredential_def NewRandomDBCredential_def sample_age_def sample_credential_def CredentialVersion_def)

theorem sealed_roundtrip_witness:
  "OpenIdentity sample_age ([9, 9] @ bytes_of (''KEY'' @ newline)) [9, 9] = Some ()
   \<and> OpenCredential sample_age [0, 7] () = Some sample_credential"
  by (rule sealed_roundtrip[OF sample_age_ok sample_seals(1) sample_seals(2)]) (simp_all add: sample_seals(3))

section \<open>An existing database is never touched\<close>

text \<open>A program that keeps the file at \<open>path\<close> as \<open>f\<close> at every moment.\<close>

abbreviation keeps_file :: "string \<Rightarrow> disk_file \<Rightarrow> ('e, 'a) prog \<Rightarrow> bool" where
  "keeps_file path f \<equiv> keeps (always (\<lambda>d. fs_files d path = Some f))"

lemmas keeps_file_read = keeps_read[OF _ framed_file]

text \<open>Creation on that path fails, whatever an earlier \<open>Stat\<close> said.\<close>

lemma keeps_create: "leaves io {path} \<Longrightarrow> keeps_file path f (CreateDatabase L io n new_db path pw)"
proof -
  assume a: "leaves io {path}"
  let ?A = "always (\<lambda>d. fs_files d path = Some f)"
  have open_excl: "triple ?A (try_io (call io (sys_open_excl path mode_private_file)))
      (\<lambda>r s. ?A s \<and> (\<exists>e. r = Err e)) ?A"
    using leavesD[OF a, of path] unfolding triple_def try_io_def
    by (auto simp: call_def sys_open_excl_def Let_def always_def split: option.splits)
  have rest: "triple (\<lambda>s. ?A s \<and> (\<exists>e. r = Err e))
      (case r of Inl Exists \<Rightarrow> fail_io AlreadyExists | Inl _ \<Rightarrow> fail_io CreateFailed | Inr _ \<Rightarrow> k) (\<lambda>_. ?A) ?A" for r :: "io_error + unit" and k
    unfolding triple_def by (auto simp: fail_io_def split: sum.splits io_error.splits)
  show ?thesis
    unfolding keeps_def CreateDatabase_def
    by (rule triple_andthen[OF triple_or_fail[OF keeps_dir[OF a framed_file, unfolded keeps_def]] triple_andthen[OF open_excl rest]])
qed

lemma keeps_wrap: "leaves (pe_io P) {path} \<Longrightarrow> keeps_file path f (wrap_and_create P e path pw)"
  unfolding wrap_and_create_def lift_create_def
  by (auto split: option.split sum.split intro!: keeping keeps_create)

lemma keeps_exists: "leaves io N \<Longrightarrow> framed N J \<Longrightarrow> keeps J (fileExists io q)"
  unfolding fileExists_def by (intro keeping keeps_read(2))

lemma keeps_password:
  assumes "leaves (pe_io P) {path}" "path \<noteq> pe_identity P" "path \<noteq> pe_credential P"
  shows "keeps_file path f (pam_password P path token)"
proof -
  note io = keeps_file_read[OF assms(1)] keeps_exists[OF assms(1) framed_file] keeps_wrap[OF assms(1)]
    keeps_write_private[OF assms(1) framed_file]
  have existing: "keeps_file path f (pam_existing P path token b)" for b
    unfolding pam_existing_def ReadSealedIdentity_def ReadSealedCredential_def
    by (intro keeping io)
  have bootstrap: "keeps_file path f (pam_bootstrap P path token)"
    unfolding pam_bootstrap_def WriteSealedIdentity_def WriteSealedCredential_def
    using assms(2,3) by (intro keeping io) simp_all
  show ?thesis
    unfolding pam_password_def by (intro keeping io existing bootstrap)
qed

lemma open_keeps:
  assumes "leaves (pe_io P) {path}" "openWithPassword P path pw p s = (e, p', s')" "always (\<lambda>d. fs_files d path = Some f) s"
  shows "always (\<lambda>d. fs_files d path = Some f) s'"
proof -
  obtain r1 s1 where c1: "call (pe_io P) (sys_read_file path) s = (r1, s1)" by fastforce
  obtain r2 s2 where c2: "call (pe_io P) (FingerprintFile (sl_sha256 (pe_save P)) path) s1 = (r2, s2)" by fastforce
  note a1 = keepsD[OF keeps_file_read(1)[OF assms(1)] c1 assms(3)]
  note a2 = keepsD[OF keeps_file_read(4)[OF assms(1)] c2 a1]
  show ?thesis
    using assms(2,3) c1 c2 a1 a2
    by (auto simp: openWithPassword_def split: sum.splits option.splits prod.splits)
qed

text \<open>C23. A login never touches a database that exists: whatever the token, the sealed files
  and the configuration, whichever system calls fail (a \<open>Stat\<close> that wrongly reports the file
  missing among them) and whatever other processes do elsewhere, the file is the same at
  every moment of the attempt.\<close>

theorem pam_never_touches_database:
  assumes "leaves (pe_io P) {path}" and "path \<noteq> pe_identity P" and "path \<noteq> pe_credential P"
    and "fs_files d path = Some f" and "unlockOrBootstrapWithPAM P path token p (sys_start d) = (e, p', s')"
  shows "always (\<lambda>d. fs_files d path = Some f) s'"
proof -
  let ?A = "always (\<lambda>d. fs_files d path = Some f)"
  obtain r s1 where run: "pam_password P path token (sys_start d) = (r, s1)" by fastforce
  have "?A (sys_start d)" using assms(4) by simp
  from keepsD[OF keeps_password[OF assms(1-3)] run this] have s1: "?A s1" .
  show ?thesis
  proof (cases r)
    case (Inr pw)
    then show ?thesis using assms(5) run open_keeps[OF assms(1) _ s1] by (simp add: unlockOrBootstrapWithPAM_def)
  qed (use assms(5) run s1 in \<open>simp add: unlockOrBootstrapWithPAM_def\<close>)
qed

theorem pam_never_touches_database_witness:
  "always (\<lambda>d. fs_files d ''/d'' = Some sample_file)
     (snd (snd (unlockOrBootstrapWithPAM sample_account ''/d'' [9, 9] (NewDatabasePool None) (sys_start sample_disk))))"
  by (rule pam_never_touches_database[of sample_account "''/d''" sample_disk sample_file "[9, 9]" "NewDatabasePool None"
        "fst (unlockOrBootstrapWithPAM sample_account ''/d'' [9, 9] (NewDatabasePool None) (sys_start sample_disk))"
        "fst (snd (unlockOrBootstrapWithPAM sample_account ''/d'' [9, 9] (NewDatabasePool None) (sys_start sample_disk)))"])
    (simp_all add: leaves_def sample_account_def sample_disk_def)

section \<open>Quiet runs\<close>

text \<open>From one state to the next a program changed only the file \<open>p\<close>, which then holds \<open>dat\<close>.\<close>

definition wrote :: "string \<Rightarrow> bytes \<Rightarrow> sys \<Rightarrow> sys \<Rightarrow> bool" where
  "wrote p dat s s' \<longleftrightarrow>
     (\<exists>f. fs_files (sys_now s') p = Some f \<and> f_data f = dat) \<and> (\<forall>q. q \<noteq> p \<longrightarrow> fs_files (sys_now s') q = fs_files (sys_now s) q)"

lemma write_private_quiet:
  "fs_files (sys_now s) (path_dir p) = None \<Longrightarrow> \<exists>s'. WritePrivateFile quiet n p dat s = (Ok (), s') \<and> wrote p dat s s'"
  by (cases "fs_dirs (sys_now s) (path_dir p)"; cases "fs_files (sys_now s) p")
    (simp_all add: WritePrivateFile_def EnsurePrivateDir_def andthen_def try_io_def return_io_def wrote_def
      write_data_def sys_call_defs call_quiet set_file_def new_file_def bump_ino_def)

lemma create_quiet:
  assumes "fs_files (sys_now s) (path_dir p) = None" "fs_files (sys_now s) p = None" "path_dir p \<noteq> p"
    and "sl_encode L (named_default (new_db pw)) = Some dat"
  shows "\<exists>s'. CreateDatabase L quiet n new_db p pw s = (Ok (), s') \<and> wrote p dat s s'"
  using assms
  by (cases "fs_dirs (sys_now s) (path_dir p)")
    (simp_all add: CreateDatabase_def EnsurePrivateDir_def andthen_def try_io_def or_fail_def return_io_def wrote_def encode_to_def
      write_data_def sys_call_defs call_quiet set_file_def new_file_def bump_ino_def)

lemma exists_quiet:
  "\<exists>s'. fileExists quiet p s = (Ok (fs_files (sys_now s) p \<noteq> None), s') \<and> sys_now s' = sys_now s"
  by (cases "fs_files (sys_now s) p")
    (simp_all add: fileExists_def andthen_def try_io_def return_io_def call_quiet sys_stat_def)

lemma read_quiet:
  "fs_files (sys_now s) p = Some f \<Longrightarrow> \<exists>s'. call quiet (sys_read_file p) s = (Ok (f_data f), s') \<and> sys_now s' = sys_now s"
  by (simp add: call_quiet sys_read_file_def)

text \<open>The three questions at the start.\<close>

lemma password_quiet:
  assumes "pe_io P = quiet"
  shows "\<exists>s'. sys_now s' = sys_now s \<and> pam_password P path token s =
    (let i = (fs_files (sys_now s) (pe_identity P) \<noteq> None); c = (fs_files (sys_now s) (pe_credential P) \<noteq> None);
         d = (fs_files (sys_now s) path \<noteq> None)
     in (if i \<and> c then pam_existing P path token d else if d then fail_io RefusedExisting
         else if i \<noteq> c then fail_io IncompleteState else pam_bootstrap P path token) s')"
proof -
  obtain s1 where s1: "(fileExists quiet (pe_identity P) :: (pam_error, bool) prog) s
      = (Ok (fs_files (sys_now s) (pe_identity P) \<noteq> None), s1)" "sys_now s1 = sys_now s"
    using exists_quiet by blast
  obtain s2 where s2: "(fileExists quiet (pe_credential P) :: (pam_error, bool) prog) s1
      = (Ok (fs_files (sys_now s1) (pe_credential P) \<noteq> None), s2)" "sys_now s2 = sys_now s1"
    using exists_quiet by blast
  obtain s3 where s3: "(fileExists quiet path :: (pam_error, bool) prog) s2
      = (Ok (fs_files (sys_now s2) path \<noteq> None), s3)" "sys_now s3 = sys_now s2"
    using exists_quiet by blast
  show ?thesis
    using s1(2) s2(2) s3(2)
    by (intro exI[of _ s3]) (simp add: pam_password_def andthen_def assms Let_def s1(1) s2(1) s3(1))
qed

section \<open>A database without its secrets is refused\<close>

text \<open>An account that has a database but lacks one of the sealed files stays locked out:
  every login is refused with the same error, whatever the token, and changes neither the
  disk nor the pool. A bootstrap that fails after creating the database leaves the account in
  this state: its password, never stored, is lost.\<close>

theorem pam_refuses_without_secrets:
  assumes "pe_io P = quiet" and "fs_files (sys_now s) path \<noteq> None"
    and "fs_files (sys_now s) (pe_identity P) = None \<or> fs_files (sys_now s) (pe_credential P) = None"
  shows "\<exists>s'. unlockOrBootstrapWithPAM P path token p s = (Some RefusedExisting, p, s') \<and> sys_now s' = sys_now s"
proof -
  have "\<exists>s'. sys_now s' = sys_now s \<and> pam_password P path token s = fail_io RefusedExisting s'"
    using password_quiet[OF assms(1), of s path token] assms(2,3) by (auto simp: Let_def)
  then obtain s' where "sys_now s' = sys_now s" "pam_password P path token s = fail_io RefusedExisting s'"
    by blast
  then show ?thesis by (simp add: unlockOrBootstrapWithPAM_def fail_io_def)
qed

theorem pam_refuses_without_secrets_witness:
  "\<exists>s'. unlockOrBootstrapWithPAM sample_account ''/d'' [9, 9] (NewDatabasePool None) (sys_start sample_disk)
       = (Some RefusedExisting, NewDatabasePool None, s') \<and> sys_now s' = sample_disk"
  using pam_refuses_without_secrets[of sample_account "sys_start sample_disk" "''/d''" "[9, 9]" "NewDatabasePool None"]
  by (simp add: sample_account_def sample_disk_def sys_start_def)

section \<open>The second login\<close>

text \<open>What the parameters must do for a login to work: locked memory, sealing, encoding, and a
  decoder that reads what the encoder wrote under the same password.\<close>

definition account_ok :: "('id, 'rc) pam_env \<Rightarrow> string \<Rightarrow> bytes \<Rightarrow> bool" where
  "account_ok P path token \<longleftrightarrow>
     pe_io P = quiet \<and> (\<forall>n. pe_mlock P n) \<and> age_ok (pe_age P)
     \<and> (\<exists>identity secret cred s1 s2 dat db0 db. ag_generate (pe_age P) = Some identity \<and> pe_secret P = Some secret \<and> secret \<noteq> []
          \<and> NewRandomDBCredential (Some secret) (pe_now P) path = Some cred
          \<and> SealIdentity (pe_age P) identity token = Some s1
          \<and> SealCredential (pe_age P) cred (ag_recipient (pe_age P) identity) = Some s2
          \<and> sl_encode (pe_save P) (named_default (pe_new_db P (bytes_of (pc_password cred)))) = Some dat
          \<and> pb_decode (pe_pool P) dat (Some (pb_password (pe_pool P) (bytes_of (pc_password cred)))) = Some db0
          \<and> pb_unlock (pe_pool P) db0 = Some db)"

text \<open>The places of the three files: distinct, and no directory of one is one of them or a file.\<close>

definition places_ok :: "('id, 'rc) pam_env \<Rightarrow> string \<Rightarrow> fs \<Rightarrow> bool" where
  "places_ok P path d \<longleftrightarrow>
     path \<noteq> [] \<and> distinct [path, pe_identity P, pe_credential P]
     \<and> (\<forall>q \<in> {path, pe_identity P, pe_credential P}. fs_files d q = None \<and> fs_files d (path_dir q) = None
          \<and> path_dir q \<notin> {path, pe_identity P, pe_credential P})"

lemma secure_ok: "(\<forall>n. mlock n) \<Longrightarrow> \<exists>ss. NewSecureString mlock pw = Some ss \<and> Secure_Bytes (Some ss) = bytes_of pw"
proof -
  assume "\<forall>n. mlock n"
  then have "\<exists>ss. NewSecureString mlock pw = Some ss" by (simp add: NewSecureString_def Alloc_def Mlock_def Let_def)
  then show ?thesis using Secure_Bytes_New by blast
qed

definition opened_at :: "pool \<Rightarrow> string \<Rightarrow> bool" where
  "opened_at p path \<longleftrightarrow> (\<exists>u r od. pl_dbs p u = Some r \<and> pl_heap p r = Some od \<and> od_path od = path \<and> \<not> od_locked od)"

lemma install_opened: "\<not> od_locked od \<Longrightarrow> opened_at (send_event ev (install od p)) (od_path od)"
  unfolding opened_at_def
  by (rule exI[of _ "od_uuid od"], rule exI[of _ "pl_next p"]) (simp add: install_def Let_def)

lemma Open_password:
  assumes "Secure_Bytes (Some ss) = bytes_of pw" "pb_decode L dat (Some (pb_password L (bytes_of pw))) = Some db0" "pb_unlock L db0 = Some db"
  shows "\<exists>u p'. Open L (Some dat) (Some fp) path (PasswordCredential (Some ss)) p = (Ok u, p') \<and> opened_at p' path"
proof -
  let ?od = "\<lparr>od_uuid = extract_uuid L db path, od_name = path_base path, od_path = path, od_locked = False,
    od_db = Some db, od_fingerprint = fp, od_watcher = None\<rparr>"
  have "load_database L (Some dat) (Some fp) path (PasswordCredential (Some ss)) = Ok ?od"
    using assms by (simp add: load_database_def build_credentials_def PasswordCredential_def)
  then show ?thesis using install_opened[of ?od] by (simp add: Open_def)
qed

lemma open_quiet:
  assumes "pe_io P = quiet" "\<forall>n. pe_mlock P n" "fs_files (sys_now s) path = Some f"
    and "pb_decode (pe_pool P) (f_data f) (Some (pb_password (pe_pool P) (bytes_of pw))) = Some db0" "pb_unlock (pe_pool P) db0 = Some db"
  shows "\<exists>p' s'. openWithPassword P path pw p s = (None, p', s') \<and> sys_now s' = sys_now s \<and> opened_at p' path"
proof -
  obtain ss where ss: "NewSecureString (pe_mlock P) pw = Some ss" "Secure_Bytes (Some ss) = bytes_of pw"
    using secure_ok[OF assms(2)] by blast
  obtain s1 where s1: "call quiet (sys_read_file path) s = (Ok (f_data f), s1)" "sys_now s1 = sys_now s"
    using read_quiet[OF assms(3)] by blast
  obtain fp s2 where s2: "call quiet (FingerprintFile (sl_sha256 (pe_save P)) path) s1 = (Ok fp, s2)" "sys_now s2 = sys_now s1"
    by (simp add: call_quiet FingerprintFile_def s1(2) assms(3))
  obtain u p' where "Open (pe_pool P) (Some (f_data f)) (Some fp) path (PasswordCredential (Some ss)) p = (Ok u, p')" "opened_at p' path"
    using Open_password[OF ss(2) assms(4,5)] by blast
  then show ?thesis
    using ss(1) s1 s2 by (simp add: openWithPassword_def assms(1))
qed

text \<open>A disk on which a login with the token finds the password \<open>pw\<close>, and the password opens
  the database.\<close>

definition login_ready :: "('id, 'rc) pam_env \<Rightarrow> string \<Rightarrow> bytes \<Rightarrow> string \<Rightarrow> fs \<Rightarrow> bool" where
  "login_ready P path token pw d \<longleftrightarrow>
     (\<exists>f f1 f2 identity cred db0 db.
        fs_files d path = Some f \<and> fs_files d (pe_identity P) = Some f1 \<and> fs_files d (pe_credential P) = Some f2
        \<and> OpenIdentity (pe_age P) (f_data f1) token = Some identity \<and> OpenCredential (pe_age P) (f_data f2) identity = Some cred
        \<and> pc_password cred = pw \<and> pb_decode (pe_pool P) (f_data f) (Some (pb_password (pe_pool P) (bytes_of pw))) = Some db0
        \<and> pb_unlock (pe_pool P) db0 = Some db)"

lemma ready_password:
  assumes "pe_io P = quiet" "login_ready P path token pw (sys_now s)"
  shows "\<exists>s'. pam_password P path token s = (Ok pw, s') \<and> sys_now s' = sys_now s"
proof -
  obtain f f1 f2 identity cred where
    files: "fs_files (sys_now s) path = Some f" "fs_files (sys_now s) (pe_identity P) = Some f1" "fs_files (sys_now s) (pe_credential P) = Some f2" and
    seal: "OpenIdentity (pe_age P) (f_data f1) token = Some identity" "OpenCredential (pe_age P) (f_data f2) identity = Some cred" and
    pw: "pc_password cred = pw"
    using assms(2) unfolding login_ready_def by blast
  from password_quiet[OF assms(1), of s path token] obtain t0 where
    t0: "sys_now t0 = sys_now s" "pam_password P path token s = pam_existing P path token True t0"
    using files by (auto simp: Let_def)
  obtain t1 where t1: "call quiet (sys_read_file (pe_identity P)) t0 = (Ok (f_data f1), t1)" "sys_now t1 = sys_now s"
    using read_quiet[of t0 "pe_identity P" f1] files(2) t0(1) by auto
  obtain t2 where t2: "call quiet (sys_read_file (pe_credential P)) t1 = (Ok (f_data f2), t2)" "sys_now t2 = sys_now s"
    using read_quiet[of t1 "pe_credential P" f2] files(3) t1(2) by auto
  show ?thesis
    using t1(1) t2
    by (simp add: t0(2) pam_existing_def ReadSealedIdentity_def ReadSealedCredential_def andthen_def or_fail_def return_io_def assms(1) seal pw)
qed

lemma ready_open:
  assumes "pe_io P = quiet" "\<forall>n. pe_mlock P n" "login_ready P path token pw (sys_now s)"
  shows "\<exists>p' s'. openWithPassword P path pw p s = (None, p', s') \<and> sys_now s' = sys_now s \<and> opened_at p' path"
  using assms(3) open_quiet[OF assms(1,2)] unfolding login_ready_def by blast

lemma ready_login:
  assumes "pe_io P = quiet" "\<forall>n. pe_mlock P n" "login_ready P path token pw (sys_now s)"
  shows "\<exists>p' s'. unlockOrBootstrapWithPAM P path token p s = (None, p', s') \<and> opened_at p' path \<and> sys_now s' = sys_now s"
proof -
  obtain s1 where s1: "pam_password P path token s = (Ok pw, s1)" "sys_now s1 = sys_now s"
    using ready_password[OF assms(1,3)] by blast
  have "login_ready P path token pw (sys_now s1)" using assms(3) s1(2) by simp
  from ready_open[OF assms(1,2) this] obtain p' s' where
    "openWithPassword P path pw p s1 = (None, p', s')" "sys_now s' = sys_now s1" "opened_at p' path" by blast
  then show ?thesis using s1 by (simp add: unlockOrBootstrapWithPAM_def)
qed

text \<open>The first login leaves such a disk.\<close>

lemma bootstrap_ready:
  assumes "account_ok P path token" and "places_ok P path d"
  shows "\<exists>pw s1. pam_password P path token (sys_start d) = (Ok pw, s1) \<and> login_ready P path token pw (sys_now s1)"
proof -
  obtain identity secret cred x1 x2 dat db0 db where
    io: "pe_io P = quiet" "\<forall>n. pe_mlock P n" "age_ok (pe_age P)" and
    gen: "ag_generate (pe_age P) = Some identity" "pe_secret P = Some secret" "secret \<noteq> []" and
    cred: "NewRandomDBCredential (Some secret) (pe_now P) path = Some cred" and
    seal: "SealIdentity (pe_age P) identity token = Some x1" "SealCredential (pe_age P) cred (ag_recipient (pe_age P) identity) = Some x2" and
    db: "sl_encode (pe_save P) (named_default (pe_new_db P (bytes_of (pc_password cred)))) = Some dat"
      "pb_decode (pe_pool P) dat (Some (pb_password (pe_pool P) (bytes_of (pc_password cred)))) = Some db0"
      "pb_unlock (pe_pool P) db0 = Some db"
    using assms(1) unfolding account_ok_def by blast
  note places = assms(2)[unfolded places_ok_def]
  let ?pw = "pc_password cred"
  obtain ss where ss: "NewSecureString (pe_mlock P) ?pw = Some ss" "Secure_Bytes (Some ss) = bytes_of ?pw"
    using secure_ok[OF io(2)] by blast
  from password_quiet[OF io(1), of "sys_start d" path token] obtain s0 where
    s0: "sys_now s0 = d" "pam_password P path token (sys_start d) = pam_bootstrap P path token s0"
    using places by (auto simp: sys_start_def Let_def)
  obtain sa where sa: "CreateDatabase (pe_save P) quiet (pe_short P) (pe_new_db P) path (bytes_of ?pw) s0 = (Ok (), sa)" "wrote path dat s0 sa"
    using create_quiet[of s0 path "pe_save P" "pe_new_db P" "bytes_of ?pw" dat "pe_short P"] places db(1) by (auto simp: s0(1))
  obtain sb where sb: "WritePrivateFile quiet (pe_short P) (pe_identity P) x1 sa = (Ok (), sb)" "wrote (pe_identity P) x1 sa sb"
    using write_private_quiet[of sa "pe_identity P" "pe_short P" x1] places sa(2) by (auto simp: wrote_def s0(1))
  obtain sc where sc: "WritePrivateFile quiet (pe_short P) (pe_credential P) x2 sb = (Ok (), sc)" "wrote (pe_credential P) x2 sb sc"
    using write_private_quiet[of sb "pe_credential P" "pe_short P" x2] places sa(2) sb(2) by (auto simp: wrote_def s0(1))
  have boot: "pam_password P path token (sys_start d) = (Ok ?pw, sc)"
    using sa(1) sb(1) sc(1) ss
    by (simp add: s0(2) pam_bootstrap_def gen cred wrap_and_create_def lift_create_def andthen_def try_io_def or_fail_def return_io_def
        WriteSealedIdentity_def WriteSealedCredential_def seal io(1))
  obtain f f1 f2 where files: "fs_files (sys_now sc) path = Some f" "f_data f = dat"
    "fs_files (sys_now sc) (pe_identity P) = Some f1" "f_data f1 = x1"
    "fs_files (sys_now sc) (pe_credential P) = Some f2" "f_data f2 = x2"
    using sa(2) sb(2) sc(2) places by (auto simp: wrote_def)
  have "secret \<noteq> []" "path \<noteq> []" using gen(3) places by auto
  note opens = sealed_identity[OF io(3) seal(1), folded files(4)] sealed_credential[OF io(3) cred _ _ seal(2), folded files(6)]
  have "login_ready P path token ?pw (sys_now sc)"
    unfolding login_ready_def using files(1,3,5) db(2,3)[folded files(2)] opens \<open>secret \<noteq> []\<close> \<open>path \<noteq> []\<close> by blast
  with boot show ?thesis by blast
qed

text \<open>C24. What the first login makes, the next one opens: on an account with none of the three
  files, the login creates the database, seals its random password and opens it; and on the
  disk it leaves, every later login with the same token, on whatever pool, succeeds and
  opens the database again without changing a file.\<close>

theorem first_login_then_next:
  assumes "account_ok P path token" and "places_ok P path d"
  shows "\<exists>p1 s1. unlockOrBootstrapWithPAM P path token p (sys_start d) = (None, p1, s1) \<and> opened_at p1 path
           \<and> (\<forall>p2. \<exists>p3 s3. unlockOrBootstrapWithPAM P path token p2 s1 = (None, p3, s3) \<and> opened_at p3 path
                        \<and> sys_now s3 = sys_now s1)"
proof -
  have quiet: "pe_io P = quiet" "\<forall>n. pe_mlock P n" using assms(1) by (simp_all add: account_ok_def)
  obtain pw s1 where s1: "pam_password P path token (sys_start d) = (Ok pw, s1)" "login_ready P path token pw (sys_now s1)"
    using bootstrap_ready[OF assms] by blast
  obtain p1 s2 where s2: "openWithPassword P path pw p s1 = (None, p1, s2)" "sys_now s2 = sys_now s1" "opened_at p1 path"
    using ready_open[OF quiet s1(2)] by blast
  have "\<exists>p3 s3. unlockOrBootstrapWithPAM P path token p2 s2 = (None, p3, s3) \<and> opened_at p3 path \<and> sys_now s3 = sys_now s2" for p2
    by (rule ready_login[OF quiet]) (use s1(2) s2(2) in simp)
  then show ?thesis
    using s1(1) s2 by (intro exI[of _ p1] exI[of _ s2]) (simp add: unlockOrBootstrapWithPAM_def)
qed

text \<open>A fresh account.\<close>

definition fresh_disk :: fs where
  "fresh_disk = \<lparr>fs_files = Map.empty, fs_dirs = Map.empty, fs_clock = 5, fs_next_ino = 2\<rparr>"

lemma sample_account_ok: "account_ok sample_account ''/d'' token"
  using sample_age_ok sample_seals
  by (simp add: account_ok_def sample_account_def sample_age_def sample_save_lib_def sample_pool_lib_def)

lemma sample_places: "places_ok sample_account ''/d'' fresh_disk"
  by (simp add: places_ok_def sample_account_def fresh_disk_def) code_simp

theorem first_login_then_next_witness:
  "\<exists>p1 s1. unlockOrBootstrapWithPAM sample_account ''/d'' [9, 9] (NewDatabasePool None) (sys_start fresh_disk) = (None, p1, s1)
           \<and> opened_at p1 ''/d''
           \<and> (\<forall>p2. \<exists>p3 s3. unlockOrBootstrapWithPAM sample_account ''/d'' [9, 9] p2 s1 = (None, p3, s3) \<and> opened_at p3 ''/d''
                        \<and> sys_now s3 = sys_now s1)"
  by (rule first_login_then_next[OF sample_account_ok sample_places])

end
