(* ===== verification/Ctl_Args.thy ===== *)
theory Ctl_Args
  imports Secret_Service
begin

text \<open>
  The arguments of the command-line client \<open>kpxcctl\<close> (\<open>cmd/kpxcctl/main.go\<close>): the options of
  \<open>ssh generate\<close>, \<open>ssh import\<close> and \<open>adopt-default\<close>, with the number that \<open>fmt.Sscanf\<close> reads.
\<close>

section \<open>Reading a number\<close>

definition is_digit :: "char \<Rightarrow> bool" where
  "is_digit c \<longleftrightarrow> (let n = (of_char c :: nat) in 48 \<le> n \<and> n \<le> 57)"

definition digits_value :: "string \<Rightarrow> nat" where
  "digits_value ds = foldl (\<lambda>n c. n * 10 + (of_char c - 48)) 0 ds"

text \<open>Leading white space is skipped; a line feed there is an error.\<close>

fun scan_skip :: "string \<Rightarrow> string option" where
  "scan_skip [] = Some []"
| "scan_skip (c # cs) = (if (of_char c :: nat) = 10 then None else if is_space c then scan_skip cs else Some (c # cs))"

text \<open>The verb \<open>%d\<close> into an \<open>int\<close>: a sign, digits, and whatever follows; none on an error, when
  the variable keeps its zero.\<close>

definition scan_int :: "string \<Rightarrow> int option" where
  "scan_int s =
     (case scan_skip s of
        None \<Rightarrow> None
      | Some t \<Rightarrow>
          (let negative = (t \<noteq> [] \<and> hd t = CHR ''-'');
               u = (if t \<noteq> [] \<and> (hd t = CHR ''-'' \<or> hd t = CHR ''+'') then tl t else t);
               ds = takeWhile is_digit u;
               i = (if negative then - int (digits_value ds) else int (digits_value ds))
           in if ds = [] then None else if - (2 ^ 63) \<le> i \<and> i < 2 ^ 63 then Some i else None))"

definition scan_bits :: "string \<Rightarrow> u32" where
  "scan_bits s = (case scan_int s of None \<Rightarrow> 0 | Some b \<Rightarrow> word_of_int b)"

section \<open>Options\<close>

record generate_options =
  go_type :: string
  go_bits :: u32
  go_comment :: string

definition generate_defaults :: generate_options where
  "generate_defaults = \<lparr>go_type = ''ed25519'', go_bits = 0, go_comment = []\<rparr>"

text \<open>An option without a value, and any other argument, is ignored.\<close>

fun generate_loop :: "string list \<Rightarrow> generate_options \<Rightarrow> generate_options" where
  "generate_loop [] g = g"
| "generate_loop [a] g = g"
| "generate_loop (a # v # rest) g =
     (if a = ''--type'' then generate_loop rest (g\<lparr>go_type := v\<rparr>)
      else if a = ''--bits'' then generate_loop rest (g\<lparr>go_bits := scan_bits v\<rparr>)
      else if a = ''--comment'' then generate_loop rest (g\<lparr>go_comment := v\<rparr>)
      else generate_loop (v # rest) g)"

record import_options =
  im_passphrase :: string
  im_delete_after :: bool

definition import_defaults :: import_options where
  "import_defaults = \<lparr>im_passphrase = [], im_delete_after = False\<rparr>"

fun import_loop :: "string list \<Rightarrow> import_options \<Rightarrow> import_options" where
  "import_loop [] g = g"
| "import_loop [a] g = (if a = ''--delete-after'' then g\<lparr>im_delete_after := True\<rparr> else g)"
| "import_loop (a # v # rest) g =
     (if a = ''--passphrase'' then import_loop rest (g\<lparr>im_passphrase := v\<rparr>)
      else if a = ''--delete-after'' then import_loop (v # rest) (g\<lparr>im_delete_after := True\<rparr>)
      else import_loop (v # rest) g)"

text \<open>Whether to replace, and the source; none for a superfluous argument.\<close>

fun adopt_loop :: "string list \<Rightarrow> bool \<Rightarrow> string \<Rightarrow> (bool \<times> string) option" where
  "adopt_loop [] replace source = Some (replace, source)"
| "adopt_loop (a # rest) replace source =
     (if a = ''--replace'' then adopt_loop rest True source
      else if source = [] then adopt_loop rest replace a
      else None)"

definition adopt_args :: "string list \<Rightarrow> (bool \<times> string) option" where
  "adopt_args args =
     (case adopt_loop args False [] of
        None \<Rightarrow> None
      | Some (replace, source) \<Rightarrow> if source = [] then None else Some (replace, source))"

section \<open>What is written is what is read\<close>

lemma digit_char: "n < 10 \<Longrightarrow> is_digit (char_of (48 + n)) \<and> of_char (char_of (48 + n) :: char) - (48 :: nat) = n"
  by (simp add: is_digit_def)

lemma dec_digits: "\<forall>c \<in> set (dec_string n). is_digit c"
proof (induction n rule: dec_string.induct)
  case (1 n)
  then show ?case using digit_char[of n] digit_char[of "n mod 10"] by (subst dec_string.simps) auto
qed

lemma dec_value: "digits_value (dec_string n) = n"
proof (induction n rule: dec_string.induct)
  case (1 n)
  then show ?case
    using digit_char[of n] digit_char[of "n mod 10"] by (subst dec_string.simps) (auto simp: digits_value_def)
qed

lemma scan_dec: "int n < 2 ^ 63 \<Longrightarrow> scan_int (dec_string n) = Some (int n)"
proof -
  assume n: "int n < 2 ^ 63"
  obtain c cs where s: "dec_string n = c # cs" using dec_string_nonempty[of n] by (cases "dec_string n") auto
  have c: "is_digit c" using dec_digits[of n] s by simp
  then have "scan_skip (dec_string n) = Some (dec_string n)" "c \<noteq> CHR ''-''" "c \<noteq> CHR ''+''"
    by (auto simp: s is_digit_def is_space_def Let_def)
  moreover have "takeWhile is_digit (dec_string n) = dec_string n" using dec_digits by simp
  ultimately show ?thesis using n dec_value[of n] s by (simp add: scan_int_def Let_def)
qed

datatype generate_option = WithType string | WithBits nat | WithComment string

fun render_option :: "generate_option \<Rightarrow> string list" where
  "render_option (WithType t) = [''--type'', t]"
| "render_option (WithBits n) = [''--bits'', dec_string n]"
| "render_option (WithComment c) = [''--comment'', c]"

fun apply_option :: "generate_option \<Rightarrow> generate_options \<Rightarrow> generate_options" where
  "apply_option (WithType t) g = g\<lparr>go_type := t\<rparr>"
| "apply_option (WithBits n) g = g\<lparr>go_bits := word_of_nat n\<rparr>"
| "apply_option (WithComment c) g = g\<lparr>go_comment := c\<rparr>"

fun small_bits :: "generate_option \<Rightarrow> bool" where
  "small_bits (WithBits n) = (n < 2 ^ 32)"
| "small_bits _ = True"

text \<open>Options are read back as they were written, in any order and number, the last one of a
  kind winning; a value that looks like an option is a value, and every number below
  \<open>2^32\<close> comes through.\<close>

theorem options_read_back:
  assumes "\<forall>opt \<in> set opts. small_bits opt"
  shows "generate_loop (concat (map render_option opts)) g = fold apply_option opts g"
  using assms
proof (induction opts arbitrary: g)
  case (Cons opt opts)
  have "scan_bits (dec_string n) = word_of_nat n" if "n < 2 ^ 32" for n
    using scan_dec[of n] that by (simp add: scan_bits_def)
  with Cons show ?case by (cases opt) auto
qed simp

theorem options_read_back_witness:
  "generate_loop [''--comment'', ''--type'', ''--bits'', dec_string 4096, ''--type'', ''rsa''] generate_defaults
     = \<lparr>go_type = ''rsa'', go_bits = 4096, go_comment = ''--type''\<rparr>"
  using options_read_back[of "[WithComment ''--type'', WithBits 4096, WithType ''rsa'']" generate_defaults]
  by (simp add: generate_defaults_def)

end
