(* ===== verification/Ctl.thy ===== *)
theory Ctl
  imports Pam_Contract Ctl_Args Go_Json
begin

text \<open>
  The command-line client \<open>kpxcctl\<close> (\<open>cmd/kpxcctl/main.go\<close>) on the daemon's interface. A
  command calls the methods of \<open>Daemon_API\<close> over the session bus, which carries only strings
  that are valid UTF-8 without null characters: a call or a reply with another string fails
  to be encoded, and the caller gets an error. A panic in a method ends the daemon. The result of a
  command is what it shows, as rows of columns (their layout is left out), or an error, when it
  exits with status 1.
\<close>

section \<open>The bus\<close>

datatype ctl_error =
    Usage
  | NoBus
  | NoDaemon
  | Unsendable
  | CallFailed api_error
  | NotDone
  | NoSecret
  | CannotUnseal
  | CannotDecrypt
  | CannotReadKey
  | NoLoadedKey
  | Disabled
  | ConfigUnreadable
  | UnknownMode
  | CannotCreateDir
  | CannotWriteConf
  | DefaultExists
  | CredentialExists
  | NoIdentityFile
  | NoFreshCredential
  | CannotRekey
  | CannotSeal

definition sendable :: "string \<Rightarrow> bool" where
  "sendable s \<longleftrightarrow> valid_utf8 s \<and> CHR 0x00 \<notin> set s"

text \<open>The daemon the bus knows, none when it is not running, and the disk.\<close>

record ('sg, 'pk) desk =
  dk_daemon :: "('sg, 'pk) api option"
  dk_disk :: sys

type_synonym ('sg, 'pk, 'r) bus_method =
  "('sg, 'pk) api \<Rightarrow> sys \<Rightarrow> ((api_error + 'r) \<times> ('sg, 'pk) api \<times> sys) run"

definition bus_call ::
  "string list \<Rightarrow> ('r \<Rightarrow> string list) \<Rightarrow> ('sg, 'pk, 'r) bus_method \<Rightarrow> ('sg, 'pk) desk \<Rightarrow> (ctl_error + 'r) \<times> ('sg, 'pk) desk" where
  "bus_call args strings method s =
     (if \<not> list_all sendable args then (Err Unsendable, s)
      else (case dk_daemon s of
              None \<Rightarrow> (Err NoDaemon, s)
            | Some a \<Rightarrow>
                (case method a (dk_disk s) of
                   Panicked \<Rightarrow> (Err NoDaemon, s\<lparr>dk_daemon := None\<rparr>)
                 | Returned (r, a', d) \<Rightarrow>
                     ((case r of
                         Inl e \<Rightarrow> Err (CallFailed e)
                       | Inr v \<Rightarrow> if list_all sendable (strings v) then Ok v else Err Unsendable),
                      s\<lparr>dk_daemon := Some a', dk_disk := d\<rparr>))))"

definition asks :: "(('sg, 'pk) api \<Rightarrow> api_error + 'r) \<Rightarrow> ('sg, 'pk, 'r) bus_method" where
  "asks f a d = Returned (f a, a, d)"

definition changes :: "(('sg, 'pk) api \<Rightarrow> (api_error + 'r) \<times> ('sg, 'pk) api) \<Rightarrow> ('sg, 'pk, 'r) bus_method" where
  "changes f a d = (case f a of (r, a') \<Rightarrow> Returned (r, a', d))"

definition risks :: "(('sg, 'pk) api \<Rightarrow> ((api_error + 'r) \<times> ('sg, 'pk) api) run) \<Rightarrow> ('sg, 'pk, 'r) bus_method" where
  "risks f a d = (case f a of Panicked \<Rightarrow> Panicked | Returned (r, a') \<Rightarrow> Returned (r, a', d))"

text \<open>Where a command runs: its name on the bus, what the daemon works with, the directories and
  the account of the user.\<close>

record ('sg, 'pk, 'id, 'rc) ctl_env =
  ct_bus :: bool
  ct_sender :: string
  ct_users :: bus_env
  ct_ssh :: "('sg, 'pk) ssh_lib"
  ct_attach :: attachment_lib
  ct_store :: key_store_lib
  ct_write :: write_env
  ct_order :: "pool \<Rightarrow> string list"
  ct_identities :: "('sg, 'pk) identities \<Rightarrow> string list"
  ct_account :: "('id, 'rc) pam_env"
  ct_sha :: "bytes \<Rightarrow> bytes"
  ct_env :: environment
  ct_uid_text :: string
  ct_config :: "config_error + config"

type_synonym ('sg, 'pk) ctl_result = "(ctl_error + string list list) \<times> ('sg, 'pk) desk"

text \<open>A command continues with the reply.\<close>

definition showing :: "(ctl_error + 'r) \<times> ('sg, 'pk) desk \<Rightarrow> ('r \<Rightarrow> ctl_error + string list list) \<Rightarrow> ('sg, 'pk) ctl_result" where
  "showing r f = (case r of (Inl e, s) \<Rightarrow> (Err e, s) | (Inr v, s) \<Rightarrow> (f v, s))"

section \<open>Unlocking and locking\<close>

text \<open>The daemon reads the file of the database from the disk.\<close>

definition disk_content :: "sys \<Rightarrow> string \<Rightarrow> bytes option" where
  "disk_content d path = map_option f_data (fs_files (sys_now d) path)"

definition disk_fingerprint :: "(bytes \<Rightarrow> bytes) \<Rightarrow> sys \<Rightarrow> string \<Rightarrow> file_fingerprint option" where
  "disk_fingerprint sha d path = map_option (fingerprint_file sha) (fs_files (sys_now d) path)"

definition unlockViaDBus ::
  "('sg, 'pk, 'id, 'rc) ctl_env \<Rightarrow> string \<Rightarrow> string \<Rightarrow> ('sg, 'pk) desk \<Rightarrow> ('sg, 'pk) ctl_result" where
  "unlockViaDBus E path password s =
     (if \<not> ct_bus E then (Err NoBus, s)
      else showing
        (bus_call [path, password] (\<lambda>_. [])
           (changes (UnlockDatabase (ct_users E) (pe_pool (ct_account E)) (pe_mlock (ct_account E))
              (disk_content (dk_disk s) path) (disk_fingerprint (sl_sha256 (pe_save (ct_account E))) (dk_disk s) path)
              (ct_sender E) path ''password'' (VString password))) s)
        (\<lambda>unlocked. if unlocked then Ok [] else Err NotDone))"

definition cmdUnlockPath ::
  "('sg, 'pk, 'id, 'rc) ctl_env \<Rightarrow> string \<Rightarrow> string option \<Rightarrow> ('sg, 'pk) desk \<Rightarrow> ('sg, 'pk) ctl_result" where
  "cmdUnlockPath E path secret s =
     (case secret of None \<Rightarrow> (Err NoSecret, s) | Some password \<Rightarrow> unlockViaDBus E path password s)"

text \<open>The password of the default database, from the sealed credential or typed.\<close>

definition default_password ::
  "('sg, 'pk, 'id, 'rc) ctl_env \<Rightarrow> string option \<Rightarrow> (ctl_error, string) prog" where
  "default_password E secret =
     (let P = ct_account E
      in andthen (fileExists (pe_io P) (pe_identity P)) (\<lambda>identity_there.
         andthen (if identity_there then fileExists (pe_io P) (pe_credential P) else return_io False) (\<lambda>both_there.
           (case secret of
              None \<Rightarrow> fail_io NoSecret
            | Some typed \<Rightarrow>
                if both_there then
                  andthen (or_fail (ReadSealedIdentity (pe_age P) (pe_io P) (pe_identity P)
                      (DerivePAMToken (ct_sha E) (bytes_of typed))) CannotUnseal) (\<lambda>identity.
                  andthen (or_fail (ReadSealedCredential (pe_age P) (pe_io P) (pe_credential P) identity) CannotDecrypt) (\<lambda>cred.
                  return_io (pc_password cred)))
                else return_io typed))))"

definition cmdUnlockDefault ::
  "('sg, 'pk, 'id, 'rc) ctl_env \<Rightarrow> string option \<Rightarrow> ('sg, 'pk) desk \<Rightarrow> ('sg, 'pk) ctl_result" where
  "cmdUnlockDefault E secret s =
     (case default_password E secret (dk_disk s) of
        (Inl e, d) \<Rightarrow> (Err e, s\<lparr>dk_disk := d\<rparr>)
      | (Inr password, d) \<Rightarrow> unlockViaDBus E (DefaultDatabasePath (ct_env E)) password (s\<lparr>dk_disk := d\<rparr>))"

definition cmdUnlock ::
  "('sg, 'pk, 'id, 'rc) ctl_env \<Rightarrow> string list \<Rightarrow> string option \<Rightarrow> ('sg, 'pk) desk \<Rightarrow> ('sg, 'pk) ctl_result" where
  "cmdUnlock E args secret s = (case args of [] \<Rightarrow> cmdUnlockDefault E secret s | path # _ \<Rightarrow> cmdUnlockPath E path secret s)"

definition cmdLock ::
  "('sg, 'pk, 'id, 'rc) ctl_env \<Rightarrow> string list \<Rightarrow> ('sg, 'pk) desk \<Rightarrow> ('sg, 'pk) ctl_result" where
  "cmdLock E args s =
     (if \<not> ct_bus E then (Err NoBus, s)
      else (case args of
              uuid # _ \<Rightarrow>
                if uuid = ''all'' then
                  showing (bus_call [] (\<lambda>_. []) (risks (\<lambda>a. API_LockAll (ct_users E) (ct_order E (ap_pool a)) (ct_sender E) a)) s) (\<lambda>_. Ok [])
                else
                  showing (bus_call [uuid] (\<lambda>_. []) (risks (LockDatabase (ct_users E) (ct_sender E) uuid)) s)
                    (\<lambda>locked. if locked then Ok [] else Err NotDone)
            | [] \<Rightarrow>
                showing (bus_call [] (\<lambda>_. []) (risks (\<lambda>a. API_LockAll (ct_users E) (ct_order E (ap_pool a)) (ct_sender E) a)) s) (\<lambda>_. Ok [])))"

section \<open>Listing and reading\<close>

definition bool_text :: "bool \<Rightarrow> string" where
  "bool_text b = (if b then ''true'' else ''false'')"

definition info_strings :: "database_info \<Rightarrow> string list" where
  "info_strings i = [di_uuid i, di_name i, di_path i]"

definition list_databases :: "('sg, 'pk, 'id, 'rc) ctl_env \<Rightarrow> ('sg, 'pk) desk \<Rightarrow> (ctl_error + database_info list) \<times> ('sg, 'pk) desk" where
  "list_databases E s =
     bus_call [] (\<lambda>is. concat (map info_strings is))
       (asks (\<lambda>a. API_ListDatabases (ct_users E) (ct_order E (ap_pool a)) (ct_sender E) a)) s"

text \<open>\<open>json.MarshalIndent\<close> with two spaces.\<close>

definition json_line :: "string \<Rightarrow> string \<Rightarrow> string" where
  "json_line key value = ''    '' @ json_string key @ '': '' @ value"

definition json_info :: "database_info \<Rightarrow> string list" where
  "json_info i =
     [json_line ''uuid'' (json_string (di_uuid i)) @ '','', json_line ''name'' (json_string (di_name i)) @ '','',
      json_line ''path'' (json_string (di_path i)) @ '','', json_line ''locked'' (bool_text (di_locked i))]"

fun json_infos :: "database_info list \<Rightarrow> string list" where
  "json_infos [] = []"
| "json_infos [i] = [''  {''] @ json_info i @ [''  }'']"
| "json_infos (i # is) = [''  {''] @ json_info i @ [''  },''] @ json_infos is"

definition cmdList :: "('sg, 'pk, 'id, 'rc) ctl_env \<Rightarrow> string list \<Rightarrow> ('sg, 'pk) desk \<Rightarrow> ('sg, 'pk) ctl_result" where
  "cmdList E args s =
     (if \<not> ct_bus E then (Err NoBus, s)
      else showing (list_databases E s)
        (\<lambda>is. if is = [] then Ok [[''No databases unlocked'']]
              else if args \<noteq> [] \<and> hd args = ''--json'' then Ok (map (\<lambda>l. [l]) ([''[''] @ json_infos is @ ['']'']))
              else Ok (map (\<lambda>i. [di_uuid i, di_name i, bool_text (di_locked i), di_path i]) is)))"

text \<open>\<open>getVariantString\<close> of a missing member prints a nil.\<close>

definition shown_field :: "(string \<rightharpoonup> string) \<Rightarrow> string \<Rightarrow> string" where
  "shown_field m k = (case m k of None \<Rightarrow> ''<nil>'' | Some v \<Rightarrow> v)"

text \<open>The strings of a reply with the fields of an entry.\<close>

definition field_strings :: "(string \<rightharpoonup> string) \<Rightarrow> string list" where
  "field_strings m = List.map_filter m [''title'', ''username'', ''url'', ''uuid'', ''dbuuid'']"

definition cmdGet :: "('sg, 'pk, 'id, 'rc) ctl_env \<Rightarrow> string list \<Rightarrow> ('sg, 'pk) desk \<Rightarrow> ('sg, 'pk) ctl_result" where
  "cmdGet E args s =
     (case args of
        uuid # path # _ \<Rightarrow>
          if \<not> ct_bus E then (Err NoBus, s)
          else showing (bus_call [uuid, path] field_strings (asks (GetEntry (ct_users E) (ct_sender E) uuid path)) s)
            (\<lambda>m. Ok [[shown_field m ''title''], [shown_field m ''username''], [shown_field m ''url'']])
      | _ \<Rightarrow> (Err Usage, s))"

definition cmdPing :: "('sg, 'pk, 'id, 'rc) ctl_env \<Rightarrow> ('sg, 'pk) desk \<Rightarrow> ('sg, 'pk) ctl_result" where
  "cmdPing E s =
     (if \<not> ct_bus E then (Err NoBus, s) else showing (bus_call [] (\<lambda>r. [r]) (asks (\<lambda>_. Ok Ping)) s) (\<lambda>r. Ok [[r]]))"

text \<open>Every form of the passkey command ends with status 1.\<close>

definition cmdPasskey :: "string list \<Rightarrow> ('sg, 'pk) desk \<Rightarrow> ('sg, 'pk) ctl_result" where
  "cmdPasskey args s = (case args of [] \<Rightarrow> (Err Usage, s) | a # _ \<Rightarrow> (Err (if a = ''create'' \<or> a = ''assert'' then Disabled else Usage), s))"

section \<open>SSH keys\<close>

definition key_strings :: "ssh_key_info \<Rightarrow> string list" where
  "key_strings k = [si_fingerprint k, si_comment k, si_type k, si_entry k, si_db_uuid k]"

definition list_keys ::
  "('sg, 'pk, 'id, 'rc) ctl_env \<Rightarrow> string \<Rightarrow> ('sg, 'pk) desk \<Rightarrow> (ctl_error + ssh_key_info list) \<times> ('sg, 'pk) desk" where
  "list_keys E uuid s =
     bus_call [uuid] (\<lambda>ks. concat (map key_strings ks))
       (asks (\<lambda>a. SshListKeys (ct_users E) (ct_ssh E) (case ap_agent a of None \<Rightarrow> [] | Some m \<Rightarrow> ct_identities E m) (ct_sender E) uuid a)) s"

definition first_or_empty :: "string list \<Rightarrow> string" where
  "first_or_empty args = (case args of [] \<Rightarrow> [] | a # _ \<Rightarrow> a)"

definition ssh_list :: "('sg, 'pk, 'id, 'rc) ctl_env \<Rightarrow> string list \<Rightarrow> ('sg, 'pk) desk \<Rightarrow> ('sg, 'pk) ctl_result" where
  "ssh_list E args s =
     showing (list_keys E (first_or_empty args) s)
       (\<lambda>ks. if ks = [] then Ok [[''No SSH keys loaded'']]
             else Ok (map (\<lambda>k. [si_fingerprint k, si_comment k, si_type k, si_entry k]) ks))"

definition ssh_add :: "('sg, 'pk, 'id, 'rc) ctl_env \<Rightarrow> string list \<Rightarrow> ('sg, 'pk) desk \<Rightarrow> ('sg, 'pk) ctl_result" where
  "ssh_add E args s =
     (case args of
        uuid # path # _ \<Rightarrow>
          showing (bus_call [uuid, path] (\<lambda>_. [])
             (changes (SshAddKey (ct_users E) (ct_ssh E) (ct_attach E) (ct_sender E) uuid path 0 False)) s) (\<lambda>_. Ok [])
      | _ \<Rightarrow> (Err Usage, s))"

definition ssh_remove :: "('sg, 'pk, 'id, 'rc) ctl_env \<Rightarrow> string list \<Rightarrow> ('sg, 'pk) desk \<Rightarrow> ('sg, 'pk) ctl_result" where
  "ssh_remove E args s =
     (case args of
        fp # _ \<Rightarrow> showing (bus_call [fp] (\<lambda>_. []) (changes (SshRemoveKey (ct_users E) (ct_sender E) fp)) s) (\<lambda>_. Ok [])
      | [] \<Rightarrow> (Err Usage, s))"

definition ssh_generate :: "('sg, 'pk, 'id, 'rc) ctl_env \<Rightarrow> string list \<Rightarrow> ('sg, 'pk) desk \<Rightarrow> ('sg, 'pk) ctl_result" where
  "ssh_generate E args s =
     (case args of
        uuid # path # opts \<Rightarrow>
          (let g = generate_loop opts generate_defaults
           in showing (bus_call [uuid, path, go_type g, go_comment g] (\<lambda>_. [])
                (SshGenerateKey (ct_users E) (ct_ssh E) (ct_store E) (ct_write E) (ct_sender E) uuid path (go_type g) (go_bits g) (go_comment g)) s)
                (\<lambda>_. Ok []))
      | _ \<Rightarrow> (Err Usage, s))"

text \<open>The key file is removed only after the daemon has reported success, and a failure to
  remove it does not matter.\<close>

definition ssh_import :: "('sg, 'pk, 'id, 'rc) ctl_env \<Rightarrow> string list \<Rightarrow> ('sg, 'pk) desk \<Rightarrow> ('sg, 'pk) ctl_result" where
  "ssh_import E args s =
     (case args of
        uuid # path # keyFile # opts \<Rightarrow>
          (let g = import_loop opts import_defaults
           in (case call (pe_io (ct_account E)) (sys_read_file keyFile) (dk_disk s) of
                 (Inl _, d) \<Rightarrow> (Err CannotReadKey, s\<lparr>dk_disk := d\<rparr>)
               | (Inr key, d) \<Rightarrow>
                   (case bus_call [uuid, path, im_passphrase g] (\<lambda>_. [])
                        (SshImportKey (ct_users E) (ct_ssh E) (ct_store E) (ct_write E) (ct_sender E) uuid path key (im_passphrase g))
                        (s\<lparr>dk_disk := d\<rparr>) of
                      (Inl e, s') \<Rightarrow> (Err e, s')
                    | (Inr _, s') \<Rightarrow>
                        (Ok [], if im_delete_after g
                                then s'\<lparr>dk_disk := snd (call (pe_io (ct_account E)) (sys_remove keyFile) (dk_disk s'))\<rparr> else s'))))
      | _ \<Rightarrow> (Err Usage, s))"

definition scan_strings :: "scanned_key \<Rightarrow> string list" where
  "scan_strings k = [sk_title k, sk_uuid k, sk_type k, sk_fingerprint k, sk_db_uuid k, sk_db_name k]"

definition ssh_scan :: "('sg, 'pk, 'id, 'rc) ctl_env \<Rightarrow> string list \<Rightarrow> ('sg, 'pk) desk \<Rightarrow> ('sg, 'pk) ctl_result" where
  "ssh_scan E args s =
     showing (bus_call [first_or_empty args] (\<lambda>ks. concat (map scan_strings ks))
        (asks (\<lambda>a. SshScanDatabase (ct_users E) (ct_ssh E) (ct_attach E) (ct_order E (ap_pool a)) (ct_sender E) (first_or_empty args) a)) s)
       (\<lambda>ks. if ks = [] then Ok [[''No SSH key entries found'']]
             else Ok (map (\<lambda>k. [sk_uuid k, sk_title k, sk_type k, sk_fingerprint k, sk_db_name k]) ks))"

definition ssh_show :: "('sg, 'pk, 'id, 'rc) ctl_env \<Rightarrow> string list \<Rightarrow> ('sg, 'pk) desk \<Rightarrow> ('sg, 'pk) ctl_result" where
  "ssh_show E args s =
     (case args of
        fp # _ \<Rightarrow>
          showing (list_keys E [] s)
            (\<lambda>ks. case List.find (\<lambda>k. si_fingerprint k = fp) ks of
                    None \<Rightarrow> Err NoLoadedKey
                  | Some k \<Rightarrow> Ok [[si_fingerprint k], [si_type k], [si_comment k], [si_db_uuid k], [si_entry k]])
      | [] \<Rightarrow> (Err Usage, s))"

definition test_challenge :: bytes where
  "test_challenge = bytes_of ''kpxcd-ssh-test-challenge''"

definition ssh_test_sign :: "('sg, 'pk, 'id, 'rc) ctl_env \<Rightarrow> string list \<Rightarrow> ('sg, 'pk) desk \<Rightarrow> ('sg, 'pk) ctl_result" where
  "ssh_test_sign E args s =
     (case args of
        fp # _ \<Rightarrow>
          showing (bus_call [fp] (\<lambda>_. []) (asks (SshTestSign (ct_users E) (ct_ssh E) (ct_sender E) fp test_challenge)) s)
            (\<lambda>sig. Ok [[dec_string (length sig)]])
      | [] \<Rightarrow> (Err Usage, s))"

text \<open>Diagnostics never fail: a refused call counts as no keys.\<close>

definition ssh_diag :: "('sg, 'pk, 'id, 'rc) ctl_env \<Rightarrow> ('sg, 'pk) desk \<Rightarrow> ('sg, 'pk) ctl_result" where
  "ssh_diag E s =
     (case list_keys E [] s of
        (r, s') \<Rightarrow>
          (let ks = (case r of Inl _ \<Rightarrow> [] | Inr ks \<Rightarrow> ks);
               mode = (case ct_config E of Inl _ \<Rightarrow> ''unknown'' | Inr cfg \<Rightarrow> ssh_mode (cfg_daemon cfg));
               sock = ct_env E ''SSH_AUTH_SOCK'';
               sock = (case ct_config E of Inl _ \<Rightarrow> sock
                       | Inr cfg \<Rightarrow> if sock = [] then os_expand (ct_env E) (ssh_socket_path (cfg_daemon cfg)) else sock)
           in (Ok ([mode] # [sock] # [dec_string (length ks)] # map (\<lambda>k. [si_type k, si_fingerprint k, si_comment k]) ks), s')))"

definition cmdSSH :: "('sg, 'pk, 'id, 'rc) ctl_env \<Rightarrow> string list \<Rightarrow> ('sg, 'pk) desk \<Rightarrow> ('sg, 'pk) ctl_result" where
  "cmdSSH E args s =
     (case args of
        [] \<Rightarrow> (Err Usage, s)
      | subcmd # rest \<Rightarrow>
          if \<not> ct_bus E then (Err NoBus, s)
          else if subcmd = ''list'' then ssh_list E rest s
          else if subcmd = ''add'' then ssh_add E rest s
          else if subcmd = ''remove'' then ssh_remove E rest s
          else if subcmd = ''generate'' then ssh_generate E rest s
          else if subcmd = ''import'' then ssh_import E rest s
          else if subcmd = ''export'' then (Err Disabled, s)
          else if subcmd = ''scan'' then ssh_scan E rest s
          else if subcmd = ''show'' then ssh_show E rest s
          else if subcmd = ''test-sign'' then ssh_test_sign E rest s
          else if subcmd = ''diag'' then ssh_diag E s
          else (Err Usage, s))"

end
