(* ===== verification/Ctl_Files.thy ===== *)
theory Ctl_Files
  imports Ctl
begin

text \<open>
  The commands of \<open>kpxcctl\<close> that write files: \<open>setup-ssh\<close>, which tells the session where the
  agent is, and \<open>adopt-default\<close>, which makes a copy of an existing database the default one,
  under a fresh random password sealed for the login. Then the dispatch of a command line.
\<close>

section \<open>Setting up the agent\<close>

definition setup_socket_path :: "('sg, 'pk, 'id, 'rc) ctl_env \<Rightarrow> config \<Rightarrow> string" where
  "setup_socket_path E cfg =
     (let path = os_expand (ct_env E) (ssh_socket_path (cfg_daemon cfg))
      in if is_abs path then path
         else let xdg = ct_env E ''XDG_RUNTIME_DIR'';
                  xdg = (if xdg = [] then ''/run/user/'' @ ct_uid_text E else xdg)
              in path_join [xdg, path])"

definition setup_config_home :: "environment \<Rightarrow> string" where
  "setup_config_home env =
     (if env ''XDG_CONFIG_HOME'' = [] then path_join [env ''HOME'', ''.config''] else env ''XDG_CONFIG_HOME'')"

definition agent_conf_dir :: "environment \<Rightarrow> string" where
  "agent_conf_dir env = path_join [setup_config_home env, ''environment.d'']"

definition agent_conf_path :: "environment \<Rightarrow> string" where
  "agent_conf_path env = path_join [agent_conf_dir env, ''kpxcd-ssh.conf'']"

definition dropin_dir :: "environment \<Rightarrow> string" where
  "dropin_dir env = path_join [setup_config_home env, ''systemd'', ''user'', ''kpxcd.service.d'']"

definition dropin_path :: "environment \<Rightarrow> string" where
  "dropin_path env = path_join [dropin_dir env, ''ssh-client.conf'']"

text \<open>\<open>os.WriteFile\<close>: open, write, close.\<close>

definition write_file :: "io \<Rightarrow> nat \<Rightarrow> string \<Rightarrow> nat \<Rightarrow> bytes \<Rightarrow> (io_error, unit) prog" where
  "write_file io short p mode dat =
     andthen (call io (sys_open_trunc p mode)) (\<lambda>_.
     andthen (try_io (write_data io short p dat)) (\<lambda>write_err.
     andthen (try_io (call io sys_noop)) (\<lambda>close_err.
       (case write_err of Inl e \<Rightarrow> fail_io e
        | Inr _ \<Rightarrow> (case close_err of Inl e \<Rightarrow> fail_io e | Inr _ \<Rightarrow> return_io ())))))"

text \<open>Write one file and remove the one of the other mode, whatever becomes of that.\<close>

definition write_conf :: "io \<Rightarrow> nat \<Rightarrow> string \<Rightarrow> string \<Rightarrow> string \<Rightarrow> string \<Rightarrow> (ctl_error, unit) prog" where
  "write_conf io short dir path content other =
     andthen (or_fail (call io (sys_mkdir_all dir 493)) CannotCreateDir) (\<lambda>_.
     andthen (or_fail (write_file io short path 420 (bytes_of content)) CannotWriteConf) (\<lambda>_.
     andthen (try_io (call io (sys_remove other))) (\<lambda>_. return_io ())))"

definition setupSSHAgentMode :: "('sg, 'pk, 'id, 'rc) ctl_env \<Rightarrow> config \<Rightarrow> (ctl_error, unit) prog" where
  "setupSSHAgentMode E cfg =
     write_conf (pe_io (ct_account E)) (pe_short (ct_account E)) (agent_conf_dir (ct_env E)) (agent_conf_path (ct_env E))
       (''SSH_AUTH_SOCK='' @ setup_socket_path E cfg @ newline) (dropin_path (ct_env E))"

definition setupSSHClientMode :: "('sg, 'pk, 'id, 'rc) ctl_env \<Rightarrow> (ctl_error, unit) prog" where
  "setupSSHClientMode E =
     write_conf (pe_io (ct_account E)) (pe_short (ct_account E)) (dropin_dir (ct_env E)) (dropin_path (ct_env E))
       (''[Service]'' @ newline @ ''PassEnvironment=SSH_AUTH_SOCK'' @ newline) (agent_conf_path (ct_env E))"

definition cmdSetupSSH :: "('sg, 'pk, 'id, 'rc) ctl_env \<Rightarrow> (ctl_error, unit) prog" where
  "cmdSetupSSH E =
     (case ct_config E of
        Inl _ \<Rightarrow> fail_io ConfigUnreadable
      | Inr cfg \<Rightarrow>
          if ssh_mode (cfg_daemon cfg) = ''agent'' then setupSSHAgentMode E cfg
          else if ssh_mode (cfg_daemon cfg) = ''client'' \<or> ssh_mode (cfg_daemon cfg) = ''proxy'' then setupSSHClientMode E
          else fail_io UnknownMode)"

section \<open>Adopting a database\<close>

definition loadOrCreateIdentity :: "('id, 'rc) pam_env \<Rightarrow> string \<Rightarrow> bytes \<Rightarrow> (io_error, 'id) prog" where
  "loadOrCreateIdentity P path token =
     andthen (fileExists (pe_io P) path) (\<lambda>there.
       if there then ReadSealedIdentity (pe_age P) (pe_io P) path token
       else (case ag_generate (pe_age P) of
               None \<Rightarrow> fail_io Failed
             | Some identity \<Rightarrow>
                 andthen (WriteSealedIdentity (pe_age P) (pe_io P) (pe_short P) path identity token) (\<lambda>_. return_io identity)))"

text \<open>The copy in the temporary file: mode, encoding, sync, close.\<close>

definition fill_copy :: "('id, 'rc) pam_env \<Rightarrow> string \<Rightarrow> database \<Rightarrow> (io_error, unit) prog" where
  "fill_copy P tmp db =
     andthen (call (pe_io P) (sys_chmod tmp mode_private_file)) (\<lambda>_.
     (case sl_lock_entries (pe_save P) db of
        (False, _) \<Rightarrow> fail_io Failed
      | (True, db1) \<Rightarrow>
          andthen (encode_to (pe_save P) (pe_io P) (pe_short P) tmp db1) (\<lambda>_.
          andthen (call (pe_io P) sys_noop) (\<lambda>_.
          call (pe_io P) sys_noop))))"

definition publish_copy :: "('id, 'rc) pam_env \<Rightarrow> string \<Rightarrow> string \<Rightarrow> bool \<Rightarrow> (io_error, unit) prog" where
  "publish_copy P tmp dest replace =
     andthen (if replace then return_io False else fileExists (pe_io P) dest) (\<lambda>there.
       if there then fail_io Exists else call (pe_io P) (sys_rename tmp dest))"

text \<open>The decoded source under new credentials.\<close>

definition rekeyed :: "('id, 'rc) pam_env \<Rightarrow> bytes \<Rightarrow> string \<Rightarrow> string \<Rightarrow> database option" where
  "rekeyed P dat sourcePassword destPassword =
     map_option (\<lambda>db. db\<lparr>db_credentials := Some (pb_password (pe_pool P) (bytes_of destPassword))\<rparr>)
       (Option.bind (pb_decode (pe_pool P) dat (Some (pb_password (pe_pool P) (bytes_of sourcePassword)))) (pb_unlock (pe_pool P)))"

text \<open>The temporary file is beside the destination under a name \<open>os.CreateTemp\<close> finds unused;
  it is removed at the end, when it has not been renamed.\<close>

definition copyAndRekeyDatabase ::
  "('id, 'rc) pam_env \<Rightarrow> string \<Rightarrow> string \<Rightarrow> string \<Rightarrow> string \<Rightarrow> bool \<Rightarrow> (io_error, unit) prog" where
  "copyAndRekeyDatabase P source dest sourcePassword destPassword replace =
     andthen (call (pe_io P) (sys_read_file source)) (\<lambda>dat.
       (case rekeyed P dat sourcePassword destPassword of
          None \<Rightarrow> fail_io Failed
        | Some db \<Rightarrow>
            andthen (EnsurePrivateDir (pe_io P) (path_dir dest)) (\<lambda>_.
            andthen (call (pe_io P) (sys_create_temp (pe_save P) dest)) (\<lambda>tmp.
            deferring (call (pe_io P) (sys_remove tmp))
              (andthen (fill_copy P tmp db) (\<lambda>_. publish_copy P tmp dest replace))))))"

text \<open>The checks before anything is asked, and the work after the passwords are typed.\<close>

definition adopt_checks :: "('id, 'rc) pam_env \<Rightarrow> bool \<Rightarrow> string \<Rightarrow> (ctl_error, unit) prog" where
  "adopt_checks P replace dest =
     (if replace then return_io ()
      else andthen (fileExists (pe_io P) dest) (\<lambda>db_there.
        if db_there then fail_io DefaultExists
        else andthen (fileExists (pe_io P) (pe_credential P)) (\<lambda>cred_there.
          if cred_there then fail_io CredentialExists else return_io ())))"

definition adopt_files ::
  "('id, 'rc) pam_env \<Rightarrow> bytes \<Rightarrow> string \<Rightarrow> string \<Rightarrow> string \<Rightarrow> bool \<Rightarrow> (ctl_error, unit) prog" where
  "adopt_files P token source dest sourcePassword replace =
     andthen (or_fail (loadOrCreateIdentity P (pe_identity P) token) NoIdentityFile) (\<lambda>identity.
       (case NewRandomDBCredential (pe_secret P) (pe_now P) dest of
          None \<Rightarrow> fail_io NoFreshCredential
        | Some cred \<Rightarrow>
            andthen (or_fail (copyAndRekeyDatabase P source dest sourcePassword (pc_password cred) replace) CannotRekey) (\<lambda>_.
            or_fail (WriteSealedCredential (pe_age P) (pe_io P) (pe_short P) (pe_credential P) cred
              (ag_recipient (pe_age P) identity)) CannotSeal)))"

text \<open>The running daemon locks the default database, if it has it open; no error matters.\<close>

definition lockDefaultInDaemon :: "('sg, 'pk, 'id, 'rc) ctl_env \<Rightarrow> ('sg, 'pk) desk \<Rightarrow> ('sg, 'pk) desk" where
  "lockDefaultInDaemon E s =
     (if \<not> ct_bus E then s
      else (case list_databases E s of
              (Inl _, s1) \<Rightarrow> s1
            | (Inr is, s1) \<Rightarrow>
                (case List.find (\<lambda>i. di_path i = DefaultDatabasePath (ct_env E)) is of
                   None \<Rightarrow> s1
                 | Some i \<Rightarrow> snd (bus_call [di_uuid i] (\<lambda>_. []) (risks (LockDatabase (ct_users E) (ct_sender E) (di_uuid i))) s1))))"

definition on_disk :: "(ctl_error, unit) prog \<Rightarrow> ('sg, 'pk) desk \<Rightarrow> ('sg, 'pk) ctl_result" where
  "on_disk p s = (case p (dk_disk s) of (Inl e, d) \<Rightarrow> (Err e, s\<lparr>dk_disk := d\<rparr>) | (Inr _, d) \<Rightarrow> (Ok [], s\<lparr>dk_disk := d\<rparr>))"

definition cmdAdoptDefault ::
  "('sg, 'pk, 'id, 'rc) ctl_env \<Rightarrow> string list \<Rightarrow> string option \<Rightarrow> string option \<Rightarrow> ('sg, 'pk) desk \<Rightarrow> ('sg, 'pk) ctl_result" where
  "cmdAdoptDefault E args sourceSecret loginSecret s =
     (case adopt_args args of
        None \<Rightarrow> (Err Usage, s)
      | Some (replace, source) \<Rightarrow>
          (case on_disk (adopt_checks (ct_account E) replace (DefaultDatabasePath (ct_env E))) s of
             (Inl e, s1) \<Rightarrow> (Err e, s1)
           | (Inr _, s1) \<Rightarrow>
               (let s2 = lockDefaultInDaemon E s1
                in case (sourceSecret, loginSecret) of
                     (Some sourcePassword, Some login) \<Rightarrow>
                       on_disk (adopt_files (ct_account E) (DerivePAMToken (ct_sha E) (bytes_of login)) source
                         (DefaultDatabasePath (ct_env E)) sourcePassword replace) s2
                   | _ \<Rightarrow> (Err NoSecret, s2))))"

section \<open>The command line\<close>

definition kpxcctl ::
  "('sg, 'pk, 'id, 'rc) ctl_env \<Rightarrow> string list \<Rightarrow> string option \<Rightarrow> string option \<Rightarrow> ('sg, 'pk) desk \<Rightarrow> ('sg, 'pk) ctl_result" where
  "kpxcctl E argv secret1 secret2 s =
     (case argv of
        [] \<Rightarrow> (Err Usage, s)
      | cmd # args \<Rightarrow>
          if cmd = ''unlock'' then cmdUnlock E args secret1 s
          else if cmd = ''lock'' then cmdLock E args s
          else if cmd = ''list'' then cmdList E args s
          else if cmd = ''get'' then cmdGet E args s
          else if cmd = ''ssh'' then cmdSSH E args s
          else if cmd = ''passkey'' then cmdPasskey args s
          else if cmd = ''adopt-default'' then cmdAdoptDefault E args secret1 secret2 s
          else if cmd = ''setup-ssh'' then on_disk (cmdSetupSSH E) s
          else if cmd = ''ping'' then cmdPing E s
          else if cmd = ''help'' \<or> cmd = ''--help'' \<or> cmd = ''-h'' then (Ok [], s)
          else (Err Usage, s))"

end
