(* ===== verification/Ctl_Contract.thy ===== *)
theory Ctl_Contract
  imports Ctl_Files Daemon_Contract
begin

text \<open>
  What the command-line client promises: another user's client reaches nothing; what the
  client reads of an entry has to be text; setting up the agent agrees with the daemon and
  leaves one configuration; and adopting a database changes the default one only as a whole
  and makes it the one the login opens, or loses its password when the last step fails.
\<close>

section \<open>Another user's client\<close>

lemma bus_call_denied:
  assumes "dk_daemon s = Some a" "\<And>d. method a d = Returned (Err e, a, d)"
  shows "bus_call args strings method s = (Err (if list_all sendable args then CallFailed e else Unsendable), s)"
proof -
  have "s\<lparr>dk_daemon := Some a, dk_disk := dk_disk s\<rparr> = s" using assms(1) by simp
  then show ?thesis using assms by (simp add: bus_call_def)
qed

definition denied :: "('sg, 'pk, 'id, 'rc) ctl_env \<Rightarrow> ('sg, 'pk) api \<Rightarrow> bool" where
  "denied E a \<longleftrightarrow> (\<exists>e. authorize (ct_users E) a (ct_sender E) = Some e)"

text \<open>A result that is an error and leaves everything.\<close>

definition refused :: "(ctl_error + 'r) \<times> ('sg, 'pk) desk \<Rightarrow> ('sg, 'pk) desk \<Rightarrow> bool" where
  "refused r s \<longleftrightarrow> (\<exists>e. r = (Err e, s))"

named_theorems refusals

lemma refused_error [refusals]: "refused (Err e, s) s"
  by (simp add: refused_def)

lemma refused_showing [refusals]: "refused r s \<Longrightarrow> refused (showing r f) s"
  by (auto simp: refused_def showing_def)

lemma refused_if [refusals]: "refused p s \<Longrightarrow> refused q s \<Longrightarrow> refused (if b then p else q) s"
  by simp

lemma refused_list [refusals]: "refused p s \<Longrightarrow> (\<And>x xs. refused (k x xs) s) \<Longrightarrow> refused (case l of [] \<Rightarrow> p | x # xs \<Rightarrow> k x xs) s"
  by (cases l) simp_all

lemma refused_option [refusals]: "refused p s \<Longrightarrow> (\<And>x. refused (k x) s) \<Longrightarrow> refused (case v of None \<Rightarrow> p | Some x \<Rightarrow> k x) s"
  by (cases v) simp_all

lemma refused_call:
  "dk_daemon s = Some a \<Longrightarrow> (\<And>d. method a d = Returned (Err e, a, d)) \<Longrightarrow> refused (bus_call args strings method s) s"
  using bus_call_denied unfolding refused_def by blast

lemma denied_calls:
  assumes "denied E a" "dk_daemon s = Some a"
  shows "refused (bus_call args1 strings1 (changes (UnlockDatabase (ct_users E) PL mlock c fp (ct_sender E) path t v)) s) s"
    "refused (bus_call args2 strings2 (risks (\<lambda>a. API_LockAll (ct_users E) (order a) (ct_sender E) a)) s) s"
    "refused (bus_call args3 strings3 (risks (LockDatabase (ct_users E) (ct_sender E) uuid)) s) s"
    "refused (bus_call args4 strings4 (asks (GetEntry (ct_users E) (ct_sender E) uuid path)) s) s"
    "refused (bus_call args5 strings5 (changes (SshAddKey (ct_users E) L A (ct_sender E) uuid path lifetime confirm)) s) s"
    "refused (bus_call args6 strings6 (changes (SshRemoveKey (ct_users E) (ct_sender E) fp')) s) s"
    "refused (bus_call args7 strings7 (SshGenerateKey (ct_users E) L K W (ct_sender E) uuid path t' bits comment) s) s"
    "refused (bus_call args8 strings8 (SshImportKey (ct_users E) L K W (ct_sender E) uuid path key pass) s) s"
    "refused (bus_call args9 strings9 (asks (\<lambda>a. SshScanDatabase (ct_users E) L A (order' a) (ct_sender E) uuid a)) s) s"
    "refused (bus_call args10 strings10 (asks (SshTestSign (ct_users E) L (ct_sender E) fp' dat)) s) s"
    "refused (list_databases E s) s"
    "refused (list_keys E u s) s"
proof -
  obtain e where e: "authorize (ct_users E) a (ct_sender E) = Some e" using assms(1) by (auto simp: denied_def)
  show "refused (bus_call args1 strings1 (changes (UnlockDatabase (ct_users E) PL mlock c fp (ct_sender E) path t v)) s) s"
    "refused (bus_call args2 strings2 (risks (\<lambda>a. API_LockAll (ct_users E) (order a) (ct_sender E) a)) s) s"
    "refused (bus_call args3 strings3 (risks (LockDatabase (ct_users E) (ct_sender E) uuid)) s) s"
    "refused (bus_call args4 strings4 (asks (GetEntry (ct_users E) (ct_sender E) uuid path)) s) s"
    "refused (bus_call args5 strings5 (changes (SshAddKey (ct_users E) L A (ct_sender E) uuid path lifetime confirm)) s) s"
    "refused (bus_call args6 strings6 (changes (SshRemoveKey (ct_users E) (ct_sender E) fp')) s) s"
    "refused (bus_call args7 strings7 (SshGenerateKey (ct_users E) L K W (ct_sender E) uuid path t' bits comment) s) s"
    "refused (bus_call args8 strings8 (SshImportKey (ct_users E) L K W (ct_sender E) uuid path key pass) s) s"
    "refused (bus_call args9 strings9 (asks (\<lambda>a. SshScanDatabase (ct_users E) L A (order' a) (ct_sender E) uuid a)) s) s"
    "refused (bus_call args10 strings10 (asks (SshTestSign (ct_users E) L (ct_sender E) fp' dat)) s) s"
    "refused (list_databases E s) s"
    "refused (list_keys E u s) s"
    unfolding list_databases_def list_keys_def
    by (rule refused_call[OF assms(2), where e = e]; simp add: asks_def changes_def risks_def api_methods e)+
qed

lemma denied_commands:
  assumes "denied E a" "dk_daemon s = Some a"
  shows "refused (unlockViaDBus E path pw s) s" "refused (cmdLock E args s) s" "refused (cmdList E args s) s"
    "refused (cmdGet E args s) s" "refused (ssh_list E args s) s" "refused (ssh_add E args s) s" "refused (ssh_remove E args s) s"
    "refused (ssh_generate E args s) s" "refused (ssh_scan E args s) s" "refused (ssh_show E args s) s"
    "refused (ssh_test_sign E args s) s"
  unfolding unlockViaDBus_def cmdLock_def cmdList_def cmdGet_def ssh_list_def ssh_add_def ssh_remove_def
    ssh_generate_def ssh_scan_def ssh_show_def ssh_test_sign_def Let_def
  by (intro refusals denied_calls[OF assms])+

text \<open>Commands that also read or write the disk leave the daemon as it is.\<close>

lemma refused_daemon: "refused r s \<Longrightarrow> dk_daemon (snd r) = dk_daemon s" "refused r s \<Longrightarrow> \<exists>e. fst r = Err e"
  by (auto simp: refused_def)

lemma on_disk_daemon [simp]: "dk_daemon (snd (on_disk p s)) = dk_daemon s"
  by (auto simp: on_disk_def split: prod.splits sum.splits)

lemma denied_unlock:
  assumes "denied E a" "dk_daemon s = Some a"
  shows "dk_daemon (snd (cmdUnlock E args x s)) = Some a" "\<exists>e. fst (cmdUnlock E args x s) = Err e"
proof -
  have unlock: "refused (unlockViaDBus E path pw (s\<lparr>dk_disk := d\<rparr>)) (s\<lparr>dk_disk := d\<rparr>)" for path pw d
    by (rule denied_commands[OF assms(1)]) (simp add: assms(2))
  have path: "refused (cmdUnlockPath E path x s) s" for path
    unfolding cmdUnlockPath_def by (intro refusals denied_commands[OF assms])
  have "dk_daemon (snd (cmdUnlockDefault E x s)) = Some a \<and> (\<exists>e. fst (cmdUnlockDefault E x s) = Err e)"
  proof (cases "default_password E x (dk_disk s)")
    case (Pair r d)
    then show ?thesis
      using refused_daemon[OF unlock[of "DefaultDatabasePath (ct_env E)" _ d]] assms(2)
      by (cases r) (simp_all add: cmdUnlockDefault_def)
  qed
  then show "dk_daemon (snd (cmdUnlock E args x s)) = Some a" "\<exists>e. fst (cmdUnlock E args x s) = Err e"
    using refused_daemon[OF path] assms(2) by (simp_all add: cmdUnlock_def split: list.split)
qed

lemma denied_import:
  assumes "denied E a" "dk_daemon s = Some a"
  shows "dk_daemon (snd (ssh_import E args s)) = Some a"
proof -
  have "refused (bus_call cargs strs (SshImportKey (ct_users E) (ct_ssh E) (ct_store E) (ct_write E) (ct_sender E) uuid path key pass)
      (s\<lparr>dk_disk := d\<rparr>)) (s\<lparr>dk_disk := d\<rparr>)" for cargs strs uuid path key pass d
    by (rule denied_calls[OF assms(1)]) (simp add: assms(2))
  then have import: "\<exists>e. bus_call cargs strs (SshImportKey (ct_users E) (ct_ssh E) (ct_store E) (ct_write E) (ct_sender E) uuid path key pass)
      (s\<lparr>dk_disk := d\<rparr>) = (Err e, s\<lparr>dk_disk := d\<rparr>)" for cargs strs uuid path key pass d
    unfolding refused_def by blast
  show ?thesis
  proof (cases "\<exists>uuid path kf opts. args = uuid # path # kf # opts")
    case True
    then obtain uuid path kf opts where args: "args = uuid # path # kf # opts" by blast
    obtain r d where read: "call (pe_io (ct_account E)) (sys_read_file kf) (dk_disk s) = (r, d)" by fastforce
    show ?thesis
    proof (cases r)
      case (Inr key)
      let ?g = "import_loop opts import_defaults"
      obtain e where "bus_call [uuid, path, im_passphrase ?g] (\<lambda>_. [])
          (SshImportKey (ct_users E) (ct_ssh E) (ct_store E) (ct_write E) (ct_sender E) uuid path key (im_passphrase ?g))
          (s\<lparr>dk_disk := d\<rparr>) = (Err e, s\<lparr>dk_disk := d\<rparr>)"
        using import by blast
      then show ?thesis using read assms(2) Inr by (simp add: ssh_import_def args Let_def)
    qed (simp add: ssh_import_def args Let_def read assms(2))
  next
    case False
    then have "ssh_import E args s = (Err Usage, s)" by (auto simp: ssh_import_def split: list.split)
    with assms(2) show ?thesis by simp
  qed
qed

lemma denied_ssh:
  assumes "denied E a" "dk_daemon s = Some a"
  shows "dk_daemon (snd (cmdSSH E args s)) = Some a"
proof -
  have "\<exists>e. list_keys E [] s = (Err e, s)" using denied_calls(12)[OF assms] by (simp add: refused_def)
  then have "dk_daemon (snd (ssh_diag E s)) = Some a" using assms(2) by (auto simp: ssh_diag_def Let_def)
  then show ?thesis
    using refused_daemon(1)[OF denied_commands(5)[OF assms]] refused_daemon(1)[OF denied_commands(6)[OF assms]]
      refused_daemon(1)[OF denied_commands(7)[OF assms]] refused_daemon(1)[OF denied_commands(8)[OF assms]]
      refused_daemon(1)[OF denied_commands(9)[OF assms]] refused_daemon(1)[OF denied_commands(10)[OF assms]]
      refused_daemon(1)[OF denied_commands(11)[OF assms]] denied_import[OF assms] assms(2)
    by (simp add: cmdSSH_def split: list.split)
qed

lemma denied_adopt:
  assumes "denied E a" "dk_daemon s = Some a"
  shows "dk_daemon (snd (cmdAdoptDefault E args x y s)) = Some a"
proof -
  have lock: "dk_daemon (lockDefaultInDaemon E s') = Some a" if "dk_daemon s' = Some a" for s'
    using denied_calls(11)[OF assms(1) that] that by (auto simp: lockDefaultInDaemon_def refused_def)
  have disk: "dk_daemon s' = Some a" if "on_disk p s = (r, s')" for p r s'
    using on_disk_daemon[of p s] that assms(2) by simp
  show ?thesis
    using lock disk assms(2) by (auto simp: cmdAdoptDefault_def Let_def split: option.split sum.split prod.split)
qed

text \<open>C11. Another user's client is powerless: whatever the command line and the passwords typed,
  a client whose bus name belongs to another user leaves the daemon's pool and
  agent as they are, and the commands that unlock, lock, list or read fail.\<close>

theorem foreign_client_powerless:
  assumes "dk_daemon s = Some a" and "ap_conn a" and "bu_uid_of (ct_users E) (ct_sender E) \<noteq> Some (bu_self (ct_users E))"
  shows "dk_daemon (snd (kpxcctl E argv x y s)) = Some a
    \<and> (\<forall>cmd args. argv = cmd # args \<longrightarrow> cmd \<in> {''unlock'', ''lock'', ''list'', ''get''} \<longrightarrow> (\<exists>e. fst (kpxcctl E argv x y s) = Err e))"
proof -
  have d: "denied E a"
    using assms(2,3) authorize_connected[of a "ct_users E" "ct_sender E"] by (auto simp: denied_def)
  note parts = refused_daemon[OF denied_commands(2)[OF d assms(1)]] refused_daemon[OF denied_commands(3)[OF d assms(1)]]
    refused_daemon[OF denied_commands(4)[OF d assms(1)]] denied_unlock[OF d assms(1)] denied_ssh[OF d assms(1)] denied_adopt[OF d assms(1)]
  have "dk_daemon (snd (cmdPing E s)) = Some a"
    using assms(1) by (auto simp: cmdPing_def bus_call_def asks_def showing_def)
  moreover have "dk_daemon (snd (cmdPasskey args s)) = Some a" for args
    using assms(1) by (simp add: cmdPasskey_def split: list.split)
  ultimately show ?thesis
    using parts assms(1) by (auto simp: kpxcctl_def split: list.split)
qed

text \<open>A client on a bus where another user is known too.\<close>

definition sample_write :: write_env where
  "sample_write =
     \<lparr>we_save = sample_save_lib, we_io = quiet, we_short = 0, we_backup = \<lambda>n. of_nat n, we_fresh = \<lambda>n. of_nat n, we_now = 0\<rparr>"

definition sample_ctl :: "string \<Rightarrow> (unit, unit, unit, unit) ctl_env" where
  "sample_ctl sender =
     \<lparr>ct_bus = True, ct_sender = sender, ct_users = sample_bus, ct_ssh = sample_lib, ct_attach = sample_attachments,
      ct_store = sample_store, ct_write = sample_write, ct_order = \<lambda>p. sorted_list_of_set (dom (pl_dbs p)),
      ct_identities = \<lambda>m. sorted_list_of_set (dom m), ct_account = sample_account, ct_sha = \<lambda>b. take 32 (b @ replicate 32 0),
      ct_env = \<lambda>x. if x = ''HOME'' then ''/home/u'' else [], ct_uid_text = ''1000'', ct_config = Ok DefaultConfig\<rparr>"

definition sample_desk :: "(unit, unit) desk" where
  "sample_desk = \<lparr>dk_daemon = Some sample_api, dk_disk = sys_start sample_disk\<rparr>"

theorem foreign_client_powerless_witness:
  "\<exists>e. fst (kpxcctl (sample_ctl '':1.8'') [''lock'', ''all''] None None sample_desk) = Err e"
proof -
  have "dk_daemon sample_desk = Some sample_api" "ap_conn sample_api"
    "bu_uid_of (ct_users (sample_ctl '':1.8'')) (ct_sender (sample_ctl '':1.8'')) \<noteq> Some (bu_self (ct_users (sample_ctl '':1.8'')))"
    by (simp_all add: sample_desk_def sample_api_def sample_ctl_def sample_bus_def)
  from foreign_client_powerless[OF this, of "[''lock'', ''all'']" None None] show ?thesis by simp
qed

section \<open>Replies that cannot be sent\<close>

text \<open>Bytes that are no UTF-8 at the front, or a null byte anywhere.\<close>

lemma binary_unsendable:
  "128 \<le> unat b \<Longrightarrow> unat b < 194 \<Longrightarrow> \<not> sendable (string_of (b # bs))"
  "b \<in> set bs \<Longrightarrow> b = 0 \<Longrightarrow> \<not> sendable (string_of bs)"
proof -
  assume b: "128 \<le> unat b" "unat b < 194"
  then have "code (char_of (unat b)) = unat b" using byte_less[of b] by simp
  with b show "\<not> sendable (string_of (b # bs))"
    by (simp add: sendable_def string_of_def valid_utf8_Cons rune_size_def)
next
  assume "b \<in> set bs" "b = 0"
  moreover have "char_of (unat (0 :: byte)) = CHR 0x00" by (simp add: char_of_def)
  ultimately show "\<not> sendable (string_of bs)" by (force simp: sendable_def string_of_def)
qed

text \<open>C32. Reading an entry works only if its UUID happens to be text: the daemon answers with
  the UUID as a string of its 16 bytes, which the bus refuses unless they are valid UTF-8 and
  not zero, so that for the others the command fails although the daemon found the entry and
  let the caller read it.\<close>

theorem get_needs_text_uuid:
  assumes "dk_daemon s = Some a" and "authorize (ct_users E) a (ct_sender E) = None"
    and "unlocked_object uuid (ap_pool a) = Ok (r, od)" and "findEntryByPath od path = Some e"
    and "\<not> sendable (string_of (uuid_bytes (entry_uuid e)))"
  shows "GetEntry (ct_users E) (ct_sender E) uuid path a = Ok (entry_fields e)
    \<and> (\<exists>err. fst (cmdGet E (uuid # path # rest) s) = Err err)"
proof -
  have get: "GetEntry (ct_users E) (ct_sender E) uuid path a = Ok (entry_fields e)"
    using assms(2-4) by (simp add: GetEntry_def)
  have "\<not> list_all sendable (field_strings (entry_fields e))"
    using assms(5) by (simp add: field_strings_def entry_fields_def List.map_filter_simps)
  then show ?thesis
    using get assms(1) by (simp add: cmdGet_def bus_call_def asks_def showing_def)
qed

text \<open>A database with an entry whose UUID is a small number.\<close>

definition sample_shelf :: open_database where
  "sample_shelf = sample_open\<lparr>od_db := Some (with_groups sample_tree sample_database)\<rparr>"

definition shelf_api :: "(unit, unit) api" where
  "shelf_api = sample_api\<lparr>ap_pool := install sample_shelf (NewDatabasePool None)\<rparr>"

theorem get_needs_text_uuid_witness:
  "\<exists>err. fst (cmdGet (sample_ctl '':1.7'') [''u'', ''in''] (sample_desk\<lparr>dk_daemon := Some shelf_api\<rparr>)) = Err err"
proof -
  let ?e = "sample_entry 11 [sample_value ''Title'' ''in'', sample_value ''Password'' ''pw'']"
  have daemon: "dk_daemon (sample_desk\<lparr>dk_daemon := Some shelf_api\<rparr>) = Some shelf_api" by simp
  have may: "authorize (ct_users (sample_ctl '':1.7'')) shelf_api (ct_sender (sample_ctl '':1.7'')) = None"
    by (simp add: authorize_def sample_ctl_def sample_bus_def shelf_api_def sample_api_def)
  have there: "unlocked_object ''u'' (ap_pool shelf_api) = Ok (0, sample_shelf\<lparr>od_watcher := Some 0\<rparr>)"
    by (simp add: unlocked_object_def Get_def shelf_api_def install_def Let_def NewDatabasePool_def sample_shelf_def sample_open_def)
  have entry: "findEntryByPath (sample_shelf\<lparr>od_watcher := Some 0\<rparr>) ''in'' = Some ?e"
    by code_simp
  have "(0 :: byte) \<in> set (uuid_bytes (entry_uuid ?e))" by code_simp
  then have "\<not> sendable (string_of (uuid_bytes (entry_uuid ?e)))" by (rule binary_unsendable(2)) simp
  from get_needs_text_uuid[OF daemon may there entry this, of "[]"] show ?thesis by simp
qed

section \<open>Setting up the agent\<close>

lemma split_slash_at: "split_slash (p @ slash # q) = split_slash p @ split_slash q"
proof (induction p)
  case (Cons c p)
  then show ?case by (cases "split_slash p") auto
qed simp

definition last_word :: "string \<Rightarrow> string" where
  "last_word p = rev (takeWhile (\<lambda>c. c \<noteq> slash) (rev p))"

lemma last_word_at: "slash \<notin> set w \<Longrightarrow> last_word (p @ slash # w) = w"
proof -
  assume "slash \<notin> set w"
  then have "takeWhile (\<lambda>c. c \<noteq> slash) (rev w @ slash # rev p) = rev w"
    by (subst takeWhile_append2) auto
  then show ?thesis by (simp add: last_word_def)
qed

lemma join_slash_snoc: "ws \<noteq> [] \<Longrightarrow> join_slash (ws @ [w]) = join_slash ws @ slash # w"
  by (induction ws rule: join_slash.induct) auto

lemma last_word_alone: "slash \<notin> set w \<Longrightarrow> last_word w = w"
proof -
  assume "slash \<notin> set w"
  then have "\<forall>c \<in> set (rev w). c \<noteq> slash" by auto
  then show ?thesis by (simp add: last_word_def takeWhile_eq_all_conv[THEN iffD2])
qed

lemma last_word_parts:
  assumes "slash \<notin> set w"
  shows "last_word (join_slash (ws @ [w])) = w" "last_word (slash # join_slash (ws @ [w])) = w"
proof -
  show "last_word (join_slash (ws @ [w])) = w"
    using last_word_alone[OF assms] last_word_at[OF assms] by (cases "ws = []") (simp_all add: join_slash_snoc)
  show "last_word (slash # join_slash (ws @ [w])) = w"
    using last_word_at[OF assms, of "[]"] last_word_at[OF assms, of "slash # join_slash ws"]
    by (cases "ws = []") (simp_all add: join_slash_snoc)
qed

lemma clean_parts_snoc:
  "slash \<notin> set w \<Longrightarrow> w \<noteq> [] \<Longrightarrow> w \<noteq> dot \<Longrightarrow> w \<noteq> dotdot
    \<Longrightarrow> \<exists>ws. clean_parts r (split_slash (p @ slash # w)) = ws @ [w]"
  by (simp add: clean_parts_def split_slash_at split_slash_word clean_step_def)

lemma last_word_join:
  assumes "p \<noteq> []" "w \<noteq> []" "w \<noteq> dot" "w \<noteq> dotdot" "slash \<notin> set w"
  shows "last_word (path_join [p, w]) = w"
proof -
  have join: "path_join [p, w] = path_clean (p @ slash # w)" using assms(1) by (simp add: path_join_def)
  obtain ws where ws: "clean_parts (is_abs (p @ slash # w)) (split_slash (p @ slash # w)) = ws @ [w]"
    using clean_parts_snoc[OF assms(5,2-4)] by blast
  have "join_slash (ws @ [w]) \<noteq> []" using assms(2) by (cases "ws = []") (simp_all add: join_slash_snoc)
  then have "path_clean (p @ slash # w) \<in> {join_slash (ws @ [w]), slash # join_slash (ws @ [w])}"
    unfolding path_clean_def Let_def ws by simp
  then show ?thesis using last_word_parts[OF assms(5)] unfolding join by auto
qed

lemma path_join_nonempty: "w \<noteq> [] \<Longrightarrow> path_join [p, w] \<noteq> []"
  by (cases "p = []") (simp_all add: path_join_def)

lemma setup_paths_differ: "agent_conf_path env \<noteq> dropin_path env"
proof -
  have "agent_conf_dir env \<noteq> []" "dropin_dir env \<noteq> []"
    by (auto simp: agent_conf_dir_def dropin_dir_def path_join_def)
  then have "last_word (agent_conf_path env) = ''kpxcd-ssh.conf''"
    unfolding agent_conf_path_def by (intro last_word_join) (simp_all add: dot_def dotdot_def)
  moreover have "last_word (dropin_path env) = ''ssh-client.conf''"
    unfolding dropin_path_def using \<open>dropin_dir env \<noteq> []\<close> by (intro last_word_join) (simp_all add: dot_def dotdot_def)
  ultimately show ?thesis by auto
qed

lemma write_conf_quiet:
  assumes "fs_files (sys_now s) dir = None" "path \<noteq> other"
  shows "\<exists>s'. write_conf quiet n dir path content other s = (Ok (), s')
    \<and> (\<exists>f. fs_files (sys_now s') path = Some f \<and> f_data f = bytes_of content) \<and> fs_files (sys_now s') other = None
    \<and> (\<forall>q. q \<noteq> path \<longrightarrow> q \<noteq> other \<longrightarrow> fs_files (sys_now s') q = fs_files (sys_now s) q)"
  using assms
  by (cases "fs_dirs (sys_now s) dir"; cases "fs_files (sys_now s) path"; cases "fs_files (sys_now s) other")
    (simp_all add: write_conf_def write_file_def andthen_def try_io_def or_fail_def return_io_def
      write_data_def sys_call_defs call_quiet set_file_def new_file_def bump_ino_def)

text \<open>C33. Setting up the agent agrees with the daemon: in the mode of the configuration, the
  session is told the very socket path the daemon will listen on, or the daemon is given the
  session's; the file of the other mode is gone, whichever was configured before; and no
  other file changes.\<close>

theorem setup_ssh_agrees:
  assumes "pe_io (ct_account E) = quiet" and "ct_config E = Ok cfg"
    and "ssh_mode (cfg_daemon cfg) \<in> {''agent'', ''client'', ''proxy''}"
    and "fs_files d (agent_conf_dir (ct_env E)) = None" and "fs_files d (dropin_dir (ct_env E)) = None"
    and "dk_disk s = sys_start d" and "ho_env H = ct_env E" and "ho_uid_text H = ct_uid_text E"
  shows "\<exists>s'. kpxcctl E [''setup-ssh''] x y s = (Ok [], s')
    \<and> (let now = fs_files (sys_now (dk_disk s')); agent = agent_conf_path (ct_env E); client = dropin_path (ct_env E)
       in (if ssh_mode (cfg_daemon cfg) = ''agent''
           then now client = None \<and> (\<exists>f. now agent = Some f \<and> f_data f = bytes_of (''SSH_AUTH_SOCK='' @ socket_path H cfg @ newline))
           else now agent = None \<and> (\<exists>f. now client = Some f))
          \<and> (\<forall>q. q \<noteq> agent \<longrightarrow> q \<noteq> client \<longrightarrow> now q = fs_files d q))"
proof -
  have socket: "setup_socket_path E cfg = socket_path H cfg"
    using assms(7,8) by (simp add: setup_socket_path_def socket_path_def Let_def)
  have now: "sys_now (sys_start d) = d" by (simp add: sys_start_def)
  note paths = setup_paths_differ[of "ct_env E"]
  have run: "kpxcctl E [''setup-ssh''] x y s = on_disk (cmdSetupSSH E) s" by (simp add: kpxcctl_def)
  show ?thesis
  proof (cases "ssh_mode (cfg_daemon cfg) = ''agent''")
    case True
    from write_conf_quiet[of "sys_start d" "agent_conf_dir (ct_env E)" "agent_conf_path (ct_env E)" "dropin_path (ct_env E)"
        "pe_short (ct_account E)" "''SSH_AUTH_SOCK='' @ socket_path H cfg @ newline"] assms(4) paths
    obtain s' f where
      "write_conf quiet (pe_short (ct_account E)) (agent_conf_dir (ct_env E)) (agent_conf_path (ct_env E))
         (''SSH_AUTH_SOCK='' @ socket_path H cfg @ newline) (dropin_path (ct_env E)) (sys_start d) = (Ok (), s')"
      "fs_files (sys_now s') (agent_conf_path (ct_env E)) = Some f" "f_data f = bytes_of (''SSH_AUTH_SOCK='' @ socket_path H cfg @ newline)"
      "fs_files (sys_now s') (dropin_path (ct_env E)) = None"
      "\<forall>q. q \<noteq> agent_conf_path (ct_env E) \<longrightarrow> q \<noteq> dropin_path (ct_env E) \<longrightarrow> fs_files (sys_now s') q = fs_files d q"
      by (auto simp: now)
    then show ?thesis
      by (simp add: run on_disk_def cmdSetupSSH_def assms(1,2,6) True setupSSHAgentMode_def socket Let_def)
  next
    case False
    let ?content = "''[Service]'' @ newline @ ''PassEnvironment=SSH_AUTH_SOCK'' @ newline"
    from write_conf_quiet[of "sys_start d" "dropin_dir (ct_env E)" "dropin_path (ct_env E)" "agent_conf_path (ct_env E)"
        "pe_short (ct_account E)" ?content] assms(5) paths
    obtain s' f where
      "write_conf quiet (pe_short (ct_account E)) (dropin_dir (ct_env E)) (dropin_path (ct_env E)) ?content
         (agent_conf_path (ct_env E)) (sys_start d) = (Ok (), s')"
      "fs_files (sys_now s') (dropin_path (ct_env E)) = Some f" "fs_files (sys_now s') (agent_conf_path (ct_env E)) = None"
      "\<forall>q. q \<noteq> dropin_path (ct_env E) \<longrightarrow> q \<noteq> agent_conf_path (ct_env E) \<longrightarrow> fs_files (sys_now s') q = fs_files d q"
      by (auto simp: now)
    then show ?thesis
      using assms(3) by (simp add: run on_disk_def cmdSetupSSH_def assms(1,2,6) False setupSSHClientMode_def Let_def)
  qed
qed

theorem setup_ssh_agrees_witness:
  "\<exists>s'. kpxcctl (sample_ctl '':1.7'') [''setup-ssh''] None None (sample_desk\<lparr>dk_disk := sys_start fresh_disk\<rparr>) = (Ok [], s')
     \<and> fs_files (sys_now (dk_disk s')) (dropin_path (ct_env (sample_ctl '':1.7''))) = None"
proof -
  let ?E = "sample_ctl '':1.7''" and ?H = "sample_host\<lparr>ho_env := ct_env (sample_ctl '':1.7'')\<rparr>"
  let ?s = "sample_desk\<lparr>dk_disk := sys_start fresh_disk\<rparr>"
  have "pe_io (ct_account ?E) = quiet" "ct_config ?E = Ok DefaultConfig" "ssh_mode (cfg_daemon DefaultConfig) \<in> {''agent'', ''client'', ''proxy''}"
    "fs_files fresh_disk (agent_conf_dir (ct_env ?E)) = None" "fs_files fresh_disk (dropin_dir (ct_env ?E)) = None"
    "dk_disk ?s = sys_start fresh_disk" "ho_env ?H = ct_env ?E" "ho_uid_text ?H = ct_uid_text ?E"
    by (simp_all add: sample_ctl_def sample_account_def DefaultConfig_def fresh_disk_def sample_host_def)
  from setup_ssh_agrees[OF this, of None None] show ?thesis
    by (auto simp: Let_def DefaultConfig_def)
qed

end
