(* ===== verification/Adopt_Contract.thy ===== *)
theory Adopt_Contract
  imports Ctl_Contract
begin

text \<open>
  What \<open>kpxcctl adopt-default\<close> promises: the default database changes only as a whole and the
  source never; an adoption that succeeds is one the login opens; and one that fails after the
  database was replaced has thrown its password away.
\<close>

section \<open>The copy\<close>

text \<open>A complete, private copy of the source under a fresh password.\<close>

definition adopted :: "('id, 'rc) pam_env \<Rightarrow> bytes \<Rightarrow> string \<Rightarrow> string \<Rightarrow> disk_file \<Rightarrow> bool" where
  "adopted P dat pw secret f \<longleftrightarrow>
     f_mode f = mode_private_file
     \<and> (\<exists>db db1. rekeyed P dat pw secret = Some db \<and> sl_lock_entries (pe_save P) db = (True, db1)
          \<and> sl_encode (pe_save P) db1 = Some (f_data f))"

definition adopting :: "('id, 'rc) pam_env \<Rightarrow> string \<Rightarrow> string \<Rightarrow> disk_file \<Rightarrow> disk_file option \<Rightarrow> string \<Rightarrow> string \<Rightarrow> fs \<Rightarrow> bool" where
  "adopting P source dest src old pw secret d \<longleftrightarrow>
     fs_files d source = Some src
     \<and> (fs_files d dest = old \<or> (\<exists>f. fs_files d dest = Some f \<and> adopted P (f_data src) pw secret f))"

definition adopted_at :: "('id, 'rc) pam_env \<Rightarrow> string \<Rightarrow> disk_file \<Rightarrow> string \<Rightarrow> string \<Rightarrow> fs \<Rightarrow> bool" where
  "adopted_at P dest src pw secret d \<longleftrightarrow> (\<exists>f. fs_files d dest = Some f \<and> adopted P (f_data src) pw secret f)"

text \<open>The file names of an adoption are apart: the source is not the destination, neither is one
  of the sealed files, and a temporary name is never the destination's.\<close>

definition adopt_places :: "('id, 'rc) pam_env \<Rightarrow> string \<Rightarrow> string \<Rightarrow> bool" where
  "adopt_places P source dest \<longleftrightarrow>
     source \<noteq> dest \<and> {pe_identity P, pe_credential P} \<inter> {source, dest} = {} \<and> dest \<notin> range (sl_temp_name (pe_save P) dest)"

definition adopt_names :: "('id, 'rc) pam_env \<Rightarrow> string \<Rightarrow> string \<Rightarrow> string set" where
  "adopt_names P source dest = insert source (save_names (pe_save P) dest)"

lemma adopting_framed: "framed {source, dest} (always (adopting P source dest src old pw secret))"
  by (rule framed_always) (auto simp: adopting_def)

lemma adopted_framed:
  "framed {source, dest} (\<lambda>s. always (adopting P source dest src old pw secret) s \<and> adopted_at P dest src pw secret (sys_now s))"
  by (intro framed_both adopting_framed framed_now) (auto simp: adopted_at_def)

lemma keeps_fill:
  assumes "leaves (pe_io P) (insert tmp N)" "framed N J" "tmp \<notin> N"
  shows "triple (with_temp J tmp mode0 []) (fill_copy P tmp db)
    (\<lambda>_ s. \<exists>db1 dat. sl_lock_entries (pe_save P) db = (True, db1) \<and> sl_encode (pe_save P) db1 = Some dat
       \<and> with_temp J tmp mode_private_file dat s) J"
proof (cases "sl_lock_entries (pe_save P) db")
  case (Pair b db1)
  let ?L = "pe_save P" and ?io = "pe_io P"
  let ?Q = "\<lambda>s. \<exists>dat. sl_encode ?L db1 = Some dat \<and> with_temp J tmp mode_private_file dat s"
  have noop: "triple ?Q (call ?io sys_noop) (\<lambda>_. ?Q) J"
    using temp_noop[OF assms(1,2)] by (fastforce simp: triple_def split: prod.splits sum.splits)
  have "triple (with_temp J tmp mode_private_file [])
      (andthen (encode_to ?L ?io (pe_short P) tmp db1) (\<lambda>_. andthen (call ?io sys_noop) (\<lambda>_. call ?io sys_noop))) (\<lambda>_. ?Q) J"
    by (intro triple_andthen[OF temp_encode[OF assms]] triple_andthen[OF noop] noop)
  moreover have "triple (with_temp J tmp mode_private_file []) (fail_io Failed) B J" for B :: "unit \<Rightarrow> sys \<Rightarrow> bool"
    by (rule triple_fail) (simp add: with_temp_def)
  ultimately show ?thesis
    unfolding fill_copy_def Pair
    by (cases b) (auto intro!: triple_andthen[OF temp_chmod[OF assms]] elim: triple_conseq)
qed

lemma triple_stay: "keeps J p \<Longrightarrow> (\<And>s. J s \<Longrightarrow> E s) \<Longrightarrow> triple J p (\<lambda>_. J) E"
  unfolding keeps_def by (rule triple_conseq)

lemma keeps_publish:
  assumes "leaves (pe_io P) (insert tmp N)" "framed N J" "tmp \<notin> N"
    and "\<And>s d h. J s \<Longrightarrow> f_mode h = mode \<Longrightarrow> f_data h = dat \<Longrightarrow> fs_files d dest = Some h
      \<Longrightarrow> (\<And>q. q \<noteq> dest \<Longrightarrow> q \<noteq> tmp \<Longrightarrow> fs_files d q = fs_files (sys_now s) q) \<Longrightarrow> K (commit d s)"
  shows "triple (with_temp J tmp mode dat) (publish_copy P tmp dest replace) (\<lambda>_. K) J"
proof -
  let ?A = "with_temp J tmp mode dat"
  have "keeps ?A (if replace then return_io False else fileExists (pe_io P) dest :: (io_error, bool) prog)"
    by (intro keeping keeps_exists[OF assms(1) framed_temp[OF assms(2)]])
  then have there: "triple ?A (if replace then return_io False else fileExists (pe_io P) dest :: (io_error, bool) prog) (\<lambda>_. ?A) J"
    by (rule triple_stay) (simp add: with_temp_def)
  have "triple ?A (call (pe_io P) (sys_rename tmp dest)) (\<lambda>_. K) J"
    by (rule temp_rename[OF assms(1,2)]) (rule assms(4))
  then have "triple ?A (if b then fail_io Exists else call (pe_io P) (sys_rename tmp dest)) (\<lambda>_. K) J" for b
    by (auto intro: triple_fail simp: with_temp_def)
  then show ?thesis unfolding publish_copy_def by (intro triple_andthen[OF there])
qed

text \<open>The whole copy: it succeeds only with the complete copy in place.\<close>

lemma triple_copy:
  fixes P :: "('id, 'rc) pam_env" and src :: disk_file and old :: "disk_file option" and pw secret :: string
  assumes "leaves (pe_io P) (adopt_names P source dest)" "adopt_places P source dest"
  defines "J \<equiv> always (adopting P source dest src old pw secret)"
    and "K \<equiv> (\<lambda>s. always (adopting P source dest src old pw secret) s \<and> adopted_at P dest src pw secret (sys_now s))"
  shows "triple J (copyAndRekeyDatabase P source dest pw secret replace) (\<lambda>_. K) J"
proof -
  let ?N = "{source, dest}"
  have leave: "leaves (pe_io P) ?N" "\<And>tmp. tmp \<in> save_names (pe_save P) dest \<Longrightarrow> leaves (pe_io P) (insert tmp ?N)"
    by (rule leaves_mono[OF assms(1)], auto simp: adopt_names_def save_names_def)+
  have J: "framed ?N J" and K: "framed ?N K" unfolding J_def K_def by (rule adopting_framed adopted_framed)+
  have KJ: "K s \<Longrightarrow> J s" for s by (simp add: K_def J_def)
  have read: "triple J (call (pe_io P) (sys_read_file source)) (\<lambda>dat s. J s \<and> dat = f_data src) J"
  proof (rule triple_call)
    fix s assume "J s"
    then show s: "J (advance (pe_io P) s)" by (rule framed_world[OF J leave(1)])
    fix v d assume c: "sys_read_file source (sys_now (advance (pe_io P) s)) = Ok (v, d)"
    from s have "fs_files (sys_now (advance (pe_io P) s)) source = Some src" by (simp add: J_def always_def adopting_def)
    with c have "v = f_data src" "d = sys_now (advance (pe_io P) s)" by (simp_all add: sys_read_file_def)
    then show "J (commit d (advance (pe_io P) s)) \<and> v = f_data src" using framed_commit[OF J s] by simp
  qed
  have "sl_temp_name (pe_save P) dest d \<noteq> dest" for d
    using assms(2) unfolding adopt_places_def by (metis rangeI)
  then have fresh: "sl_temp_name (pe_save P) dest (sys_now s) \<notin> ?N"
    if "J s" "fs_files (sys_now s) (sl_temp_name (pe_save P) dest (sys_now s)) = None" for s
    using that by (auto simp: J_def always_def adopting_def)
  note create = temp_create[where L = "pe_save P" and path = dest, OF leave(1) J fresh]
  have body: "triple (\<lambda>s. tmp \<notin> ?N \<and> tmp \<in> save_names (pe_save P) dest \<and> with_temp J tmp mode_private_file [] s)
      (deferring (call (pe_io P) (sys_remove tmp)) (andthen (fill_copy P tmp db) (\<lambda>_. publish_copy P tmp dest replace)))
      (\<lambda>_. K) J" if db: "rekeyed P (f_data src) pw secret = Some db" for tmp db
  proof (cases "tmp \<notin> ?N \<and> tmp \<in> save_names (pe_save P) dest")
    case True
    then have t: "tmp \<notin> ?N" "leaves (pe_io P) (insert tmp ?N)" using leave(2) by blast+
    let ?M = "\<lambda>s. \<exists>db1 dat. sl_lock_entries (pe_save P) db = (True, db1) \<and> sl_encode (pe_save P) db1 = Some dat
       \<and> with_temp J tmp mode_private_file dat s"
    have publish: "triple (with_temp J tmp mode_private_file dat) (publish_copy P tmp dest replace) (\<lambda>_. K) J"
      if enc: "sl_lock_entries (pe_save P) db = (True, db1)" "sl_encode (pe_save P) db1 = Some dat" for db1 dat
    proof (rule keeps_publish[OF t(2) J t(1)])
      fix s and d :: fs and h
      assume s: "J s" "f_mode h = mode_private_file" "f_data h = dat" "fs_files d dest = Some h"
        "\<And>q. q \<noteq> dest \<Longrightarrow> q \<noteq> tmp \<Longrightarrow> fs_files d q = fs_files (sys_now s) q"
      have "adopted P (f_data src) pw secret h" using enc db s(2,3) by (simp add: adopted_def)
      moreover have "fs_files d source = Some src"
        using s(1) s(5)[of source] t(1) assms(2) by (auto simp: J_def always_def adopting_def adopt_places_def)
      ultimately show "K (commit d s)"
        using s(1,4) by (auto simp: K_def J_def adopting_def adopted_at_def)
    qed
    have "triple ?M (publish_copy P tmp dest replace) (\<lambda>_. K) J"
      using publish by (fastforce simp: triple_def)
    then have "triple (with_temp J tmp mode_private_file []) (andthen (fill_copy P tmp db) (\<lambda>_. publish_copy P tmp dest replace)) (\<lambda>_. K) J"
      by (rule triple_andthen[OF keeps_fill[OF t(2) J t(1)]])
    then have "triple (with_temp J tmp mode_private_file [])
        (deferring (call (pe_io P) (sys_remove tmp)) (andthen (fill_copy P tmp db) (\<lambda>_. publish_copy P tmp dest replace))) (\<lambda>_. K) J"
      by (rule triple_deferring) (use keeps_remove[OF leave(1) K t(1)] keeps_remove[OF leave(1) J t(1)] in \<open>simp_all add: keeps_def\<close>)
    then show ?thesis by (rule triple_conseq) auto
  qed (auto intro: tripleI)
  have dir: "triple J (EnsurePrivateDir (pe_io P) (path_dir dest)) (\<lambda>_. J) J"
    using keeps_dir[OF leave(1) J] by (simp add: keeps_def)
  have rest: "triple (\<lambda>s. J s \<and> dat = f_data src)
      (case rekeyed P dat pw secret of None \<Rightarrow> fail_io Failed
       | Some db \<Rightarrow> andthen (EnsurePrivateDir (pe_io P) (path_dir dest)) (\<lambda>_.
            andthen (call (pe_io P) (sys_create_temp (pe_save P) dest)) (\<lambda>tmp.
            deferring (call (pe_io P) (sys_remove tmp))
              (andthen (fill_copy P tmp db) (\<lambda>_. publish_copy P tmp dest replace))))) (\<lambda>_. K) J" for dat
  proof (cases "dat = f_data src")
    case True
    show ?thesis
    proof (cases "rekeyed P (f_data src) pw secret")
      case None
      with True show ?thesis by (auto intro: triple_fail)
    next
      case (Some db)
      show ?thesis
        using triple_andthen[OF dir triple_andthen[OF create body[OF Some]]] True Some by simp
    qed
  qed (auto intro: tripleI)
  show ?thesis unfolding copyAndRekeyDatabase_def by (rule triple_andthen[OF read rest])
qed

section \<open>The command\<close>

lemma bus_call_disk:
  "(\<And>a d r a' d'. method a d = Returned (r, a', d') \<Longrightarrow> d' = d) \<Longrightarrow> dk_disk (snd (bus_call args strings method s)) = dk_disk s"
  by (auto simp: bus_call_def split: option.split run.split prod.split)

lemma risks_disk: "dk_disk (snd (bus_call args strings (risks f) s)) = dk_disk s"
  by (rule bus_call_disk) (auto simp: risks_def split: run.splits prod.splits)

lemma lock_default_disk [simp]: "dk_disk (lockDefaultInDaemon E s) = dk_disk s"
proof -
  have list: "dk_disk (snd (list_databases E s)) = dk_disk s"
    unfolding list_databases_def by (rule bus_call_disk) (simp add: asks_def)
  show ?thesis using list by (auto simp: lockDefaultInDaemon_def risks_disk split: prod.split sum.split option.split)
qed

lemma on_disk_disk: "dk_disk (snd (on_disk p s)) = snd (p (dk_disk s))"
  by (auto simp: on_disk_def split: prod.split sum.split)

text \<open>What the command does: the checks, then the daemon is told, then the work.\<close>

lemma adopt_stopped:
  assumes "adopt_args args = Some (replace, source)"
    and "adopt_checks (ct_account E) replace (DefaultDatabasePath (ct_env E)) (dk_disk s) = (Err e, d)"
  shows "kpxcctl E (''adopt-default'' # args) x y s = (Err e, s\<lparr>dk_disk := d\<rparr>)"
  using assms by (simp add: kpxcctl_def cmdAdoptDefault_def on_disk_def)

lemma adopt_run:
  assumes "adopt_args args = Some (replace, source)"
    and "adopt_checks (ct_account E) replace (DefaultDatabasePath (ct_env E)) (dk_disk s) = (Ok u, d)"
  shows "kpxcctl E (''adopt-default'' # args) x y s =
    (case (x, y) of
       (Some pw, Some login) \<Rightarrow>
         on_disk (adopt_files (ct_account E) (DerivePAMToken (ct_sha E) (bytes_of login)) source (DefaultDatabasePath (ct_env E)) pw replace)
           (lockDefaultInDaemon E (s\<lparr>dk_disk := d\<rparr>))
     | _ \<Rightarrow> (Err NoSecret, lockDefaultInDaemon E (s\<lparr>dk_disk := d\<rparr>)))"
  using assms by (simp add: kpxcctl_def cmdAdoptDefault_def on_disk_def Let_def)

lemma adopt_disk:
  assumes "adopt_args args = Some (replace, source)"
  shows "dk_disk (snd (kpxcctl E (''adopt-default'' # args) x y s)) \<in>
    {snd (adopt_checks (ct_account E) replace (DefaultDatabasePath (ct_env E)) (dk_disk s))}
    \<union> {snd (adopt_files (ct_account E) token source (DefaultDatabasePath (ct_env E)) pw replace
          (snd (adopt_checks (ct_account E) replace (DefaultDatabasePath (ct_env E)) (dk_disk s)))) | token pw. x = Some pw}"
proof (cases "adopt_checks (ct_account E) replace (DefaultDatabasePath (ct_env E)) (dk_disk s)")
  case (Pair r d)
  show ?thesis
  proof (cases r)
    case (Inl e)
    with adopt_stopped[OF assms, of E s e d x y] Pair show ?thesis by simp
  next
    case (Inr u)
    then show ?thesis
      using adopt_run[OF assms Pair[unfolded Inr], of x y] unfolding Pair by (cases x; cases y) (auto simp: on_disk_disk)
  qed
qed

lemma exists_total: "\<exists>b s'. fileExists io p s = (Ok b, s')"
  by (auto simp: fileExists_def andthen_def try_io_def return_io_def split: prod.split)

lemma checks_errors: "adopt_checks P replace dest s = (Err e, s') \<Longrightarrow> e \<in> {DefaultExists, CredentialExists}"
proof -
  assume run: "adopt_checks P replace dest s = (Err e, s')"
  obtain b1 s1 where s1: "(fileExists (pe_io P) dest :: (ctl_error, bool) prog) s = (Ok b1, s1)" using exists_total by blast
  obtain b2 s2 where s2: "(fileExists (pe_io P) (pe_credential P) :: (ctl_error, bool) prog) s1 = (Ok b2, s2)" using exists_total by blast
  show ?thesis
    using run s1 s2 by (auto simp: adopt_checks_def andthen_def return_io_def fail_io_def split: if_splits)
qed

lemma adopt_seal_failed:
  assumes "adopt_args args = Some (replace, source)"
    and "kpxcctl E (''adopt-default'' # args) x y s = (Err CannotSeal, s')"
  shows "\<exists>pw token. x = Some pw \<and> adopt_files (ct_account E) token source (DefaultDatabasePath (ct_env E)) pw replace
    (snd (adopt_checks (ct_account E) replace (DefaultDatabasePath (ct_env E)) (dk_disk s))) = (Err CannotSeal, dk_disk s')"
proof (cases "adopt_checks (ct_account E) replace (DefaultDatabasePath (ct_env E)) (dk_disk s)")
  case (Pair r d)
  show ?thesis
  proof (cases r)
    case (Inl e)
    with adopt_stopped[OF assms(1)] Pair assms(2) checks_errors show ?thesis by fastforce
  next
    case (Inr u)
    from adopt_run[OF assms(1) Pair[unfolded Inr], of x y] assms(2) obtain pw login where
      typed: "x = Some pw" "y = Some login"
      by (cases x; cases y) auto
    with adopt_run[OF assms(1) Pair[unfolded Inr], of x y] assms(2) show ?thesis
      unfolding Pair by (fastforce simp: on_disk_def split: prod.splits sum.splits)
  qed
qed

lemma triple_identity:
  assumes "leaves (pe_io P) N" "framed N J" "pe_identity P \<notin> N"
  shows "keeps J (loadOrCreateIdentity P (pe_identity P) token)"
proof -
  note io = keeps_exists[OF assms(1,2)] keeps_read[OF assms(1,2)] keeps_write_private[OF assms]
  show ?thesis
    unfolding loadOrCreateIdentity_def ReadSealedIdentity_def WriteSealedIdentity_def by (intro keeping io)
qed

lemma keeps_checks: "leaves (pe_io P) N \<Longrightarrow> framed N J \<Longrightarrow> keeps J (adopt_checks P replace dest)"
  unfolding adopt_checks_def by (intro keeping keeps_exists)

lemma keeps_credential:
  "leaves (pe_io P) N \<Longrightarrow> framed N J \<Longrightarrow> pe_credential P \<notin> N
    \<Longrightarrow> keeps J (WriteSealedCredential (pe_age P) (pe_io P) n (pe_credential P) cred rc)"
  unfolding WriteSealedCredential_def by (intro keeping keeps_write_private)

lemma adopt_leaves:
  assumes "leaves (pe_io P) (adopt_names P source dest)" "adopt_places P source dest"
  shows "leaves (pe_io P) {source, dest}" "pe_identity P \<notin> {source, dest}" "pe_credential P \<notin> {source, dest}"
  using leaves_mono[OF assms(1), of "{source, dest}"] assms(2) by (auto simp: adopt_names_def save_names_def adopt_places_def)

text \<open>The work: until the copy is in place the destination is as before, and from then on the
  copy stays.\<close>

lemma adopt_files_cases:
  fixes src :: disk_file and old :: "disk_file option"
  assumes "leaves (pe_io P) (adopt_names P source dest)" "adopt_places P source dest"
    and "NewRandomDBCredential (pe_secret P) (pe_now P) dest = Some cred"
    and "adopt_files P token source dest pw replace s = (r, s')"
    and "always (adopting P source dest src old pw (pc_password cred)) s"
  shows "always (adopting P source dest src old pw (pc_password cred)) s'
    \<and> (r \<in> {Ok (), Err CannotSeal} \<longrightarrow> adopted_at P dest src pw (pc_password cred) (sys_now s'))"
proof -
  let ?J = "always (adopting P source dest src old pw (pc_password cred))"
  let ?K = "\<lambda>s. ?J s \<and> adopted_at P dest src pw (pc_password cred) (sys_now s)"
  note leave = adopt_leaves[OF assms(1,2)]
  note identity = keepsD[OF triple_identity[OF leave(1) adopting_framed leave(2)]]
  note copy = tripleD[OF triple_copy[OF assms(1,2)]]
  note seal = keepsD[OF keeps_credential[OF leave(1) adopted_framed leave(3)]]
  obtain r1 s1 where r1: "loadOrCreateIdentity P (pe_identity P) token s = (r1, s1)" by fastforce
  have J1: "?J s1" by (rule identity[OF r1 assms(5)])
  show ?thesis
  proof (cases r1)
    case (Inl e)
    with r1 J1 assms(4) show ?thesis by (auto simp: adopt_files_def andthen_def or_fail_def)
  next
    case (Inr identity)
    obtain r2 s2 where r2: "copyAndRekeyDatabase P source dest pw (pc_password cred) replace s1 = (r2, s2)" by fastforce
    show ?thesis
    proof (cases r2)
      case (Inl e)
      then have "?J s2" using copy(2) r2 J1 by blast
      with Inl Inr r1 r2 assms(3,4) show ?thesis by (auto simp: adopt_files_def andthen_def or_fail_def)
    next
      case (Inr u)
      then have K2: "?K s2" using copy(1) r2 J1 by blast
      obtain r3 s3 where r3: "WriteSealedCredential (pe_age P) (pe_io P) (pe_short P) (pe_credential P) cred
          (ag_recipient (pe_age P) identity) s2 = (r3, s3)" by fastforce
      have "?K s3" by (rule seal[OF r3 K2])
      moreover have "s' = s3"
        using Inr \<open>r1 = Inr identity\<close> r1 r2 r3 assms(3,4) by (cases r3) (auto simp: adopt_files_def andthen_def or_fail_def)
      ultimately show ?thesis by blast
    qed
  qed
qed

text \<open>C3. Adopting changes the default database only as a whole and the source never: whatever is
  typed, whichever system calls fail and whatever others do to other files, at every moment
  the source is as it was and the default database is either as before or a complete private
  copy of the source under a fresh password.\<close>

theorem adopt_complete_or_untouched:
  assumes "adopt_args args = Some (replace, source)" and "P = ct_account E" and "dest = DefaultDatabasePath (ct_env E)"
    and "leaves (pe_io P) (adopt_names P source dest)" and "adopt_places P source dest"
    and "fs_files d source = Some src" and "dk_disk s = sys_start d"
  shows "always (\<lambda>d'. fs_files d' source = Some src
      \<and> (fs_files d' dest = fs_files d dest
         \<or> (\<exists>pw cred. x = Some pw \<and> NewRandomDBCredential (pe_secret P) (pe_now P) dest = Some cred
              \<and> adopted_at P dest src pw (pc_password cred) d')))
    (dk_disk (snd (kpxcctl E (''adopt-default'' # args) x y s)))"
proof -
  let ?I = "\<lambda>d'. fs_files d' source = Some src \<and> fs_files d' dest = fs_files d dest"
  let ?checks = "adopt_checks P replace dest (sys_start d)"
  note leave = adopt_leaves[OF assms(4,5)]
  have frame: "framed {source, dest} (always ?I)" by (rule framed_always) auto
  have start: "always ?I (snd ?checks)"
    by (rule keeps_snd[OF keeps_checks[OF leave(1) frame]]) (use assms(6) in simp)
  from adopt_disk[OF assms(1), of E x y s] consider
      "dk_disk (snd (kpxcctl E (''adopt-default'' # args) x y s)) = snd ?checks"
    | token pw where "x = Some pw"
      "dk_disk (snd (kpxcctl E (''adopt-default'' # args) x y s)) = snd (adopt_files P token source dest pw replace (snd ?checks))"
    unfolding assms(2,3,7) by blast
  then show ?thesis
  proof cases
    case 1
    then show ?thesis using start by (auto simp: always_def)
  next
    case 2
    show ?thesis
    proof (cases "NewRandomDBCredential (pe_secret P) (pe_now P) dest")
      case None
      then have files: "adopt_files P token source dest pw replace =
          andthen (or_fail (loadOrCreateIdentity P (pe_identity P) token) NoIdentityFile) (\<lambda>_. fail_io NoFreshCredential)"
        by (simp add: adopt_files_def)
      have "keeps (always ?I) (adopt_files P token source dest pw replace)"
        unfolding files by (intro keeping triple_identity[OF leave(1) frame leave(2)])
      then have "always ?I (snd (adopt_files P token source dest pw replace (snd ?checks)))"
        using start by (rule keeps_snd)
      with 2 show ?thesis by (auto simp: always_def)
    next
      case (Some cred)
      have "always (adopting P source dest src (fs_files d dest) pw (pc_password cred)) (snd ?checks)"
        using start by (auto simp: always_def adopting_def)
      then have "always (adopting P source dest src (fs_files d dest) pw (pc_password cred))
          (snd (adopt_files P token source dest pw replace (snd ?checks)))"
        using adopt_files_cases[OF assms(4,5) Some prod.collapse[symmetric]] by blast
      with 2 Some show ?thesis by (auto simp: always_def adopting_def adopted_at_def)
    qed
  qed
qed

section \<open>When the last step fails\<close>

text \<open>What KDBX promises: a file opens only with the password it was written under.\<close>

definition guarded :: "save_lib \<Rightarrow> pool_lib \<Rightarrow> bool" where
  "guarded S L \<longleftrightarrow>
     (\<forall>db db1 dat b b'. db_credentials db = Some (pb_password L b) \<longrightarrow> sl_lock_entries S db = (True, db1)
        \<longrightarrow> sl_encode S db1 = Some dat \<longrightarrow> pb_decode L dat (Some (pb_password L b')) \<noteq> None \<longrightarrow> b' = b)"

lemma adopted_guard:
  assumes "guarded (pe_save P) (pe_pool P)" "adopted P dat pw secret f"
    and "pb_decode (pe_pool P) (f_data f) (Some (pb_password (pe_pool P) b)) \<noteq> None"
  shows "b = bytes_of secret"
proof -
  obtain db db1 where db: "rekeyed P dat pw secret = Some db" "sl_lock_entries (pe_save P) db = (True, db1)"
      "sl_encode (pe_save P) db1 = Some (f_data f)"
    using assms(2) by (auto simp: adopted_def)
  then have "db_credentials db = Some (pb_password (pe_pool P) (bytes_of secret))" by (auto simp: rekeyed_def)
  with assms(1,3) db show ?thesis unfolding guarded_def by blast
qed

text \<open>A login that does not find the password of the file fails and opens nothing.\<close>

lemma open_wrong_password:
  assumes "pe_io P = quiet" "fs_files (sys_now s) path = Some f"
    and "pb_decode (pe_pool P) (f_data f) (Some (pb_password (pe_pool P) (bytes_of pw))) = None"
  shows "\<exists>e s'. openWithPassword P path pw p s = (Some e, p, s')"
proof (cases "NewSecureString (pe_mlock P) pw")
  case None
  then show ?thesis by (simp add: openWithPassword_def)
next
  case (Some ss)
  then have "Secure_Bytes (Some ss) = bytes_of pw" by (rule Secure_Bytes_New)
  moreover obtain s1 where s1: "call quiet (sys_read_file path) s = (Ok (f_data f), s1)" "sys_now s1 = sys_now s"
    using read_quiet[OF assms(2)] by blast
  moreover obtain fp s2 where "call quiet (FingerprintFile (sl_sha256 (pe_save P)) path) s1 = (fp, s2)" by fastforce
  ultimately show ?thesis
    using Some assms(1,3) by (simp add: openWithPassword_def Open_def load_database_def build_credentials_def PasswordCredential_def)
qed

lemma login_without_password:
  assumes "pe_io P = quiet" "fs_files (sys_now s) path = Some f"
    and "\<And>fc identity c. fs_files (sys_now s) (pe_credential P) = Some fc \<Longrightarrow> OpenCredential (pe_age P) (f_data fc) identity = Some c
      \<Longrightarrow> pb_decode (pe_pool P) (f_data f) (Some (pb_password (pe_pool P) (bytes_of (pc_password c)))) = None"
  shows "\<exists>e s'. unlockOrBootstrapWithPAM P path token p s = (Some e, p, s')"
proof -
  from password_quiet[OF assms(1), of s path token] assms(2) obtain s0 where
    s0: "sys_now s0 = sys_now s" "pam_password P path token s = fail_io RefusedExisting s0 \<or> pam_password P path token s = pam_existing P path token True s0"
    by (auto simp: Let_def split: if_splits)
  show ?thesis
  proof (cases "pam_password P path token s")
    case (Pair r s1)
    show ?thesis
    proof (cases r)
      case (Inl e)
      with Pair show ?thesis by (simp add: unlockOrBootstrapWithPAM_def)
    next
      case (Inr pw)
      with Pair s0(2) have run: "pam_existing P path token True s0 = (Ok pw, s1)" by (auto simp: fail_io_def)
      then have "\<exists>fc identity c. fs_files (sys_now s) (pe_credential P) = Some fc
          \<and> OpenCredential (pe_age P) (f_data fc) identity = Some c \<and> pc_password c = pw \<and> sys_now s1 = sys_now s"
        using s0(1)
        by (auto simp: pam_existing_def ReadSealedIdentity_def ReadSealedCredential_def andthen_def or_fail_def return_io_def fail_io_def
            assms(1) call_quiet sys_read_file_def split: prod.splits sum.splits option.splits; blast)
      then have "\<exists>e s'. openWithPassword P path pw p s1 = (Some e, p, s')"
        using assms(2,3) by (intro open_wrong_password[OF assms(1)]) auto
      with Pair Inr show ?thesis by (simp add: unlockOrBootstrapWithPAM_def)
    qed
  qed
qed

text \<open>Adopting can lose the database: the rename comes before the new password is sealed. When
  sealing fails, the default database is already the copy under the fresh password, which is
  nowhere stored unless the credential file holds it; the old contents are gone, and no login
  opens the database any more, whatever the token.\<close>

theorem adopt_failure_locks_out:
  assumes "adopt_args args = Some (replace, source)" and "P = ct_account E" and "dest = DefaultDatabasePath (ct_env E)"
    and "leaves (pe_io P) (adopt_names P source dest)" and "adopt_places P source dest"
    and "fs_files d source = Some src" and "dk_disk s = sys_start d"
    and "kpxcctl E (''adopt-default'' # args) (Some pw) y s = (Err CannotSeal, s')"
    and "NewRandomDBCredential (pe_secret P) (pe_now P) dest = Some cred" and "guarded (pe_save P) (pe_pool P)"
    and "\<forall>fc identity c. fs_files (sys_now (dk_disk s')) (pe_credential P) = Some fc
      \<longrightarrow> OpenCredential (pe_age P) (f_data fc) identity = Some c \<longrightarrow> pc_password c \<noteq> pc_password cred"
  shows "adopted_at P dest src pw (pc_password cred) (sys_now (dk_disk s'))
    \<and> (\<exists>e t. unlockOrBootstrapWithPAM (P\<lparr>pe_io := quiet\<rparr>) dest token p (dk_disk s') = (Some e, p, t))"
proof -
  let ?I = "\<lambda>d'. fs_files d' source = Some src \<and> fs_files d' dest = fs_files d dest"
  let ?checks = "adopt_checks P replace dest (sys_start d)"
  note leave = adopt_leaves[OF assms(4,5)]
  have frame: "framed {source, dest} (always ?I)" by (rule framed_always) auto
  have "always ?I (snd ?checks)"
    by (rule keeps_snd[OF keeps_checks[OF leave(1) frame]]) (use assms(6) in simp)
  then have start: "always (adopting P source dest src (fs_files d dest) pw (pc_password cred)) (snd ?checks)"
    by (auto simp: always_def adopting_def)
  from adopt_seal_failed[OF assms(1,8)] obtain tk where
    "adopt_files P tk source dest pw replace (snd ?checks) = (Err CannotSeal, dk_disk s')"
    unfolding assms(2,3,7) by auto
  from adopt_files_cases[OF assms(4,5,9) this start]
  have copy: "adopted_at P dest src pw (pc_password cred) (sys_now (dk_disk s'))" by simp
  then obtain f where f: "fs_files (sys_now (dk_disk s')) dest = Some f" "adopted P (f_data src) pw (pc_password cred) f"
    by (auto simp: adopted_at_def)
  have refuses: "pb_decode (pe_pool P) (f_data f) (Some (pb_password (pe_pool P) b)) = None" if "b \<noteq> bytes_of (pc_password cred)" for b
    using adopted_guard[OF assms(10) f(2)] that by blast
  have "\<exists>e t. unlockOrBootstrapWithPAM (P\<lparr>pe_io := quiet\<rparr>) dest token p (dk_disk s') = (Some e, p, t)"
  proof (rule login_without_password)
    fix fc identity c
    assume "fs_files (sys_now (dk_disk s')) (pe_credential (P\<lparr>pe_io := quiet\<rparr>)) = Some fc"
      "OpenCredential (pe_age (P\<lparr>pe_io := quiet\<rparr>)) (f_data fc) identity = Some c"
    then have "pc_password c \<noteq> pc_password cred" using assms(11) by simp
    then have "bytes_of (pc_password c) \<noteq> bytes_of (pc_password cred)" by (metis string_of_bytes_of)
    then show "pb_decode (pe_pool (P\<lparr>pe_io := quiet\<rparr>)) (f_data f) (Some (pb_password (pe_pool (P\<lparr>pe_io := quiet\<rparr>)) (bytes_of (pc_password c)))) = None"
      using refuses by simp
  qed (use f(1) in simp_all)
  with copy show ?thesis by blast
qed

end
