(* ===== verification/Adopt_Login.thy ===== *)
theory Adopt_Login
  imports Adopt_Contract
begin

text \<open>
  An undisturbed adoption: it succeeds, and what it leaves is an account the login, and the
  client's own unlock, open.
\<close>

section \<open>The steps of an undisturbed run\<close>

text \<open>The identity that is there opens with the token, or a new one can be sealed.\<close>

definition identity_ready :: "('id, 'rc) pam_env \<Rightarrow> bytes \<Rightarrow> fs \<Rightarrow> 'id \<Rightarrow> bool" where
  "identity_ready P token d identity \<longleftrightarrow>
     (case fs_files d (pe_identity P) of
        Some f \<Rightarrow> OpenIdentity (pe_age P) (f_data f) token = Some identity
      | None \<Rightarrow> ag_generate (pe_age P) = Some identity \<and> SealIdentity (pe_age P) identity token \<noteq> None
          \<and> fs_files d (path_dir (pe_identity P)) = None)"

lemma identity_quiet:
  assumes "pe_io P = quiet" "age_ok (pe_age P)" "identity_ready P token (sys_now s) identity"
  shows "\<exists>s' f. loadOrCreateIdentity P (pe_identity P) token s = (Ok identity, s')
    \<and> fs_files (sys_now s') (pe_identity P) = Some f \<and> OpenIdentity (pe_age P) (f_data f) token = Some identity
    \<and> (\<forall>q. q \<noteq> pe_identity P \<longrightarrow> fs_files (sys_now s') q = fs_files (sys_now s) q)"
proof -
  obtain s1 where s1: "(fileExists quiet (pe_identity P) :: (io_error, bool) prog) s
      = (Ok (fs_files (sys_now s) (pe_identity P) \<noteq> None), s1)" "sys_now s1 = sys_now s"
    using exists_quiet by blast
  show ?thesis
  proof (cases "fs_files (sys_now s) (pe_identity P)")
    case None
    then obtain sealed where new: "ag_generate (pe_age P) = Some identity" "SealIdentity (pe_age P) identity token = Some sealed"
        "fs_files (sys_now s1) (path_dir (pe_identity P)) = None"
      using assms(3) s1(2) by (auto simp: identity_ready_def)
    obtain s2 where s2: "WritePrivateFile quiet (pe_short P) (pe_identity P) sealed s1 = (Ok (), s2)" "wrote (pe_identity P) sealed s1 s2"
      using write_private_quiet[OF new(3)] by blast
    have "loadOrCreateIdentity P (pe_identity P) token s = (Ok identity, s2)"
      using s1(1) s2(1) None new
      by (simp add: loadOrCreateIdentity_def WriteSealedIdentity_def andthen_def return_io_def assms(1))
    then show ?thesis
      using s2(2) s1(2) sealed_identity[OF assms(2) new(2)] by (auto simp: wrote_def)
  next
    case (Some f)
    then obtain s2 where s2: "call quiet (sys_read_file (pe_identity P)) s1 = (Ok (f_data f), s2)" "sys_now s2 = sys_now s"
      using read_quiet[of s1 "pe_identity P" f] s1(2) by auto
    have "OpenIdentity (pe_age P) (f_data f) token = Some identity" using assms(3) Some by (simp add: identity_ready_def)
    moreover from this have "loadOrCreateIdentity P (pe_identity P) token s = (Ok identity, s2)"
      using s1(1) s2(1) Some
      by (simp add: loadOrCreateIdentity_def ReadSealedIdentity_def andthen_def return_io_def assms(1))
    ultimately show ?thesis using s2(2) Some by auto
  qed
qed

lemma private_dir_quiet:
  "fs_files (sys_now s) p = None \<Longrightarrow> \<exists>s'. EnsurePrivateDir quiet p s = (Ok (), s') \<and> fs_files (sys_now s') = fs_files (sys_now s)"
  by (cases "fs_dirs (sys_now s) p") (simp_all add: EnsurePrivateDir_def andthen_def call_quiet sys_call_defs)

lemma create_temp_quiet:
  "sl_temp_name L path (sys_now s) = tmp \<Longrightarrow> fs_files (sys_now s) tmp = None \<Longrightarrow>
    \<exists>s'. call quiet (sys_create_temp L path) s = (Ok tmp, s')
      \<and> fs_files (sys_now s') = (fs_files (sys_now s))(tmp \<mapsto> new_file (sys_now s) mode_private_file [])"
  by (simp add: call_quiet sys_create_temp_def sys_open_excl_def Let_def bump_ino_def set_file_def)

lemma fill_quiet:
  assumes "pe_io P = quiet" "fs_files (sys_now s) tmp = Some h" "f_data h = []"
    and "sl_lock_entries (pe_save P) db = (True, db1)" "sl_encode (pe_save P) db1 = Some dat"
  shows "\<exists>s' h'. fill_copy P tmp db s = (Ok (), s') \<and> fs_files (sys_now s') = (fs_files (sys_now s))(tmp \<mapsto> h') \<and> f_data h' = dat"
  using assms
  by (simp add: fill_copy_def andthen_def call_quiet encode_to_def write_data_def sys_call_defs set_file_def)
    (intro exI conjI, rule refl, simp)

lemma publish_quiet:
  assumes "pe_io P = quiet" "fs_files (sys_now s) tmp = Some h" "replace \<or> fs_files (sys_now s) dest = None"
  shows "\<exists>s' h'. publish_copy P tmp dest replace s = (Ok (), s')
    \<and> fs_files (sys_now s') = (fs_files (sys_now s))(tmp := None, dest \<mapsto> h') \<and> f_data h' = f_data h"
proof -
  let ?h = "h\<lparr>f_ctime := fs_clock (sys_now s)\<rparr>"
  have "\<exists>s'. publish_copy P tmp dest replace s = (Ok (), s') \<and> fs_files (sys_now s') = (fs_files (sys_now s))(tmp := None, dest \<mapsto> ?h)"
    using assms
    by (cases replace)
      (simp_all add: publish_copy_def fileExists_def try_io_def andthen_def return_io_def call_quiet sys_call_defs)
  then show ?thesis by (metis disk_file.select_convs(6) disk_file.update_convs(4) disk_file.cases)
qed

text \<open>The whole copy touches only the destination.\<close>

lemma copy_quiet:
  assumes "pe_io P = quiet" "fs_files (sys_now s) source = Some src" "rekeyed P (f_data src) pw secret = Some db"
    and "sl_lock_entries (pe_save P) db = (True, db1)" "sl_encode (pe_save P) db1 = Some dat"
    and "fs_files (sys_now s) (path_dir dest) = None" "replace \<or> fs_files (sys_now s) dest = None"
    and temp: "\<And>d. fs_files d = fs_files (sys_now s) \<Longrightarrow> fs_files d (sl_temp_name (pe_save P) dest d) = None"
      "dest \<notin> range (sl_temp_name (pe_save P) dest)"
  shows "\<exists>s' f. copyAndRekeyDatabase P source dest pw secret replace s = (Ok (), s')
    \<and> fs_files (sys_now s') dest = Some f \<and> f_data f = dat
    \<and> (\<forall>q. q \<noteq> dest \<longrightarrow> fs_files (sys_now s') q = fs_files (sys_now s) q)"
proof -
  obtain s1 where s1: "call quiet (sys_read_file source) s = (Ok (f_data src), s1)" "sys_now s1 = sys_now s"
    using read_quiet[OF assms(2)] by blast
  obtain s2 where s2: "(EnsurePrivateDir quiet (path_dir dest)) s1 = (Ok (), s2)" "fs_files (sys_now s2) = fs_files (sys_now s)"
    using private_dir_quiet[of s1 "path_dir dest"] assms(6) s1(2) by auto
  define tmp where "tmp = sl_temp_name (pe_save P) dest (sys_now s2)"
  have tmp: "fs_files (sys_now s2) tmp = None" using temp(1)[OF s2(2)] by (simp add: tmp_def)
  have apart: "tmp \<noteq> dest" using temp(2) unfolding tmp_def by (metis rangeI)
  obtain s3 where s3: "call quiet (sys_create_temp (pe_save P) dest) s2 = (Ok tmp, s3)"
      "fs_files (sys_now s3) = (fs_files (sys_now s2))(tmp \<mapsto> new_file (sys_now s2) mode_private_file [])"
    using create_temp_quiet[OF tmp_def[symmetric] tmp] by blast
  obtain s4 h4 where s4: "fill_copy P tmp db s3 = (Ok (), s4)" "fs_files (sys_now s4) = (fs_files (sys_now s3))(tmp \<mapsto> h4)" "f_data h4 = dat"
    using fill_quiet[OF assms(1) _ _ assms(4,5), of s3 tmp "new_file (sys_now s2) mode_private_file []"] s3(2)
    by (auto simp: new_file_def)
  obtain s5 h5 where s5: "publish_copy P tmp dest replace s4 = (Ok (), s5)"
      "fs_files (sys_now s5) = (fs_files (sys_now s4))(tmp := None, dest \<mapsto> h5)" "f_data h5 = dat"
    using publish_quiet[OF assms(1), of s4 tmp h4 replace dest] s4(2,3) s3(2) s2(2) assms(7) apart by auto
  have files: "fs_files (sys_now s5) = (fs_files (sys_now s))(tmp := None, dest \<mapsto> h5)"
    using s5(2) s4(2) s3(2) s2(2) by simp
  obtain s6 where s6: "call quiet (sys_remove tmp) s5 = (Err NotExist, s6)" "sys_now s6 = sys_now s5"
    using apart files by (simp add: call_quiet sys_remove_def)
  have "copyAndRekeyDatabase P source dest pw secret replace s = (Ok (), s6)"
    using s1(1) s2(1) s3(1) s4(1) s5(1) s6(1)
    by (simp add: copyAndRekeyDatabase_def andthen_def deferring_def assms(1,3))
  then show ?thesis using files s6(2) s5(3) tmp apart s2(2) by auto
qed

section \<open>The account after an adoption\<close>

text \<open>What an adoption needs: working libraries, the files apart and their directories not
  files, an unused name for the temporary file, an identity the login password opens, and a
  source that opens with the password typed for it.\<close>

definition adoptable :: "('id, 'rc) pam_env \<Rightarrow> string \<Rightarrow> string \<Rightarrow> bytes \<Rightarrow> string \<Rightarrow> bool \<Rightarrow> fs \<Rightarrow> bool" where
  "adoptable P source dest token pw replace d \<longleftrightarrow>
     pe_io P = quiet \<and> age_ok (pe_age P) \<and> adopt_places P source dest \<and> pe_identity P \<noteq> pe_credential P \<and> dest \<noteq> []
     \<and> (replace \<or> fs_files d dest = None \<and> fs_files d (pe_credential P) = None)
     \<and> (\<forall>q \<in> {dest, pe_credential P}. fs_files d (path_dir q) = None \<and> path_dir q \<notin> {dest, pe_identity P, pe_credential P})
     \<and> (\<forall>d'. dom (fs_files d') \<subseteq> insert (pe_identity P) (dom (fs_files d)) \<longrightarrow> fs_files d' (sl_temp_name (pe_save P) dest d') = None)
     \<and> (\<exists>src identity secret cred sealed db db1 dat db2 db3. fs_files d source = Some src
          \<and> identity_ready P token d identity \<and> pe_secret P = Some secret \<and> secret \<noteq> []
          \<and> NewRandomDBCredential (Some secret) (pe_now P) dest = Some cred
          \<and> SealCredential (pe_age P) cred (ag_recipient (pe_age P) identity) = Some sealed
          \<and> rekeyed P (f_data src) pw (pc_password cred) = Some db \<and> sl_lock_entries (pe_save P) db = (True, db1)
          \<and> sl_encode (pe_save P) db1 = Some dat
          \<and> pb_decode (pe_pool P) dat (Some (pb_password (pe_pool P) (bytes_of (pc_password cred)))) = Some db2
          \<and> pb_unlock (pe_pool P) db2 = Some db3)"

lemma checks_quiet:
  assumes "pe_io P = quiet" "replace \<or> fs_files (sys_now s) dest = None \<and> fs_files (sys_now s) (pe_credential P) = None"
  shows "\<exists>s'. adopt_checks P replace dest s = (Ok (), s') \<and> sys_now s' = sys_now s"
proof -
  obtain s1 where s1: "(fileExists quiet dest :: (ctl_error, bool) prog) s = (Ok (fs_files (sys_now s) dest \<noteq> None), s1)"
      "sys_now s1 = sys_now s"
    using exists_quiet by blast
  obtain s2 where s2: "(fileExists quiet (pe_credential P) :: (ctl_error, bool) prog) s1
      = (Ok (fs_files (sys_now s1) (pe_credential P) \<noteq> None), s2)" "sys_now s2 = sys_now s1"
    using exists_quiet by blast
  show ?thesis
    using assms s1 s2 by (cases replace) (auto simp: adopt_checks_def andthen_def return_io_def)
qed

lemma files_ready:
  assumes "adoptable P source dest token pw replace (sys_now s)"
  shows "\<exists>s' secret. adopt_files P token source dest pw replace s = (Ok (), s')
    \<and> login_ready P dest token secret (sys_now s') \<and> fs_files (sys_now s') source = fs_files (sys_now s) source"
proof -
  have quiet: "pe_io P = quiet" and age: "age_ok (pe_age P)" and places: "adopt_places P source dest"
    and apart: "pe_identity P \<noteq> pe_credential P" "dest \<noteq> []"
    and free: "replace \<or> fs_files (sys_now s) dest = None"
    and dirs: "\<forall>q \<in> {dest, pe_credential P}. fs_files (sys_now s) (path_dir q) = None \<and> path_dir q \<notin> {dest, pe_identity P, pe_credential P}"
    and temp: "\<And>d'. dom (fs_files d') \<subseteq> insert (pe_identity P) (dom (fs_files (sys_now s))) \<Longrightarrow> fs_files d' (sl_temp_name (pe_save P) dest d') = None"
    using assms unfolding adoptable_def by auto
  obtain src identity secret cred sealed db db1 dat db2 db3 where
    src: "fs_files (sys_now s) source = Some src" and identity: "identity_ready P token (sys_now s) identity"
    and secret: "pe_secret P = Some secret" "secret \<noteq> []" and cred: "NewRandomDBCredential (Some secret) (pe_now P) dest = Some cred"
    and seal: "SealCredential (pe_age P) cred (ag_recipient (pe_age P) identity) = Some sealed"
    and db: "rekeyed P (f_data src) pw (pc_password cred) = Some db" "sl_lock_entries (pe_save P) db = (True, db1)"
      "sl_encode (pe_save P) db1 = Some dat"
    and reads: "pb_decode (pe_pool P) dat (Some (pb_password (pe_pool P) (bytes_of (pc_password cred)))) = Some db2"
      "pb_unlock (pe_pool P) db2 = Some db3"
    using assms unfolding adoptable_def by blast
  have names: "dest \<notin> range (sl_temp_name (pe_save P) dest)" "source \<noteq> dest" "pe_identity P \<notin> {source, dest}" "pe_credential P \<notin> {source, dest}"
    using places by (auto simp: adopt_places_def)
  obtain s1 fi where s1: "loadOrCreateIdentity P (pe_identity P) token s = (Ok identity, s1)" "fs_files (sys_now s1) (pe_identity P) = Some fi"
      "OpenIdentity (pe_age P) (f_data fi) token = Some identity" "\<forall>q. q \<noteq> pe_identity P \<longrightarrow> fs_files (sys_now s1) q = fs_files (sys_now s) q"
    using identity_quiet[OF quiet age identity] by blast
  have src1: "fs_files (sys_now s1) source = Some src" "fs_files (sys_now s1) (path_dir dest) = None"
      "replace \<or> fs_files (sys_now s1) dest = None"
    using s1(4) src names dirs free by auto
  have "dom (fs_files (sys_now s1)) \<subseteq> insert (pe_identity P) (dom (fs_files (sys_now s)))" using s1(4) by fastforce
  then have temp1: "fs_files d (sl_temp_name (pe_save P) dest d) = None" if "fs_files d = fs_files (sys_now s1)" for d
    using temp[of d] that by simp
  obtain s2 f where s2: "copyAndRekeyDatabase P source dest pw (pc_password cred) replace s1 = (Ok (), s2)" "fs_files (sys_now s2) dest = Some f"
      "f_data f = dat" "\<forall>q. q \<noteq> dest \<longrightarrow> fs_files (sys_now s2) q = fs_files (sys_now s1) q"
    using copy_quiet[OF quiet src1(1) db src1(2,3) temp1 names(1)] by blast
  have "fs_files (sys_now s2) (path_dir (pe_credential P)) = None" using s1(4) s2(4) dirs by auto
  from write_private_quiet[OF this] obtain s3 where s3: "WritePrivateFile quiet (pe_short P) (pe_credential P) sealed s2 = (Ok (), s3)"
      "wrote (pe_credential P) sealed s2 s3"
    by blast
  have run: "adopt_files P token source dest pw replace s = (Ok (), s3)"
    using s1(1) s2(1) s3(1) secret(1) cred seal
    by (simp add: adopt_files_def andthen_def or_fail_def WriteSealedCredential_def quiet)
  obtain fc where fc: "fs_files (sys_now s3) (pe_credential P) = Some fc" "f_data fc = sealed"
      "\<forall>q. q \<noteq> pe_credential P \<longrightarrow> fs_files (sys_now s3) q = fs_files (sys_now s2) q"
    using s3(2) by (auto simp: wrote_def)
  have opens: "OpenCredential (pe_age P) (f_data fc) identity = Some cred"
    unfolding fc(2) by (rule sealed_credential[OF age cred _ apart(2) seal]) (use secret(2) in simp)
  have files: "fs_files (sys_now s3) dest = Some f" "fs_files (sys_now s3) (pe_identity P) = Some fi"
      "fs_files (sys_now s3) source = fs_files (sys_now s) source"
    using fc(3) s2(2,4) s1(2,4) names apart(1) by auto
  have "login_ready P dest token (pc_password cred) (sys_now s3)"
    unfolding login_ready_def
    by (rule exI[of _ f], rule exI[of _ fi], rule exI[of _ fc], rule exI[of _ identity], rule exI[of _ cred], rule exI[of _ db2], rule exI[of _ db3])
      (simp add: files fc(1) s1(3) opens s2(3) reads)
  then show ?thesis using run files(3) by blast
qed

text \<open>C28. An undisturbed adoption succeeds and the login opens the result: after it the source is
  unchanged, and whatever the pool then holds, every login with the password typed for it
  opens the default database.\<close>

theorem adopt_then_login:
  assumes "adopt_args args = Some (replace, source)" and "P = ct_account E" and "dest = DefaultDatabasePath (ct_env E)"
    and "token = DerivePAMToken (ct_sha E) (bytes_of login)" and "dk_disk s = sys_start d"
    and "adoptable P source dest token pw replace d" and "\<forall>n. pe_mlock P n"
  shows "\<exists>s'. kpxcctl E (''adopt-default'' # args) (Some pw) (Some login) s = (Ok [], s')
    \<and> fs_files (sys_now (dk_disk s')) source = fs_files d source
    \<and> (\<forall>p. \<exists>p' t. unlockOrBootstrapWithPAM P dest token p (dk_disk s') = (None, p', t) \<and> opened_at p' dest)"
proof -
  have quiet: "pe_io P = quiet" and may: "replace \<or> fs_files d dest = None \<and> fs_files d (pe_credential P) = None"
    using assms(6) unfolding adoptable_def by blast+
  obtain c where c: "adopt_checks P replace dest (sys_start d) = (Ok (), c)" "sys_now c = d"
    using checks_quiet[OF quiet, of replace "sys_start d" dest] may by (auto simp: sys_start_def)
  obtain c' secret where c': "adopt_files P token source dest pw replace c = (Ok (), c')" "login_ready P dest token secret (sys_now c')"
      "fs_files (sys_now c') source = fs_files d source"
    using files_ready[of P source dest token pw replace c] assms(6) c(2) by auto
  let ?s = "lockDefaultInDaemon E (s\<lparr>dk_disk := c\<rparr>)"
  have "kpxcctl E (''adopt-default'' # args) (Some pw) (Some login) s = (Ok [], ?s\<lparr>dk_disk := c'\<rparr>)"
    using adopt_run[OF assms(1), of E s "()" c "Some pw" "Some login"] c(1) c'(1) assms(2-5) by (simp add: on_disk_def)
  moreover have "\<exists>p' t. unlockOrBootstrapWithPAM P dest token p c' = (None, p', t) \<and> opened_at p' dest" for p
    using ready_login[OF quiet assms(7) c'(2)] by blast
  ultimately show ?thesis using c'(3) by auto
qed

section \<open>An account to adopt for\<close>

text \<open>A codec that writes the password and checks it when reading.\<close>

definition adopt_save :: save_lib where
  "adopt_save = sample_save_lib\<lparr>sl_encode := \<lambda>db. map_option passphrase (db_credentials db)\<rparr>"

definition adopt_pool :: pool_lib where
  "adopt_pool = sample_pool_lib\<lparr>pb_decode := \<lambda>dat c. case c of None \<Rightarrow> None
     | Some c \<Rightarrow> if passphrase c = dat then Some (sample_database\<lparr>db_credentials := Some c\<rparr>) else None\<rparr>"

definition adopt_env :: environment where
  "adopt_env x = (if x = ''HOME'' then ''/home/u'' else [])"

definition adopt_dest :: string where
  "adopt_dest = ''/home/u/.local/share/kpxcd/default.kdbx''"

definition fresh_credential :: pam_credential where
  "fresh_credential = sample_credential\<lparr>pc_path := adopt_dest\<rparr>"

definition old_credential :: pam_credential where
  "old_credential = fresh_credential\<lparr>pc_password := ''old''\<rparr>"

definition adopt_age :: "(unit, unit) age_lib" where
  "adopt_age = sample_age\<lparr>ag_marshal := \<lambda>c. if c = fresh_credential then Some [7] else None,
     ag_unmarshal := \<lambda>b. Some (if b = [7] then fresh_credential else old_credential)\<rparr>"

definition adopter :: "io \<Rightarrow> (unit, unit) pam_env" where
  "adopter io = sample_account\<lparr>pe_age := adopt_age, pe_save := adopt_save, pe_pool := adopt_pool, pe_io := io\<rparr>"

definition adopt_ctl :: "io \<Rightarrow> (unit, unit, unit, unit) ctl_env" where
  "adopt_ctl io =
     \<lparr>ct_bus = True, ct_sender = '':1.7'', ct_users = sample_bus, ct_ssh = sample_lib, ct_attach = sample_attachments,
      ct_store = sample_store, ct_write = sample_write, ct_order = \<lambda>_. [], ct_identities = \<lambda>_. [], ct_account = adopter io,
      ct_sha = \<lambda>b. take 32 (b @ replicate 32 0), ct_env = adopt_env, ct_uid_text = ''1000'', ct_config = Ok DefaultConfig\<rparr>"

text \<open>One account without a default database, and one whose database and credential are there.\<close>

definition adopt_disk1 :: fs where
  "adopt_disk1 = fresh_disk\<lparr>fs_files := [''/s'' \<mapsto> sample_file\<lparr>f_data := bytes_of ''pw''\<rparr>]\<rparr>"

definition adopt_disk2 :: fs where
  "adopt_disk2 = fresh_disk\<lparr>fs_files := [''/s'' \<mapsto> sample_file\<lparr>f_data := bytes_of ''pw''\<rparr>, ''/c'' \<mapsto> sample_file\<lparr>f_data := [0, 8]\<rparr>,
     adopt_dest \<mapsto> sample_file\<lparr>f_data := bytes_of ''old''\<rparr>]\<rparr>"

definition idle_desk :: "fs \<Rightarrow> (unit, unit) desk" where
  "idle_desk d = \<lparr>dk_daemon = None, dk_disk = sys_start d\<rparr>"

lemma adopt_dest_is:
  "adopt_dest = ''/home/u/.local/share/kpxcd/default.kdbx''" "path_dir adopt_dest = ''/home/u/.local/share/kpxcd''"
  "DefaultDatabasePath adopt_env = adopt_dest"
  by code_simp+

lemma adopt_places_ok: "adopt_places (adopter io) ''/s'' adopt_dest"
  by (simp add: adopt_places_def adopter_def sample_account_def adopt_save_def sample_save_lib_def adopt_dest_is(1) image_iff)

theorem adopt_then_login_witness:
  "\<exists>s'. kpxcctl (adopt_ctl quiet) [''adopt-default'', ''/s''] (Some ''pw'') (Some ''login'') (idle_desk adopt_disk1) = (Ok [], s')"
proof -
  let ?P = "adopter quiet" and ?token = "DerivePAMToken (ct_sha (adopt_ctl quiet)) (bytes_of ''login'')"
  have args: "adopt_args [''/s''] = Some (False, ''/s'')" by code_simp
  have age: "age_ok adopt_age" by (simp add: age_ok_def adopt_age_def sample_age_def is_space_def)
  have fresh: "NewRandomDBCredential (Some [1, 2, 3]) ''now'' adopt_dest = Some fresh_credential"
    by (simp add: NewRandomDBCredential_def fresh_credential_def sample_credential_def CredentialVersion_def)
  have seal: "SealCredential adopt_age fresh_credential rc = Some [0, 7]" for rc
    by (simp add: SealCredential_def adopt_age_def sample_age_def)
  have identity: "identity_ready ?P ?token adopt_disk1 ()"
  proof -
    have "path_dir ''/i'' = ''/''" by code_simp
    then show ?thesis
      by (simp add: identity_ready_def adopter_def sample_account_def adopt_disk1_def SealIdentity_def adopt_age_def sample_age_def)
  qed
  let ?db = "sample_database\<lparr>db_credentials := Some \<lparr>passphrase = bytes_of (pc_password fresh_credential), cred_key = [], cred_windows = []\<rparr>\<rparr>"
  have rekeys: "rekeyed ?P (bytes_of ''pw'') ''pw'' (pc_password fresh_credential) = Some ?db"
    by (simp add: rekeyed_def adopter_def adopt_pool_def sample_pool_lib_def)
  have "adoptable ?P ''/s'' adopt_dest ?token ''pw'' False adopt_disk1"
    unfolding adoptable_def
  proof (intro conjI)
    show "\<forall>q \<in> {adopt_dest, pe_credential ?P}. fs_files adopt_disk1 (path_dir q) = None
        \<and> path_dir q \<notin> {adopt_dest, pe_identity ?P, pe_credential ?P}"
    proof -
      have "path_dir ''/c'' = ''/''" by code_simp
      then show ?thesis
        by (simp add: adopter_def sample_account_def adopt_disk1_def adopt_dest_is(1) adopt_dest_is(2)[unfolded adopt_dest_is(1)] fresh_disk_def)
    qed
    show "\<forall>d'. dom (fs_files d') \<subseteq> insert (pe_identity ?P) (dom (fs_files adopt_disk1)) \<longrightarrow> fs_files d' (sl_temp_name (pe_save ?P) adopt_dest d') = None"
      by (auto simp: adopter_def sample_account_def adopt_disk1_def adopt_save_def sample_save_lib_def)
    show "\<exists>src identity secret cred sealed db db1 dat db2 db3. fs_files adopt_disk1 ''/s'' = Some src
          \<and> identity_ready ?P ?token adopt_disk1 identity \<and> pe_secret ?P = Some secret \<and> secret \<noteq> []
          \<and> NewRandomDBCredential (Some secret) (pe_now ?P) adopt_dest = Some cred
          \<and> SealCredential (pe_age ?P) cred (ag_recipient (pe_age ?P) identity) = Some sealed
          \<and> rekeyed ?P (f_data src) ''pw'' (pc_password cred) = Some db \<and> sl_lock_entries (pe_save ?P) db = (True, db1)
          \<and> sl_encode (pe_save ?P) db1 = Some dat
          \<and> pb_decode (pe_pool ?P) dat (Some (pb_password (pe_pool ?P) (bytes_of (pc_password cred)))) = Some db2
          \<and> pb_unlock (pe_pool ?P) db2 = Some db3"
      using identity fresh seal rekeys
      by (intro exI[of _ "sample_file\<lparr>f_data := bytes_of ''pw''\<rparr>"] exI[of _ "()"] exI[of _ "[1, 2, 3]"] exI[of _ fresh_credential]
          exI[of _ "[0, 7]"] exI[of _ ?db] exI[of _ "bytes_of (pc_password fresh_credential)"])
        (simp add: adopter_def sample_account_def adopt_disk1_def adopt_save_def adopt_pool_def sample_save_lib_def sample_pool_lib_def)
  qed (use adopt_places_ok[of quiet] age in \<open>simp_all add: adopter_def sample_account_def adopt_dest_is adopt_disk1_def\<close>)
  moreover have "\<forall>n. pe_mlock ?P n" by (simp add: adopter_def sample_account_def)
  moreover have "?P = ct_account (adopt_ctl quiet)" "adopt_dest = DefaultDatabasePath (ct_env (adopt_ctl quiet))"
      "dk_disk (idle_desk adopt_disk1) = sys_start adopt_disk1"
    by (simp_all add: adopt_ctl_def adopt_dest_is(3) idle_desk_def)
  ultimately show ?thesis
    using adopt_then_login[OF args _ _ refl, of ?P "adopt_ctl quiet" adopt_dest "idle_desk adopt_disk1" adopt_disk1 "''login''" "''pw''"]
    by blast
qed

section \<open>The client's own unlock\<close>

text \<open>The client unlocks what the login unlocks: on a disk where a login finds the password of the
  default database, \<open>kpxcctl unlock\<close> with the login password has the running daemon open
  that database, for a caller the daemon accepts.\<close>

theorem client_unlock_opens:
  assumes "P = ct_account E" and "dest = DefaultDatabasePath (ct_env E)" and "pe_io P = quiet" and "\<forall>n. pe_mlock P n"
    and "login_ready P dest (DerivePAMToken (ct_sha E) (bytes_of login)) secret (sys_now (dk_disk s))"
    and "ct_bus E" and "dk_daemon s = Some a" and "authorize (ct_users E) a (ct_sender E) = None"
    and "sendable dest" and "sendable secret"
  shows "\<exists>s' a'. kpxcctl E [''unlock''] (Some login) y s = (Ok [], s') \<and> dk_daemon s' = Some a' \<and> opened_at (ap_pool a') dest
    \<and> sys_now (dk_disk s') = sys_now (dk_disk s)"
proof -
  let ?token = "DerivePAMToken (ct_sha E) (bytes_of login)" and ?d = "sys_now (dk_disk s)"
  obtain f f1 f2 identity cred db0 db where
    files: "fs_files ?d dest = Some f" "fs_files ?d (pe_identity P) = Some f1" "fs_files ?d (pe_credential P) = Some f2" and
    seal: "OpenIdentity (pe_age P) (f_data f1) ?token = Some identity" "OpenCredential (pe_age P) (f_data f2) identity = Some cred" and
    opens: "pc_password cred = secret" "pb_decode (pe_pool P) (f_data f) (Some (pb_password (pe_pool P) (bytes_of secret))) = Some db0"
      "pb_unlock (pe_pool P) db0 = Some db"
    using assms(5) unfolding login_ready_def by blast
  obtain s1 where s1: "(fileExists quiet (pe_identity P) :: (ctl_error, bool) prog) (dk_disk s) = (Ok True, s1)" "sys_now s1 = ?d"
    using exists_quiet[of "pe_identity P" "dk_disk s"] files(2) by auto
  obtain s2 where s2: "(fileExists quiet (pe_credential P) :: (ctl_error, bool) prog) s1 = (Ok True, s2)" "sys_now s2 = ?d"
    using exists_quiet[of "pe_credential P" s1] files(3) s1(2) by auto
  obtain s3 where s3: "call quiet (sys_read_file (pe_identity P)) s2 = (Ok (f_data f1), s3)" "sys_now s3 = ?d"
    using read_quiet[of s2 "pe_identity P" f1] files(2) s2(2) by auto
  obtain s4 where s4: "call quiet (sys_read_file (pe_credential P)) s3 = (Ok (f_data f2), s4)" "sys_now s4 = ?d"
    using read_quiet[of s3 "pe_credential P" f2] files(3) s3(2) by auto
  have password: "default_password E (Some login) (dk_disk s) = (Ok secret, s4)"
    using s1(1) s2(1) s3(1) s4(1) seal opens(1) assms(3)
    by (simp add: default_password_def Let_def andthen_def or_fail_def return_io_def ReadSealedIdentity_def ReadSealedCredential_def assms(1)[symmetric])
  obtain ss where ss: "NewSecureString (pe_mlock P) secret = Some ss" "Secure_Bytes (Some ss) = bytes_of secret"
    using secure_ok[OF assms(4)] by blast
  obtain u p' where p': "Open (pe_pool P) (Some (f_data f)) (Some (fingerprint_file (sl_sha256 (pe_save P)) f)) dest (PasswordCredential (Some ss)) (ap_pool a)
      = (Ok u, p')" "opened_at p' dest"
    using Open_password[OF ss(2) opens(2,3)] by blast
  let ?s = "s\<lparr>dk_disk := s4\<rparr>"
  have "unlockViaDBus E dest secret ?s = (Ok [], ?s\<lparr>dk_daemon := Some (a\<lparr>ap_pool := p'\<rparr>)\<rparr>)"
    using assms(6-10) ss(1) p'(1) files(1) s4(2)
    by (simp add: unlockViaDBus_def bus_call_def changes_def UnlockDatabase_def api_credential_def showing_def
        disk_content_def disk_fingerprint_def assms(1)[symmetric])
  then have "kpxcctl E [''unlock''] (Some login) y s = (Ok [], ?s\<lparr>dk_daemon := Some (a\<lparr>ap_pool := p'\<rparr>)\<rparr>)"
    using password by (simp add: kpxcctl_def cmdUnlock_def cmdUnlockDefault_def assms(2)[symmetric])
  then show ?thesis using p'(2) s4(2) by auto
qed

text \<open>The account of the first example after its adoption, with a daemon running.\<close>

definition adopt_disk3 :: "bytes \<Rightarrow> fs" where
  "adopt_disk3 token = fresh_disk\<lparr>fs_files := [''/i'' \<mapsto> sample_file\<lparr>f_data := token @ bytes_of (''KEY'' @ newline)\<rparr>,
     ''/c'' \<mapsto> sample_file\<lparr>f_data := [0, 7]\<rparr>, adopt_dest \<mapsto> sample_file\<lparr>f_data := bytes_of (pc_password fresh_credential)\<rparr>]\<rparr>"

theorem client_unlock_opens_witness:
  "\<exists>s' a'. kpxcctl (adopt_ctl quiet) [''unlock''] (Some ''login'') None
       \<lparr>dk_daemon = Some sample_api, dk_disk = sys_start (adopt_disk3 (DerivePAMToken (ct_sha (adopt_ctl quiet)) (bytes_of ''login'')))\<rparr> = (Ok [], s')
     \<and> dk_daemon s' = Some a' \<and> opened_at (ap_pool a') adopt_dest"
proof -
  let ?P = "adopter quiet" and ?E = "adopt_ctl quiet"
  let ?token = "DerivePAMToken (ct_sha ?E) (bytes_of ''login'')"
  let ?s = "\<lparr>dk_daemon = Some sample_api, dk_disk = sys_start (adopt_disk3 ?token)\<rparr>"
  have age: "age_ok adopt_age" by (simp add: age_ok_def adopt_age_def sample_age_def is_space_def)
  have "SealIdentity adopt_age () ?token = Some (?token @ bytes_of (''KEY'' @ newline))"
    by (simp add: SealIdentity_def adopt_age_def sample_age_def)
  from sealed_identity[OF age this] have identity: "OpenIdentity adopt_age (?token @ bytes_of (''KEY'' @ newline)) ?token = Some ()" .
  have "pc_password fresh_credential \<noteq> []" by code_simp
  then have cred: "OpenCredential adopt_age [0, 7] () = Some fresh_credential"
    by (simp add: OpenCredential_def adopt_age_def sample_age_def fresh_credential_def sample_credential_def CredentialVersion_def adopt_dest_def)
  have ready: "login_ready ?P adopt_dest ?token (pc_password fresh_credential) (sys_now (dk_disk ?s))"
    unfolding login_ready_def
    using identity cred
    by (intro exI[of _ "sample_file\<lparr>f_data := bytes_of (pc_password fresh_credential)\<rparr>"]
        exI[of _ "sample_file\<lparr>f_data := ?token @ bytes_of (''KEY'' @ newline)\<rparr>"] exI[of _ "sample_file\<lparr>f_data := [0, 7]\<rparr>"] exI[of _ "()"]
        exI[of _ fresh_credential])
      (simp add: sys_start_def adopt_disk3_def adopt_dest_def adopter_def sample_account_def adopt_pool_def sample_pool_lib_def)
  have env: "?P = ct_account ?E" "adopt_dest = DefaultDatabasePath (ct_env ?E)" "pe_io ?P = quiet" "\<forall>n. pe_mlock ?P n" "ct_bus ?E"
      "dk_daemon ?s = Some sample_api" "authorize (ct_users ?E) sample_api (ct_sender ?E) = None"
    by (simp_all add: adopt_ctl_def adopt_dest_is(3) adopter_def sample_account_def authorize_def sample_bus_def sample_api_def)
  have utf8: "sendable adopt_dest" "sendable (pc_password fresh_credential)" by code_simp+
  from client_unlock_opens[OF env(1-4) ready env(5-7) utf8, of None] show ?thesis by blast
qed

text \<open>The call that makes the directory of the credential, the eighteenth, fails.\<close>

definition late_failure :: io where
  "late_failure = \<lparr>io_world = \<lambda>_ d. d, io_fails = \<lambda>k. k = 17\<rparr>"

text \<open>The work fails at the end and leaves the old credential, whatever the token.\<close>

lemma late_run:
  "case adopt_files (adopter late_failure) token ''/s'' adopt_dest ''pw'' True (sys_start adopt_disk2) of
     (r, s) \<Rightarrow> r = Err CannotSeal \<and> map_option f_data (fs_files (sys_now s) ''/c'') = Some [0, 8]"
  by code_simp

theorem adopt_failure_locks_out_witness:
  "\<exists>e t. unlockOrBootstrapWithPAM (adopter quiet) adopt_dest [9, 9] (NewDatabasePool None)
      (dk_disk (snd (kpxcctl (adopt_ctl late_failure) [''adopt-default'', ''--replace'', ''/s''] (Some ''pw'') (Some ''login'') (idle_desk adopt_disk2))))
      = (Some e, NewDatabasePool None, t)"
proof -
  let ?P = "adopter late_failure" and ?run = "kpxcctl (adopt_ctl late_failure) [''adopt-default'', ''--replace'', ''/s''] (Some ''pw'') (Some ''login'') (idle_desk adopt_disk2)"
  have args: "adopt_args [''--replace'', ''/s''] = Some (True, ''/s'')" by code_simp
  let ?files = "adopt_files ?P (DerivePAMToken (ct_sha (adopt_ctl late_failure)) (bytes_of ''login'')) ''/s'' adopt_dest ''pw'' True (sys_start adopt_disk2)"
  have "?run = on_disk (\<lambda>_. ?files) (lockDefaultInDaemon (adopt_ctl late_failure) (idle_desk adopt_disk2))"
    using adopt_run[OF args, of "adopt_ctl late_failure" "idle_desk adopt_disk2" "()" "sys_start adopt_disk2"]
    by (simp add: adopt_checks_def return_io_def idle_desk_def adopt_ctl_def adopt_dest_is(3) on_disk_def)
  moreover obtain d' where d': "?files = (Err CannotSeal, d')" "map_option f_data (fs_files (sys_now d') ''/c'') = Some [0, 8]"
    using late_run[of "DerivePAMToken (ct_sha (adopt_ctl late_failure)) (bytes_of ''login'')"] by (cases ?files) simp
  ultimately have run: "?run = (Err CannotSeal, snd ?run)" and after: "dk_disk (snd ?run) = snd ?files"
    by (simp_all add: on_disk_def)
  have kept: "map_option f_data (fs_files (sys_now (dk_disk (snd ?run))) ''/c'') = Some [0, 8]"
    using d' by (simp add: after)
  have fresh: "NewRandomDBCredential (pe_secret ?P) (pe_now ?P) adopt_dest = Some fresh_credential"
    by (simp add: adopter_def sample_account_def NewRandomDBCredential_def fresh_credential_def sample_credential_def CredentialVersion_def)
  have guards: "guarded (pe_save ?P) (pe_pool ?P)"
    by (auto simp: guarded_def adopter_def adopt_save_def adopt_pool_def sample_save_lib_def sample_pool_lib_def)
  have "pc_password old_credential \<noteq> pc_password fresh_credential" by code_simp
  then have old: "\<forall>fc identity c. fs_files (sys_now (dk_disk (snd ?run))) (pe_credential ?P) = Some fc
      \<longrightarrow> OpenCredential (pe_age ?P) (f_data fc) identity = Some c \<longrightarrow> pc_password c \<noteq> pc_password fresh_credential"
    using kept by (auto simp: adopter_def sample_account_def adopt_age_def sample_age_def OpenCredential_def split: if_splits)
  have disk: "leaves (pe_io ?P) (adopt_names ?P ''/s'' adopt_dest)" "fs_files adopt_disk2 ''/s'' = Some (sample_file\<lparr>f_data := bytes_of ''pw''\<rparr>)"
      "dk_disk (idle_desk adopt_disk2) = sys_start adopt_disk2"
    by (simp_all add: adopter_def leaves_def late_failure_def adopt_disk2_def adopt_dest_is(1) idle_desk_def)
  have account: "?P = ct_account (adopt_ctl late_failure)" "adopt_dest = DefaultDatabasePath (ct_env (adopt_ctl late_failure))"
    by (simp_all add: adopt_ctl_def adopt_dest_is(3))
  have "?P\<lparr>pe_io := quiet\<rparr> = adopter quiet" by (simp add: adopter_def)
  with adopt_failure_locks_out[OF args account disk(1) adopt_places_ok disk(2,3) run fresh guards old, of "[9, 9]" "NewDatabasePool None"]
  show ?thesis by simp
qed

theorem adopt_complete_or_untouched_witness:
  "always (\<lambda>d. fs_files d ''/s'' = Some (sample_file\<lparr>f_data := bytes_of ''pw''\<rparr>))
     (dk_disk (snd (kpxcctl (adopt_ctl late_failure) [''adopt-default'', ''--replace'', ''/s''] (Some ''pw'') (Some ''login'') (idle_desk adopt_disk2))))"
proof -
  have args: "adopt_args [''--replace'', ''/s''] = Some (True, ''/s'')" by code_simp
  have "adopter late_failure = ct_account (adopt_ctl late_failure)" "adopt_dest = DefaultDatabasePath (ct_env (adopt_ctl late_failure))"
      "leaves (pe_io (adopter late_failure)) (adopt_names (adopter late_failure) ''/s'' adopt_dest)"
      "fs_files adopt_disk2 ''/s'' = Some (sample_file\<lparr>f_data := bytes_of ''pw''\<rparr>)" "dk_disk (idle_desk adopt_disk2) = sys_start adopt_disk2"
    by (simp_all add: adopt_ctl_def adopt_dest_is(3) adopter_def leaves_def late_failure_def adopt_disk2_def adopt_dest_def idle_desk_def)
  from adopt_complete_or_untouched[OF args this(1-3) adopt_places_ok this(4,5), of "Some ''pw''" "Some ''login''"]
  show ?thesis by (auto simp: always_def)
qed

end
