(* ===== verification/Sockets.thy ===== *)
theory Sockets
  imports Pam_Contract
begin

text \<open>
  The sockets of the daemon: \<open>Listen\<close>, \<open>Serve\<close> and \<open>Close\<close> of the SSH agent
  (\<open>internal/sshagent/server.go\<close>) and of the PAM socket (\<open>internal/daemon/pamsocket.go\<close>), with
  what \<open>net.Listen\<close>, \<open>Accept\<close> and \<open>Close\<close> of Go's library do for a Unix socket.
\<close>

section \<open>Listeners\<close>

text \<open>A socket is a file without contents. \<open>bind\<close> makes it under the mask of the process.\<close>

definition bind_mode :: "nat \<Rightarrow> nat" where
  "bind_mode umask = and 511 (xor 511 umask)"

definition sys_bind :: "nat \<Rightarrow> string \<Rightarrow> unit syscall" where
  "sys_bind umask p d =
     (if fs_files d p \<noteq> None \<or> fs_dirs d p \<noteq> None then Err Exists
      else if fs_dirs d (path_dir p) = None then Err NotExist
      else Ok ((), bump_ino (set_file p (new_file d (bind_mode umask) []) d)))"

text \<open>\<open>os.Chmod\<close>, which works on files and directories.\<close>

definition sys_chmod_path :: "string \<Rightarrow> nat \<Rightarrow> unit syscall" where
  "sys_chmod_path p mode d =
     (case fs_files d p of
        None \<Rightarrow> sys_chmod_dir p mode d
      | Some f \<Rightarrow> Ok ((), set_file p (f\<lparr>f_mode := mode, f_ctime := fs_clock d\<rparr>) d))"

text \<open>A listener that \<open>net.Listen\<close> made removes its file when it is closed; one made from an
  inherited descriptor does not.\<close>

record unix_listener =
  ul_path :: string
  ul_unlink :: bool
  ul_open :: bool

text \<open>\<open>Close\<close> of a listener: the error, if any, and the listener. A second call fails.\<close>

definition close_listener :: "io \<Rightarrow> unix_listener \<Rightarrow> ('e, io_error option \<times> unix_listener) prog" where
  "close_listener io l =
     (if \<not> ul_open l then return_io (Some Failed, l)
      else andthen (if ul_unlink l then try_io (call io (sys_remove (ul_path l))) else return_io (Ok ())) (\<lambda>_.
           andthen (try_io (call io sys_noop)) (\<lambda>closed.
             return_io (case closed of Inl e \<Rightarrow> Some e | Inr _ \<Rightarrow> None, l\<lparr>ul_open := False\<rparr>))))"

datatype listen_error = NoSocketPath | NoSocketDirectory | CannotListen | CannotChmod

text \<open>The steps both servers take: the directory, the stale socket, the new one, its mode.\<close>

definition listen_at :: "io \<Rightarrow> nat \<Rightarrow> string \<Rightarrow> (listen_error, unix_listener) prog" where
  "listen_at io umask p =
     andthen (or_fail (call io (sys_mkdir_all (path_dir p) mode_private_dir)) NoSocketDirectory) (\<lambda>_.
     andthen (try_io (call io (sys_remove p))) (\<lambda>_.
     andthen (or_fail (call io (sys_bind umask p)) CannotListen) (\<lambda>_.
     andthen (try_io (call io (sys_chmod_path p mode_private_file))) (\<lambda>changed.
       let l = \<lparr>ul_path = p, ul_unlink = True, ul_open = True\<rparr>
       in case changed of
            Inl _ \<Rightarrow> andthen (close_listener io l) (\<lambda>_. fail_io CannotChmod)
          | Inr _ \<Rightarrow> return_io l))))"

section \<open>The SSH agent\<close>

record agent_socket =
  as_path :: string
  as_listener :: "unix_listener option"
  as_done :: bool

definition defaultSocketPath :: "environment \<Rightarrow> string \<Rightarrow> string" where
  "defaultSocketPath env uid_text =
     (let runDir = env ''XDG_RUNTIME_DIR'';
          runDir = (if runDir = [] then ''/run/user/'' @ uid_text else runDir)
      in path_join [runDir, ''kpxcd'', ''ssh.sock''])"

definition resolveSocketPath :: "environment \<Rightarrow> string \<Rightarrow> ssh_agent_config \<Rightarrow> string" where
  "resolveSocketPath env uid_text cfg = defaultSocketPath env uid_text"

definition NewAgentServer :: "environment \<Rightarrow> string \<Rightarrow> string \<Rightarrow> agent_socket" where
  "NewAgentServer env uid_text path =
     \<lparr>as_path = (if path = [] then defaultSocketPath env uid_text else path), as_listener = None, as_done = False\<rparr>"

definition Agent_Listen :: "io \<Rightarrow> nat \<Rightarrow> agent_socket \<Rightarrow> (listen_error, agent_socket) prog" where
  "Agent_Listen io umask srv =
     andthen (listen_at io umask (as_path srv)) (\<lambda>l. return_io (srv\<lparr>as_listener := Some l\<rparr>))"

definition Agent_Close :: "io \<Rightarrow> agent_socket \<Rightarrow> ('e, io_error option \<times> agent_socket) prog" where
  "Agent_Close io srv =
     andthen (case as_listener srv of
                None \<Rightarrow> return_io (None, srv\<lparr>as_done := True\<rparr>)
              | Some l \<Rightarrow> andthen (close_listener io l) (\<lambda>(err, l').
                            return_io (err, srv\<lparr>as_listener := Some l', as_done := True\<rparr>)))
       (\<lambda>(err, srv').
         case err of
           Some e \<Rightarrow> return_io (Some e, srv')
         | None \<Rightarrow> andthen (try_io (call io (sys_remove (as_path srv')))) (\<lambda>_. return_io (None, srv')))"

text \<open>What \<open>Accept\<close> gives, and whether a stop was requested by then. The loop of the agent
  goes on after an error unless it is to stop; the connections it started, and whether it
  ended.\<close>

datatype 'c accepted = Accepted 'c | AcceptFailed

fun agent_serve_loop :: "('c accepted \<times> bool) list \<Rightarrow> 'c list \<times> bool" where
  "agent_serve_loop [] = ([], False)"
| "agent_serve_loop ((Accepted c, _) # rest) = (case agent_serve_loop rest of (cs, e) \<Rightarrow> (c # cs, e))"
| "agent_serve_loop ((AcceptFailed, stopped) # rest) = (if stopped then ([], True) else agent_serve_loop rest)"

text \<open>\<open>Serve\<close> refuses a server that does not listen.\<close>

definition Agent_Serve :: "agent_socket \<Rightarrow> ('c accepted \<times> bool) list \<Rightarrow> ('c list \<times> bool) option" where
  "Agent_Serve srv accepts = map_option (\<lambda>_. agent_serve_loop accepts) (as_listener srv)"

section \<open>The PAM socket\<close>

record pam_socket =
  ps_listener :: "unix_listener option"
  ps_closed :: bool

definition NewPAMSocketServer :: pam_socket where
  "NewPAMSocketServer = \<lparr>ps_listener = None, ps_closed = False\<rparr>"

text \<open>\<open>activation\<close> is the answer of \<open>activation.Listeners\<close>: an error, or the listeners systemd
  passed, nil for a descriptor of another kind.\<close>

definition systemdOrDirectListener ::
  "io \<Rightarrow> nat \<Rightarrow> environment \<Rightarrow> unit + unix_listener option list \<Rightarrow> (listen_error, unix_listener option) prog" where
  "systemdOrDirectListener io umask env activation =
     (let direct = (case PAMSocketPath env of
                      None \<Rightarrow> fail_io NoSocketPath
                    | Some p \<Rightarrow> andthen (listen_at io umask p) (\<lambda>l. return_io (Some l)))
      in case activation of
           Inl _ \<Rightarrow> direct
         | Inr [] \<Rightarrow> direct
         | Inr (l # _) \<Rightarrow> return_io l)"

text \<open>The address of a nil listener is asked for in the log message.\<close>

definition Pam_Listen ::
  "io \<Rightarrow> nat \<Rightarrow> environment \<Rightarrow> unit + unix_listener option list \<Rightarrow> pam_socket \<Rightarrow> (listen_error, pam_socket run) prog" where
  "Pam_Listen io umask env activation srv =
     andthen (systemdOrDirectListener io umask env activation) (\<lambda>l.
       return_io (case l of None \<Rightarrow> Panicked | Some l \<Rightarrow> Returned (srv\<lparr>ps_listener := Some l\<rparr>)))"

definition Pam_Close :: "io \<Rightarrow> pam_socket \<Rightarrow> ('e, io_error option \<times> pam_socket) prog" where
  "Pam_Close io srv =
     (if ps_closed srv then return_io (None, srv)
      else (case ps_listener srv of
              None \<Rightarrow> return_io (None, srv\<lparr>ps_closed := True\<rparr>)
            | Some l \<Rightarrow> andthen (close_listener io l) (\<lambda>(err, l').
                          return_io (err, srv\<lparr>ps_listener := Some l', ps_closed := True\<rparr>))))"

text \<open>This loop ends at the first error of \<open>Accept\<close>, whatever its reason.\<close>

fun pam_serve_loop :: "'c accepted list \<Rightarrow> 'c list \<times> bool" where
  "pam_serve_loop [] = ([], False)"
| "pam_serve_loop (Accepted c # rest) = (case pam_serve_loop rest of (cs, e) \<Rightarrow> (c # cs, e))"
| "pam_serve_loop (AcceptFailed # rest) = ([], True)"

definition Pam_serve :: "pam_socket \<Rightarrow> 'c accepted list \<Rightarrow> 'c list \<times> bool" where
  "Pam_serve srv accepts = (case ps_listener srv of None \<Rightarrow> ([], True) | Some _ \<Rightarrow> pam_serve_loop accepts)"

section \<open>Sockets are private\<close>

lemma bind_mode_masked: "and b umask = b \<Longrightarrow> and (bind_mode umask) b = 0"
  by (rule bit_eqI) (auto simp: bind_mode_def bit_and_iff bit_xor_iff dest: arg_cong[of _ b "\<lambda>x. bit x _"] split: if_splits)

text \<open>Whatever stands at the path was there before, or has one of the modes; and the case of all
  modes that withhold some permissions.\<close>

definition made_with :: "nat set \<Rightarrow> string \<Rightarrow> disk_file option \<Rightarrow> fs \<Rightarrow> bool" where
  "made_with M p old d \<longleftrightarrow> (\<forall>f. fs_files d p = Some f \<longrightarrow> old = Some f \<or> f_mode f \<in> M)"

definition withheld :: "nat \<Rightarrow> string \<Rightarrow> disk_file option \<Rightarrow> fs \<Rightarrow> bool" where
  "withheld perms p old d \<longleftrightarrow> (\<forall>f. fs_files d p = Some f \<longrightarrow> old = Some f \<or> and (f_mode f) perms = 0)"

definition socket_modes :: "nat \<Rightarrow> nat set" where
  "socket_modes umask = {bind_mode umask, mode_private_file}"

lemma made_with_withheld: "made_with M p old d \<Longrightarrow> (\<And>m. m \<in> M \<Longrightarrow> and m perms = 0) \<Longrightarrow> withheld perms p old d"
  by (auto simp: made_with_def withheld_def)

lemma socket_modes_withheld:
  assumes "and perms umask = perms" "and perms mode_private_file = 0" "m \<in> socket_modes umask"
  shows "and m perms = 0"
  using assms bind_mode_masked[OF assms(1)] by (auto simp: socket_modes_def and.commute)

lemma keeps_made:
  assumes "leaves io {p}"
    and "\<And>d v d'. c d = Ok (v, d') \<Longrightarrow> made_with M p old d \<Longrightarrow> made_with M p old d'"
  shows "keeps (always (made_with M p old)) (call io c)"
  unfolding keeps_def
proof (rule triple_call)
  fix s assume "always (made_with M p old) s"
  moreover have "made_with M p old (io_world io k d) \<longleftrightarrow> made_with M p old d" for k d
    using leavesD[OF assms(1)] by (simp add: made_with_def)
  ultimately show s: "always (made_with M p old) (advance io s)" by (simp add: always_def)
  fix v d assume "c (sys_now (advance io s)) = Ok (v, d)"
  from assms(2)[OF this] s show "always (made_with M p old) (commit d (advance io s))"
    by (simp add: always_def)
qed

lemma keeps_made_calls:
  assumes "leaves io {p}"
  shows "keeps (always (made_with (socket_modes umask) p old)) (call io (sys_mkdir_all q m))"
    "keeps (always (made_with (socket_modes umask) p old)) (call io (sys_remove q))"
    "keeps (always (made_with (socket_modes umask) p old)) (call io (sys_bind umask p))"
    "keeps (always (made_with (socket_modes umask) p old)) (call io (sys_chmod_path p mode_private_file))"
    "keeps (always (made_with (socket_modes umask) p old)) (call io sys_noop)"
  by (rule keeps_made[OF assms],
      auto simp: made_with_def socket_modes_def sys_call_defs sys_bind_def sys_chmod_path_def new_file_def
        set_file_def bump_ino_def split: if_splits option.splits)+

lemma keeps_close_listener:
  "leaves io {p} \<Longrightarrow> keeps (always (made_with (socket_modes umask) p old)) (close_listener io l)"
  unfolding close_listener_def by (intro keeping keeps_made_calls)

lemma keeps_listen:
  assumes "leaves io {p}"
  shows "keeps (always (made_with (socket_modes umask) p old)) (listen_at io umask p)"
  unfolding listen_at_def Let_def
  by (intro keeping keeps_made_calls[OF assms] keeps_close_listener[OF assms])
    (auto split: sum.split intro!: keeping keeps_close_listener[OF assms])

definition socket_at :: "string \<Rightarrow> fs \<Rightarrow> bool" where
  "socket_at p d \<longleftrightarrow> (\<exists>f. fs_files d p = Some f \<and> f_mode f = mode_private_file \<and> f_data f = [])"

definition listening_at :: "string \<Rightarrow> unix_listener" where
  "listening_at p = \<lparr>ul_path = p, ul_unlink = True, ul_open = True\<rparr>"

lemma listen_socket:
  assumes "leaves io {p}" and "listen_at io umask p s = (Ok l, s')"
  shows "socket_at p (sys_now s') \<and> l = listening_at p"
proof -
  obtain r1 s1 where r1: "call io (sys_mkdir_all (path_dir p) mode_private_dir) s = (r1, s1)" by fastforce
  obtain r2 s2 where r2: "call io (sys_remove p) s1 = (r2, s2)" by fastforce
  obtain r3 s3 where r3: "call io (sys_bind umask p) s2 = (r3, s3)" by fastforce
  obtain r4 s4 where r4: "call io (sys_chmod_path p mode_private_file) s3 = (r4, s4)" by fastforce
  note defs = listen_at_def andthen_def or_fail_def try_io_def return_io_def fail_io_def Let_def
  have ok: "r1 = Ok ()" "r3 = Ok ()" "r4 = Ok ()" "s' = s4" "l = listening_at p"
    using assms(2) r1 r2 r3 r4
    by (cases r1; cases r3; cases r4; auto simp: defs listening_at_def split: prod.splits sum.splits)+
  from r3 ok(2) have "\<exists>f. fs_files (sys_now s3) p = Some f \<and> f_data f = []"
    by (auto simp: call_def Let_def sys_bind_def new_file_def split: if_splits)
  with r4 ok(3) leavesD[OF assms(1), of p] have "socket_at p (sys_now s4)"
    by (auto simp: call_def Let_def sys_chmod_path_def socket_at_def split: if_splits)
  with ok show ?thesis by simp
qed

text \<open>C8. The permissions of the agent's socket while \<open>Listen\<close> runs, whichever calls fail and
  whatever other processes do elsewhere: the file at the path is at every moment the one that was
  there before, or has the mode that \<open>bind\<close> gave it under the mask of the process, or 0600. So
  a permission that the mask withholds, and 0600 does not grant, is never granted; and when
  \<open>Listen\<close> succeeds the file is a new socket of mode 0600. No Go code sets the mask: only under
  that of \<open>contrib/systemd/kpxcd.service\<close>, 0077, is the socket closed to others throughout.\<close>

theorem agent_socket_private:
  assumes "leaves io {as_path srv}" and "Agent_Listen io umask srv (sys_start d) = (r, s')"
    and "and perms umask = perms" and "and perms mode_private_file = 0"
  shows "always (made_with {bind_mode umask, mode_private_file} (as_path srv) (fs_files d (as_path srv))) s'
         \<and> always (withheld perms (as_path srv) (fs_files d (as_path srv))) s'
         \<and> (case r of Inl _ \<Rightarrow> True
            | Inr srv' \<Rightarrow> socket_at (as_path srv) (sys_now s') \<and> as_listener srv' = Some (listening_at (as_path srv)))"
proof -
  let ?p = "as_path srv"
  let ?I = "made_with (socket_modes umask) ?p (fs_files d ?p)"
  obtain r1 s1 where run: "listen_at io umask ?p (sys_start d) = (r1, s1)" by fastforce
  have "always ?I (sys_start d)" by (simp add: made_with_def)
  from keepsD[OF keeps_listen[OF assms(1)] run this] have "always ?I s1" .
  moreover have "s' = s1" using assms(2) run by (cases r1) (auto simp: Agent_Listen_def andthen_def return_io_def)
  ultimately have modes: "always ?I s'" by simp
  moreover have "always (withheld perms ?p (fs_files d ?p)) s'"
    using modes made_with_withheld socket_modes_withheld[OF assms(3,4)] unfolding always_def by blast
  ultimately show ?thesis
    using assms(2) run listen_socket[OF assms(1), of umask "sys_start d"]
    by (cases r1) (auto simp: Agent_Listen_def andthen_def return_io_def socket_modes_def)
qed

text \<open>Another process bends the directory, and the call that sets the mode fails.\<close>

definition rough_io :: io where
  "rough_io = \<lparr>io_world = \<lambda>k d. if k = 1 then d\<lparr>fs_dirs := (fs_dirs d)(''/run'' \<mapsto> 511)\<rparr> else d, io_fails = \<lambda>k. k = 3\<rparr>"

definition sample_agent_socket :: agent_socket where
  "sample_agent_socket = \<lparr>as_path = ''/run/s'', as_listener = None, as_done = False\<rparr>"

theorem agent_socket_private_witness:
  "\<exists>s'. Agent_Listen rough_io 63 sample_agent_socket (sys_start fresh_disk) = (Err CannotChmod, s')
      \<and> always (withheld 63 ''/run/s'' None) s'"
proof -
  have dir: "path_dir ''/run/s'' = ''/run''" by code_simp
  obtain s' where run: "Agent_Listen rough_io 63 sample_agent_socket (sys_start fresh_disk) = (Err CannotChmod, s')"
    by (simp add: Agent_Listen_def listen_at_def close_listener_def andthen_def or_fail_def try_io_def return_io_def fail_io_def
        call_def sys_start_def advance_def commit_def sys_call_defs sys_bind_def rough_io_def sample_agent_socket_def fresh_disk_def
        dir Let_def set_file_def bump_ino_def)
  have "leaves rough_io {as_path sample_agent_socket}" by (simp add: leaves_def rough_io_def)
  from agent_socket_private[OF this run, of 63] run show ?thesis
    by (simp add: sample_agent_socket_def fresh_disk_def mode_private_file_def)
qed

text \<open>Under the usual mask 0022 others can read the socket's file, and search it, until its mode is
  set: with the mask left as it is, \<open>Listen\<close> relies on the directory.\<close>

lemma agent_socket_open_moment:
  "\<exists>srv' s'. Agent_Listen quiet 18 sample_agent_socket (sys_start fresh_disk) = (Ok srv', s')
      \<and> \<not> always (withheld 63 ''/run/s'' None) s'"
proof -
  have dir: "path_dir ''/run/s'' = ''/run''" by code_simp
  have "and (bind_mode 18) 63 \<noteq> 0" by (simp add: bind_mode_def)
  then show ?thesis
    by (auto simp: Agent_Listen_def listen_at_def close_listener_def andthen_def or_fail_def try_io_def return_io_def
        fail_io_def call_quiet sys_start_def commit_def sys_call_defs sys_bind_def sys_chmod_path_def
        sample_agent_socket_def fresh_disk_def dir Let_def set_file_def bump_ino_def always_def withheld_def new_file_def)
qed

section \<open>Lifecycle\<close>

lemma listen_quiet:
  assumes "path_dir p \<noteq> p" "fs_files (sys_now s) (path_dir p) = None" "fs_dirs (sys_now s) p = None"
  shows "\<exists>s'. listen_at quiet umask p s = (Ok (listening_at p), s') \<and> (\<forall>q. q \<noteq> p \<longrightarrow> fs_files (sys_now s') q = fs_files (sys_now s) q)
           \<and> (\<forall>q. q \<noteq> path_dir p \<longrightarrow> fs_dirs (sys_now s') q = fs_dirs (sys_now s) q)"
  using assms
  by (cases "fs_dirs (sys_now s) (path_dir p)"; cases "fs_files (sys_now s) p")
    (simp_all add: listen_at_def listening_at_def andthen_def or_fail_def try_io_def return_io_def call_quiet sys_call_defs
      sys_bind_def sys_chmod_path_def new_file_def set_file_def bump_ino_def Let_def)

lemma close_quiet:
  "\<exists>s'. close_listener quiet (listening_at p) s = (Ok (None, (listening_at p)\<lparr>ul_open := False\<rparr>), s')
      \<and> fs_files (sys_now s') = (fs_files (sys_now s))(p := None)"
  by (cases "fs_files (sys_now s) p")
    (auto simp: close_listener_def listening_at_def andthen_def try_io_def return_io_def call_quiet sys_call_defs)

lemma remove_quiet: "\<exists>r s'. call quiet (sys_remove p) s = (r, s') \<and> fs_files (sys_now s') = (fs_files (sys_now s))(p := None)"
  by (cases "fs_files (sys_now s) p") (auto simp: call_quiet sys_remove_def)

definition closed_agent :: "agent_socket \<Rightarrow> agent_socket" where
  "closed_agent srv = srv\<lparr>as_listener := Some ((listening_at (as_path srv))\<lparr>ul_open := False\<rparr>), as_done := True\<rparr>"

lemma agent_close_quiet:
  "\<exists>s2 s3. Agent_Close quiet (srv\<lparr>as_listener := Some (listening_at (as_path srv))\<rparr>) s = (Ok (None, closed_agent srv) :: unit + _, s2)
      \<and> fs_files (sys_now s2) = (fs_files (sys_now s))(as_path srv := None)
      \<and> Agent_Close quiet (closed_agent srv) s2 = (Ok (Some Failed, closed_agent srv) :: unit + _, s3) \<and> sys_now s3 = sys_now s2"
proof -
  let ?p = "as_path srv"
  obtain t where t: "(close_listener quiet (listening_at ?p) :: (unit, _) prog) s = (Ok (None, (listening_at ?p)\<lparr>ul_open := False\<rparr>), t)"
    "fs_files (sys_now t) = (fs_files (sys_now s))(?p := None)" using close_quiet by blast
  obtain r s2 where s2: "call quiet (sys_remove ?p) t = (r, s2)" "fs_files (sys_now s2) = (fs_files (sys_now t))(?p := None)"
    using remove_quiet by blast
  show ?thesis
    using t s2 by (auto simp: Agent_Close_def andthen_def try_io_def return_io_def close_listener_def closed_agent_def)
qed

text \<open>An undisturbed \<open>Listen\<close> of the agent replaces whatever socket stood at its path and
  touches no other file; \<open>Close\<close>, whenever it comes, succeeds once and removes whatever file
  stands at the path by then. So a second daemon on the same path takes the socket over, and
  the end of the first one takes it away from the second, which goes on listening to a socket
  no client can reach.\<close>

theorem agent_socket_lifecycle:
  assumes "as_listener srv = None" and "path_dir (as_path srv) \<noteq> as_path srv"
    and "fs_files d (path_dir (as_path srv)) = None" and "fs_dirs d (as_path srv) = None"
  shows "\<exists>srv1 s1. Agent_Listen quiet umask srv (sys_start d) = (Ok srv1, s1)
           \<and> socket_at (as_path srv) (sys_now s1)
           \<and> (\<forall>q. q \<noteq> as_path srv \<longrightarrow> fs_files (sys_now s1) q = fs_files d q)
           \<and> (\<forall>s. \<exists>srv2 s2 s3. Agent_Close quiet srv1 s = (Ok (None, srv2) :: unit + _, s2)
                  \<and> fs_files (sys_now s2) = (fs_files (sys_now s))(as_path srv := None)
                  \<and> Agent_Close quiet srv2 s2 = (Ok (Some Failed, srv2) :: unit + _, s3) \<and> sys_now s3 = sys_now s2)"
proof -
  let ?p = "as_path srv"
  let ?srv1 = "srv\<lparr>as_listener := Some (listening_at ?p)\<rparr>"
  obtain s1 where run: "listen_at quiet umask ?p (sys_start d) = (Ok (listening_at ?p), s1)"
    "\<forall>q. q \<noteq> ?p \<longrightarrow> fs_files (sys_now s1) q = fs_files d q"
    using listen_quiet[of ?p "sys_start d" umask] assms(2-4) by (auto simp: sys_start_def)
  have "leaves quiet {?p}" by (simp add: leaves_def)
  from listen_socket[OF this run(1)] have at: "socket_at ?p (sys_now s1)" by simp
  have listen: "Agent_Listen quiet umask srv (sys_start d) = (Ok ?srv1, s1)"
    using run(1) by (simp add: Agent_Listen_def andthen_def return_io_def)
  show ?thesis
  proof (intro exI[of _ ?srv1] exI[of _ s1] conjI)
    show "\<forall>s. \<exists>srv2 s2 s3. Agent_Close quiet ?srv1 s = (Ok (None, srv2) :: unit + _, s2)
                \<and> fs_files (sys_now s2) = (fs_files (sys_now s))(?p := None)
                \<and> Agent_Close quiet srv2 s2 = (Ok (Some Failed, srv2) :: unit + _, s3) \<and> sys_now s3 = sys_now s2"
      by (intro allI exI[of _ "closed_agent srv"]) (rule agent_close_quiet)
  qed (fact listen at run(2))+
qed

theorem agent_socket_lifecycle_witness:
  "\<exists>srv1 s1. Agent_Listen quiet 18 sample_agent_socket (sys_start fresh_disk) = (Ok srv1, s1) \<and> socket_at ''/run/s'' (sys_now s1)"
proof -
  have dir: "path_dir ''/run/s'' = ''/run''" by code_simp
  show ?thesis
    using agent_socket_lifecycle[of sample_agent_socket fresh_disk 18]
    by (auto simp: sample_agent_socket_def fresh_disk_def dir)
qed

text \<open>The loops of the two servers: the agent starts exactly the connections accepted before an
  error after the stop; the PAM server those before the first error.\<close>

lemma agent_serve_loop_exact:
  "fst (agent_serve_loop accepts) = [c. (Accepted c, _) \<leftarrow> takeWhile (\<lambda>(a, stopped). \<not> (a = AcceptFailed \<and> stopped)) accepts]"
  by (induction accepts rule: agent_serve_loop.induct) (auto split: prod.splits)

lemma pam_serve_loop_exact:
  "fst (pam_serve_loop accepts) = [c. Accepted c \<leftarrow> takeWhile (\<lambda>a. a \<noteq> AcceptFailed) accepts]"
  by (induction accepts rule: pam_serve_loop.induct) (auto split: prod.splits)

text \<open>A listener inherited from systemd is used as it is and stays when the server closes.\<close>

lemma inherited_socket_stays:
  assumes "Pam_Listen io umask env (Inr (Some l # ls)) srv s = (r, s1)" and "ul_unlink l = False"
  shows "r = Ok (Returned (srv\<lparr>ps_listener := Some l\<rparr>)) \<and> s1 = s
         \<and> fs_files (sys_now (snd (Pam_Close quiet (srv\<lparr>ps_listener := Some l\<rparr>) s1))) = fs_files (sys_now s)"
  using assms
  by (auto simp: Pam_Listen_def systemdOrDirectListener_def andthen_def return_io_def Let_def Pam_Close_def close_listener_def
      try_io_def call_quiet sys_noop_def)

section \<open>Both sockets in the daemon\<close>

text \<open>At the start a PAM socket is made when a database needs one; the server is kept also when it
  cannot listen. The agent's server likewise.\<close>

definition start_pam_socket ::
  "io \<Rightarrow> nat \<Rightarrow> environment \<Rightarrow> unit + unix_listener option list \<Rightarrow> config \<Rightarrow> sys \<Rightarrow> pam_socket option run \<times> sys" where
  "start_pam_socket io umask env activation cfg s =
     (if \<not> hasPAMDatabase cfg then (Returned None, s)
      else (case Pam_Listen io umask env activation NewPAMSocketServer s of
              (Inl _, s') \<Rightarrow> (Returned (Some NewPAMSocketServer), s')
            | (Inr Panicked, s') \<Rightarrow> (Panicked, s')
            | (Inr (Returned srv), s') \<Rightarrow> (Returned (Some srv), s')))"

definition start_agent_socket :: "io \<Rightarrow> nat \<Rightarrow> agent_socket \<Rightarrow> sys \<Rightarrow> agent_socket \<times> sys" where
  "start_agent_socket io umask srv s =
     (case Agent_Listen io umask srv s of (Inl _, s') \<Rightarrow> (srv, s') | (Inr srv', s') \<Rightarrow> (srv', s'))"

text \<open>The part of \<open>shutdown\<close> that is about them.\<close>

definition stop_sockets :: "io \<Rightarrow> pam_socket option \<Rightarrow> agent_socket option \<Rightarrow> sys \<Rightarrow> sys" where
  "stop_sockets io pam agent s =
     (let s1 = (case pam of None \<Rightarrow> s | Some p \<Rightarrow> snd ((Pam_Close io p :: (unit, _) prog) s))
      in case agent of None \<Rightarrow> s1 | Some a \<Rightarrow> snd ((Agent_Close io a :: (unit, _) prog) s1))"

lemma pam_close_quiet:
  "\<exists>srv2 s2. Pam_Close quiet (NewPAMSocketServer\<lparr>ps_listener := Some (listening_at p)\<rparr>) s = (Ok (None, srv2) :: unit + _, s2)
      \<and> fs_files (sys_now s2) = (fs_files (sys_now s))(p := None)"
proof -
  obtain t where "(close_listener quiet (listening_at p) :: (unit, _) prog) s = (Ok (None, (listening_at p)\<lparr>ul_open := False\<rparr>), t)"
    "fs_files (sys_now t) = (fs_files (sys_now s))(p := None)" using close_quiet by blast
  then show ?thesis by (auto simp: Pam_Close_def NewPAMSocketServer_def andthen_def return_io_def)
qed

text \<open>An undisturbed daemon that made both sockets itself leaves neither behind, and no other file
  is touched.\<close>

lemma sockets_leave_nothing:
  assumes "hasPAMDatabase cfg" and "PAMSocketPath env = Some p" and "p \<noteq> as_path srv"
    and "path_dir p \<noteq> p" and "path_dir (as_path srv) \<noteq> as_path srv"
    and "path_dir p \<noteq> as_path srv" and "path_dir (as_path srv) \<noteq> p"
    and "\<forall>q \<in> {p, as_path srv}. fs_files d (path_dir q) = None \<and> fs_dirs d q = None"
  shows "\<exists>pam s1 agent s2. start_pam_socket quiet umask env (Ok []) cfg (sys_start d) = (Returned (Some pam), s1)
           \<and> start_agent_socket quiet umask srv s1 = (agent, s2)
           \<and> socket_at p (sys_now s2) \<and> socket_at (as_path srv) (sys_now s2)
           \<and> fs_files (sys_now (stop_sockets quiet (Some pam) (Some agent) s2)) = (fs_files d)(p := None, as_path srv := None)"
proof -
  let ?q = "as_path srv"
  let ?pam = "NewPAMSocketServer\<lparr>ps_listener := Some (listening_at p)\<rparr>" and ?agent = "srv\<lparr>as_listener := Some (listening_at ?q)\<rparr>"
  have leaves: "leaves quiet N" for N by (simp add: leaves_def)
  obtain s1 where s1: "listen_at quiet umask p (sys_start d) = (Ok (listening_at p), s1)"
    "\<forall>x. x \<noteq> p \<longrightarrow> fs_files (sys_now s1) x = fs_files d x" "\<forall>x. x \<noteq> path_dir p \<longrightarrow> fs_dirs (sys_now s1) x = fs_dirs d x"
    using listen_quiet[of p "sys_start d" umask] assms(4,8) by (auto simp: sys_start_def)
  obtain s2 where s2: "listen_at quiet umask ?q s1 = (Ok (listening_at ?q), s2)"
    "\<forall>x. x \<noteq> ?q \<longrightarrow> fs_files (sys_now s2) x = fs_files (sys_now s1) x"
    using listen_quiet[of ?q s1 umask] assms(5-8) s1(2,3) by auto
  have at: "socket_at p (sys_now s2)" "socket_at ?q (sys_now s2)"
    using listen_socket[OF leaves s1(1)] listen_socket[OF leaves s2(1)] s2(2) assms(3) by (auto simp: socket_at_def)
  obtain pam2 s3 where s3: "(Pam_Close quiet ?pam :: (unit, _) prog) s2 = (Ok (None, pam2), s3)"
    "fs_files (sys_now s3) = (fs_files (sys_now s2))(p := None)" using pam_close_quiet by blast
  obtain s4 where s4: "(Agent_Close quiet ?agent :: (unit, _) prog) s3 = (Ok (None, closed_agent srv), s4)"
    "fs_files (sys_now s4) = (fs_files (sys_now s3))(?q := None)" using agent_close_quiet by blast
  have "start_pam_socket quiet umask env (Ok []) cfg (sys_start d) = (Returned (Some ?pam), s1)"
    using s1(1) assms(1,2)
    by (simp add: start_pam_socket_def Pam_Listen_def systemdOrDirectListener_def andthen_def return_io_def)
  moreover have "start_agent_socket quiet umask srv s1 = (?agent, s2)"
    using s2(1) by (simp add: start_agent_socket_def Agent_Listen_def andthen_def return_io_def)
  moreover have "stop_sockets quiet (Some ?pam) (Some ?agent) s2 = s4"
    by (simp add: stop_sockets_def s3(1) s4(1))
  moreover have "fs_files (sys_now s4) = (fs_files d)(p := None, ?q := None)"
    using s1(2) s2(2) s3(2) s4(2) by (auto simp: fun_eq_iff)
  ultimately show ?thesis using at by metis
qed

end
