(* ===== verification/Pam_Machine.thy ===== *)
theory Pam_Machine
  imports Sockets Machine
begin

text \<open>
  Connections to the PAM socket at the same time. \<open>serve\<close> starts a goroutine per connection,
  and \<open>handleConn\<close> looks at the pool, asks the sealed files for the password and opens the
  database without a lock around the three. The machine below interleaves them, each of the
  three being one step; within a step other processes act on the disk between any two calls.
\<close>

section \<open>Connections\<close>

datatype phase = Arrived | Cleared string | Holding string string | Served

type_synonym conn = "bytes \<times> phase"

text \<open>Up to the decision to unlock.\<close>

definition check_conn :: "config \<Rightarrow> string list \<Rightarrow> bytes \<Rightarrow> pool \<Rightarrow> phase" where
  "check_conn cfg order received p =
     (if length received < PAMTokenLen then Served
      else (case defaultDatabase cfg of
              None \<Rightarrow> Served
            | Some db \<Rightarrow>
                if \<not> dc_auto_unlock db \<or> dc_unlock_credential db \<noteq> ''pam'' then Served
                else if isDatabaseOpen order (dc_path db) p then Served
                else Cleared (dc_path db)))"

definition holding :: "string \<Rightarrow> pam_error + string \<Rightarrow> phase" where
  "holding path r = (case r of Inl _ \<Rightarrow> Served | Inr pw \<Rightarrow> Holding path pw)"

text \<open>One connection alone is the handler.\<close>

lemma handler_is_its_phases:
  "Pam_handleConn P order received cfg p s =
     (case check_conn cfg order received p of
        Cleared path \<Rightarrow>
          (case pam_password P path (take PAMTokenLen received) s of
             (r, s1) \<Rightarrow> (case holding path r of
                           Holding path' pw \<Rightarrow> snd (openWithPassword P path' pw p s1)
                         | _ \<Rightarrow> (p, s1)))
      | _ \<Rightarrow> (p, s))"
  by (auto simp: Pam_handleConn_def check_conn_def holding_def unlockOrBootstrapWithPAM_def split: option.split prod.split sum.split)

text \<open>\<open>sent\<close> is what peers may send; they come at any time, and any connection may go on.\<close>

type_synonym pam_state = "pool \<times> sys \<times> conn list"

inductive pam_step :: "('id, 'rc) pam_env \<Rightarrow> config \<Rightarrow> bytes set \<Rightarrow> pam_state \<Rightarrow> pam_state \<Rightarrow> bool"
  for P cfg sent where
  arrive: "bs \<in> sent \<Longrightarrow> pam_step P cfg sent (p, s, cs) (p, s, cs @ [(bs, Arrived)])"
| check: "i < length cs \<Longrightarrow> cs ! i = (bs, Arrived) \<Longrightarrow> enumerates order (pl_dbs p)
    \<Longrightarrow> pam_step P cfg sent (p, s, cs) (p, s, cs[i := (bs, check_conn cfg order bs p)])"
| password: "i < length cs \<Longrightarrow> cs ! i = (bs, Cleared path) \<Longrightarrow> pam_password P path (take PAMTokenLen bs) s = (r, s')
    \<Longrightarrow> pam_step P cfg sent (p, s, cs) (p, s', cs[i := (bs, holding path r)])"
| openit: "i < length cs \<Longrightarrow> cs ! i = (bs, Holding path pw) \<Longrightarrow> openWithPassword P path pw p s = (e, p', s')
    \<Longrightarrow> pam_step P cfg sent (p, s, cs) (p', s', cs[i := (bs, Served)])"

text \<open>
  The contract of an invariant: \<open>J\<close> of the pool and the disk, and \<open>K\<close> of each connection beside
  the pool. It suffices to look at the connection that moves.
\<close>

definition each_conn :: "(bytes \<Rightarrow> phase \<Rightarrow> bool) \<Rightarrow> conn list \<Rightarrow> bool" where
  "each_conn K cs \<longleftrightarrow> (\<forall>(bs, ph) \<in> set cs. K bs ph)"

lemma each_conn_simps [simp]:
  "each_conn K []" "each_conn K (cs @ [(bs, ph)]) \<longleftrightarrow> each_conn K cs \<and> K bs ph"
  by (auto simp: each_conn_def)

lemma each_conn_nth: "each_conn K cs \<Longrightarrow> i < length cs \<Longrightarrow> cs ! i = (bs, ph) \<Longrightarrow> K bs ph"
  unfolding each_conn_def using nth_mem by fastforce

lemma each_conn_update: "each_conn K cs \<Longrightarrow> K bs ph \<Longrightarrow> each_conn K (cs[i := (bs, ph)])"
  unfolding each_conn_def by (auto dest!: set_update_subset_insert[THEN subsetD])

lemma each_conn_mono: "each_conn K cs \<Longrightarrow> (\<And>bs ph. K bs ph \<Longrightarrow> K' bs ph) \<Longrightarrow> each_conn K' cs"
  unfolding each_conn_def by auto

locale conn_contract =
  fixes P :: "('id, 'rc) pam_env" and cfg :: config and sent :: "bytes set"
    and J :: "pool \<Rightarrow> sys \<Rightarrow> bool" and K :: "pool \<Rightarrow> bytes \<Rightarrow> phase \<Rightarrow> bool"
  assumes arrive_K: "bs \<in> sent \<Longrightarrow> K p bs Arrived"
    and check_K: "J p s \<Longrightarrow> K p bs Arrived \<Longrightarrow> enumerates order (pl_dbs p) \<Longrightarrow> K p bs (check_conn cfg order bs p)"
    and password_J: "J p s \<Longrightarrow> K p bs (Cleared path) \<Longrightarrow> pam_password P path (take PAMTokenLen bs) s = (r, s') \<Longrightarrow> J p s'"
    and password_K: "J p s \<Longrightarrow> K p bs (Cleared path) \<Longrightarrow> pam_password P path (take PAMTokenLen bs) s = (r, s')
          \<Longrightarrow> K p bs (holding path r)"
    and open_J: "J p s \<Longrightarrow> K p bs (Holding path pw) \<Longrightarrow> openWithPassword P path pw p s = (e, p', s') \<Longrightarrow> J p' s'"
    and open_K: "J p s \<Longrightarrow> K p bs (Holding path pw) \<Longrightarrow> openWithPassword P path pw p s = (e, p', s') \<Longrightarrow> K p' bs Served"
    and open_others: "J p s \<Longrightarrow> K p bs (Holding path pw) \<Longrightarrow> openWithPassword P path pw p s = (e, p', s')
          \<Longrightarrow> K p bs' ph \<Longrightarrow> K p' bs' ph"
begin

definition inv :: "pam_state \<Rightarrow> bool" where
  "inv st \<longleftrightarrow> (case st of (p, s, cs) \<Rightarrow> J p s \<and> each_conn (K p) cs)"

lemma step_inv: "pam_step P cfg sent st st' \<Longrightarrow> inv st \<Longrightarrow> inv st'"
proof (induction rule: pam_step.induct)
  case (arrive bs p s cs)
  then show ?case by (simp add: inv_def arrive_K)
next
  case (check i cs bs order p s)
  then have "J p s" "each_conn (K p) cs" by (simp_all add: inv_def)
  with check show ?case
    using check_K[of p s bs order] each_conn_nth[of "K p" cs i bs Arrived] by (simp add: inv_def each_conn_update)
next
  case (password i cs bs path s r s' p)
  then have j: "J p s" "each_conn (K p) cs" by (simp_all add: inv_def)
  note k = each_conn_nth[OF j(2) password(1,2)]
  show ?case
    using password_J[OF j(1) k password(3)] password_K[OF j(1) k password(3)] j(2) by (simp add: inv_def each_conn_update)
next
  case (openit i cs bs path pw p s e p' s')
  then have j: "J p s" "each_conn (K p) cs" by (simp_all add: inv_def)
  note k = each_conn_nth[OF j(2) openit(1,2)]
  have "each_conn (K p') cs" using each_conn_mono[OF j(2)] open_others[OF j(1) k openit(3)] by blast
  then show ?case
    using open_J[OF j(1) k openit(3)] open_K[OF j(1) k openit(3)] by (simp add: inv_def each_conn_update)
qed

lemma steps_inv: "(pam_step P cfg sent)\<^sup>*\<^sup>* st st' \<Longrightarrow> inv st \<Longrightarrow> inv st'"
  by (induction rule: rtranclp_induct) (auto intro: step_inv)

lemma run_inv: "(pam_step P cfg sent)\<^sup>*\<^sup>* (p, s, []) (p', s', cs) \<Longrightarrow> J p s \<Longrightarrow> J p' s' \<and> each_conn (K p') cs"
  using steps_inv[of "(p, s, [])" "(p', s', cs)"] by (simp add: inv_def)

end

section \<open>Wrong tokens\<close>

text \<open>The database and the sealed identity are there and no peer sends what opens the identity.\<close>

definition guarded_account :: "('id, 'rc) pam_env \<Rightarrow> config \<Rightarrow> bytes set \<Rightarrow> string \<Rightarrow> disk_file \<Rightarrow> disk_file \<Rightarrow> bool" where
  "guarded_account P cfg sent path f f1 \<longleftrightarrow>
     leaves (pe_io P) {path, pe_identity P} \<and> (\<forall>db. defaultDatabase cfg = Some db \<longrightarrow> dc_path db = path)
     \<and> (\<forall>bs \<in> sent. PAMTokenLen \<le> length bs \<longrightarrow> OpenIdentity (pe_age P) (f_data f1) (take PAMTokenLen bs) = None)"

definition files_are :: "string \<Rightarrow> disk_file \<Rightarrow> string \<Rightarrow> disk_file \<Rightarrow> fs \<Rightarrow> bool" where
  "files_are path f path1 f1 d \<longleftrightarrow> fs_files d path = Some f \<and> fs_files d path1 = Some f1"

lemma framed_files: "framed {path, path1} (always (files_are path f path1 f1))"
  by (rule framed_always) (simp add: files_are_def)

text \<open>A program that never returns normally.\<close>

definition stuck :: "(sys \<Rightarrow> bool) \<Rightarrow> ('e, 'a) prog \<Rightarrow> bool" where
  "stuck J p \<longleftrightarrow> triple J p (\<lambda>_ _. False) J"

lemma stuck_first: "stuck J p \<Longrightarrow> stuck J (andthen p k)"
  unfolding stuck_def by (rule triple_andthen) (auto simp: triple_def)

lemma stuck_then: "keeps J p \<Longrightarrow> (\<And>v. stuck J (k v)) \<Longrightarrow> stuck J (andthen p k)"
  unfolding stuck_def keeps_def by (rule triple_andthen)

lemma stuck_or_fail: "stuck J p \<Longrightarrow> stuck J (or_fail p e)"
  unfolding stuck_def by (rule triple_or_fail)

lemma stuck_try:
  assumes "stuck J p" "\<And>e. stuck J (k (Inl e))"
  shows "stuck J (andthen (try_io p) k)"
proof -
  have "triple J (try_io p) (\<lambda>r s. J s \<and> (\<exists>e. r = Err e)) J"
    using assms(1) unfolding stuck_def triple_def try_io_def by (fastforce split: prod.splits sum.splits)
  moreover have "triple (\<lambda>s. J s \<and> (\<exists>e. v = Err e)) (k v) (\<lambda>_ _. False) J" for v
    using assms(2) by (cases v) (simp_all add: stuck_def triple_def)
  ultimately show ?thesis unfolding stuck_def by (rule triple_andthen)
qed

lemma stuck_fail: "stuck J (fail_io e)"
  unfolding stuck_def by (rule triple_fail)

lemma stuck_if: "stuck J p \<Longrightarrow> stuck J q \<Longrightarrow> stuck J (if b then p else q)"
  by simp

lemma stuck_read_identity:
  assumes "leaves io {path, q}" "OpenIdentity G (f_data f1) token = None"
  shows "stuck (always (files_are path f q f1)) (ReadSealedIdentity G io q token)"
proof -
  let ?A = "always (files_are path f q f1)"
  note frame = framed_world[OF framed_files assms(1)]
  have "triple ?A (call io (sys_read_file q)) (\<lambda>v s. ?A s \<and> v = f_data f1) ?A"
  proof (rule triple_call)
    fix s assume "?A s"
    from frame[OF this] show a: "?A (advance io s)" .
    fix v d assume "sys_read_file q (sys_now (advance io s)) = Ok (v, d)"
    with a show "?A (commit d (advance io s)) \<and> v = f_data f1"
      by (auto simp: sys_read_file_def always_def files_are_def)
  qed
  then show ?thesis
    unfolding ReadSealedIdentity_def stuck_def
    by (rule triple_andthen) (rule tripleI, use assms(2) in \<open>simp add: fail_io_def\<close>)
qed

lemma stuck_create:
  assumes "leaves io {path, q}"
  shows "stuck (always (files_are path f q f1)) (CreateDatabase L io n new_db path pw)"
proof -
  let ?A = "always (files_are path f q f1)"
  note frame = framed_world[OF framed_files assms]
  have dir: "keeps ?A (EnsurePrivateDir io dir)" for dir by (rule keeps_dir[OF assms framed_files])
  have opened: "stuck ?A (call io (sys_open_excl path m))" for m
    unfolding stuck_def
  proof (rule triple_call)
    fix s assume "?A s"
    from frame[OF this] show a: "?A (advance io s)" .
    fix v d assume "sys_open_excl path m (sys_now (advance io s)) = Ok (v, d)"
    with a show False by (auto simp: sys_open_excl_def always_def files_are_def)
  qed
  show ?thesis
    unfolding CreateDatabase_def
    by (rule stuck_then[OF keeps_or_fail[OF dir]], rule stuck_try[OF opened]) (auto split: io_error.split intro: stuck_fail)
qed

lemma wrong_token_stuck:
  assumes "leaves (pe_io P) {path, pe_identity P}" "OpenIdentity (pe_age P) (f_data f1) token = None"
  shows "stuck (always (files_are path f (pe_identity P) f1)) (pam_password P path token)"
proof -
  let ?A = "always (files_are path f (pe_identity P) f1)"
  have wrap: "stuck ?A (wrap_and_create P e path pw)" for e pw
    unfolding wrap_and_create_def lift_create_def
    by (auto split: option.split intro!: stuck_fail stuck_try stuck_create[OF assms(1)])
  have there: "keeps ?A (fileExists (pe_io P) q :: (pam_error, bool) prog)" for q
    by (rule keeps_exists[OF assms(1) framed_files])
  have existing: "stuck ?A (pam_existing P path token b)" for b
    unfolding pam_existing_def by (intro stuck_first stuck_or_fail stuck_read_identity assms)
  have boot: "stuck ?A (pam_bootstrap P path token)"
    unfolding pam_bootstrap_def by (auto split: option.split intro!: stuck_fail stuck_first wrap)
  show ?thesis
    unfolding pam_password_def by (intro stuck_then there stuck_if existing stuck_fail boot)
qed

lemma open_error_or_same:
  assumes "leaves (pe_io P) N" "framed N A" "openWithPassword P path pw p s = (e, p', s')" "A s"
  shows "A s'"
proof -
  obtain r1 s1 where c1: "call (pe_io P) (sys_read_file path) s = (r1, s1)" by fastforce
  obtain r2 s2 where c2: "call (pe_io P) (FingerprintFile (sl_sha256 (pe_save P)) path) s1 = (r2, s2)" by fastforce
  note a1 = keepsD[OF keeps_read(1)[OF assms(1,2)] c1 assms(4)]
  note a2 = keepsD[OF keeps_read(4)[OF assms(1,2)] c2 a1]
  show ?thesis
    using assms(3,4) c1 c2 a1 a2
    by (auto simp: openWithPassword_def split: sum.splits option.splits prod.splits)
qed

definition wrong_inv ::
  "('id, 'rc) pam_env \<Rightarrow> config \<Rightarrow> bytes set \<Rightarrow> string \<Rightarrow> disk_file \<Rightarrow> disk_file \<Rightarrow> pool \<Rightarrow> pool \<Rightarrow> sys \<Rightarrow> bool" where
  "wrong_inv P cfg sent path f f1 p0 p s \<longleftrightarrow>
     guarded_account P cfg sent path f f1 \<and> p = p0 \<and> always (files_are path f (pe_identity P) f1) s"

definition wrong_conn :: "config \<Rightarrow> bytes set \<Rightarrow> pool \<Rightarrow> bytes \<Rightarrow> phase \<Rightarrow> bool" where
  "wrong_conn cfg sent p bs ph \<longleftrightarrow>
     bs \<in> sent \<and> (case ph of Cleared path \<Rightarrow> PAMTokenLen \<le> length bs \<and> (\<exists>db. defaultDatabase cfg = Some db \<and> dc_path db = path)
                          | Holding _ _ \<Rightarrow> False | _ \<Rightarrow> True)"

lemma wrong_password:
  assumes "wrong_inv P cfg sent path f f1 p0 p s" "wrong_conn cfg sent p bs (Cleared path')"
    "pam_password P path' (take PAMTokenLen bs) s = (r, s')"
  shows "wrong_inv P cfg sent path f f1 p0 p s' \<and> (\<exists>e. r = Err e)"
proof -
  have g: "guarded_account P cfg sent path f f1" "always (files_are path f (pe_identity P) f1) s"
    using assms(1) by (simp_all add: wrong_inv_def)
  have "path' = path" "OpenIdentity (pe_age P) (f_data f1) (take PAMTokenLen bs) = None" "leaves (pe_io P) {path, pe_identity P}"
    using g(1) assms(2) by (auto simp: guarded_account_def wrong_conn_def)
  then show ?thesis
    using tripleD[OF wrong_token_stuck[unfolded stuck_def], OF _ _ g(2)] assms(1,3)
    by (cases r) (auto simp: wrong_inv_def)
qed

interpretation wrong: conn_contract P cfg sent "wrong_inv P cfg sent path f f1 p0" "wrong_conn cfg sent"
  for P :: "('id, 'rc) pam_env" and cfg sent path f f1 p0
proof unfold_locales
  fix p s bs order
  show "wrong_conn cfg sent p bs Arrived \<Longrightarrow> wrong_conn cfg sent p bs (check_conn cfg order bs p)"
    by (auto simp: wrong_conn_def check_conn_def split: option.split)
qed (auto simp: wrong_conn_def[of _ _ _ _ Arrived] wrong_conn_def[of _ _ _ _ Served] wrong_conn_def[of _ _ _ _ "Holding _ _"]
    holding_def wrong_conn_def dest: wrong_password)

text \<open>C25. Guessing opens nothing: where the database and the sealed identity are there, and no
  peer sends a token that opens the identity, no interleaving of any number of connections
  changes the pool, the database file or the identity, whichever system calls fail in between
  (a \<open>Stat\<close> that wrongly reports a file missing among them) and whatever other processes do to
  other files.\<close>

theorem wrong_tokens_powerless:
  assumes "guarded_account P cfg sent path f f1" and "files_are path f (pe_identity P) f1 d"
    and "(pam_step P cfg sent)\<^sup>*\<^sup>* (p, sys_start d, []) (p', s', cs)"
  shows "p' = p \<and> always (files_are path f (pe_identity P) f1) s'"
  using wrong.run_inv[OF assms(3), of path f f1 p] assms(1,2) by (simp add: wrong_inv_def)

section \<open>The right token\<close>

text \<open>A quiet account whose default database a token opens.\<close>

definition serving :: "('id, 'rc) pam_env \<Rightarrow> config \<Rightarrow> string \<Rightarrow> bytes \<Rightarrow> string \<Rightarrow> fs \<Rightarrow> bool" where
  "serving P cfg path token pw d \<longleftrightarrow>
     pe_io P = quiet \<and> (\<forall>n. pe_mlock P n) \<and> length token = PAMTokenLen \<and> login_ready P path token pw d
     \<and> (\<exists>db. defaultDatabase cfg = Some db \<and> dc_path db = path \<and> dc_auto_unlock db \<and> dc_unlock_credential db = ''pam'')"

lemma serving_password:
  assumes "serving P cfg path token pw (sys_now s)" "pam_password P path t s = (r, s')"
  shows "sys_now s' = sys_now s \<and> (t = token \<longrightarrow> r = Ok pw)"
proof -
  have io: "pe_io P = quiet" and ready: "login_ready P path token pw (sys_now s)" using assms(1) by (simp_all add: serving_def)
  obtain f f1 f2 where files: "fs_files (sys_now s) path = Some f" "fs_files (sys_now s) (pe_identity P) = Some f1"
      "fs_files (sys_now s) (pe_credential P) = Some f2"
    using ready unfolding login_ready_def by blast
  obtain t0 where t0: "sys_now t0 = sys_now s" "pam_password P path t s = pam_existing P path t True t0"
    using password_quiet[OF io, of s path t] files by (auto simp: Let_def)
  have "sys_now s' = sys_now s"
    using assms(2) t0 files
    by (auto simp: pam_existing_def ReadSealedIdentity_def ReadSealedCredential_def andthen_def or_fail_def return_io_def fail_io_def
        io call_quiet sys_read_file_def split: option.splits)
  moreover have "t = token \<longrightarrow> r = Ok pw" using ready_password[OF io ready] assms(2) by auto
  ultimately show ?thesis ..
qed

lemma quiet_open_same: "pe_io P = quiet \<Longrightarrow> openWithPassword P path pw p s = (e, p', s') \<Longrightarrow> sys_now s' = sys_now s"
  by (auto simp: openWithPassword_def call_quiet sys_read_file_def FingerprintFile_def split: option.splits sum.splits prod.splits)

lemma Open_keeps_opened:
  "opened_at p path \<Longrightarrow> Open L content fp path cred p = (res, p') \<Longrightarrow> opened_at p' path"
proof -
  assume o: "opened_at p path" and run: "Open L content fp path cred p = (res, p')"
  show ?thesis
  proof (cases res)
    case (Inl e)
    then show ?thesis using o run by (auto simp: Open_def split: sum.splits)
  next
    case (Inr u)
    with run obtain od ev where od: "load_database L content fp path cred = Ok od" "p' = send_event ev (install od p)"
      by (auto simp: Open_def split: sum.splits)
    have "\<not> od_locked od" "od_path od = path"
      using od(1) by (auto simp: load_database_def split: option.splits)
    then show ?thesis using install_opened od(2) by blast
  qed
qed

lemma open_keeps_opened: "opened_at p path \<Longrightarrow> openWithPassword P path pw p s = (e, p', s') \<Longrightarrow> opened_at p' path"
  by (auto simp: openWithPassword_def dest: Open_keeps_opened split: option.splits sum.splits prod.splits)

lemma open_finite: "openWithPassword P path pw p s = (e, p', s') \<Longrightarrow> finite (dom (pl_dbs p)) \<Longrightarrow> finite (dom (pl_dbs p'))"
  by (auto simp: openWithPassword_def Open_def install_def Let_def split: option.splits sum.splits prod.splits)

lemma isDatabaseOpen_opened: "isDatabaseOpen order path p \<Longrightarrow> opened_at p path"
  by (fastforce simp: isDatabaseOpen_def opened_at_def ListDatabases_def objects_of_def in_map_values map_filter_def)

definition right_inv :: "('id, 'rc) pam_env \<Rightarrow> config \<Rightarrow> string \<Rightarrow> bytes \<Rightarrow> string \<Rightarrow> fs \<Rightarrow> pool \<Rightarrow> sys \<Rightarrow> bool" where
  "right_inv P cfg path token pw d p s \<longleftrightarrow> serving P cfg path token pw d \<and> sys_now s = d \<and> finite (dom (pl_dbs p))"

text \<open>Of every connection: it is about the default database. Of one with the token: it gets the
  password, and it is served only when the database is open.\<close>

definition right_conn :: "config \<Rightarrow> string \<Rightarrow> bytes \<Rightarrow> string \<Rightarrow> pool \<Rightarrow> bytes \<Rightarrow> phase \<Rightarrow> bool" where
  "right_conn cfg path token pw p bs ph \<longleftrightarrow>
     (let right = (PAMTokenLen \<le> length bs \<and> take PAMTokenLen bs = token)
      in case ph of
           Arrived \<Rightarrow> True
         | Cleared path' \<Rightarrow> path' = path
         | Holding path' pw' \<Rightarrow> path' = path \<and> (right \<longrightarrow> pw' = pw)
         | Served \<Rightarrow> right \<longrightarrow> opened_at p path)"

lemma right_check:
  "right_inv P cfg path token pw d p s \<Longrightarrow> right_conn cfg path token pw p bs (check_conn cfg order bs p)"
  by (auto simp: right_inv_def serving_def right_conn_def check_conn_def Let_def dest: isDatabaseOpen_opened)

lemma right_password:
  assumes "right_inv P cfg path token pw d p s" "right_conn cfg path token pw p bs (Cleared path')"
    "pam_password P path' (take PAMTokenLen bs) s = (r, s')"
  shows "right_inv P cfg path token pw d p s' \<and> right_conn cfg path token pw p bs (holding path' r)"
proof -
  have s: "serving P cfg path token pw (sys_now s)" "sys_now s = d" "path' = path" "finite (dom (pl_dbs p))"
    using assms(1,2) by (simp_all add: right_inv_def right_conn_def Let_def)
  then show ?thesis
    using serving_password[OF s(1) assms(3)[unfolded s(3)]]
    by (auto simp: right_inv_def right_conn_def holding_def Let_def split: sum.split)
qed

lemma right_open:
  assumes "right_inv P cfg path token pw d p s" "right_conn cfg path token pw p bs (Holding path' pw')"
    "openWithPassword P path' pw' p s = (e, p', s')"
  shows "right_inv P cfg path token pw d p' s'" "right_conn cfg path token pw p' bs Served"
    "right_conn cfg path token pw p bs' ph \<Longrightarrow> right_conn cfg path token pw p' bs' ph"
proof -
  have s: "serving P cfg path token pw d" "sys_now s = d" "path' = path" "pe_io P = quiet" "\<forall>n. pe_mlock P n"
    using assms(1,2) by (simp_all add: right_inv_def right_conn_def serving_def Let_def)
  show "right_inv P cfg path token pw d p' s'"
    using quiet_open_same[OF s(4) assms(3)] s(1,2) open_finite[OF assms(3)] assms(1) by (simp add: right_inv_def)
  have "opened_at p' path" if "pw' = pw"
  proof -
    have "login_ready P path token pw (sys_now s)" using s(1,2) by (simp add: serving_def)
    from ready_open[OF s(4,5) this, of p] show ?thesis using assms(3) that s(3) by auto
  qed
  then show "right_conn cfg path token pw p' bs Served" using assms(2) by (auto simp: right_conn_def Let_def)
  show "right_conn cfg path token pw p bs' ph \<Longrightarrow> right_conn cfg path token pw p' bs' ph"
    using open_keeps_opened[OF _ assms(3)[unfolded s(3)]] by (cases ph) (auto simp: right_conn_def Let_def)
qed

interpretation right: conn_contract P cfg sent "right_inv P cfg path token pw d" "right_conn cfg path token pw"
  for P :: "('id, 'rc) pam_env" and cfg sent path token pw d
  by unfold_locales (simp add: right_conn_def, rule right_check, auto dest: right_password intro: right_open)

text \<open>Every connection can be finished, by three steps of its own at most.\<close>

lemma conn_finishes:
  assumes "finite (dom (pl_dbs p))" "i < length cs" "cs ! i = (bs, ph)"
  shows "\<exists>p' s'. (pam_step P cfg sent)\<^sup>*\<^sup>* (p, s, cs) (p', s', cs[i := (bs, Served)])"
proof -
  let ?R = "(pam_step P cfg sent)\<^sup>*\<^sup>*"
  have first: "\<exists>p' s'. ?R st (p', s', xs)" if "pam_step P cfg sent st st'" "\<exists>p' s'. ?R st' (p', s', xs)" for st st' xs
    using that by (blast intro: converse_rtranclp_into_rtranclp)
  have holding: "\<exists>p' s'. ?R (p, s, xs) (p', s', xs[i := (bs, Served)])"
    if "xs ! i = (bs, Holding path pw)" "i < length xs" for path pw xs p s
  proof -
    obtain e p' s' where "openWithPassword P path pw p s = (e, p', s')" by (metis prod_cases3)
    from pam_step.openit[OF that(2,1) this] show ?thesis by blast
  qed
  have cleared: "\<exists>p' s'. ?R (p, s, xs) (p', s', xs[i := (bs, Served)])"
    if x: "xs ! i = (bs, Cleared path)" "i < length xs" for path xs p s
  proof -
    obtain r s1 where r: "pam_password P path (take PAMTokenLen bs) s = (r, s1)" by fastforce
    note step = pam_step.password[OF x(2,1) r, of cfg sent p]
    show ?thesis
    proof (cases r)
      case (Inr pw)
      with step have one: "pam_step P cfg sent (p, s, xs) (p, s1, xs[i := (bs, Holding path pw)])" by (simp add: holding_def)
      show ?thesis
        by (rule first[OF one]) (use holding[of "xs[i := (bs, Holding path pw)]" path pw p s1] x(2) in simp)
    qed (use step in \<open>auto simp: holding_def\<close>)
  qed
  show ?thesis
  proof (cases ph)
    case Arrived
    obtain ks where "set ks = dom (pl_dbs p)" "distinct ks" using finite_distinct_list[OF assms(1)] by blast
    then have ks: "enumerates ks (pl_dbs p)" by (simp add: enumerates_def)
    note step = pam_step.check[OF assms(2) assms(3)[unfolded Arrived] ks, of P cfg sent s]
    have "check_conn cfg ks bs p = Served \<or> (\<exists>path. check_conn cfg ks bs p = Cleared path)"
      by (auto simp: check_conn_def split: option.split)
    then show ?thesis
    proof
      assume "\<exists>path. check_conn cfg ks bs p = Cleared path"
      then obtain path where "check_conn cfg ks bs p = Cleared path" ..
      with step have one: "pam_step P cfg sent (p, s, cs) (p, s, cs[i := (bs, Cleared path)])" by simp
      show ?thesis
        by (rule first[OF one]) (use cleared[of "cs[i := (bs, Cleared path)]" path p s] assms(2) in simp)
    qed (use step in auto)
  next
    case Served
    then have "cs[i := (bs, Served)] = cs" using assms(3) by (metis list_update_id)
    then show ?thesis by auto
  qed (use cleared holding assms(2,3) in auto)
qed

text \<open>C26. The right token opens the database, whatever else knocks: in every state the
  connections reach, however their steps interleave and whatever the other peers send, a
  connection that sent the token can be finished, and once one is finished the default
  database is open.\<close>

theorem right_token_opens:
  assumes "serving P cfg path token pw d" and "finite (dom (pl_dbs p))"
    and "(pam_step P cfg sent)\<^sup>*\<^sup>* (p, sys_start d, []) (p', s', cs)"
    and "i < length cs" and "cs ! i = (token @ rest, ph)"
  shows "(\<exists>p2 s2. (pam_step P cfg sent)\<^sup>*\<^sup>* (p', s', cs) (p2, s2, cs[i := (token @ rest, Served)]) \<and> opened_at p2 path)
         \<and> (ph = Served \<longrightarrow> opened_at p' path)"
proof -
  have start: "right_inv P cfg path token pw d p (sys_start d)" using assms(1,2) by (simp add: right_inv_def sys_start_def)
  note run = right.run_inv[OF _ start]
  have served: "opened_at q path"
    if "(pam_step P cfg sent)\<^sup>*\<^sup>* (p, sys_start d, []) (q, s, xs)" "i < length xs" "xs ! i = (token @ rest, Served)" for q s xs
    using each_conn_nth[OF conjunct2[OF run[OF that(1)]] that(2,3)] assms(1) by (simp add: right_conn_def serving_def Let_def)
  have "finite (dom (pl_dbs p'))" using run[OF assms(3)] by (simp add: right_inv_def)
  from conn_finishes[OF this assms(4,5)] obtain p2 s2 where
    fin: "(pam_step P cfg sent)\<^sup>*\<^sup>* (p', s', cs) (p2, s2, cs[i := (token @ rest, Served)])" by blast
  have "opened_at p2 path" using served[OF rtranclp_trans[OF assms(3) fin]] assms(4) by simp
  with fin have "\<exists>p2 s2. (pam_step P cfg sent)\<^sup>*\<^sup>* (p', s', cs) (p2, s2, cs[i := (token @ rest, Served)]) \<and> opened_at p2 path" by blast
  then show ?thesis using served[OF assms(3,4)] assms(5) by simp
qed

section \<open>A race\<close>

lemma serving_open:
  assumes "serving P cfg path token pw d"
  obtains od where "od_path od = path" "\<not> od_locked od"
    "\<And>p s. sys_now s = d \<Longrightarrow> \<exists>ev s'. openWithPassword P path pw p s = (None, send_event ev (install od p), s') \<and> sys_now s' = d"
proof -
  have io: "pe_io P = quiet" "\<forall>n. pe_mlock P n" using assms by (simp_all add: serving_def)
  obtain f db0 db where f: "fs_files d path = Some f"
    "pb_decode (pe_pool P) (f_data f) (Some (pb_password (pe_pool P) (bytes_of pw))) = Some db0" "pb_unlock (pe_pool P) db0 = Some db"
    using assms unfolding serving_def login_ready_def by blast
  obtain ss where ss: "NewSecureString (pe_mlock P) pw = Some ss" "Secure_Bytes (Some ss) = bytes_of pw"
    using secure_ok[OF io(2)] by blast
  obtain fp where fp: "\<And>s. sys_now s = d \<Longrightarrow>
      \<exists>s'. call quiet (FingerprintFile (sl_sha256 (pe_save P)) path) s = (Ok fp, s') \<and> sys_now s' = d"
    by (simp add: call_quiet FingerprintFile_def f(1))
  let ?od = "\<lparr>od_uuid = extract_uuid (pe_pool P) db path, od_name = path_base path, od_path = path, od_locked = False,
    od_db = Some db, od_fingerprint = fp, od_watcher = None\<rparr>"
  have load: "load_database (pe_pool P) (Some (f_data f)) (Some fp) path (PasswordCredential (Some ss)) = Ok ?od"
    using ss(2) f(2,3) by (simp add: load_database_def build_credentials_def PasswordCredential_def)
  have "\<exists>ev s'. openWithPassword P path pw p s = (None, send_event ev (install ?od p), s') \<and> sys_now s' = d"
    if s: "sys_now s = d" for p s
  proof -
    obtain s1 where s1: "call quiet (sys_read_file path) s = (Ok (f_data f), s1)" "sys_now s1 = d"
      using read_quiet[of s path f] f(1) s by auto
    obtain s2 where "call quiet (FingerprintFile (sl_sha256 (pe_save P)) path) s1 = (Ok fp, s2)" "sys_now s2 = d"
      using fp[OF s1(2)] by blast
    then show ?thesis using s1(1) ss(1) load by (auto simp: openWithPassword_def io(1) Open_def)
  qed
  then show ?thesis by (intro that[of ?od]) simp_all
qed

text \<open>Both pass the check before either opens.\<close>

lemma race_steps:
  assumes "enumerates ks (pl_dbs p)" "check_conn cfg ks token p = Cleared path" "length token = PAMTokenLen"
    and "pam_password P path token s = (Ok pw, s1)" "pam_password P path token s1 = (Ok pw, s2)"
    and "openWithPassword P path pw p s2 = (None, p3, s3)" "openWithPassword P path pw p3 s3 = (None, p4, s4)"
  shows "(pam_step P cfg {token})\<^sup>*\<^sup>* (p, s, []) (p4, s4, [(token, Served), (token, Served)])"
proof -
  let ?R = "pam_step P cfg {token}"
  let ?cs = "\<lambda>a b. [(token, a), (token, b)]"
  have steps:
    "?R (p, s, []) (p, s, [(token, Arrived)])"
    "?R (p, s, [(token, Arrived)]) (p, s, ?cs Arrived Arrived)"
    "?R (p, s, ?cs Arrived Arrived) (p, s, ?cs (Cleared path) Arrived)"
    "?R (p, s, ?cs (Cleared path) Arrived) (p, s, ?cs (Cleared path) (Cleared path))"
    "?R (p, s, ?cs (Cleared path) (Cleared path)) (p, s1, ?cs (Holding path pw) (Cleared path))"
    "?R (p, s1, ?cs (Holding path pw) (Cleared path)) (p, s2, ?cs (Holding path pw) (Holding path pw))"
    "?R (p, s2, ?cs (Holding path pw) (Holding path pw)) (p3, s3, ?cs Served (Holding path pw))"
    "?R (p3, s3, ?cs Served (Holding path pw)) (p4, s4, ?cs Served Served)"
    using pam_step.arrive[of token "{token}" P cfg p s "[]"] pam_step.arrive[of token "{token}" P cfg p s "[(token, Arrived)]"]
      pam_step.check[OF _ _ assms(1), of 0 "?cs Arrived Arrived" token P cfg "{token}" s]
      pam_step.check[OF _ _ assms(1), of 1 "?cs (Cleared path) Arrived" token P cfg "{token}" s]
      pam_step.password[of 0 "?cs (Cleared path) (Cleared path)" token path P s "Ok pw" s1 cfg "{token}" p]
      pam_step.password[of 1 "?cs (Holding path pw) (Cleared path)" token path P s1 "Ok pw" s2 cfg "{token}" p]
      pam_step.openit[of 0 "?cs (Holding path pw) (Holding path pw)" token path pw P p s2 None p3 s3 cfg "{token}"]
      pam_step.openit[of 1 "?cs Served (Holding path pw)" token path pw P p3 s3 None p4 s4 cfg "{token}"]
      assms
    by (simp_all add: holding_def)
  show ?thesis
    by (intro converse_rtranclp_into_rtranclp[of ?R, OF steps(1)] converse_rtranclp_into_rtranclp[of ?R, OF steps(2)]
        converse_rtranclp_into_rtranclp[of ?R, OF steps(3)] converse_rtranclp_into_rtranclp[of ?R, OF steps(4)]
        converse_rtranclp_into_rtranclp[of ?R, OF steps(5)] converse_rtranclp_into_rtranclp[of ?R, OF steps(6)]
        converse_rtranclp_into_rtranclp[of ?R, OF steps(7)] r_into_rtranclp steps(8))
qed

text \<open>C27. Nothing keeps two connections apart between looking at the pool and opening: if two
  peers send the right token at about the same time to a daemon that has not opened the
  default database, both pass the check and both open it. The object of the first stays
  unlocked on the heap, with its decrypted contents, under no UUID of the pool, so that no
  later \<open>Lock\<close> or \<open>LockAll\<close> finds it.\<close>

theorem pam_race_leaks:
  assumes "serving P cfg path token pw d" and "pool_ok p" and "finite (dom (pl_dbs p))" and "\<not> opened_at p path"
  shows "\<exists>p' s' r od. (pam_step P cfg {token})\<^sup>*\<^sup>* (p, sys_start d, []) (p', s', [(token, Served), (token, Served)])
           \<and> pl_heap p r = None \<and> pl_heap p' r = Some od \<and> od_path od = path \<and> \<not> od_locked od \<and> r \<notin> ran (pl_dbs p')"
proof -
  let ?R = "pam_step P cfg {token}" and ?s = "sys_start d"
  obtain ks where "set ks = dom (pl_dbs p)" "distinct ks" using finite_distinct_list[OF assms(3)] by blast
  then have ks: "enumerates ks (pl_dbs p)" by (simp add: enumerates_def)
  have len: "length token = PAMTokenLen" using assms(1) by (simp add: serving_def)
  have check: "check_conn cfg ks token p = Cleared path"
    using assms(1,4) isDatabaseOpen_opened[of ks path p] by (auto simp: check_conn_def serving_def)
  obtain r1 s1 where p1: "pam_password P path token ?s = (r1, s1)" by fastforce
  obtain r2 s2 where p2: "pam_password P path token s1 = (r2, s2)" by fastforce
  have "serving P cfg path token pw (sys_now ?s)" using assms(1) by (simp add: sys_start_def)
  from serving_password[OF this p1] have w1: "r1 = Ok pw" "sys_now s1 = d" by (simp_all add: sys_start_def)
  have "serving P cfg path token pw (sys_now s1)" using assms(1) w1(2) by simp
  from serving_password[OF this p2] have w2: "r2 = Ok pw" "sys_now s2 = d" using w1(2) by simp_all
  obtain od where od: "od_path od = path" "\<not> od_locked od" and
    opens: "\<And>p s. sys_now s = d \<Longrightarrow> \<exists>ev s'. openWithPassword P path pw p s = (None, send_event ev (install od p), s') \<and> sys_now s' = d"
    using serving_open[OF assms(1)] by blast
  obtain ev3 s3 where o3: "openWithPassword P path pw p s2 = (None, send_event ev3 (install od p), s3)" "sys_now s3 = d"
    using opens[OF w2(2)] by blast
  let ?p3 = "send_event ev3 (install od p)"
  obtain ev4 s4 where o4: "openWithPassword P path pw ?p3 s3 = (None, send_event ev4 (install od ?p3), s4)"
    using opens[OF o3(2)] by blast
  let ?p4 = "send_event ev4 (install od ?p3)"
  have run: "?R\<^sup>*\<^sup>* (p, ?s, []) (?p4, s4, [(token, Served), (token, Served)])"
    by (rule race_steps[OF ks check len]) (use p1 p2 w1(1) w2(1) o3(1) o4 in simp_all)
  have "pl_dbs p u \<noteq> Some (pl_next p)" "pl_heap p (pl_next p) = None" for u
    using pool_okD(1)[OF assms(2), of u "pl_next p"] pool_okD(2)[OF assms(2), of "pl_next p"]
    by (auto simp: object_ok_def) (cases "pl_heap p (pl_next p)"; auto)
  then have "pl_heap p (pl_next p) = None" "pl_heap ?p4 (pl_next p) = Some (od\<lparr>od_watcher := Some (pl_next p)\<rparr>)"
      "pl_next p \<notin> ran (pl_dbs ?p4)"
    by (auto simp: install_def Let_def ran_def)
  with run od show ?thesis by (intro exI[of _ ?p4] exI[of _ s4] exI[of _ "pl_next p"] exI) (auto)
qed

section \<open>Running it\<close>

definition token_nine :: bytes where "token_nine = replicate 32 9"

definition token_eight :: bytes where "token_eight = replicate 32 8"

definition pam_disk :: fs where
  "pam_disk = fresh_disk\<lparr>fs_files := [''/d'' \<mapsto> sample_file, ''/c'' \<mapsto> sample_file\<lparr>f_data := [0, 7]\<rparr>,
     ''/i'' \<mapsto> sample_file\<lparr>f_data := token_nine @ bytes_of (''KEY'' @ newline)\<rparr>]\<rparr>"

definition pam_config :: config where
  "pam_config = DefaultConfig\<lparr>cfg_databases :=
     [\<lparr>dc_path = ''/d'', dc_name = ''d'', dc_default = True, dc_auto_unlock = True, dc_unlock_credential = ''pam'',
       dc_systemd_credential_name = [], dc_keyfile = [], dc_yubikey_slot = 0, dc_expose_group = [], dc_ssh_auto_add = False\<rparr>]\<rparr>"

lemma pam_files:
  "fs_files pam_disk ''/d'' = Some sample_file"
  "fs_files pam_disk ''/i'' = Some (sample_file\<lparr>f_data := token_nine @ bytes_of (''KEY'' @ newline)\<rparr>)"
  "fs_files pam_disk ''/c'' = Some (sample_file\<lparr>f_data := [0, 7]\<rparr>)"
  by (simp_all add: pam_disk_def)

lemma pam_default: "\<exists>db. defaultDatabase pam_config = Some db \<and> dc_path db = ''/d'' \<and> dc_auto_unlock db \<and> dc_unlock_credential db = ''pam''"
  by (simp add: defaultDatabase_def pam_config_def)

lemma pam_serving: "serving sample_account pam_config ''/d'' token_nine (pc_password sample_credential) pam_disk"
proof -
  have "OpenIdentity sample_age (token_nine @ bytes_of (''KEY'' @ newline)) token_nine = Some ()"
    by (rule sealed_identity[OF sample_age_ok sample_seals(1)])
  moreover have "OpenCredential sample_age [0, 7] () = Some sample_credential"
    by (simp add: OpenCredential_def sample_age_def sample_credential_def CredentialVersion_def base64_raw_url_nonempty)
  ultimately show ?thesis
    using pam_default pam_files
    by (simp add: serving_def login_ready_def sample_account_def sample_pool_lib_def token_nine_def PAMTokenLen_def)
qed

text \<open>One wrong token, from its arrival to the end.\<close>

lemma eight_guarded: "guarded_account sample_account pam_config {token_eight} ''/d'' sample_file
    (sample_file\<lparr>f_data := token_nine @ bytes_of (''KEY'' @ newline)\<rparr>)"
proof -
  have "OpenIdentity sample_age (token_nine @ bytes_of (''KEY'' @ newline)) (take PAMTokenLen token_eight) = None"
    by (simp add: OpenIdentity_def sample_age_def token_nine_def token_eight_def PAMTokenLen_def)
  then show ?thesis
    using pam_default by (auto simp: guarded_account_def sample_account_def leaves_def)
qed

theorem wrong_tokens_powerless_witness:
  "\<exists>s'. (pam_step sample_account pam_config {token_eight})\<^sup>*\<^sup>* (NewDatabasePool None, sys_start pam_disk, [])
           (NewDatabasePool None, s', [(token_eight, Served)])"
proof -
  let ?R = "pam_step sample_account pam_config {token_eight}" and ?p = "NewDatabasePool None"
  have "finite (dom (pl_dbs ?p))" by (simp add: NewDatabasePool_def)
  from conn_finishes[OF this, of 0 "[(token_eight, Arrived)]"] obtain p' s' where
    fin: "?R\<^sup>*\<^sup>* (?p, sys_start pam_disk, [(token_eight, Arrived)]) (p', s', [(token_eight, Served)])"
    by fastforce
  have "?R (?p, sys_start pam_disk, []) (?p, sys_start pam_disk, [(token_eight, Arrived)])"
    using pam_step.arrive[of token_eight "{token_eight}" _ _ _ _ "[]"] by simp
  from converse_rtranclp_into_rtranclp[of ?R, OF this fin]
  have run: "?R\<^sup>*\<^sup>* (?p, sys_start pam_disk, []) (p', s', [(token_eight, Served)])" .
  have "files_are ''/d'' sample_file (pe_identity sample_account)
      (sample_file\<lparr>f_data := token_nine @ bytes_of (''KEY'' @ newline)\<rparr>) pam_disk"
    using pam_files by (simp add: files_are_def sample_account_def)
  from wrong_tokens_powerless[OF eight_guarded this run] run show ?thesis by blast
qed

text \<open>A wrong token has just arrived beside the right one.\<close>

theorem right_token_opens_witness:
  "\<exists>p2 s2. (pam_step sample_account pam_config {token_nine, token_eight})\<^sup>*\<^sup>*
       (NewDatabasePool None, sys_start pam_disk, [(token_eight, Arrived), (token_nine, Arrived)])
       (p2, s2, [(token_eight, Arrived), (token_nine, Served)]) \<and> opened_at p2 ''/d''"
proof -
  let ?R = "pam_step sample_account pam_config {token_nine, token_eight}" and ?p = "NewDatabasePool None"
  have "?R (?p, sys_start pam_disk, []) (?p, sys_start pam_disk, [(token_eight, Arrived)])"
    "?R (?p, sys_start pam_disk, [(token_eight, Arrived)]) (?p, sys_start pam_disk, [(token_eight, Arrived), (token_nine, Arrived)])"
    using pam_step.arrive[of token_eight "{token_nine, token_eight}" _ _ _ _ "[]"]
      pam_step.arrive[of token_nine "{token_nine, token_eight}" _ _ _ _ "[(token_eight, Arrived)]"] by simp_all
  then have "?R\<^sup>*\<^sup>* (?p, sys_start pam_disk, []) (?p, sys_start pam_disk, [(token_eight, Arrived), (token_nine, Arrived)])"
    by (meson converse_rtranclp_into_rtranclp r_into_rtranclp)
  from right_token_opens[OF pam_serving _ this, of 1 "[]" Arrived] show ?thesis by (simp add: NewDatabasePool_def)
qed

theorem pam_race_leaks_witness:
  "\<exists>p' s' r od. (pam_step sample_account pam_config {token_nine})\<^sup>*\<^sup>* (NewDatabasePool None, sys_start pam_disk, [])
           (p', s', [(token_nine, Served), (token_nine, Served)])
       \<and> pl_heap p' r = Some od \<and> od_path od = ''/d'' \<and> \<not> od_locked od \<and> r \<notin> ran (pl_dbs p')"
proof -
  have "pool_ok (NewDatabasePool None)" "finite (dom (pl_dbs (NewDatabasePool None)))" "\<not> opened_at (NewDatabasePool None) ''/d''"
    by (simp_all add: pool_ok_def NewDatabasePool_def opened_at_def)
  from pam_race_leaks[OF pam_serving this] show ?thesis by blast
qed

end
