(* ===== verification/Bus_Export.thy ===== *)
theory Bus_Export
  imports Daemon_Contract
begin

text \<open>
  The session bus at start and stop: \<open>Export\<close> and \<open>Close\<close> of \<open>internal/dbusapi/dbusapi.go\<close>,
  \<open>Export\<close> of \<open>internal/secretservice/service.go\<close>, and \<open>startDBus\<close> and \<open>shutdown\<close> of
  \<open>internal/daemon/daemon.go\<close> with the connection they share. The connection is that of the
  vendored godbus: a table of exported interfaces, a closed flag, and the names it owns.
\<close>

section \<open>The connection\<close>

record bus_conn =
  bc_open :: bool
  bc_names :: "string list"
  bc_objects :: "(string \<times> string) list"

definition new_conn :: bus_conn where
  "new_conn = \<lparr>bc_open = True, bc_names = [], bc_objects = []\<rparr>"

text \<open>What the bus answers: whether a connection is made, the reply to a request for a name,
  and whether an interface can be registered.\<close>

datatype name_reply = NameFailed | PrimaryOwner | OtherReply

record bus_answers =
  bx_connect :: bool
  bx_reply :: "string \<Rightarrow> name_reply"
  bx_export :: "string \<Rightarrow> string \<Rightarrow> bool"

definition request_name :: "bus_answers \<Rightarrow> string \<Rightarrow> bus_conn \<Rightarrow> name_reply \<times> bus_conn" where
  "request_name L name c =
     (if \<not> bc_open c then (NameFailed, c)
      else (bx_reply L name, if bx_reply L name = PrimaryOwner then c\<lparr>bc_names := name # bc_names c\<rparr> else c))"

definition export_at :: "bus_answers \<Rightarrow> string \<Rightarrow> string \<Rightarrow> bus_conn \<Rightarrow> bool \<times> bus_conn" where
  "export_at L path iface c =
     (if bx_export L path iface then (True, c\<lparr>bc_objects := (path, iface) # bc_objects c\<rparr>) else (False, c))"

text \<open>The bus takes the names of a closed connection back.\<close>

definition close_conn :: "bus_conn \<Rightarrow> bus_conn" where
  "close_conn c = c\<lparr>bc_open := False, bc_names := []\<rparr>"

section \<open>The daemon's own interface\<close>

definition bus_daemon_name :: string where "bus_daemon_name = ''org.keepassxc.Daemon''"
definition bus_daemon_path :: string where "bus_daemon_path = ''/org/keepassxc/Daemon''"
definition bus_introspectable :: string where "bus_introspectable = ''org.freedesktop.DBus.Introspectable''"

datatype export_error = NoSessionBus | NameRequestFailed | NameTaken | ObjectNotExported

text \<open>The error, if any, and the connection kept. Every failure after connecting closes it.\<close>

definition API_Export :: "bus_answers \<Rightarrow> bus_conn option \<Rightarrow> export_error option \<times> bus_conn option" where
  "API_Export L conn =
     (case (case conn of Some c \<Rightarrow> Some c | None \<Rightarrow> if bx_connect L then Some new_conn else None) of
        None \<Rightarrow> (Some NoSessionBus, None)
      | Some c \<Rightarrow>
          (case request_name L bus_daemon_name c of
             (NameFailed, c1) \<Rightarrow> (Some NameRequestFailed, Some (close_conn c1))
           | (OtherReply, c1) \<Rightarrow> (Some NameTaken, Some (close_conn c1))
           | (PrimaryOwner, c1) \<Rightarrow>
               (case export_at L bus_daemon_path bus_daemon_name c1 of
                  (False, c2) \<Rightarrow> (Some ObjectNotExported, Some (close_conn c2))
                | (True, c2) \<Rightarrow> (None, Some (snd (export_at L bus_daemon_path bus_introspectable c2))))))"

definition API_Close :: "bus_conn option \<Rightarrow> bus_conn option" where
  "API_Close conn = map_option (\<lambda>c. close_conn (c\<lparr>bc_names := removeAll bus_daemon_name (bc_names c)\<rparr>)) conn"

section \<open>The Secret Service\<close>

definition secrets_name :: string where "secrets_name = ''org.freedesktop.secrets''"
definition bus_properties :: string where "bus_properties = ''org.freedesktop.DBus.Properties''"

text \<open>The object first, then the name. A failure leaves what was exported.\<close>

definition Secret_Export ::
  "bus_answers \<Rightarrow> string list \<Rightarrow> bus_conn \<Rightarrow> svc \<Rightarrow> export_error option \<times> bus_conn \<times> svc" where
  "Secret_Export L order c s =
     (case export_at L ServicePath InterfaceService c of
        (False, c1) \<Rightarrow> (Some ObjectNotExported, c1, s)
      | (True, c1) \<Rightarrow>
          (let c2 = snd (export_at L ServicePath bus_introspectable c1);
               c3 = snd (export_at L ServicePath bus_properties c2)
           in case request_name L secrets_name c3 of
                (NameFailed, c4) \<Rightarrow> (Some NameRequestFailed, c4, s)
              | (OtherReply, c4) \<Rightarrow> (Some NameTaken, c4, s)
              | (PrimaryOwner, c4) \<Rightarrow> (None, c4, seedCollections order s)))"

section \<open>Start and stop\<close>

text \<open>\<open>startDBus\<close> with the connection: its error, the connection, the daemon.\<close>

definition start_bus ::
  "bus_answers \<Rightarrow> string list \<Rightarrow> ('sg, 'pk, 'u) app \<Rightarrow> export_error option \<times> bus_conn option \<times> ('sg, 'pk, 'u) app" where
  "start_bus L order app =
     (if \<not> bx_connect L then (Some NoSessionBus, None, app)
      else let app1 = app\<lparr>dm_bus := True, dm_api := Some (dm_cfg app, dm_agent app \<noteq> None)\<rparr>
           in case API_Export L (Some new_conn) of
                (Some e, conn) \<Rightarrow> (Some e, conn, app1)
              | (None, None) \<Rightarrow> (None, None, app1)
              | (None, Some c) \<Rightarrow>
                  if \<not> ss_enabled (cfg_secret_service (dm_cfg app)) then (None, Some c, app1)
                  else (case Secret_Export L order c (daemon_service app) of
                          (Some _, c', _) \<Rightarrow> (None, Some c', app1\<lparr>dm_svc := None\<rparr>)
                        | (None, c', s) \<Rightarrow> (None, Some c', app1\<lparr>dm_svc := Some s\<rparr>)))"

text \<open>The part of \<open>shutdown\<close> that is about the bus.\<close>

definition stop_bus :: "('sg, 'pk, 'u) app \<Rightarrow> bus_conn option \<Rightarrow> bus_conn option" where
  "stop_bus app conn =
     (let conn1 = (if dm_api app \<noteq> None then API_Close conn else conn)
      in if dm_bus app then map_option close_conn conn1 else conn1)"

text \<open>The flags of \<open>Daemon\<close>'s host, from the answers of the bus.\<close>

definition host_of :: "bus_answers \<Rightarrow> 'u host \<Rightarrow> 'u host" where
  "host_of L H =
     H\<lparr>ho_bus := bx_connect L,
       ho_api_name := bx_reply L bus_daemon_name = PrimaryOwner \<and> bx_export L bus_daemon_path bus_daemon_name,
       ho_secret_name := bx_export L ServicePath InterfaceService \<and> bx_reply L secrets_name = PrimaryOwner\<rparr>"

lemma API_Export_cases:
  "API_Export L (Some new_conn) =
     (if bx_reply L bus_daemon_name = PrimaryOwner \<and> bx_export L bus_daemon_path bus_daemon_name
      then (None, Some (snd (export_at L bus_daemon_path bus_introspectable
              \<lparr>bc_open = True, bc_names = [bus_daemon_name], bc_objects = [(bus_daemon_path, bus_daemon_name)]\<rparr>)))
      else (Some (case bx_reply L bus_daemon_name of NameFailed \<Rightarrow> NameRequestFailed | OtherReply \<Rightarrow> NameTaken
                  | PrimaryOwner \<Rightarrow> ObjectNotExported),
            Some \<lparr>bc_open = False, bc_names = [], bc_objects = []\<rparr>))"
  by (cases "bx_reply L bus_daemon_name")
    (simp_all add: API_Export_def request_name_def export_at_def new_conn_def close_conn_def)

lemma export_at_fields [simp]:
  "bc_open (snd (export_at L path iface c)) = bc_open c" "bc_names (snd (export_at L path iface c)) = bc_names c"
  by (simp_all add: export_at_def)

lemma export_at_grows: "x \<in> set (bc_objects c) \<Longrightarrow> x \<in> set (bc_objects (snd (export_at L path iface c)))"
  by (simp add: export_at_def)

lemma Secret_Export_cases:
  assumes "bc_open c"
  shows "\<exists>c'. Secret_Export L order c s =
      (if \<not> bx_export L ServicePath InterfaceService then (Some ObjectNotExported, c, s)
       else (case bx_reply L secrets_name of
               NameFailed \<Rightarrow> (Some NameRequestFailed, c', s) | OtherReply \<Rightarrow> (Some NameTaken, c', s)
             | PrimaryOwner \<Rightarrow> (None, c', seedCollections order s)))
     \<and> bc_open c'
     \<and> bc_names c' = (if bx_reply L secrets_name = PrimaryOwner then [secrets_name] else []) @ bc_names c
     \<and> (ServicePath, InterfaceService) \<in> set (bc_objects c')"
proof -
  let ?c1 = "c\<lparr>bc_objects := (ServicePath, InterfaceService) # bc_objects c\<rparr>"
  let ?c3 = "snd (export_at L ServicePath bus_properties (snd (export_at L ServicePath bus_introspectable ?c1)))"
  have there: "(ServicePath, InterfaceService) \<in> set (bc_objects ?c3)" by (intro export_at_grows) simp
  have "bc_open ?c3" "bc_names ?c3 = bc_names c" using assms by simp_all
  with there show ?thesis
    by (intro exI[of _ "snd (request_name L secrets_name ?c3)"])
      (cases "bx_reply L secrets_name"; simp add: Secret_Export_def export_at_def[of L ServicePath InterfaceService] request_name_def Let_def)
qed

text \<open>The detailed start implements the one of \<open>Daemon\<close>.\<close>

lemma start_bus_refines: "snd (snd (start_bus L order app)) = startDBus (host_of L H) order app"
proof (cases "bx_reply L bus_daemon_name = PrimaryOwner \<and> bx_export L bus_daemon_path bus_daemon_name")
  case True
  let ?c = "snd (export_at L bus_daemon_path bus_introspectable
      \<lparr>bc_open = True, bc_names = [bus_daemon_name], bc_objects = [(bus_daemon_path, bus_daemon_name)]\<rparr>)"
  obtain c' where "Secret_Export L order ?c (daemon_service app) =
      (if \<not> bx_export L ServicePath InterfaceService then (Some ObjectNotExported, ?c, daemon_service app)
       else (case bx_reply L secrets_name of
               NameFailed \<Rightarrow> (Some NameRequestFailed, c', daemon_service app) | OtherReply \<Rightarrow> (Some NameTaken, c', daemon_service app)
             | PrimaryOwner \<Rightarrow> (None, c', seedCollections order (daemon_service app))))"
    using Secret_Export_cases[of ?c L order "daemon_service app"] by auto
  with True show ?thesis
    by (cases "bx_reply L secrets_name") (simp_all add: start_bus_def startDBus_def host_of_def API_Export_cases Let_def)
qed (auto simp: start_bus_def startDBus_def host_of_def API_Export_cases Let_def)

text \<open>What the daemon owns after its start. An error closes the one connection both services
  share; without one the connection has the daemon's name, and the name of the Secret
  Service exactly when the service runs. But the object of the service is on the connection
  also when the name was refused: then no service is kept, and calls sent to the daemon's own
  name still reach it.\<close>

lemma start_bus_outcome:
  assumes "dm_svc app = None" and "start_bus L order app = (e, Some c, app')"
  shows "bc_open c \<longleftrightarrow> e = None"
    and "bus_daemon_name \<in> set (bc_names c) \<longleftrightarrow> e = None"
    and "secrets_name \<in> set (bc_names c) \<longleftrightarrow> dm_svc app' \<noteq> None"
    and "e = None \<Longrightarrow> ss_enabled (cfg_secret_service (dm_cfg app)) \<Longrightarrow> bx_export L ServicePath InterfaceService
           \<Longrightarrow> (ServicePath, InterfaceService) \<in> set (bc_objects c)"
proof -
  let ?c = "snd (export_at L bus_daemon_path bus_introspectable
      \<lparr>bc_open = True, bc_names = [bus_daemon_name], bc_objects = [(bus_daemon_path, bus_daemon_name)]\<rparr>)"
  have names: "secrets_name \<noteq> bus_daemon_name" by (simp add: secrets_name_def bus_daemon_name_def)
  obtain c' where c': "Secret_Export L order ?c (daemon_service app) =
      (if \<not> bx_export L ServicePath InterfaceService then (Some ObjectNotExported, ?c, daemon_service app)
       else (case bx_reply L secrets_name of
               NameFailed \<Rightarrow> (Some NameRequestFailed, c', daemon_service app) | OtherReply \<Rightarrow> (Some NameTaken, c', daemon_service app)
             | PrimaryOwner \<Rightarrow> (None, c', seedCollections order (daemon_service app))))"
    "bc_open c'" "bc_names c' = (if bx_reply L secrets_name = PrimaryOwner then [secrets_name] else []) @ [bus_daemon_name]"
    "(ServicePath, InterfaceService) \<in> set (bc_objects c')"
    using Secret_Export_cases[of ?c L order "daemon_service app"] by auto
  note cases = assms(2)[unfolded start_bus_def API_Export_cases Let_def]
  have all: "(bc_open c \<longleftrightarrow> e = None) \<and> (bus_daemon_name \<in> set (bc_names c) \<longleftrightarrow> e = None)
      \<and> (secrets_name \<in> set (bc_names c) \<longleftrightarrow> dm_svc app' \<noteq> None)
      \<and> (e = None \<longrightarrow> ss_enabled (cfg_secret_service (dm_cfg app)) \<longrightarrow> bx_export L ServicePath InterfaceService
           \<longrightarrow> (ServicePath, InterfaceService) \<in> set (bc_objects c))"
    using cases c' names assms(1)
    by (cases "bx_reply L secrets_name") (auto split: if_splits)
  then show "bc_open c \<longleftrightarrow> e = None" "bus_daemon_name \<in> set (bc_names c) \<longleftrightarrow> e = None"
    "secrets_name \<in> set (bc_names c) \<longleftrightarrow> dm_svc app' \<noteq> None"
    "e = None \<Longrightarrow> ss_enabled (cfg_secret_service (dm_cfg app)) \<Longrightarrow> bx_export L ServicePath InterfaceService
           \<Longrightarrow> (ServicePath, InterfaceService) \<in> set (bc_objects c)"
    by blast+
qed

text \<open>Whatever the start did, the stop gives every name back and closes the connection.\<close>

lemma stop_bus_releases:
  "start_bus L order app = (e, Some c, app') \<Longrightarrow> \<exists>c'. stop_bus app' (Some c) = Some c' \<and> \<not> bc_open c' \<and> bc_names c' = []"
  by (auto simp: start_bus_def stop_bus_def API_Close_def close_conn_def Let_def split: if_splits option.splits prod.splits)

end
