(* ===== verification/Journal.thy ===== *)
theory Journal
  imports Daemon
begin

text \<open>
  The log handler for the systemd journal (\<open>internal/daemon/journald.go\<close>). The journal itself,
  its priorities' numbers and the text form of a value are the library's; the handler maps
  levels to priorities and attributes to fields.
\<close>

text \<open>The priorities of the journal the handler uses, and their numbers in syslog.\<close>

datatype journal_priority = PriErr | PriWarning | PriInfo | PriDebug

fun priority_number :: "journal_priority \<Rightarrow> nat" where
  "priority_number PriErr = 3"
| "priority_number PriWarning = 4"
| "priority_number PriInfo = 6"
| "priority_number PriDebug = 7"

record log_record =
  lr_level :: int
  lr_message :: string
  lr_attrs :: "(string \<times> string) list"

definition journal_priority_of :: "int \<Rightarrow> journal_priority" where
  "journal_priority_of level =
     (if level = level_number LevelDebug then PriDebug
      else if level = level_number LevelInfo then PriInfo
      else if level = level_number LevelWarn then PriWarning
      else if level = level_number LevelError then PriErr
      else PriInfo)"

definition journal_enabled :: "int \<Rightarrow> int \<Rightarrow> bool" where
  "journal_enabled handler_level level \<longleftrightarrow> handler_level \<le> level"

text \<open>\<open>strings.ToUpper\<close>, on ASCII.\<close>

definition ascii_upper :: "char \<Rightarrow> char" where
  "ascii_upper c = (let n = of_char c :: nat in if 97 \<le> n \<and> n \<le> 122 then char_of (n - 32) else c)"

definition to_upper :: "string \<Rightarrow> string" where
  "to_upper s = map ascii_upper s"

text \<open>The fields: two of the handler's own, then every attribute in order, later ones winning.\<close>

definition journal_vars :: "log_record \<Rightarrow> string \<rightharpoonup> string" where
  "journal_vars r =
     foldl (\<lambda>vars (key, val). vars(to_upper key \<mapsto> val))
       [''MESSAGE'' \<mapsto> lr_message r, ''PRIORITY'' \<mapsto> dec_string (priority_number (journal_priority_of (lr_level r)))]
       (lr_attrs r)"

definition journal_handle :: "(string \<Rightarrow> journal_priority \<Rightarrow> (string \<rightharpoonup> string) \<Rightarrow> 'r) \<Rightarrow> log_record \<Rightarrow> 'r" where
  "journal_handle send r = send (lr_message r) (journal_priority_of (lr_level r)) (journal_vars r)"

text \<open>\<open>WithAttrs\<close> and \<open>WithGroup\<close> give the handler itself: what they were given is dropped.\<close>

definition journal_with_attrs :: "int \<Rightarrow> (string \<times> string) list \<Rightarrow> int" where
  "journal_with_attrs handler_level attrs = handler_level"

definition journal_with_group :: "int \<Rightarrow> string \<Rightarrow> int" where
  "journal_with_group handler_level name = handler_level"

text \<open>The handler agrees with the test of the daemon's level, and on the daemon's levels a
  higher one has a smaller number.\<close>

lemma journal_enabled_levels: "journal_enabled (level_number a) (level_number b) \<longleftrightarrow> logged a b"
  by (simp add: journal_enabled_def logged_def less_eq_log_level_def)

lemma journal_priorities_ordered:
  "a \<le> b \<longleftrightarrow> priority_number (journal_priority_of (level_number b)) \<le> priority_number (journal_priority_of (level_number a))"
  for a b :: log_level
  by (cases a; cases b) (simp_all add: less_eq_log_level_def journal_priority_of_def)

text \<open>The value of a field is that of the last attribute whose key has that upper case; an
  attribute \<open>message\<close> or \<open>priority\<close> therefore replaces the record's own.\<close>

lemma journal_fields_exact:
  "journal_vars r field =
     (case List.find (\<lambda>(key, _). to_upper key = field) (rev (lr_attrs r)) of
        Some (_, val) \<Rightarrow> Some val
      | None \<Rightarrow> [''MESSAGE'' \<mapsto> lr_message r,
                 ''PRIORITY'' \<mapsto> dec_string (priority_number (journal_priority_of (lr_level r)))] field)"
proof -
  have "foldl (\<lambda>vars (key, val). vars(to_upper key \<mapsto> val)) m xs field =
      (case List.find (\<lambda>(key, _). to_upper key = field) (rev xs) of Some (_, val) \<Rightarrow> Some val | None \<Rightarrow> m field)" for m xs
    by (induction xs rule: rev_induct) (auto split: option.split)
  then show ?thesis unfolding journal_vars_def .
qed

end
