(* ===== verification/File_Watch.thy ===== *)
theory File_Watch
  imports Pool
begin

text \<open>
  The loop of a watcher, \<open>watchFile\<close> of \<open>internal/dbpool/pool.go\<close>, with \<open>addWatch\<close> and
  \<open>waitForRecreate\<close>. What the \<open>select\<close> statements pick is the input: the loop runs as long as
  its list of wake-ups lasts.
\<close>

section \<open>Watching and waiting\<close>

datatype watch_error = FileNotWatched | DirectoryNotWatched

text \<open>\<open>add\<close> says which names the kernel takes.\<close>

definition addWatch :: "(string \<Rightarrow> bool) \<Rightarrow> string \<Rightarrow> watch_error option" where
  "addWatch add path =
     (if \<not> add path then Some FileNotWatched
      else if \<not> add (path_dir path) then Some DirectoryNotWatched
      else None)"

text \<open>Each 100 ms a \<open>Stat\<close>, until it succeeds, the context is cancelled or 5 s are over: whether
  the file came back, or nothing while it is still awaited.\<close>

datatype tick = WaitCancelled | DeadlineOver | Tick bool

fun waitForRecreate :: "tick list \<Rightarrow> bool option" where
  "waitForRecreate [] = None"
| "waitForRecreate (WaitCancelled # _) = Some False"
| "waitForRecreate (DeadlineOver # _) = Some False"
| "waitForRecreate (Tick there # rest) = (if there then Some True else waitForRecreate rest)"

lemma waitForRecreate_ends:
  "WaitCancelled \<in> set ticks \<or> DeadlineOver \<in> set ticks \<or> Tick True \<in> set ticks \<Longrightarrow> waitForRecreate ticks \<noteq> None"
  by (induction ticks rule: waitForRecreate.induct) auto

lemma waitForRecreate_iff:
  "waitForRecreate ticks = Some True \<longleftrightarrow>
     (\<exists>before rest. ticks = before @ Tick True # rest \<and> set before \<subseteq> {Tick False})"
proof (induction ticks rule: waitForRecreate.induct)
  case (4 there rest)
  show ?case
  proof (cases there)
    case True
    then show ?thesis by (auto intro: exI[of _ "[]"])
  next
    case False
    have "(\<exists>before r. Tick False # rest = before @ Tick True # r \<and> set before \<subseteq> {Tick False})
        \<longleftrightarrow> (\<exists>before r. rest = before @ Tick True # r \<and> set before \<subseteq> {Tick False})" (is "?l \<longleftrightarrow> ?r")
    proof
      assume ?l
      then obtain before r where "Tick False # rest = before @ Tick True # r" "set before \<subseteq> {Tick False}" by blast
      then show ?r by (cases before) auto
    next
      assume ?r
      then obtain before r where "rest = before @ Tick True # r" "set before \<subseteq> {Tick False}" by blast
      then show ?l by (intro exI[of _ "Tick False # before"] exI[of _ r]) auto
    qed
    with False 4 show ?thesis by simp
  qed
qed (auto simp: Cons_eq_append_conv)

section \<open>The loop\<close>

text \<open>A wake-up: the context ended or a channel was closed, an error of the watcher, or a change
  with what happens while it is handled: the ticks of the wait, the answers to watching
  again, and whether the report is taken before the context ends.\<close>

datatype wake = Ended | WatcherError | Changed fs_event "tick list" "string \<Rightarrow> bool" bool

definition gone :: "fs_event \<Rightarrow> bool" where
  "gone evt \<longleftrightarrow> fe_remove evt \<or> fe_rename evt"

text \<open>The reports sent, and whether the watcher ended.\<close>

fun watch_loop :: "string \<Rightarrow> string \<Rightarrow> bool \<Rightarrow> wake list \<Rightarrow> event list \<times> bool" where
  "watch_loop path uuid chan [] = ([], False)"
| "watch_loop path uuid chan (Ended # _) = ([], True)"
| "watch_loop path uuid chan (WatcherError # wakes) = watch_loop path uuid chan wakes"
| "watch_loop path uuid chan (Changed evt ticks add taken # wakes) =
     (if \<not> is_watch_event_for_file evt path then watch_loop path uuid chan wakes
      else (case (if gone evt then waitForRecreate ticks else Some True) of
              None \<Rightarrow> ([], False)
            | Some False \<Rightarrow> ([], True)
            | Some True \<Rightarrow>
                if gone evt \<and> addWatch add path \<noteq> None then ([], True)
                else if \<not> chan then watch_loop path uuid chan wakes
                else if \<not> taken then ([], True)
                else (case watch_loop path uuid chan wakes of
                        (evs, e) \<Rightarrow>
                          (\<lparr>ev_type = EventDatabaseReloaded, ev_uuid = uuid, ev_name = [], ev_path = path\<rparr> # evs, e))))"

definition watchFile :: "bool \<Rightarrow> (string \<Rightarrow> bool) \<Rightarrow> string \<Rightarrow> string \<Rightarrow> bool \<Rightarrow> wake list \<Rightarrow> event list \<times> bool" where
  "watchFile watcher add path uuid chan wakes =
     (if \<not> watcher then ([], True)
      else if addWatch add path \<noteq> None then ([], True)
      else watch_loop path uuid chan wakes)"

text \<open>A change that concerns the file, and whose handling got as far as its end.\<close>

definition concerns :: "string \<Rightarrow> wake \<Rightarrow> bool" where
  "concerns path w \<longleftrightarrow> (case w of Changed evt _ _ _ \<Rightarrow> is_watch_event_for_file evt path | _ \<Rightarrow> False)"

lemma concerns_simps [simp]:
  "concerns path (Changed evt ticks add taken) \<longleftrightarrow> is_watch_event_for_file evt path"
  "\<not> concerns path Ended" "\<not> concerns path WatcherError"
  by (simp_all add: concerns_def)

definition settled_wake :: "wake \<Rightarrow> bool" where
  "settled_wake w \<longleftrightarrow> (case w of Changed evt ticks _ _ \<Rightarrow> gone evt \<longrightarrow> waitForRecreate ticks \<noteq> None | _ \<Rightarrow> True)"

text \<open>The decisions agree with \<open>watch_step\<close>, on which the pool's machine rests.\<close>

lemma watch_loop_step:
  assumes "settled_wake (Changed evt ticks add taken)"
  shows "watch_loop path uuid True (Changed evt ticks add taken # wakes) =
    (case watch_step path (\<lambda>_. waitForRecreate ticks = Some True) (\<lambda>_. addWatch add path = None) evt of
       Ignore \<Rightarrow> watch_loop path uuid True wakes
     | StopWatching \<Rightarrow> ([], True)
     | Report \<Rightarrow>
         if \<not> taken then ([], True)
         else (case watch_loop path uuid True wakes of
                 (evs, e) \<Rightarrow> (\<lparr>ev_type = EventDatabaseReloaded, ev_uuid = uuid, ev_name = [], ev_path = path\<rparr> # evs, e)))"
  using assms
  by (auto simp: watch_step_def settled_wake_def gone_def split: option.split bool.split)

text \<open>A watcher that has not ended reported every change of its file, one report each; and what
  an ended one reported is a part of that.\<close>

lemma watcher_misses_nothing:
  assumes "\<forall>w \<in> set wakes. settled_wake w" and "watch_loop path uuid True wakes = (evs, e)"
  shows "\<exists>n \<le> length (filter (concerns path) wakes).
           evs = replicate n \<lparr>ev_type = EventDatabaseReloaded, ev_uuid = uuid, ev_name = [], ev_path = path\<rparr>
         \<and> (\<not> e \<longrightarrow> n = length (filter (concerns path) wakes))"
  using assms
proof (induction wakes arbitrary: evs e)
  case (Cons w wakes)
  obtain evs0 e0 where rest: "watch_loop path uuid True wakes = (evs0, e0)" by fastforce
  from Cons.IH[OF _ rest] Cons.prems(1) obtain n where n: "n \<le> length (filter (concerns path) wakes)"
    "evs0 = replicate n \<lparr>ev_type = EventDatabaseReloaded, ev_uuid = uuid, ev_name = [], ev_path = path\<rparr>"
    "\<not> e0 \<longrightarrow> n = length (filter (concerns path) wakes)" by auto
  show ?case
  proof (cases w)
    case (Changed evt ticks add taken)
    have "settled_wake (Changed evt ticks add taken)" using Cons.prems(1) Changed by simp
    note step = Cons.prems(2)[unfolded Changed watch_loop_step[OF this] rest prod.case]
    show ?thesis
    proof (cases "watch_step path (\<lambda>_. waitForRecreate ticks = Some True) (\<lambda>_. addWatch add path = None) evt")
      case Ignore
      then have "\<not> is_watch_event_for_file evt path" by (auto simp: watch_step_def split: if_splits)
      then show ?thesis using step Ignore n Changed by auto
    next
      case StopWatching
      then show ?thesis using step by (auto intro: exI[of _ 0])
    next
      case Report
      then have "is_watch_event_for_file evt path" by (auto simp: watch_step_def split: if_splits)
      then show ?thesis using step Report n Changed
        by (cases taken) (auto intro: exI[of _ 0] exI[of _ "Suc n"])
    qed
  qed (use Cons.prems rest n in \<open>auto\<close>)
qed simp

end
