(* ===== verification/Locked_Memory.thy ===== *)
theory Locked_Memory
  imports Security
begin

text \<open>
  Secret buffers in memory: \<open>internal/security/security_fallback.go\<close>, the file of every build
  without \<open>runtime/secret\<close>. \<open>Security\<close> has buffers as values; here they lie at addresses, and
  the kernel locks and unlocks whole pages, which buffers share.
\<close>

section \<open>Memory\<close>

record memory =
  mm_bytes :: "nat \<Rightarrow> byte"
  mm_locked :: "nat \<Rightarrow> bool"

type_synonym buffer = "nat \<times> nat"

definition page_size :: nat where "page_size = 4096"

definition on_pages :: "buffer \<Rightarrow> nat \<Rightarrow> bool" where
  "on_pages b page \<longleftrightarrow> (case b of (a, n) \<Rightarrow> 0 < n \<and> a div page_size \<le> page \<and> page \<le> (a + n - 1) div page_size)"

definition inside :: "buffer \<Rightarrow> nat \<Rightarrow> bool" where
  "inside b x \<longleftrightarrow> (case b of (a, n) \<Rightarrow> a \<le> x \<and> x < a + n)"

definition contents :: "memory \<Rightarrow> buffer \<Rightarrow> bytes" where
  "contents m b = (case b of (a, n) \<Rightarrow> map (mm_bytes m) [a..<a + n])"

definition fill :: "byte \<Rightarrow> buffer \<Rightarrow> memory \<Rightarrow> memory" where
  "fill v b m = m\<lparr>mm_bytes := \<lambda>x. if inside b x then v else mm_bytes m x\<rparr>"

text \<open>\<open>copy\<close> into a buffer.\<close>

definition store :: "buffer \<Rightarrow> bytes \<Rightarrow> memory \<Rightarrow> memory" where
  "store b bs m =
     m\<lparr>mm_bytes := \<lambda>x. if inside (fst b, min (snd b) (length bs)) x then bs ! (x - fst b) else mm_bytes m x\<rparr>"

section \<open>Operations\<close>

text \<open>\<open>ok\<close> is the kernel's answer. Unlocking mapped pages does not fail.\<close>

definition Mem_Do :: "(memory \<Rightarrow> memory) \<Rightarrow> memory \<Rightarrow> memory" where
  "Mem_Do f m = f m"

definition Mem_Mlock :: "bool \<Rightarrow> buffer \<Rightarrow> memory \<Rightarrow> bool \<times> memory" where
  "Mem_Mlock ok b m =
     (if snd b = 0 then (True, m)
      else if ok then (True, m\<lparr>mm_locked := \<lambda>page. on_pages b page \<or> mm_locked m page\<rparr>)
      else (False, m))"

definition Mem_Munlock :: "buffer \<Rightarrow> memory \<Rightarrow> memory" where
  "Mem_Munlock b m =
     (if snd b = 0 then m else m\<lparr>mm_locked := \<lambda>page. mm_locked m page \<and> \<not> on_pages b page\<rparr>)"

text \<open>\<open>a\<close> is where the runtime puts the new buffer.\<close>

definition Mem_Alloc :: "bool \<Rightarrow> nat \<Rightarrow> nat \<Rightarrow> memory \<Rightarrow> buffer option \<times> memory" where
  "Mem_Alloc ok a n m =
     (case Mem_Mlock ok (a, n) (fill 0 (a, n) m) of
        (False, m') \<Rightarrow> (None, m')
      | (True, m') \<Rightarrow> (Some (a, n), m'))"

definition Mem_Wipe :: "buffer \<Rightarrow> memory \<Rightarrow> memory" where
  "Mem_Wipe b m = (if snd b = 0 then m else Mem_Munlock b (fill 0 b m))"

definition MlockAll :: "bool \<Rightarrow> memory \<Rightarrow> bool \<times> memory" where
  "MlockAll ok m = (if ok then (True, m\<lparr>mm_locked := \<lambda>_. True\<rparr>) else (False, m))"

definition MunlockAll :: "memory \<Rightarrow> memory" where
  "MunlockAll m = m\<lparr>mm_locked := \<lambda>_. False\<rparr>"

definition Mem_Memset :: "buffer \<Rightarrow> byte \<Rightarrow> memory \<Rightarrow> memory" where
  "Mem_Memset b v m = fill v b m"

definition Mem_Memclr :: "nat \<Rightarrow> nat \<Rightarrow> memory \<Rightarrow> memory" where
  "Mem_Memclr p n m = fill 0 (p, n) m"

text \<open>A \<open>*SecureString\<close>: nil, or an object whose buffer is nil after \<open>Destroy\<close>. \<open>SecureSlice\<close> is
  the same without the copy.\<close>

type_synonym secure_ref = "buffer option option"

definition Mem_NewSecureString :: "bool \<Rightarrow> nat \<Rightarrow> string \<Rightarrow> memory \<Rightarrow> secure_ref \<times> memory" where
  "Mem_NewSecureString ok a s m =
     (case Mem_Alloc ok a (length s) m of
        (None, m') \<Rightarrow> (None, m')
      | (Some b, m') \<Rightarrow> (Some (Some b), store b (bytes_of s) m'))"

definition Mem_NewSecureSlice :: "bool \<Rightarrow> nat \<Rightarrow> nat \<Rightarrow> memory \<Rightarrow> secure_ref \<times> memory" where
  "Mem_NewSecureSlice ok a n m =
     (case Mem_Alloc ok a n m of
        (None, m') \<Rightarrow> (None, m')
      | (Some b, m') \<Rightarrow> (Some (Some b), m'))"

definition Mem_Bytes :: "secure_ref \<Rightarrow> memory \<Rightarrow> bytes" where
  "Mem_Bytes p m = (case p of Some (Some b) \<Rightarrow> contents m b | _ \<Rightarrow> [])"

definition Mem_Len :: "secure_ref \<Rightarrow> nat" where
  "Mem_Len p = (case p of Some (Some b) \<Rightarrow> snd b | _ \<Rightarrow> 0)"

definition Mem_Data :: "secure_ref \<Rightarrow> buffer option" where
  "Mem_Data p = (case p of Some d \<Rightarrow> d | None \<Rightarrow> None)"

definition Mem_Destroy :: "secure_ref \<Rightarrow> memory \<Rightarrow> secure_ref \<times> memory" where
  "Mem_Destroy p m =
     (case p of
        None \<Rightarrow> (None, m)
      | Some None \<Rightarrow> (Some None, m)
      | Some (Some b) \<Rightarrow> (Some None, Mem_Wipe b m))"

section \<open>The values of \<open>Security\<close>\<close>

lemma contents_fill: "contents (fill v b m) b = replicate (snd b) v"
  by (cases b) (simp add: contents_def fill_def inside_def map_replicate_const[symmetric] map_replicate_trivial list_eq_iff_nth_eq)

lemma contents_locked [simp]:
  "contents (m\<lparr>mm_locked := f\<rparr>) b = contents m b" "contents (Mem_Munlock b' m) b = contents m b"
  by (simp_all add: contents_def Mem_Munlock_def split: prod.split)

lemma contents_store: "length bs = snd b \<Longrightarrow> contents (store b bs m) b = bs"
  by (cases b) (auto simp: contents_def store_def inside_def list_eq_iff_nth_eq)

text \<open>What the pointer stands for.\<close>

definition value_of :: "memory \<Rightarrow> secure_ref \<Rightarrow> secure_string option" where
  "value_of m p = map_option (map_option (contents m)) p"

text \<open>Buffers in memory implement those of \<open>Security\<close>: each operation commutes with reading the
  buffer off the memory.\<close>

lemma memory_refines_values:
  shows "Mem_NewSecureString ok a s m = (p, m') \<Longrightarrow> value_of m' p = NewSecureString (\<lambda>_. ok) s"
    and "Mem_Bytes p m = Secure_Bytes (value_of m p)"
    and "Mem_Len p = Secure_Len (value_of m p)"
    and "Mem_Destroy p m = (p', m') \<Longrightarrow> value_of m' p' = Secure_Destroy (value_of m p)"
    and "contents (Mem_Wipe b m) b = Wipe (contents m b)"
proof -
  show "Mem_NewSecureString ok a s m = (p, m') \<Longrightarrow> value_of m' p = NewSecureString (\<lambda>_. ok) s"
    by (auto simp: Mem_NewSecureString_def Mem_Alloc_def Mem_Mlock_def NewSecureString_def Alloc_def Mlock_def value_of_def
        contents_store copy_bytes_full Let_def split: if_splits)
  have len: "length (contents m b) = snd b" for b by (simp add: contents_def split: prod.split)
  show "Mem_Bytes p m = Secure_Bytes (value_of m p)"
    by (auto simp: Mem_Bytes_def Secure_Bytes_def value_of_def copy_bytes_full split: option.split)
  show "Mem_Len p = Secure_Len (value_of m p)"
    by (auto simp: Mem_Len_def Secure_Len_def value_of_def len split: option.split)
  show "Mem_Destroy p m = (p', m') \<Longrightarrow> value_of m' p' = Secure_Destroy (value_of m p)"
    by (auto simp: Mem_Destroy_def Secure_Destroy_def value_of_def split: option.splits)
  show "contents (Mem_Wipe b m) b = Wipe (contents m b)"
    using len[of b] by (auto simp: Mem_Wipe_def contents_fill Wipe_zero)
qed

section \<open>Wiping one buffer unlocks others\<close>

definition disjoint :: "buffer \<Rightarrow> buffer \<Rightarrow> bool" where
  "disjoint b1 b2 \<longleftrightarrow> fst b1 + snd b1 \<le> fst b2 \<or> fst b2 + snd b2 \<le> fst b1"

lemma disjoint_inside: "disjoint b1 b2 \<Longrightarrow> inside b2 x \<Longrightarrow> \<not> inside b1 x"
  by (auto simp: disjoint_def inside_def split: prod.splits)

lemma contents_cong: "(\<And>x. inside b x \<Longrightarrow> mm_bytes m' x = mm_bytes m x) \<Longrightarrow> contents m' b = contents m b"
  by (auto simp: contents_def inside_def split: prod.split)

lemma contents_fill_other: "disjoint b1 b2 \<Longrightarrow> contents (fill v b1 m) b2 = contents m b2"
  by (rule contents_cong) (auto simp: fill_def dest: disjoint_inside)

lemma contents_store_other: "disjoint b1 b2 \<Longrightarrow> contents (store b1 bs m) b2 = contents m b2"
  by (rule contents_cong) (auto simp: store_def inside_def disjoint_def split: prod.splits)

lemma contents_wipe_other: "disjoint b1 b2 \<Longrightarrow> contents (Mem_Wipe b1 m) b2 = contents m b2"
  by (simp add: Mem_Wipe_def contents_fill_other)

lemma locked_simps [simp]:
  "mm_locked (fill v b m) = mm_locked m" "mm_locked (store b bs m) = mm_locked m"
  "mm_bytes (m\<lparr>mm_locked := f\<rparr>) = mm_bytes m"
  by (simp_all add: fill_def store_def)

lemma new_string:
  "Mem_NewSecureString True a s m = (Some (Some (a, length s)),
     store (a, length s) (bytes_of s) (snd (Mem_Mlock True (a, length s) (fill 0 (a, length s) m))))"
  by (simp add: Mem_NewSecureString_def Mem_Alloc_def Mem_Mlock_def)

lemma mlock_locked: "mm_locked (snd (Mem_Mlock True b m)) page \<longleftrightarrow> on_pages b page \<or> mm_locked m page"
  by (auto simp: Mem_Mlock_def on_pages_def split: prod.splits)

text \<open>C38. Destroying one secret lets another be swapped out: the kernel counts no locks, so
  when two secrets share a page, as small ones do, the \<open>Munlock\<close> that wipes the first unlocks
  the page of the second, which still holds its text. The lock of all pages that the daemon
  takes at its start does not help, for it is undone for that page as well.\<close>

theorem destroy_unlocks_neighbour:
  assumes "s1 \<noteq> []" and "s2 \<noteq> []" and "a1 div page_size = a2 div page_size"
    and "disjoint (a1, length s1) (a2, length s2)"
  shows "case MlockAll True m of (_, m1) \<Rightarrow>
         (case Mem_NewSecureString True a1 s1 m1 of (p1, m2) \<Rightarrow>
         (case Mem_NewSecureString True a2 s2 m2 of (p2, m3) \<Rightarrow>
         (case Mem_Destroy p1 m3 of (_, m4) \<Rightarrow>
            mm_locked m3 (a2 div page_size) \<and> Mem_Bytes p1 m3 = bytes_of s1
            \<and> Mem_Bytes p2 m4 = bytes_of s2 \<and> \<not> mm_locked m4 (a2 div page_size))))"
proof -
  let ?b1 = "(a1, length s1)" and ?b2 = "(a2, length s2)"
  define m1 where "m1 = m\<lparr>mm_locked := \<lambda>_. True\<rparr>"
  define m2 where "m2 = store ?b1 (bytes_of s1) (snd (Mem_Mlock True ?b1 (fill 0 ?b1 m1)))"
  define m3 where "m3 = store ?b2 (bytes_of s2) (snd (Mem_Mlock True ?b2 (fill 0 ?b2 m2)))"
  have sym: "disjoint ?b2 ?b1" using assms(4) by (auto simp: disjoint_def)
  have lock_bytes: "contents (snd (Mem_Mlock True b m')) b' = contents m' b'" for b b' m'
    by (simp add: Mem_Mlock_def)
  have two: "contents m2 ?b1 = bytes_of s1" by (simp add: m2_def contents_store)
  have three: "contents m3 ?b1 = bytes_of s1" "contents m3 ?b2 = bytes_of s2"
    using two by (simp_all add: m3_def contents_store contents_store_other[OF sym] lock_bytes contents_fill_other[OF sym])
  have page: "on_pages ?b1 (a2 div page_size)"
    using assms(1,3) div_le_mono[of a1 "a1 + length s1 - 1" page_size] by (cases s1) (simp_all add: on_pages_def)
  have "mm_locked m3 (a2 div page_size)" by (simp add: m3_def m2_def m1_def mlock_locked)
  moreover have "\<not> mm_locked (Mem_Wipe ?b1 m3) (a2 div page_size)"
    using page assms(1) by (simp add: Mem_Wipe_def Mem_Munlock_def)
  moreover have "contents (Mem_Wipe ?b1 m3) ?b2 = bytes_of s2" using contents_wipe_other[OF assms(4)] three(2) by simp
  moreover have "Mem_NewSecureString True a1 s1 m1 = (Some (Some ?b1), m2)" by (simp only: new_string m2_def)
  moreover have "Mem_NewSecureString True a2 s2 m2 = (Some (Some ?b2), m3)" by (simp only: new_string m3_def)
  ultimately show ?thesis
    using three(1) by (simp add: MlockAll_def m1_def[symmetric] Mem_Destroy_def Mem_Bytes_def)
qed

theorem destroy_unlocks_neighbour_witness:
  "case MlockAll True \<lparr>mm_bytes = \<lambda>_. 0, mm_locked = \<lambda>_. False\<rparr> of (_, m1) \<Rightarrow>
         (case Mem_NewSecureString True 8192 ''old'' m1 of (p1, m2) \<Rightarrow>
         (case Mem_NewSecureString True 8208 ''key'' m2 of (p2, m3) \<Rightarrow>
         (case Mem_Destroy p1 m3 of (_, m4) \<Rightarrow> Mem_Bytes p2 m4 = bytes_of ''key'' \<and> \<not> mm_locked m4 2)))"
  using destroy_unlocks_neighbour[of "''old''" "''key''" 8192 8208 "\<lparr>mm_bytes = \<lambda>_. 0, mm_locked = \<lambda>_. False\<rparr>"]
  by (simp add: page_size_def disjoint_def split: prod.splits)

text \<open>What wiping promises of others: their bytes, and the locks of the pages it does not touch.\<close>

lemma wipe_frame:
  "disjoint b1 b2 \<Longrightarrow> contents (Mem_Wipe b1 m) b2 = contents m b2"
  "\<not> on_pages b1 page \<Longrightarrow> mm_locked (Mem_Wipe b1 m) page = mm_locked m page"
  by (rule contents_wipe_other, assumption) (simp add: Mem_Wipe_def Mem_Munlock_def)

end
