(* ===== verification/Spec2Isabelle.thy ===== *)
theory Spec2Isabelle
  imports Daemon_Contract Fido2 Adopt_Login Pam_Machine Bus_Export Journal File_Watch Locked_Memory
begin

text \<open>
  A verification library for kpxcd, a daemon that keeps KeePass databases open and serves
  their contents to the desktop: passwords through the Secret Service, SSH keys through an
  agent, and entries through a D-Bus interface of its own.

  The program. A pool (\<open>internal/dbpool\<close>) opens, saves, locks and watches databases and
  reports what happened on an event channel. The daemon (\<open>internal/daemon\<close>) loads the
  configuration (\<open>internal/config\<close>, \<open>internal/xdg\<close>), starts the services, unlocks what the
  configuration names, and passes the events of the pool to the Secret Service
  (\<open>internal/secretservice\<close>) and to the SSH agent (\<open>internal/sshagent\<close>), which serves its own
  socket or pushes keys to another agent. Clients call \<open>org.keepassxc.Daemon\<close>
  (\<open>internal/dbusapi\<close>), above all the command-line client (\<open>cmd/kpxcctl\<close>); the login password
  unlocks the default database through a sealed credential (\<open>internal/pamcred\<close>,
  \<open>internal/daemon/pam.go\<close>), for which the client can adopt an existing database. A passkey
  service (\<open>internal/fido2\<close>) is written and not started.

  Foundations. \<open>Prelude\<close> has Go's bytes, strings, panicking calls and map iteration (a map is
  a partial function, a \<open>range\<close> loop takes the order it visits as an argument, and theorems
  hold for every order). \<open>Go_Encoding\<close> has hexadecimal and base64. \<open>Keepass\<close> has the entries,
  groups and databases of the vendored gokeepasslib. \<open>Machine\<close> has reachability and the
  locale of an inductive invariant. \<open>Filesystem\<close> has files, directories and system calls: a
  program is a function on a system that counts its calls; a parameter says which call fails
  and what other processes do to the disk between two calls, and the system remembers every
  state the disk went through, so that a property of every moment is a property of that
  history. Triples over such programs carry the proofs about them; \<open>File_Frames\<close> has their
  frame rules, for what programs leave alone and for files that replace others as a whole.
  \<open>Go_Json\<close> has the JSON writer of the library and a reader for its objects.

  Components, with the source they model:
  \<^item> \<open>Xdg\<close>, \<open>Filesystem\<close>: \<open>xdg.go\<close>, paths and private files. \<open>Config\<close>: \<open>config.go\<close>,
    defaults, loading and validation.
  \<^item> \<open>Security\<close>: \<open>security.go\<close>, secret buffers as values; \<open>Locked_Memory\<close>:
    \<open>security_fallback.go\<close>, the same buffers at addresses with page locks. \<open>Database_File\<close>:
    \<open>save.go\<close>, \<open>create.go\<close>. \<open>Pool\<close>: \<open>pool.go\<close>, \<open>wipe.go\<close>; \<open>Pool_Update\<close>: what a save does to
    the pool; \<open>File_Watch\<close>: the loop of the watcher in \<open>pool.go\<close>.
  \<^item> \<open>Wire\<close>: \<open>protocol.go\<close>; \<open>Agent_Keys\<close>: \<open>key.go\<close>, \<open>manager.go\<close>; \<open>Agent_Extract\<close>:
    \<open>keeagent.go\<close>; \<open>Agent_Server\<close>: \<open>server.go\<close>; \<open>Agent_Client\<close>: \<open>client.go\<close>.
  \<^item> \<open>Secret_Attributes\<close>: \<open>attributes.go\<close>; \<open>Secret_Session\<close>: \<open>session.go\<close>, \<open>prompt.go\<close> and the
    key exchange; \<open>Secret_Access\<close>: \<open>access.go\<close>, \<open>notifycache.go\<close>; \<open>Secret_Write\<close>: the editing
    half of \<open>write.go\<close>; \<open>Secret_Service\<close>: \<open>service.go\<close>, \<open>collection.go\<close>; \<open>Secret_Items\<close>:
    \<open>item.go\<close>, \<open>GetSecrets\<close>, \<open>CreateItem\<close> and the property handlers.
  \<^item> \<open>Daemon_API\<close>: \<open>dbusapi.go\<close>; \<open>Daemon\<close>: \<open>daemon.go\<close> and the flags of \<open>cmd/kpxcd\<close>;
    \<open>Bus_Export\<close>: the connection to the bus that both D-Bus services share, from \<open>startDBus\<close>
    to \<open>shutdown\<close>; \<open>Journal\<close>: \<open>journald.go\<close>.
  \<^item> \<open>Pam\<close>: \<open>pamcred.go\<close>, \<open>pam.go\<close> and the handler of \<open>pamsocket.go\<close>; \<open>Sockets\<close>: \<open>Listen\<close>, \<open>Serve\<close>
    and \<open>Close\<close> of \<open>pamsocket.go\<close> and \<open>server.go\<close> as programs on the file system;
    \<open>Pam_Machine\<close>: connections to the PAM socket whose steps interleave.
  \<^item> \<open>Ctl_Args\<close>, \<open>Ctl\<close>, \<open>Ctl_Files\<close>: \<open>cmd/kpxcctl/main.go\<close>, its options, its commands on the
    interface of the daemon, and those on files; a command works on a desk, the daemon the bus
    knows together with the disk. \<open>Fido2\<close>: \<open>fido2/service.go\<close>.

  Each definition carries the name of the function it translates, prefixed where two Go
  types share a method name. Errors are sums, panics the constructor \<open>Panicked\<close>, pointers
  into an entry tree are index paths, the pool's shared objects live on a heap.

  What is shown.
  \<^item> Files. During a save the file is at every moment the complete old or new one; a change
    by another process is never overwritten; a failed save restores memory up to identifiers;
    an undisturbed save succeeds. A fingerprint is taken in one step.
  \<^item> Pool. Its invariant over all its steps; locking clears memory and wiping empties every
    text; an object is leaked when a UUID is opened twice.
  \<^item> Agent. Signatures come only from loaded keys and over the requested data; connections
    are served like a sequence of single requests and add no key; with removal on lock
    configured, locking takes back what unlocking gave, in server and in client mode, and
    without it the keys stay.
  \<^item> Secret Service. Access fails closed; visibility and search are exact; writing and
    deleting refine an abstract store indexed by UUID; what was set is what is read; bulk reads
    are sound; a created item is in the database and, unless its default group is recycled,
    shown; sessions, key exchange, prompts and the notification cache meet their contracts;
    an invariant over every method and event.
  \<^item> Daemon. Every method of the interface but \<open>Ping\<close> and \<open>Introspect\<close> fails closed; no reply
    carries a password; a locked database no longer answers, though keys the agent holds are
    listed; the invariant is kept; and keys stored under the conditions of the theorem are
    found by the agent. Once the events of the locks are delivered, and none was lost, the
    agents have no key of a locked database if keys are removed on lock, and the Secret Service
    has no collection of it; its items stay on the bus and refuse their secret. The loop stops
    and shutdown locks everything. Two defects are proved:
    the idle lock loses events beyond the channel's room, and the methods on the agent never
    work, for the interface is made before the agent.
  \<^item> Login. An existing database file is never changed, a database without its secrets is
    refused, and what the first login makes every later one opens. Under any interleaving of
    connections wrong tokens change nothing and the right one opens the database; that two
    right ones can leak a decrypted object is proved as well.
  \<^item> Sockets, bus and memory. The agent's socket is never granted a permission that the umask
    withholds, and has mode 0600 in the end, and \<open>Close\<close> removes whatever stands at its path; the start on the bus implements the one of \<open>Daemon\<close> and owns
    exactly the names it should; a watcher misses no change; buffers in memory implement the
    values of \<open>Security\<close>, but wiping one unlocks the page of its neighbour.
  \<^item> Client. The client of another user changes nothing; setting up the agent agrees with the
    daemon; adopting a database replaces the default one only as a whole, and the login and
    the client's own unlock open the result (\<open>Ctl_Contract\<close>, \<open>Adopt_Contract\<close>,
    \<open>Adopt_Login\<close>). Two defects are proved: a failure to seal loses the adopted database, and
    an entry can be read over the bus only if its UUID happens to be text.
  \<^item> Passkeys. An assertion signs data from which the request is read back exactly; created
    passkeys are found by nobody.

  Interfaces are locales interpreted on the model: \<open>machine\<close> (pool, prompts, Secret Service,
  interface, daemon), the event consumers of \<open>Daemon_Machine\<close> (agent, client, Secret
  Service), \<open>conn_contract\<close> of \<open>Pam_Machine\<close> (wrong tokens, the right token), and the
  client-side contracts in the component theories.

  Bounds. No definition uses fuel: loops are structural over lists or the requests of a
  connection, and \<open>handle_conn\<close> consumes its input. The event channel holds 16 events as in
  \<open>daemon.go\<close>; theorems about it take any capacity where they can.

  Parameters. Cryptography, the KeePass codec, XML, JSON, TOML and the age library are
  records of functions; a theorem that needs a law of them states it as a named hypothesis
  (\<open>decoder_ok\<close>, \<open>age_ok\<close> and so on) with a witness that satisfies it. The bus, /proc, polkit and
  the upstream agent answer through parameters too.

  Not modelled. The rendering of introspection data, the text the client prints, systemd notification and the
  transport of the journal are input and output without logic of their own; what the kernel
  and the bus report (inotify events, accepted connections, replies to name requests) is
  input of the model. Case folding is that of ASCII. Go's memory model is left out:
  operations that hold a mutex are single steps, \<open>Pam_Machine\<close> interleaves the handler that
  holds none, and the findings name the other places where the code does not.
\<close>

end
